(* ===== verification/Prelude.thy ===== *)
theory Prelude
  imports
    Main
    "HOL-Library.AList"
    "HOL-Library.Char_ord"
    "HOL-Library.List_Lexorder"
    "HOL-Library.Word"
    "HOL-Library.Multiset"
begin

text \<open>
  Shared vocabulary of the development: Python's exceptions as values, the result type
  that carries them, Python's insertion-ordered dictionaries as association lists, and the
  string operations the sources use (\<open>startswith\<close>, \<open>endswith\<close>, \<open>split\<close>, \<open>join\<close>,
  \<open>str\<close> of an integer), with the generic lemmas the component theories share.
  Nothing here models a file of the repository; the language and its standard library do.
\<close>

named_theorems pysimps \<open>evaluation rules for the result type and for dictionaries\<close>

section \<open>Exceptions as values\<close>

datatype pyerr =
    KeyError | TypeError | ValueError | IndexError | AssertionError | RuntimeError
  | RecursionError | ConnectionError | UnicodeError | StructError | JSONDecodeError
  | OverflowError | AttributeError | OSError | DatabaseError | NameError

type_synonym 'a res = "pyerr + 'a"

definition rbind :: "'a res \<Rightarrow> ('a \<Rightarrow> 'b res) \<Rightarrow> 'b res" where
  "rbind m f = (case m of Inl e \<Rightarrow> Inl e | Inr x \<Rightarrow> f x)"

definition rmap :: "('a \<Rightarrow> 'b) \<Rightarrow> 'a res \<Rightarrow> 'b res" where
  "rmap f m = (case m of Inl e \<Rightarrow> Inl e | Inr x \<Rightarrow> Inr (f x))"

definition of_option :: "pyerr \<Rightarrow> 'a option \<Rightarrow> 'a res" where
  "of_option e x = (case x of None \<Rightarrow> Inl e | Some y \<Rightarrow> Inr y)"

definition is_ok :: "'a res \<Rightarrow> bool" where
  "is_ok m = (case m of Inl _ \<Rightarrow> False | Inr _ \<Rightarrow> True)"

text \<open>A list comprehension whose element expression may raise.\<close>

fun rtraverse :: "('a \<Rightarrow> 'b res) \<Rightarrow> 'a list \<Rightarrow> 'b list res" where
  "rtraverse f [] = Inr []"
| "rtraverse f (x # xs) = rbind (f x) (\<lambda>y. rmap ((#) y) (rtraverse f xs))"

lemma rbind_simps [simp, pysimps]:
  "rbind (Inl e) f = Inl e" "rbind (Inr x) f = f x"
  by (simp_all add: rbind_def)

lemma rmap_simps [simp, pysimps]:
  "rmap f (Inl e) = Inl e" "rmap f (Inr x) = Inr (f x)"
  by (simp_all add: rmap_def)

lemma of_option_simps [simp, pysimps]:
  "of_option e None = Inl e" "of_option e (Some x) = Inr x"
  by (simp_all add: of_option_def)

lemma is_ok_simps [simp, pysimps]: "is_ok (Inl e) = False" "is_ok (Inr x) = True"
  by (simp_all add: is_ok_def)

lemma is_ok_projr: "is_ok m \<Longrightarrow> m = Inr (projr m)"
  by (cases m) auto

lemma is_ok_iff: "is_ok m \<longleftrightarrow> (\<exists>x. m = Inr x)"
  by (cases m) auto

lemma rbind_Inr_iff: "rbind m f = Inr y \<longleftrightarrow> (\<exists>x. m = Inr x \<and> f x = Inr y)"
  by (cases m) auto

lemma rmap_Inr_iff: "rmap f m = Inr y \<longleftrightarrow> (\<exists>x. m = Inr x \<and> y = f x)"
  by (cases m) auto

lemma of_option_Inr_iff: "of_option e x = Inr y \<longleftrightarrow> x = Some y"
  by (cases x) auto

lemmas res_iffs = rbind_Inr_iff rmap_Inr_iff of_option_Inr_iff

lemma rtraverse_Inr_iff:
  "rtraverse f xs = Inr ys \<longleftrightarrow> list_all2 (\<lambda>x y. f x = Inr y) xs ys"
proof (induction xs arbitrary: ys)
  case Nil
  then show ?case by auto
next
  case (Cons x xs)
  then show ?case by (auto simp: res_iffs list_all2_Cons1)
qed

lemma rtraverse_map_Inr: "(\<And>x. x \<in> set xs \<Longrightarrow> f x = Inr (g x)) \<Longrightarrow> rtraverse f xs = Inr (map g xs)"
  by (induction xs) auto

section \<open>Dictionaries\<close>

text \<open>
  A Python dictionary keeps insertion order, and an assignment to an existing key keeps
  the key's place: \<open>AList.update\<close> does exactly that. \<open>map_of\<close> looks a key up.
\<close>

type_synonym ('k, 'v) dict = "('k \<times> 'v) list"

abbreviation dget :: "('k, 'v) dict \<Rightarrow> 'k \<Rightarrow> 'v option" where
  "dget d k \<equiv> map_of d k"

abbreviation dset :: "('k, 'v) dict \<Rightarrow> 'k \<Rightarrow> 'v \<Rightarrow> ('k, 'v) dict" where
  "dset d k v \<equiv> AList.update k v d"

abbreviation ddel :: "('k, 'v) dict \<Rightarrow> 'k \<Rightarrow> ('k, 'v) dict" where
  "ddel d k \<equiv> AList.delete k d"

definition dhas :: "('k, 'v) dict \<Rightarrow> 'k \<Rightarrow> bool" where
  "dhas d k = (dget d k \<noteq> None)"

definition dkeys :: "('k, 'v) dict \<Rightarrow> 'k list" where
  "dkeys d = map fst d"

text \<open>A dictionary comprehension or \<open>dict(pairs)\<close>: later pairs overwrite earlier ones.\<close>

definition dict_of :: "('k \<times> 'v) list \<Rightarrow> ('k, 'v) dict" where
  "dict_of kvs = fold (\<lambda>(k, v) d. dset d k v) kvs []"

lemma dhas_iff: "dhas d k \<longleftrightarrow> k \<in> set (dkeys d)"
  by (simp add: dhas_def dkeys_def map_of_eq_None_iff)

lemma dget_dset [simp, pysimps]: "dget (dset d k v) k' = (if k = k' then Some v else dget d k')"
  by (simp add: update_conv')

lemma dget_ddel [simp, pysimps]: "dget (ddel d k) k' = (if k = k' then None else dget d k')"
  by (simp add: delete_conv')

lemma dhas_dset [simp]: "dhas (dset d k v) k' \<longleftrightarrow> k = k' \<or> dhas d k'"
  by (simp add: dhas_def)

lemma distinct_dset [simp]: "distinct (map fst d) \<Longrightarrow> distinct (map fst (dset d k v))"
  by (rule distinct_update)

lemma dset_fresh: "\<not> dhas d k \<Longrightarrow> dset d k v = d @ [(k, v)]"
  by (induction d) (auto simp: dhas_def split: if_splits)

lemma dkeys_dset: "dkeys (dset d k v) = (if dhas d k then dkeys d else dkeys d @ [k])"
  by (induction d) (auto simp: dkeys_def dhas_def)

lemma dict_of_aux:
  "dget (fold (\<lambda>(k, v) d. dset d k v) kvs d) k
     = (case dget (rev kvs) k of None \<Rightarrow> dget d k | Some v \<Rightarrow> Some v)"
  by (induction kvs arbitrary: d)
    (auto simp: map_add_def split: option.splits)

lemma dget_dict_of: "dget (dict_of kvs) k = dget (rev kvs) k"
  by (simp add: dict_of_def dict_of_aux split: option.splits)

lemma dict_of_distinct_aux:
  "distinct (map fst (d @ kvs)) \<Longrightarrow> fold (\<lambda>(k, v) d. dset d k v) kvs d = d @ kvs"
proof (induction kvs arbitrary: d)
  case Nil
  then show ?case by simp
next
  case (Cons p kvs)
  obtain k v where p: "p = (k, v)" by (cases p)
  from Cons.prems p have "\<not> dhas d k"
    by (auto simp: dhas_iff dkeys_def)
  with Cons p show ?case by (simp add: dset_fresh)
qed

lemma dict_of_distinct: "distinct (map fst kvs) \<Longrightarrow> dict_of kvs = kvs"
  using dict_of_distinct_aux [of "[]" kvs] by (simp add: dict_of_def)

lemma dget_dict_of_distinct:
  "distinct (map fst kvs) \<Longrightarrow> dget (dict_of kvs) k = dget kvs k"
  by (simp add: dict_of_distinct)

section \<open>Lists\<close>

text \<open>\<open>xs.index(x)\<close>: the first position, or ValueError.\<close>

fun find_index :: "'a \<Rightarrow> 'a list \<Rightarrow> nat option" where
  "find_index x [] = None"
| "find_index x (y # ys) = (if x = y then Some 0 else map_option Suc (find_index x ys))"

definition py_index :: "'a list \<Rightarrow> 'a \<Rightarrow> nat res" where
  "py_index xs x = of_option ValueError (find_index x xs)"

text \<open>\<open>xs[i]\<close>, where a negative index counts from the end.\<close>

definition py_nth :: "'a list \<Rightarrow> int \<Rightarrow> 'a res" where
  "py_nth xs i =
     (if 0 \<le> i \<and> nat i < length xs then Inr (xs ! nat i)
      else if i < 0 \<and> nat (- i) \<le> length xs then Inr (rev xs ! (nat (- i) - 1))
      else Inl IndexError)"

lemma find_index_SomeD: "find_index x xs = Some i \<Longrightarrow> i < length xs \<and> xs ! i = x"
  by (induction xs arbitrary: i) (auto split: if_splits)

lemma find_index_None_iff: "find_index x xs = None \<longleftrightarrow> x \<notin> set xs"
  by (induction xs) auto

lemma py_index_member:
  "py_index xs x = (if x \<in> set xs then Inr (the (find_index x xs)) else Inl ValueError)"
proof (cases "find_index x xs")
  case None
  then show ?thesis using find_index_None_iff [of x xs] by (simp add: py_index_def)
next
  case (Some i)
  then have "x \<in> set xs" using find_index_None_iff [of x xs] by auto
  with Some show ?thesis by (simp add: py_index_def)
qed

lemma find_index_nth:
  "distinct xs \<Longrightarrow> i < length xs \<Longrightarrow> find_index (xs ! i) xs = Some i"
proof (induction xs arbitrary: i)
  case Nil
  then show ?case by simp
next
  case (Cons x xs)
  then show ?case by (cases i) (auto simp: nth_mem)
qed

lemma find_index_inj:
  "find_index x xs = Some i \<Longrightarrow> find_index y xs = Some i \<Longrightarrow> x = y"
  by (auto dest!: find_index_SomeD)

lemma py_nth_nat: "i < length xs \<Longrightarrow> py_nth xs (int i) = Inr (xs ! i)"
  by (simp add: py_nth_def)

text \<open>\<open>list.remove(x)\<close>: the first element equal to \<open>x\<close> goes, ValueError if there is none.\<close>

fun py_remove :: "('a \<Rightarrow> bool) \<Rightarrow> 'a list \<Rightarrow> 'a list option" where
  "py_remove p [] = None"
| "py_remove p (y # ys) = (if p y then Some ys else map_option ((#) y) (py_remove p ys))"

lemma length_py_remove: "py_remove p xs = Some ys \<Longrightarrow> length xs = Suc (length ys)"
  by (induction xs arbitrary: ys) (auto split: if_splits)

lemma py_remove_None_iff: "py_remove p xs = None \<longleftrightarrow> (\<forall>x\<in>set xs. \<not> p x)"
  by (induction xs) auto

lemma set_py_remove: "py_remove p xs = Some ys \<Longrightarrow> set ys \<subseteq> set xs"
  by (induction xs arbitrary: ys) (auto split: if_splits)

lemma filter_key_empty [simp]: "a \<notin> f ` set xs \<Longrightarrow> filter (\<lambda>x. f x = a) xs = []"
  by (induction xs) auto

section \<open>Strings\<close>

fun startswith :: "string \<Rightarrow> string \<Rightarrow> bool" where
  "startswith s [] = True"
| "startswith [] (p # ps) = False"
| "startswith (c # cs) (p # ps) = (c = p \<and> startswith cs ps)"

definition endswith :: "string \<Rightarrow> string \<Rightarrow> bool" where
  "endswith s p = startswith (rev s) (rev p)"

fun join :: "string \<Rightarrow> string list \<Rightarrow> string" where
  "join sep [] = []"
| "join sep [s] = s"
| "join sep (s # t # ss) = s @ sep @ join sep (t # ss)"

lemma startswith_iff: "startswith s p \<longleftrightarrow> (\<exists>t. s = p @ t)"
  by (induction s p rule: startswith.induct) auto

lemma startswith_append [simp]: "startswith (p @ s) p"
  by (auto simp: startswith_iff)

lemma endswith_iff: "endswith s p \<longleftrightarrow> (\<exists>t. s = t @ p)"
proof -
  have "(\<exists>t. rev s = rev p @ t) \<longleftrightarrow> (\<exists>t. s = t @ p)"
    by (metis rev_append rev_rev_ident)
  then show ?thesis by (simp add: endswith_def startswith_iff)
qed

text \<open>\<open>s.split(sep, ...)[0]\<close>: everything before the first occurrence of \<open>sep\<close>.\<close>

fun before_first :: "string \<Rightarrow> string \<Rightarrow> string" where
  "before_first sep [] = []"
| "before_first sep (c # cs) =
     (if startswith (c # cs) sep then [] else c # before_first sep cs)"

text \<open>\<open>s.replace(old, new)\<close>, for a nonempty \<open>old\<close>: left to right, without overlaps.\<close>

fun py_replace_skip :: "nat \<Rightarrow> string \<Rightarrow> string \<Rightarrow> string \<Rightarrow> string" where
  "py_replace_skip k old new [] = []"
| "py_replace_skip (Suc k) old new (c # cs) = py_replace_skip k old new cs"
| "py_replace_skip 0 old new (c # cs) =
     (if startswith (c # cs) old then new @ py_replace_skip (length old - 1) old new cs
      else c # py_replace_skip 0 old new cs)"

definition py_replace :: "string \<Rightarrow> string \<Rightarrow> string \<Rightarrow> string" where
  "py_replace old new s = py_replace_skip 0 old new s"

text \<open>Decimal representation of an integer, as \<open>str\<close> gives it.\<close>

definition digit_char :: "nat \<Rightarrow> char" where
  "digit_char d = char_of (48 + d)"

definition is_digit :: "char \<Rightarrow> bool" where
  "is_digit c \<longleftrightarrow> 48 \<le> (of_char c :: nat) \<and> (of_char c :: nat) \<le> 57"

definition digit_val :: "char \<Rightarrow> nat" where
  "digit_val c = of_char c - 48"

fun show_nat :: "nat \<Rightarrow> string" where
  "show_nat n = (if n < 10 then [digit_char n] else show_nat (n div 10) @ [digit_char (n mod 10)])"

declare show_nat.simps [simp del]

definition show_int :: "int \<Rightarrow> string" where
  "show_int i = (if i < 0 then CHR ''-'' # show_nat (nat (- i)) else show_nat (nat i))"

fun digits_val :: "nat \<Rightarrow> string \<Rightarrow> nat" where
  "digits_val acc [] = acc"
| "digits_val acc (c # cs) = digits_val (10 * acc + digit_val c) cs"

lemma of_char_digit_char: "d < 10 \<Longrightarrow> (of_char (digit_char d) :: nat) = 48 + d"
  by (simp add: digit_char_def)

lemma digit_val_char [simp]: "d < 10 \<Longrightarrow> digit_val (digit_char d) = d"
  by (simp add: digit_val_def of_char_digit_char)

lemma is_digit_digit_char [simp]: "d < 10 \<Longrightarrow> is_digit (digit_char d)"
  by (simp add: is_digit_def of_char_digit_char)

lemma digits_val_append: "digits_val acc (s @ t) = digits_val (digits_val acc s) t"
  by (induction s arbitrary: acc) auto

lemma show_nat_nonempty [simp]: "show_nat n \<noteq> []"
  by (subst show_nat.simps) simp

lemma show_nat_digits: "\<forall>c\<in>set (show_nat n). is_digit c"
proof (induction n rule: show_nat.induct)
  case (1 n)
  then show ?case by (subst show_nat.simps) auto
qed

lemma digits_val_show_nat: "digits_val 0 (show_nat n) = n"
proof (induction n rule: show_nat.induct)
  case (1 n)
  then show ?case
    by (cases "n < 10") (simp_all add: show_nat.simps [of n] digits_val_append)
qed

lemma show_nat_inj: "show_nat m = show_nat n \<Longrightarrow> m = n"
  by (metis digits_val_show_nat)

lemma show_nat_leading:
  "0 < n \<Longrightarrow> hd (show_nat n) \<noteq> CHR ''0''"
proof (induction n rule: show_nat.induct)
  case (1 n)
  show ?case
  proof (cases "n < 10")
    case True
    have "(of_char (digit_char n) :: nat) = 48 + n" using True by (rule of_char_digit_char)
    then have "digit_char n \<noteq> CHR ''0''" using 1(2) by auto
    with True show ?thesis by (simp add: show_nat.simps [of n])
  next
    case False
    with 1 have "hd (show_nat (n div 10)) \<noteq> CHR ''0''" by simp
    with False show ?thesis by (simp add: show_nat.simps [of n])
  qed
qed

lemma startswith_self [simp]: "startswith s s"
  by (metis append_Nil2 startswith_append)

section \<open>State and exceptions\<close>

text \<open>
  A method that changes its object and may raise: the changes made before the exception stay.
\<close>

type_synonym ('s, 'a) act = "'s \<Rightarrow> 's \<times> 'a res"

definition sret :: "'a \<Rightarrow> ('s, 'a) act" where
  "sret x s = (s, Inr x)"

definition slift :: "'a res \<Rightarrow> ('s, 'a) act" where
  "slift r s = (s, r)"

definition sbind :: "('s, 'a) act \<Rightarrow> ('a \<Rightarrow> ('s, 'b) act) \<Rightarrow> ('s, 'b) act" where
  "sbind m f s = (case m s of (s', Inl e) \<Rightarrow> (s', Inl e) | (s', Inr x) \<Rightarrow> f x s')"

definition sget :: "('s \<Rightarrow> 'a) \<Rightarrow> ('s, 'a) act" where
  "sget f s = (s, Inr (f s))"

definition supd :: "('s \<Rightarrow> 's) \<Rightarrow> ('s, unit) act" where
  "supd f s = (f s, Inr ())"

text \<open>A for loop over a list whose body is a statement.\<close>

fun sfor :: "'x list \<Rightarrow> ('x \<Rightarrow> ('s, unit) act) \<Rightarrow> ('s, unit) act" where
  "sfor [] body = sret ()"
| "sfor (x # xs) body = sbind (body x) (\<lambda>_. sfor xs body)"

lemma act_simps [simp]:
  "sret x s = (s, Inr x)" "slift r s = (s, r)" "sget f s = (s, Inr (f s))" "supd g s = (g s, Inr ())"
  by (simp_all add: sret_def slift_def sget_def supd_def)

lemma sbind_Inr: "m s = (s', Inr x) \<Longrightarrow> sbind m f s = f x s'"
  by (simp add: sbind_def)

lemma sbind_Inl: "m s = (s', Inl e) \<Longrightarrow> sbind m f s = (s', Inl e)"
  by (simp add: sbind_def)

lemma sbind_simps [simp]:
  "sbind (sret x) f s = f x s" "sbind (slift (Inr x)) f s = f x s" "sbind (slift (Inl e)) f s = (s, Inl e)"
  "sbind (sget g) f s = f (g s) s" "sbind (supd h) f' s = f' () (h s)"
  by (simp_all add: sbind_def)

text \<open>
  An action keeps an invariant of the state in every outcome, and what it returns satisfies a
  predicate. The rules compose such facts along the code.
\<close>

definition yields :: "('s \<Rightarrow> bool) \<Rightarrow> ('s, 'a) act \<Rightarrow> ('a \<Rightarrow> bool) \<Rightarrow> bool" where
  "yields I m Q \<longleftrightarrow> (\<forall>s. I s \<longrightarrow> I (fst (m s)) \<and> (\<forall>x. snd (m s) = Inr x \<longrightarrow> Q x))"

abbreviation preserves :: "('s \<Rightarrow> bool) \<Rightarrow> ('s, 'a) act \<Rightarrow> bool" where
  "preserves I m \<equiv> yields I m (\<lambda>_. True)"

lemma yieldsI: "(\<And>s. I s \<Longrightarrow> I (fst (m s))) \<Longrightarrow> preserves I m"
  by (simp add: yields_def)

lemma yieldsD: "yields I m Q \<Longrightarrow> I s \<Longrightarrow> m s = (s', r) \<Longrightarrow> I s' \<and> (\<forall>x. r = Inr x \<longrightarrow> Q x)"
  by (auto simp: yields_def)

lemma yields_sbind:
  "yields I m Q \<Longrightarrow> (\<And>x. Q x \<Longrightarrow> yields I (f x) R) \<Longrightarrow> yields I (sbind m f) R"
  unfolding yields_def sbind_def by (auto split: prod.splits sum.splits)

lemma yields_sret: "Q x \<Longrightarrow> yields I (sret x) Q"
  by (simp add: yields_def)

lemma yields_slift: "yields I (slift r) (\<lambda>x. r = Inr x)"
  by (simp add: yields_def)

lemma yields_sget: "yields I (sget g) (\<lambda>x. \<exists>s. I s \<and> x = g s)"
  by (auto simp: yields_def)

lemma yields_weaken: "yields I m Q \<Longrightarrow> (\<And>x. Q x \<Longrightarrow> R x) \<Longrightarrow> yields I m R"
  by (auto simp: yields_def)

lemma preserves_of_yields: "yields I m Q \<Longrightarrow> preserves I m"
  by (auto simp: yields_def)

lemma preserves_supd: "(\<And>s. I s \<Longrightarrow> I (g s)) \<Longrightarrow> preserves I (supd g)"
  by (simp add: yields_def)

lemma preserves_sfor: "(\<And>x. x \<in> set xs \<Longrightarrow> preserves I (body x)) \<Longrightarrow> preserves I (sfor xs body)"
  by (induction xs) (auto intro!: yields_sret yields_sbind)

lemmas yields_intros = yields_sret yields_sbind yields_slift yields_sget preserves_supd preserves_sfor

end
