(* ===== verification/TypedChoice.thy ===== *)
theory TypedChoice
  imports Prelude
begin

text \<open>
  \<open>v3python/base/typed_choice.py\<close>: the typed values a parameter can take. The classes under
  \<open>argument_base\<close> (scalars) are the constructors of \<open>scalar\<close>, the nested classes of
  \<open>constexpr\<close> those of \<open>cxty\<close>; \<open>stc\<close> is a settled typed choice (a scalar argument, a
  constant expression or a tensor). The conditional choices of \<open>conditional_value.py\<close> are
  the other constructors of \<open>tc\<close>; their behaviour is in the theory Parameter.
\<close>

section \<open>Python values\<close>

text \<open>The values a constexpr holds or a compile signature evaluates to.\<close>

datatype pyval = PNone | PBool bool | PInt int | PStr string

fun pv_num :: "pyval \<Rightarrow> int option" where
  "pv_num (PBool b) = Some (if b then 1 else 0)"
| "pv_num (PInt i) = Some i"
| "pv_num _ = None"

text \<open>Python's \<open>==\<close>: a bool compares with an int by its numeric value.\<close>

definition pv_eq :: "pyval \<Rightarrow> pyval \<Rightarrow> bool" where
  "pv_eq a b = (case (pv_num a, pv_num b) of
                  (Some i, Some j) \<Rightarrow> i = j
                | (None, None) \<Rightarrow> a = b
                | _ \<Rightarrow> False)"

fun py_str :: "pyval \<Rightarrow> string" where
  "py_str PNone = ''None''"
| "py_str (PBool b) = (if b then ''True'' else ''False'')"
| "py_str (PInt i) = show_int i"
| "py_str (PStr s) = s"

text \<open>\<open>repr\<close>; the strings of this program contain neither quotes nor backslashes.\<close>

fun py_repr :: "pyval \<Rightarrow> string" where
  "py_repr (PStr s) = [char_of (39::nat)] @ s @ [char_of (39::nat)]"
| "py_repr v = py_str v"

text \<open>The constructors \<open>int(v)\<close> and \<open>bool(v)\<close>.\<close>

definition parse_int :: "string \<Rightarrow> int res" where
  "parse_int s =
     (let (neg, ds) = (case s of CHR ''-'' # r \<Rightarrow> (True, r) | _ \<Rightarrow> (False, s))
      in if ds = [] \<or> \<not> list_all is_digit ds then Inl ValueError
         else Inr (if neg then - int (digits_val 0 ds) else int (digits_val 0 ds)))"

lemma show_int_digits: "c \<in> set (show_int i) \<Longrightarrow> is_digit c \<or> c = CHR ''-''"
  using show_nat_digits by (auto simp: show_int_def split: if_splits)

lemma digit_cases: "is_digit c \<Longrightarrow> c \<in> set ''0123456789''"
proof -
  have "\<forall>c. is_digit c \<longrightarrow> c \<in> set ''0123456789''" by code_simp
  then show "is_digit c \<Longrightarrow> c \<in> set ''0123456789''" by blast
qed

lemma parse_int_digits:
  assumes "s \<noteq> []" "list_all is_digit s" shows "parse_int s = Inr (int (digits_val 0 s))"
proof -
  obtain c cs where cs: "s = c # cs" using assms(1) by (cases s) auto
  then have "c \<in> set ''0123456789''" using assms(2) digit_cases by simp
  then have "(case s of CHR ''-'' # r \<Rightarrow> (True, r) | _ \<Rightarrow> (False, s)) = (False, s)" unfolding cs by auto
  then show ?thesis using assms by (simp add: parse_int_def)
qed

lemma parse_int_show_int: "parse_int (show_int i) = Inr i"
proof (cases "i < 0")
  case True
  then show ?thesis
    using show_nat_digits by (simp add: show_int_def parse_int_def list_all_iff digits_val_show_nat)
next
  case False
  then show ?thesis using parse_int_digits [of "show_nat (nat i)"] show_nat_digits [of "nat i"]
    by (simp add: show_int_def digits_val_show_nat list_all_iff)
qed

fun py_int :: "pyval \<Rightarrow> int res" where
  "py_int PNone = Inl TypeError"
| "py_int (PBool b) = Inr (if b then 1 else 0)"
| "py_int (PInt i) = Inr i"
| "py_int (PStr s) = parse_int s"

fun py_bool :: "pyval \<Rightarrow> bool" where
  "py_bool PNone = False"
| "py_bool (PBool b) = b"
| "py_bool (PInt i) = (i \<noteq> 0)"
| "py_bool (PStr s) = (s \<noteq> [])"

section \<open>Classes\<close>

datatype scalar =
    Bool_t | Int8_t | Int16_t | Int32_t | Int32a16_t | Int64_t
  | UInt8_t | UInt16_t | UInt32_t | UInt64_t | Stride_a8 | Stride_a16
  | Fp16_t | Bf16_t | Fp32_t | Fp16a16_t | Bf16a16_t | Fp32a16_t

datatype cxty =
    CxBool | CxInt8 | CxInt16 | CxInt32 | CxInt64
  | CxUInt8 | CxUInt16 | CxUInt32 | CxUInt64 | CxStride1

text \<open>
  A tensor holds its element type, its rank (None until specialised) and \<open>_specialized\<close>,
  which maps an argument name to the rank of the tensor specialised for it: the specialised
  object has the same class and element type, and an empty \<open>_specialized\<close> of its own.
\<close>

datatype stc =
    Scalar scalar
  | Constexpr cxty pyval
  | Tensor (lazy: bool) (elem_ty: scalar) (rank: "int option")
      (specialized: "(string, int) dict")

text \<open>Class attributes of the scalars.\<close>

fun sc_pfx :: "scalar \<Rightarrow> string res" where
  "sc_pfx Bool_t = Inl AttributeError"
| "sc_pfx Int8_t = Inr ''i''" | "sc_pfx Int16_t = Inr ''i''" | "sc_pfx Int32_t = Inr ''i''"
| "sc_pfx Int32a16_t = Inr ''i''" | "sc_pfx Int64_t = Inr ''i''"
| "sc_pfx UInt8_t = Inr ''u''" | "sc_pfx UInt16_t = Inr ''u''" | "sc_pfx UInt32_t = Inr ''u''"
| "sc_pfx UInt64_t = Inr ''u''" | "sc_pfx Stride_a8 = Inr ''u''" | "sc_pfx Stride_a16 = Inr ''u''"
| "sc_pfx Fp16_t = Inr ''fp''" | "sc_pfx Fp32_t = Inr ''fp''" | "sc_pfx Fp16a16_t = Inr ''fp''"
| "sc_pfx Fp32a16_t = Inr ''fp''"
| "sc_pfx Bf16_t = Inr ''bf''" | "sc_pfx Bf16a16_t = Inr ''bf''"

fun sc_nbits :: "scalar \<Rightarrow> nat" where
  "sc_nbits Bool_t = 1" | "sc_nbits Int8_t = 8" | "sc_nbits Int16_t = 16"
| "sc_nbits Int32_t = 32" | "sc_nbits Int32a16_t = 32" | "sc_nbits Int64_t = 64"
| "sc_nbits UInt8_t = 8" | "sc_nbits UInt16_t = 16" | "sc_nbits UInt32_t = 32"
| "sc_nbits UInt64_t = 64" | "sc_nbits Stride_a8 = 64" | "sc_nbits Stride_a16 = 64"
| "sc_nbits Fp16_t = 16" | "sc_nbits Bf16_t = 16" | "sc_nbits Fp32_t = 32"
| "sc_nbits Fp16a16_t = 16" | "sc_nbits Bf16a16_t = 16" | "sc_nbits Fp32a16_t = 32"

fun sc_align :: "scalar \<Rightarrow> nat option" where
  "sc_align Int32a16_t = Some 16" | "sc_align Stride_a8 = Some 8" | "sc_align Stride_a16 = Some 16"
| "sc_align Fp16a16_t = Some 16" | "sc_align Bf16a16_t = Some 16" | "sc_align Fp32a16_t = Some 16"
| "sc_align _ = None"

fun sc_hidden :: "scalar \<Rightarrow> bool" where
  "sc_hidden Stride_a8 = True" | "sc_hidden Stride_a16 = True" | "sc_hidden _ = False"

text \<open>\<open>argument_base.triton_compile_signature\<close>, overridden by \<open>bool_t\<close>.\<close>

definition sc_signature :: "scalar \<Rightarrow> string" where
  "sc_signature s =
     (case sc_pfx s of
        Inl _ \<Rightarrow> ''u1''
      | Inr t \<Rightarrow> (case sc_align s of
                    None \<Rightarrow> t @ show_nat (sc_nbits s)
                  | Some a \<Rightarrow> t @ show_nat (sc_nbits s) @ '':'' @ show_nat a))"

definition MAP_TRITON_TYPE_PFX :: "(string, string) dict" where
  "MAP_TRITON_TYPE_PFX =
     [(''i'', ''Int''), (''u'', ''UInt''), (''fp'', ''Float''), (''bf'', ''BFloat'')]"

definition sc_type_enum :: "scalar \<Rightarrow> string res" where
  "sc_type_enum s =
     rbind (sc_pfx s) (\<lambda>pfx.
     rbind (of_option KeyError (dget MAP_TRITON_TYPE_PFX pfx)) (\<lambda>t.
     Inr (''DType::k'' @ t @ show_nat (sc_nbits s))))"

fun sc_itype :: "scalar \<Rightarrow> string" where
  "sc_itype Bool_t = ''bool''"
| "sc_itype s =
     (case sc_pfx s of
        Inr t \<Rightarrow> (if t = ''i'' then ''int'' @ show_nat (sc_nbits s) @ ''_t''
                  else if t = ''u'' then ''uint'' @ show_nat (sc_nbits s) @ ''_t''
                  else ''float'')
      | Inl _ \<Rightarrow> ''bool'')"

fun sc_sql_value :: "scalar \<Rightarrow> string" where
  "sc_sql_value Bool_t = sc_signature Bool_t"
| "sc_sql_value s =
     (case sc_pfx s of
        Inr t \<Rightarrow> (if t = ''i'' then ''torch.int'' @ show_nat (sc_nbits s)
                  else if t = ''u'' then ''torch.uint'' @ show_nat (sc_nbits s)
                  else if t = ''bf'' then ''torch.bfloat'' @ show_nat (sc_nbits s)
                  else ''torch.float'' @ show_nat (sc_nbits s))
      | Inl _ \<Rightarrow> sc_signature s)"

fun cx_nbits :: "cxty \<Rightarrow> nat" where
  "cx_nbits CxBool = 1"
| "cx_nbits CxInt8 = 8" | "cx_nbits CxInt16 = 16" | "cx_nbits CxInt32 = 32" | "cx_nbits CxInt64 = 64"
| "cx_nbits CxUInt8 = 8" | "cx_nbits CxUInt16 = 16" | "cx_nbits CxUInt32 = 32"
| "cx_nbits CxUInt64 = 64" | "cx_nbits CxStride1 = 64"

fun cx_signed :: "cxty \<Rightarrow> bool" where
  "cx_signed CxInt8 = True" | "cx_signed CxInt16 = True" | "cx_signed CxInt32 = True"
| "cx_signed CxInt64 = True" | "cx_signed _ = False"

fun cx_itype :: "cxty \<Rightarrow> string" where
  "cx_itype CxBool = ''bool''"
| "cx_itype t = (if cx_signed t then ''int'' else ''uint'') @ show_nat (cx_nbits t) @ ''_t''"

text \<open>The constructor call of a constexpr class; \<open>stride1\<close> takes no value and holds 1.\<close>

definition mk_constexpr :: "cxty \<Rightarrow> pyval \<Rightarrow> stc res" where
  "mk_constexpr t v =
     (case t of
        CxBool \<Rightarrow> Inr (Constexpr CxBool (PBool (py_bool v)))
      | CxStride1 \<Rightarrow> Inl TypeError
      | _ \<Rightarrow> rmap (\<lambda>i. Constexpr t (PInt i)) (py_int v))"

definition stride1 :: stc where
  "stride1 = Constexpr CxStride1 (PInt 1)"

section \<open>The TypedChoice protocol on settled choices\<close>

fun stc_hidden :: "stc \<Rightarrow> bool" where
  "stc_hidden (Scalar s) = sc_hidden s"
| "stc_hidden (Constexpr t v) = (t = CxStride1)"
| "stc_hidden (Tensor _ _ _ _) = False"

fun stc_nbits :: "stc \<Rightarrow> nat" where
  "stc_nbits (Scalar s) = sc_nbits s"
| "stc_nbits (Constexpr t v) = cx_nbits t"
| "stc_nbits (Tensor _ _ _ _) = 64"

fun stc_itype :: "stc \<Rightarrow> string res" where
  "stc_itype (Scalar s) = Inr (sc_itype s)"
| "stc_itype (Constexpr t v) = Inr (cx_itype t)"
| "stc_itype (Tensor lz e None sp) = Inl AssertionError"
| "stc_itype (Tensor lz e (Some r) sp) =
     Inr ((if lz then ''LazyTensorInternal<'' else ''const TensorView<'') @ show_int r @ ''>*'')"

fun stc_signature :: "stc \<Rightarrow> pyval" where
  "stc_signature (Scalar s) = PStr (sc_signature s)"
| "stc_signature (Constexpr t v) = v"
| "stc_signature (Tensor _ e _ _) = PStr (''*'' @ sc_signature e)"

definition testrun_entry_signature :: "stc \<Rightarrow> string" where
  "testrun_entry_signature c = (case stc_signature c of PStr s \<Rightarrow> py_repr (PStr s) | v \<Rightarrow> py_str v)"

fun stc_sql_value :: "stc \<Rightarrow> pyval" where
  "stc_sql_value (Scalar s) = PStr (sc_sql_value s)"
| "stc_sql_value (Constexpr t v) = v"
| "stc_sql_value (Tensor _ e _ _) = PStr (sc_sql_value e)"

text \<open>\<open>__str__\<close>.\<close>

fun stc_str :: "stc \<Rightarrow> string" where
  "stc_str (Constexpr t v) = py_str v"
| "stc_str c = ''\"'' @ py_str (stc_signature c) @ ''\"''"

fun stc_infotype :: "stc \<Rightarrow> string" where
  "stc_infotype (Constexpr CxBool v) = ''bool''"
| "stc_infotype (Constexpr t v) = ''int''"
| "stc_infotype _ = ''std::string''"

fun stc_infotext :: "stc \<Rightarrow> string" where
  "stc_infotext (Constexpr CxBool v) = (if py_bool v then ''true'' else ''false'')"
| "stc_infotext (Constexpr t v) = py_str v"
| "stc_infotext c = ''\"'' @ py_str (stc_signature c) @ ''\"''"

fun stc_type_enum :: "stc \<Rightarrow> string res" where
  "stc_type_enum (Scalar s) = sc_type_enum s"
| "stc_type_enum (Tensor _ e _ _) = sc_type_enum e"
| "stc_type_enum (Constexpr t v) = Inl AttributeError"

fun stc_is_tensor :: "stc \<Rightarrow> bool" where
  "stc_is_tensor (Tensor _ _ _ _) = True"
| "stc_is_tensor _ = False"

fun stc_is_constexpr :: "stc \<Rightarrow> bool" where
  "stc_is_constexpr (Constexpr _ _) = True"
| "stc_is_constexpr _ = False"

fun stc_json_value :: "stc \<Rightarrow> pyval res" where
  "stc_json_value (Constexpr t v) = Inr v"
| "stc_json_value _ = Inl AttributeError"

fun stc_create_constexpr :: "stc \<Rightarrow> pyval \<Rightarrow> stc res" where
  "stc_create_constexpr (Constexpr t _) v = mk_constexpr t v"
| "stc_create_constexpr _ v = Inl RuntimeError"

text \<open>
  \<open>tensor.resolve\<close> picks the object specialised for the argument, itself if there is none;
  every other settled choice is its own resolution.
\<close>

fun stc_resolve :: "stc \<Rightarrow> string \<Rightarrow> stc" where
  "stc_resolve (Tensor lz e r sp) aname =
     (case dget sp aname of None \<Rightarrow> Tensor lz e r sp | Some r' \<Rightarrow> Tensor lz e (Some r') [])"
| "stc_resolve c aname = c"

text \<open>
  \<open>tensor.resolve_rank\<close>: the comprehension is evaluated first, then the entries are merged
  into \<open>_specialized\<close>. \<open>RANKS['_default']\<close> is read even when every name has a rank.
\<close>

fun stc_resolve_rank :: "string list \<Rightarrow> (string, int) dict \<Rightarrow> stc \<Rightarrow> stc res" where
  "stc_resolve_rank all_names RANKS (Tensor lz e r sp) =
     (case dget RANKS ''_default'' of
        None \<Rightarrow> Inl KeyError
      | Some dflt \<Rightarrow>
          let specialize = (\<lambda>aname. case dget RANKS aname of None \<Rightarrow> dflt | Some k \<Rightarrow> k);
              new = dict_of (map (\<lambda>aname. (aname, specialize aname)) all_names)
          in Inr (Tensor lz e r (fold (\<lambda>(k, v) d. dset d k v) new sp)))"
| "stc_resolve_rank all_names RANKS c = Inr c"

section \<open>Conditional choices\<close>

text \<open>
  \<open>cond_op is None\<close>: membership in the list \<open>_if_value\<close>; otherwise the operator is called on
  the signature and on \<open>_if_value\<close>. The \<open>then\<close> and \<open>else\<close> choices are settled ones: no rule
  of the repository nests a conditional choice in another.
\<close>

datatype cond = CondIn "pyval list" | CondOp "pyval \<Rightarrow> pyval \<Rightarrow> bool" pyval

datatype tc =
    Settled stc
  | ConditionalConstexpr (if_feat: string) cond stc stc
  | ConditionalDeferredConstexpr (if_feat: string) cond string stc
  | ConditionalDeferredElseTensor (if_feat: string) cond stc string

fun is_conditional_choice :: "tc \<Rightarrow> bool" where
  "is_conditional_choice (Settled _) = False"
| "is_conditional_choice _ = True"

section \<open>Parsing and guessing\<close>

definition ELEMENTAL_TYPE_MAP :: "(string, scalar) dict" where
  "ELEMENTAL_TYPE_MAP =
     [(''i8'', Int8_t), (''i16'', Int16_t), (''i32'', Int32_t), (''i32:16'', Int32a16_t),
      (''i64'', Int64_t), (''u8'', UInt8_t), (''u16'', UInt16_t), (''u32'', UInt32_t),
      (''u64'', UInt64_t), (''u64:8'', Stride_a8), (''u64:16'', Stride_a16),
      (''fp16'', Fp16_t), (''bf16'', Bf16_t), (''fp32'', Fp32_t), (''fp16:16'', Fp16a16_t),
      (''bf16:16'', Bf16a16_t), (''fp32:16'', Fp32a16_t)]"

definition LAZY_TENSOR_PATTERN :: string where
  "LAZY_TENSOR_PATTERN = ''LazyTensor:''"

definition elemental :: "string \<Rightarrow> scalar res" where
  "elemental v = of_option KeyError (dget ELEMENTAL_TYPE_MAP v)"

text \<open>\<open>v[LAZY_TENSOR_LEN+1:]\<close> drops the pattern and one more character, the star.\<close>

definition parse_complex_str :: "string \<Rightarrow> stc res" where
  "parse_complex_str v =
     (if startswith v ''*'' then rmap (\<lambda>e. Tensor False e None []) (elemental (drop 1 v))
      else if startswith v LAZY_TENSOR_PATTERN then
        rmap (\<lambda>e. Tensor True e None []) (elemental (drop (length LAZY_TENSOR_PATTERN + 1) v))
      else rmap Scalar (elemental v))"

text \<open>
  A choice as the rules write it: a plain Python value or an already typed choice; a list of
  choices is a Python list or a numpy array with its dtype.
\<close>

datatype choice_lit = Lit pyval | Typed tc

datatype dtype = NpBool | NpInt8 | NpInt16 | NpInt32 | NpInt64
  | NpUInt8 | NpUInt16 | NpUInt32 | NpUInt64 | NpOther

datatype choices_lit = NdArray dtype "pyval list" | Plain "choice_lit list"

definition parse_complex :: "choice_lit \<Rightarrow> tc res" where
  "parse_complex v =
     (case v of
        Typed t \<Rightarrow> Inr t
      | Lit (PStr s) \<Rightarrow> rmap Settled (parse_complex_str s)
      | Lit _ \<Rightarrow> Inl AssertionError)"

fun numpy_factory :: "dtype \<Rightarrow> cxty option" where
  "numpy_factory NpBool = Some CxBool"
| "numpy_factory NpInt8 = Some CxInt8" | "numpy_factory NpInt16 = Some CxInt16"
| "numpy_factory NpInt32 = Some CxInt32" | "numpy_factory NpInt64 = Some CxInt64"
| "numpy_factory NpUInt8 = Some CxUInt8" | "numpy_factory NpUInt16 = Some CxUInt16"
| "numpy_factory NpUInt32 = Some CxUInt32" | "numpy_factory NpUInt64 = Some CxUInt64"
| "numpy_factory NpOther = None"

definition guess_with :: "cxty \<Rightarrow> pyval list \<Rightarrow> tc list res" where
  "guess_with t choices = rtraverse (\<lambda>v. rmap Settled (mk_constexpr t v)) choices"

definition guess_numpy :: "dtype \<Rightarrow> pyval list \<Rightarrow> tc list res" where
  "guess_numpy d choices =
     rbind (of_option KeyError (numpy_factory d)) (\<lambda>t. guess_with t choices)"

definition guess_int_factory :: "int list \<Rightarrow> cxty" where
  "guess_int_factory choices =
     (let m = Max (set choices)
      in if m < 16 then CxInt8 else if m < 8192 then CxInt16 else CxInt32)"

fun lit_bool :: "choice_lit \<Rightarrow> bool option" where
  "lit_bool (Lit (PBool b)) = Some b"
| "lit_bool _ = None"

text \<open>\<open>isinstance(v, int)\<close> is true of a bool.\<close>

fun lit_int :: "choice_lit \<Rightarrow> int option" where
  "lit_int (Lit v) = pv_num v"
| "lit_int (Typed _) = None"

fun lit_val :: "choice_lit \<Rightarrow> pyval" where
  "lit_val (Lit v) = v"
| "lit_val (Typed _) = PNone"

definition parse_choices :: "choices_lit \<Rightarrow> tc list res" where
  "parse_choices choices =
     (case choices of
        NdArray d vs \<Rightarrow> guess_numpy d vs
      | Plain vs \<Rightarrow>
          (if list_all (\<lambda>v. lit_bool v \<noteq> None) vs then guess_with CxBool (map lit_val vs)
           else if list_all (\<lambda>v. lit_int v \<noteq> None) vs
           then guess_with (guess_int_factory (map (\<lambda>v. the (lit_int v)) vs)) (map lit_val vs)
           else rtraverse parse_complex vs))"

section \<open>Lemmas\<close>

lemma elemental_table: "list_all (\<lambda>(k, s). sc_signature s = k) ELEMENTAL_TYPE_MAP"
  by code_simp

lemma elemental_signature: "elemental v = Inr e \<Longrightarrow> sc_signature e = v"
  using elemental_table by (auto simp: elemental_def of_option_Inr_iff list_all_iff dest: map_of_SomeD)

text \<open>
  parsing a type string and printing the signature of the result gives the string back:
  every name of the elemental table, with or without the pointer star, is its own compile
  signature, and a lazy tensor prints as the pointer to its element type, the text after the
  pattern and one more character.
\<close>

theorem parse_complex_signature:
  assumes "parse_complex_str v = Inr c"
  shows "stc_signature c =
           PStr (if startswith v LAZY_TENSOR_PATTERN \<and> \<not> startswith v ''*''
                 then ''*'' @ drop (length LAZY_TENSOR_PATTERN + 1) v else v)"
proof (cases "startswith v ''*''")
  case True
  then obtain w where w: "v = ''*'' @ w" by (auto simp: startswith_iff)
  with assms obtain e where "elemental w = Inr e" "c = Tensor False e None []"
    by (auto simp: parse_complex_str_def rmap_Inr_iff)
  with w show ?thesis by (simp add: elemental_signature)
next
  case False
  show ?thesis
  proof (cases "startswith v LAZY_TENSOR_PATTERN")
    case True
    with False assms obtain e where "elemental (drop (length LAZY_TENSOR_PATTERN + 1) v) = Inr e"
      "c = Tensor True e None []"
      by (auto simp: parse_complex_str_def rmap_Inr_iff)
    with True False show ?thesis by (simp add: elemental_signature)
  next
    case no: False
    with False assms obtain e where "elemental v = Inr e" "c = Scalar e"
      by (auto simp: parse_complex_str_def rmap_Inr_iff)
    with no False show ?thesis by (simp add: elemental_signature)
  qed
qed

theorem parse_complex_signature_witness:
  "stc_signature (Tensor True Fp32a16_t None []) = PStr ''*fp32:16''
   \<and> stc_signature (Tensor False Bf16a16_t None []) = PStr ''*bf16:16''"
proof
  have "parse_complex_str ''LazyTensor:*fp32:16'' = Inr (Tensor True Fp32a16_t None [])"
    by code_simp
  from parse_complex_signature [OF this]
  show "stc_signature (Tensor True Fp32a16_t None []) = PStr ''*fp32:16''"
    by (simp add: LAZY_TENSOR_PATTERN_def)
  have "parse_complex_str ''*bf16:16'' = Inr (Tensor False Bf16a16_t None [])"
    by code_simp
  from parse_complex_signature [OF this]
  show "stc_signature (Tensor False Bf16a16_t None []) = PStr ''*bf16:16''"
    by (simp add: LAZY_TENSOR_PATTERN_def)
qed

text \<open>The range of a constexpr integer type.\<close>

definition cx_fits :: "cxty \<Rightarrow> int \<Rightarrow> bool" where
  "cx_fits t i \<longleftrightarrow>
     (if cx_signed t then - (2 ^ (cx_nbits t - 1)) \<le> i \<and> i < 2 ^ (cx_nbits t - 1)
      else 0 \<le> i \<and> i < 2 ^ cx_nbits t)"

text \<open>
  C23: the integer type guessed for a list of choices is wide enough for every choice, as long
  as every choice is at least -128 and below $2^{31}$: the guess looks at the maximum only and
  knows no type above the signed 32-bit one.
\<close>

theorem guess_int_fits:
  assumes "x \<in> set choices" and "\<forall>y\<in>set choices. - 128 \<le> y \<and> y < 2 ^ 31"
  shows "cx_fits (guess_int_factory choices) x"
proof -
  have "x \<le> Max (set choices)" using assms(1) by simp
  moreover have "- 128 \<le> x" "x < 2 ^ 31" using assms by auto
  ultimately show ?thesis by (auto simp: guess_int_factory_def cx_fits_def Let_def)
qed

theorem guess_int_fits_witness:
  "guess_int_factory [16, 512, 48] = CxInt16 \<and> cx_fits (guess_int_factory [16, 512, 48]) 512"
  using guess_int_fits [of 512 "[16, 512, 48]"] by (simp add: guess_int_factory_def)

text \<open>
  The guess ignores the minimum: a list of choices with a large negative value and a small
  maximum is given the 8-bit type, which cannot hold it. A choice from $2^{31}$ on gets the
  32-bit type, which cannot hold it either.
\<close>

lemma guess_int_negative_overflow:
  "guess_int_factory [- 1000, 3] = CxInt8 \<and> \<not> cx_fits (guess_int_factory [- 1000, 3]) (- 1000)"
  by (simp add: guess_int_factory_def cx_fits_def)

lemma guess_int_wide_overflow:
  "guess_int_factory [2 ^ 31, 3] = CxInt32 \<and> \<not> cx_fits (guess_int_factory [2 ^ 31, 3]) (2 ^ 31)"
  by (simp add: guess_int_factory_def cx_fits_def)

end
