(* ===== verification/Parameter.thy ===== *)
theory Parameter
  imports TypedChoice
begin

text \<open>
  \<open>v3python/base/conditional_value.py\<close>, \<open>bind.py\<close>, \<open>parameter.py\<close> and \<open>cfield.py\<close>: template
  parameters, the resolution of conditional choices, the association of a parameter with one
  of its choices, and the numbering of the choices (Goedel numbers).
\<close>

section \<open>Data\<close>

text \<open>
  \<open>ordered\<close> is \<open>_ordered_arguments\<close>: the names with their positions in the argument list,
  ascending; \<open>first_apperance\<close> is the first of those positions. Both are set by \<open>late_init\<close>,
  \<open>godel\<close> by \<open>assign_godel_number\<close>.
\<close>

record tparam =
  tp_names :: "string list"
  tp_choices :: "tc list"
  tp_maybe_conditional :: bool
  tp_first :: nat
  tp_ordered :: "(string \<times> nat) list"
  tp_godel :: int

record cfield =
  cf_ctype :: string
  cf_aname :: string
  cf_index :: nat
  cf_nbits :: nat

text \<open>\<open>TemplateParameter.__init__\<close>.\<close>

definition mk_tparam :: "string list \<Rightarrow> choices_lit \<Rightarrow> tparam res" where
  "mk_tparam names choices =
     rmap (\<lambda>cs. \<lparr>tp_names = names, tp_choices = cs,
                 tp_maybe_conditional = list_ex is_conditional_choice cs,
                 tp_first = 0, tp_ordered = [], tp_godel = 0\<rparr>)
       (parse_choices choices)"

definition repr_name :: "tparam \<Rightarrow> string res" where
  "repr_name tp = py_nth (tp_names tp) 0"

definition repr_choice :: "tparam \<Rightarrow> tc res" where
  "repr_choice tp = py_nth (tp_choices tp) 0"

definition nchoices :: "tparam \<Rightarrow> nat" where
  "nchoices tp = length (tp_choices tp)"

section \<open>Resolution\<close>

text \<open>
  Reading \<open>triton_compile_signature\<close> of an unresolved conditional choice executes
  \<open>raise f"..."\<close>: raising a string is a TypeError.
\<close>

fun tc_signature :: "tc \<Rightarrow> pyval res" where
  "tc_signature (Settled c) = Inr (stc_signature c)"
| "tc_signature _ = Inl TypeError"

fun cond_holds :: "cond \<Rightarrow> pyval \<Rightarrow> bool" where
  "cond_holds (CondIn vs) v = list_ex (pv_eq v) vs"
| "cond_holds (CondOp f iv) v = f v iv"

definition is_matching :: "string \<Rightarrow> cond \<Rightarrow> (string, tc) dict \<Rightarrow> bool res" where
  "is_matching feat c tc_dict =
     rbind (of_option KeyError (dget tc_dict feat)) (\<lambda>v.
     rmap (cond_holds c) (tc_signature v))"

text \<open>
  \<open>resolve(aname, tc_dict)\<close> with a dictionary. The first argument is what is left of the
  interpreter's recursion limit: a cycle of deferred choices ends in RecursionError.
\<close>

fun resolve :: "nat \<Rightarrow> tc \<Rightarrow> string \<Rightarrow> (string, tc) dict \<Rightarrow> tc res" where
  "resolve n (Settled c) aname tc_dict = Inr (Settled (stc_resolve c aname))"
| "resolve n (ConditionalConstexpr feat c th el) aname tc_dict =
     rbind (is_matching feat c tc_dict) (\<lambda>m.
       if m then Inr (Settled th) else Inr (Settled (stc_resolve el aname)))"
| "resolve n (ConditionalDeferredElseTensor feat c th el) aname tc_dict =
     rbind (is_matching feat c tc_dict) (\<lambda>m.
       if m then Inr (Settled th) else of_option KeyError (dget tc_dict el))"
| "resolve 0 (ConditionalDeferredConstexpr feat c th el) aname tc_dict = Inl RecursionError"
| "resolve (Suc n) (ConditionalDeferredConstexpr feat c th el) aname tc_dict =
     rbind (is_matching feat c tc_dict) (\<lambda>m.
       if m then rbind (of_option KeyError (dget tc_dict th)) (\<lambda>t. resolve n t th tc_dict)
       else Inr (Settled (stc_resolve el aname)))"

text \<open>
  \<open>resolve(aname, tc_dict=None)\<close>: every conditional choice falls back to its else branch. A
  deferred else branch is the representative choice of the parameter \<open>link_deferral_target\<close>
  stored; \<open>tp_dict\<close> gives that parameter.
\<close>

fun resolve_default ::
  "nat \<Rightarrow> (string \<Rightarrow> tparam option) \<Rightarrow> tc \<Rightarrow> string \<Rightarrow> stc res" where
  "resolve_default n tp_dict (Settled c) aname = Inr (stc_resolve c aname)"
| "resolve_default n tp_dict (ConditionalConstexpr feat c th el) aname = Inr (stc_resolve el aname)"
| "resolve_default n tp_dict (ConditionalDeferredConstexpr feat c th el) aname =
     Inr (stc_resolve el aname)"
| "resolve_default 0 tp_dict (ConditionalDeferredElseTensor feat c th el) aname = Inl RecursionError"
| "resolve_default (Suc n) tp_dict (ConditionalDeferredElseTensor feat c th el) aname =
     rbind (of_option KeyError (tp_dict el)) (\<lambda>tp.
     rbind (repr_choice tp) (\<lambda>t. resolve_default n tp_dict t aname))"

text \<open>CPython's default recursion limit.\<close>

definition recursion_limit :: nat where
  "recursion_limit = 1000"

text \<open>\<open>link_deferral_target\<close>: only whether the names exist can fail.\<close>

fun link_deferral_target :: "(string \<Rightarrow> 'p option) \<Rightarrow> tc \<Rightarrow> unit res" where
  "link_deferral_target tp_dict (Settled c) = Inr ()"
| "link_deferral_target tp_dict (ConditionalConstexpr feat c th el) =
     rmap (\<lambda>_. ()) (of_option KeyError (tp_dict feat))"
| "link_deferral_target tp_dict (ConditionalDeferredConstexpr feat c th el) =
     rbind (of_option KeyError (tp_dict feat)) (\<lambda>_. rmap (\<lambda>_. ()) (of_option KeyError (tp_dict th)))"
| "link_deferral_target tp_dict (ConditionalDeferredElseTensor feat c th el) =
     rbind (of_option KeyError (tp_dict feat)) (\<lambda>_. rmap (\<lambda>_. ()) (of_option KeyError (tp_dict el)))"

text \<open>
  \<open>create_constexpr\<close> of a conditional choice: through the else branch, or through the linked
  then-parameter for a deferred constexpr. The else branch of a
  \<open>ConditionalDeferredElseTensor\<close> is a string, which has no such method.
\<close>

fun create_constexpr :: "nat \<Rightarrow> (string \<Rightarrow> tparam option) \<Rightarrow> tc \<Rightarrow> pyval \<Rightarrow> stc res" where
  "create_constexpr n tp_dict (Settled c) v = stc_create_constexpr c v"
| "create_constexpr n tp_dict (ConditionalConstexpr feat c th el) v = stc_create_constexpr el v"
| "create_constexpr n tp_dict (ConditionalDeferredElseTensor feat c th el) v = Inl AttributeError"
| "create_constexpr 0 tp_dict (ConditionalDeferredConstexpr feat c th el) v = Inl RecursionError"
| "create_constexpr (Suc n) tp_dict (ConditionalDeferredConstexpr feat c th el) v =
     rbind (of_option KeyError (tp_dict th)) (\<lambda>tp.
     rbind (repr_choice tp) (\<lambda>t. create_constexpr n tp_dict t v))"

text \<open>
  \<open>document_conditional_value\<close>. The string of a conditional choice would contain an object
  address; the error stands for it.
\<close>

fun tc_str :: "tc \<Rightarrow> string res" where
  "tc_str (Settled c) = Inr (stc_str c)"
| "tc_str _ = Inl AttributeError"

fun document_conditional_value :: "(string \<Rightarrow> tparam option) \<Rightarrow> tc \<Rightarrow> string res" where
  "document_conditional_value tp_dict (Settled c) = Inl AttributeError"
| "document_conditional_value tp_dict (ConditionalConstexpr feat c th el) = Inr (stc_str th)"
| "document_conditional_value tp_dict (ConditionalDeferredConstexpr feat c th el) =
     rbind (of_option KeyError (tp_dict th)) (\<lambda>tp.
     rmap (join ''/'') (rtraverse tc_str (tp_choices tp)))"
| "document_conditional_value tp_dict (ConditionalDeferredElseTensor feat c th el) = Inr ''nullptr''"

section \<open>late_init\<close>

text \<open>\<open>__sort_arguments\<close>: the names in the order of the argument list.\<close>

definition sort_arguments :: "string list \<Rightarrow> tparam \<Rightarrow> tparam res" where
  "sort_arguments ALL_ARGUMENTS tp =
     rbind (rtraverse (\<lambda>aname. rmap (\<lambda>i. (aname, i)) (py_index ALL_ARGUMENTS aname)) (tp_names tp))
       (\<lambda>tuples.
         let ordered = sort_key snd tuples
         in rmap (\<lambda>p. tp\<lparr>tp_names := map fst ordered, tp_first := snd p, tp_ordered := ordered\<rparr>)
              (py_nth ordered 0))"

text \<open>
  The parameters of an interface are objects that refer to each other; the model keeps them
  in one list, and \<open>tp_index\<close> is \<open>_build_tp_dict\<close>: the position of the parameter an argument
  name belongs to, where a later parameter overrides an earlier one.
\<close>

definition tp_index :: "tparam list \<Rightarrow> string \<Rightarrow> nat option" where
  "tp_index ps aname =
     dget (rev (concat (map (\<lambda>(i, p). map (\<lambda>a. (a, i)) (tp_names p)) (enumerate 0 ps)))) aname"

definition tp_lookup :: "tparam list \<Rightarrow> string \<Rightarrow> tparam option" where
  "tp_lookup ps aname = map_option ((!) ps) (tp_index ps aname)"

text \<open>
  \<open>resolve_rank\<close> of all choices of the parameter at one position. A tensor is specialised in
  place, also as the else branch of a conditional choice; a deferred else branch specialises
  the choices of the parameter it is linked to.
\<close>

definition set_choice :: "tparam list \<Rightarrow> nat \<Rightarrow> nat \<Rightarrow> tc \<Rightarrow> tparam list" where
  "set_choice ps i j c = ps[i := (ps ! i)\<lparr>tp_choices := (tp_choices (ps ! i))[j := c]\<rparr>]"

fun rank_choices ::
  "nat \<Rightarrow> (string \<Rightarrow> nat option) \<Rightarrow> string list \<Rightarrow> (string, int) dict
   \<Rightarrow> nat \<Rightarrow> nat list \<Rightarrow> tparam list \<Rightarrow> tparam list res" where
  "rank_choices n ix names RANKS i [] ps = Inr ps"
| "rank_choices n ix names RANKS i (j # js) ps =
     rbind
       (case tp_choices (ps ! i) ! j of
          Settled c \<Rightarrow>
            rmap (\<lambda>c'. set_choice ps i j (Settled c')) (stc_resolve_rank names RANKS c)
        | ConditionalConstexpr feat cd th el \<Rightarrow>
            rmap (\<lambda>el'. set_choice ps i j (ConditionalConstexpr feat cd th el'))
              (stc_resolve_rank names RANKS el)
        | ConditionalDeferredConstexpr feat cd th el \<Rightarrow>
            rmap (\<lambda>el'. set_choice ps i j (ConditionalDeferredConstexpr feat cd th el'))
              (stc_resolve_rank names RANKS el)
        | ConditionalDeferredElseTensor feat cd th el \<Rightarrow>
            (case n of
               0 \<Rightarrow> Inl RecursionError
             | Suc m \<Rightarrow>
                 rbind (of_option KeyError (ix el)) (\<lambda>k.
                   rank_choices m ix names RANKS k [0..<nchoices (ps ! k)] ps)))
       (rank_choices n ix names RANKS i js)"

text \<open>\<open>TemplateParameter.late_init\<close> of the parameter at position \<open>i\<close>.\<close>

definition late_init ::
  "string list \<Rightarrow> (string \<Rightarrow> nat option) \<Rightarrow> (string, int) dict
   \<Rightarrow> nat \<Rightarrow> tparam list \<Rightarrow> tparam list res" where
  "late_init ALL_ARGUMENTS ix RANKS i ps =
     rbind (sort_arguments ALL_ARGUMENTS (ps ! i)) (\<lambda>tp.
     rbind (rtraverse (link_deferral_target ix) (tp_choices tp)) (\<lambda>_.
     rank_choices recursion_limit ix (tp_names tp) RANKS i [0..<nchoices tp] (ps[i := tp])))"

text \<open>The loop over all parameters in \<open>Interface._late_init\<close>.\<close>

fun late_init_all ::
  "string list \<Rightarrow> (string \<Rightarrow> nat option) \<Rightarrow> (string, int) dict
   \<Rightarrow> nat list \<Rightarrow> tparam list \<Rightarrow> tparam list res" where
  "late_init_all ARGS ix RANKS [] ps = Inr ps"
| "late_init_all ARGS ix RANKS (i # is) ps =
     rbind (late_init ARGS ix RANKS i ps) (late_init_all ARGS ix RANKS is)"

section \<open>Goedel numbers\<close>

text \<open>A numpy int64 result, with its wrap-around.\<close>

definition wrap64 :: "int \<Rightarrow> int" where
  "wrap64 x = (x + 2 ^ 63) mod 2 ^ 64 - 2 ^ 63"

text \<open>\<open>np.cumprod\<close> of an int64 array.\<close>

fun np_cumprod_from :: "int \<Rightarrow> int list \<Rightarrow> int list" where
  "np_cumprod_from acc [] = []"
| "np_cumprod_from acc (x # xs) = (let y = wrap64 (acc * x) in y # np_cumprod_from y xs)"

definition np_cumprod :: "int list \<Rightarrow> int list" where
  "np_cumprod xs = np_cumprod_from 1 xs"

text \<open>\<open>TemplateParameter.assign_godel_number\<close>; the slice [1:] drops the first stride.\<close>

definition assign_godel_number :: "tparam list \<Rightarrow> tparam list" where
  "assign_godel_number sorted_parameters =
     (let ns = map (\<lambda>m. int (nchoices m)) sorted_parameters @ [1];
          cumprod = drop 1 (rev (np_cumprod (rev ns)))
      in map2 (\<lambda>m c. m\<lparr>tp_godel := c\<rparr>) sorted_parameters cumprod)"

section \<open>Fields of the generated structs\<close>

definition cfield_of ::
  "(string \<Rightarrow> tparam option) \<Rightarrow> tparam \<Rightarrow> string \<times> nat \<Rightarrow> (stc \<times> cfield) res" where
  "cfield_of tp_dict tp an =
     rbind (repr_choice tp) (\<lambda>t.
     rbind (resolve_default recursion_limit tp_dict t (fst an)) (\<lambda>c.
     (if stc_hidden c then Inr (c, \<lparr>cf_ctype = '''', cf_aname = fst an, cf_index = snd an, cf_nbits = 0\<rparr>)
      else rmap (\<lambda>ct. (c, \<lparr>cf_ctype = ct, cf_aname = fst an, cf_index = snd an,
                           cf_nbits = stc_nbits c\<rparr>)) (stc_itype c))))"

text \<open>\<open>get_cfields\<close>: the itype of a hidden choice is not read.\<close>

definition get_cfields :: "(string \<Rightarrow> tparam option) \<Rightarrow> tparam \<Rightarrow> cfield list res" where
  "get_cfields tp_dict tp =
     rmap (\<lambda>l. map snd (filter (\<lambda>p. \<not> stc_hidden (fst p)) l))
       (rtraverse (cfield_of tp_dict tp) (tp_ordered tp))"

text \<open>\<open>get_unprocessed_cfields\<close>: before \<open>late_init\<close>, hidden choices included.\<close>

definition get_unprocessed_cfields ::
  "(string \<Rightarrow> tparam option) \<Rightarrow> tparam \<Rightarrow> cfield list res" where
  "get_unprocessed_cfields tp_dict tp =
     rtraverse (\<lambda>(index, aname).
       rbind (repr_choice tp) (\<lambda>t.
       rbind (resolve_default recursion_limit tp_dict t aname) (\<lambda>c.
       rmap (\<lambda>ct. \<lparr>cf_ctype = ct, cf_aname = aname, cf_index = index, cf_nbits = stc_nbits c\<rparr>)
         (stc_itype c))))
       (enumerate 0 (tp_names tp))"

section \<open>Bind\<close>

text \<open>
  \<open>b_nth\<close> is None for a bind made by \<open>create_direct\<close>; \<open>b_init\<close> is \<open>_init_value\<close> and
  \<open>b_conditional\<close> is \<open>_conditional\<close>, both fixed by the constructor.
\<close>

record bind =
  b_klass :: tparam
  b_value :: tc
  b_conditional :: bool
  b_init :: tc
  b_nth :: "int option"

definition mk_bind :: "tparam \<Rightarrow> tc \<Rightarrow> int option \<Rightarrow> bind" where
  "mk_bind klass v k =
     \<lparr>b_klass = klass, b_value = v, b_conditional = is_conditional_choice v, b_init = v, b_nth = k\<rparr>"

definition create_nth :: "tparam \<Rightarrow> int \<Rightarrow> bind res" where
  "create_nth tp k = rmap (\<lambda>c. mk_bind tp c (Some k)) (py_nth (tp_choices tp) k)"

definition create_direct :: "(string \<Rightarrow> tparam option) \<Rightarrow> tparam \<Rightarrow> pyval \<Rightarrow> bind res" where
  "create_direct tp_dict tp v =
     rbind (repr_choice tp) (\<lambda>t.
     rmap (\<lambda>c. mk_bind tp (Settled c) None) (create_constexpr recursion_limit tp_dict t v))"

text \<open>The names of a parameter are not empty after \<open>late_init\<close>, which reads the first one.\<close>

definition b_name :: "bind \<Rightarrow> string" where
  "b_name b = (case tp_names (b_klass b) of [] \<Rightarrow> [] | n # _ \<Rightarrow> n)"

definition get_typed_value :: "(string \<Rightarrow> tparam option) \<Rightarrow> bind \<Rightarrow> string \<Rightarrow> stc res" where
  "get_typed_value tp_dict b aname = resolve_default recursion_limit tp_dict (b_value b) aname"

definition bind_godel :: "bind \<Rightarrow> int res" where
  "bind_godel b =
     rmap (\<lambda>n. wrap64 (n * tp_godel (b_klass b))) (of_option TypeError (b_nth b))"

definition show_in_compact :: "bind \<Rightarrow> bool" where
  "show_in_compact b \<longleftrightarrow> nchoices (b_klass b) > 1"

definition compact_signature :: "bind \<Rightarrow> string option res" where
  "compact_signature b =
     (if show_in_compact b then rmap (\<lambda>v. Some (py_str v)) (tc_signature (b_value b)) else Inr None)"

text \<open>
  \<open>signature_in_func_name\<close>: the star becomes a fullwidth asterisk, written here as its three
  UTF-8 bytes, and the colon an at sign.
\<close>

definition func_name_text :: "string \<Rightarrow> string" where
  "func_name_text s =
     py_replace ''False'' ''F'' (py_replace ''True'' ''T''
       (py_replace '':'' ''@'' (py_replace ''*'' (map char_of [239::nat, 188, 138]) s)))"

definition bind_signature_in_func_name :: "bind \<Rightarrow> string option res" where
  "bind_signature_in_func_name b = rmap (map_option func_name_text) (compact_signature b)"

definition is_unresolved :: "bind \<Rightarrow> bool" where
  "is_unresolved b \<longleftrightarrow> b_conditional b \<and> is_conditional_choice (b_value b)"

definition settle_unresolved :: "(string, tc) dict \<Rightarrow> bind \<Rightarrow> bind res" where
  "settle_unresolved tc_dict b =
     (if is_unresolved b
      then rmap (\<lambda>t. b\<lparr>b_value := t\<rparr>) (resolve recursion_limit (b_value b) (b_name b) tc_dict)
      else Inr b)"

text \<open>
  \<open>human_readable_signature\<close>: no line for a hidden choice. The text of an unresolved
  conditional choice would contain an object address; the error stands for it.
\<close>

definition human_readable_signature :: "bind \<Rightarrow> string option res" where
  "human_readable_signature b =
     (case b_value b of
        Settled c \<Rightarrow> Inr (if stc_hidden c then None else Some (b_name b @ '' = '' @ stc_str c))
      | _ \<Rightarrow> Inl AttributeError)"

section \<open>Lemmas: the strides are suffix products\<close>

fun suffix_prods :: "int list \<Rightarrow> int list" where
  "suffix_prods [] = [1]"
| "suffix_prods (n # ns) = prod_list (n # ns) # suffix_prods ns"

fun strides :: "int list \<Rightarrow> int list" where
  "strides [] = []"
| "strides (n # ns) = prod_list ns # strides ns"

fun cumprod :: "int \<Rightarrow> int list \<Rightarrow> int list" where
  "cumprod acc [] = []"
| "cumprod acc (x # xs) = acc * x # cumprod (acc * x) xs"

lemma wrap64_id: "- (2 ^ 63) \<le> x \<Longrightarrow> x < 2 ^ 63 \<Longrightarrow> wrap64 x = x"
  by (simp add: wrap64_def)

lemma wrap64_bounds: "- (2 ^ 63) \<le> wrap64 x \<and> wrap64 x < 2 ^ 63"
proof -
  have "0 \<le> (x + 2 ^ 63) mod 2 ^ 64" "(x + 2 ^ 63) mod 2 ^ 64 < 2 ^ 64" by simp_all
  then show ?thesis by (simp add: wrap64_def)
qed

lemma prod_list_pos: "\<forall>x\<in>set xs. 0 < x \<Longrightarrow> 0 < prod_list (xs :: int list)"
  by (induction xs) auto

lemma np_cumprod_from_eq:
  "0 < acc \<Longrightarrow> \<forall>x\<in>set xs. 0 < x \<Longrightarrow> acc * prod_list xs < 2 ^ 63
   \<Longrightarrow> np_cumprod_from acc xs = cumprod acc xs"
proof (induction xs arbitrary: acc)
  case Nil
  then show ?case by simp
next
  case (Cons x xs)
  have pos: "0 < acc * x" using Cons.prems by simp
  have "1 \<le> prod_list xs" using prod_list_pos [of xs] Cons.prems by force
  then have "acc * x \<le> acc * x * prod_list xs" using pos by (simp add: mult_le_cancel_left1)
  also have "\<dots> < 2 ^ 63" using Cons.prems by (simp add: mult.assoc)
  finally have "wrap64 (acc * x) = acc * x" using pos by (intro wrap64_id) auto
  with Cons pos show ?case by (simp add: Let_def mult.assoc)
qed

lemma cumprod_append: "cumprod acc (xs @ [x]) = cumprod acc xs @ [acc * prod_list xs * x]"
  by (induction xs arbitrary: acc) (simp_all add: mult.assoc)

lemma prod_list_rev [simp]: "prod_list (rev xs) = prod_list (xs :: int list)"
  by (induction xs) (simp_all add: mult.commute)

lemma rev_cumprod: "rev (cumprod 1 (rev ns)) @ [1] = suffix_prods ns"
  by (induction ns) (simp_all add: cumprod_append mult.commute)

lemma drop_suffix_prods: "drop 1 (suffix_prods ns) = strides ns"
proof (induction ns)
  case Nil
  then show ?case by simp
next
  case (Cons n ns)
  then show ?case by (cases ns) simp_all
qed

lemma length_strides [simp]: "length (strides ns) = length ns"
  by (induction ns) auto

lemma assign_godel_strides:
  assumes "\<forall>p\<in>set ps. 0 < nchoices p" "prod_list (map (int \<circ> nchoices) ps) < 2 ^ 63"
  shows "assign_godel_number ps
           = map2 (\<lambda>m c. m\<lparr>tp_godel := c\<rparr>) ps (strides (map (int \<circ> nchoices) ps))"
proof -
  let ?ns = "map (int \<circ> nchoices) ps"
  have pos: "\<forall>x\<in>set (rev ?ns). 0 < x" using assms(1) by auto
  have "np_cumprod (rev (?ns @ [1])) = 1 # np_cumprod_from 1 (rev ?ns)"
    by (simp add: np_cumprod_def Let_def wrap64_def)
  also have "np_cumprod_from 1 (rev ?ns) = cumprod 1 (rev ?ns)"
    using pos assms(2) by (intro np_cumprod_from_eq) auto
  finally have np: "np_cumprod (rev (?ns @ [1])) = 1 # cumprod 1 (rev ?ns)" .
  have "rev (np_cumprod (rev (?ns @ [1]))) = suffix_prods ?ns"
    by (simp only: np) (simp add: rev_cumprod)
  then show ?thesis
    by (simp add: assign_godel_number_def Let_def drop_suffix_prods comp_def
        flip: drop_suffix_prods del: One_nat_def)
qed

lemma nchoices_update [simp]: "nchoices (m\<lparr>tp_godel := c\<rparr>) = nchoices m"
  by (simp add: nchoices_def)

lemma assign_godel_nchoices:
  "\<forall>p\<in>set ps. 0 < nchoices p \<Longrightarrow> prod_list (map (int \<circ> nchoices) ps) < 2 ^ 63
   \<Longrightarrow> map nchoices (assign_godel_number ps) = map nchoices ps
     \<and> map tp_godel (assign_godel_number ps) = strides (map (int \<circ> nchoices) ps)"
  by (auto simp: assign_godel_strides intro!: nth_equalityI)

text \<open>
  The mixed-radix enumeration: weighting the combinations of choices, in the order of
  \<open>itertools.product\<close>, with the strides counts from 0 without gaps.
\<close>

definition weigh :: "int list \<Rightarrow> nat list \<Rightarrow> int" where
  "weigh ss sel = sum_list (map2 (\<lambda>k s. int k * s) sel ss)"

lemma concat_blocks: "concat (map (\<lambda>x. map (\<lambda>k. x * m + k) [0..<m]) [0..<n]) = [0..<n * m]"
proof (induction n)
  case 0
  then show ?case by simp
next
  case (Suc n)
  have "map (\<lambda>k. n * m + k) [0..<m] = [n * m..<n * m + m]"
    by (simp add: map_add_upt add.commute)
  moreover have "[0..<n * m] @ [n * m..<n * m + m] = [0..<Suc n * m]"
    by (metis add.commute mult_Suc upt_add_eq_append zero_le)
  ultimately show ?case using Suc by simp
qed

lemma weigh_Cons [simp]: "weigh (s # ss) (k # ks) = int k * s + weigh ss ks"
  by (simp add: weigh_def)

lemma weigh_product:
  "map (weigh (strides (map int ns))) (product_lists (map (\<lambda>n. [0..<n]) ns))
     = map int [0..<prod_list ns]"
proof (induction ns)
  case Nil
  then show ?case by (simp add: weigh_def)
next
  case (Cons n ns)
  let ?m = "prod_list ns" and ?P = "product_lists (map (\<lambda>n. [0..<n]) ns)"
  let ?w = "weigh (strides (map int ns))"
  have m: "prod_list (map int ns) = int ?m" by (induction ns) auto
  have "map (weigh (strides (map int (n # ns)))) (product_lists (map (\<lambda>n. [0..<n]) (n # ns)))
      = concat (map (\<lambda>x. map (\<lambda>ks. int x * int ?m + ?w ks) ?P) [0..<n])"
    by (simp add: map_concat comp_def m)
  also have "\<dots> = concat (map (\<lambda>x. map (\<lambda>k. int x * int ?m + k) (map ?w ?P)) [0..<n])"
    by (simp add: comp_def)
  also have "\<dots> = map int (concat (map (\<lambda>x. map (\<lambda>k. x * ?m + k) [0..<?m]) [0..<n]))"
    by (simp only: Cons.IH) (simp add: map_concat comp_def)
  also have "\<dots> = map int [0..<prod_list (n # ns)]" by (simp only: concat_blocks) simp
  finally show ?case .
qed

text \<open>The initialisation passes change neither the number of choices nor the number of parameters.\<close>

lemma set_choice_nchoices [simp]: "map nchoices (set_choice ps i j c) = map nchoices ps"
proof (cases "i < length ps")
  case True
  then show ?thesis by (simp add: set_choice_def map_update nchoices_def list_update_same_conv)
next
  case False
  then show ?thesis by (simp add: set_choice_def list_update_beyond)
qed

lemma rank_choices_nchoices:
  "rank_choices n ix names RANKS i js ps = Inr ps' \<Longrightarrow> map nchoices ps' = map nchoices ps"
proof (induction n ix names RANKS i js ps arbitrary: ps' rule: rank_choices.induct)
  case (1 n ix names RANKS i ps)
  then show ?case by simp
next
  case (2 n ix names RANKS i j js ps)
  then show ?case
    by (fastforce simp: res_iffs split: tc.splits nat.splits)
qed

end
