(* ===== verification/GpuTargets.thy ===== *)
theory GpuTargets
  imports Prelude
begin

text \<open>
  \<open>v3python/gpu_targets.py\<close>: the tables of supported GPUs, the architecture of a GPU, the
  clustering of GPUs by architecture that every code generator iterates over, and the
  selection of GPUs from the command line.
\<close>

section \<open>Tables\<close>

definition AOTRITON_SUPPORTED_GPUS :: "string list" where
  "AOTRITON_SUPPORTED_GPUS =
     [''gfx90a_mod0'', ''gfx942_mod0'', ''gfx950_mod0'', ''gfx1100_mod0'', ''gfx1101_mod0'',
      ''gfx1102_mod0'', ''gfx1103_mod0'', ''gfx1150_mod0'', ''gfx1151_mod0'', ''gfx1152_mod0'',
      ''gfx1153_mod0'', ''gfx1201_mod0'', ''gfx1200_mod0'', ''gfx1250_mod0'']"

definition AOTRITON_TUNING_DATABASE_REUSE :: "(string, string) dict" where
  "AOTRITON_TUNING_DATABASE_REUSE =
     [(''gfx1101_mod0'', ''gfx1100_mod0''), (''gfx1102_mod0'', ''gfx1100_mod0''),
      (''gfx1103_mod0'', ''gfx1100_mod0''), (''gfx1200_mod0'', ''gfx1201_mod0''),
      (''gfx1150_mod0'', ''gfx1100_mod0''), (''gfx1151_mod0'', ''gfx1100_mod0''),
      (''gfx1152_mod0'', ''gfx1100_mod0''), (''gfx1153_mod0'', ''gfx1100_mod0''),
      (''gfx1250_mod0'', ''gfx942_mod0'')]"

definition AOTRITON_ARCH_TO_PACK :: "(string, string) dict" where
  "AOTRITON_ARCH_TO_PACK =
     [(''gfx90a'', ''gfx90a''), (''gfx942'', ''gfx942''), (''gfx950'', ''gfx950''),
      (''gfx1100'', ''gfx110x''), (''gfx1101'', ''gfx110x''), (''gfx1102'', ''gfx110x''),
      (''gfx1103'', ''gfx110x''), (''gfx1150'', ''gfx115x''), (''gfx1151'', ''gfx115x''),
      (''gfx1152'', ''gfx115x''), (''gfx1153'', ''gfx115x''), (''gfx1201'', ''gfx120x''),
      (''gfx1200'', ''gfx120x''), (''gfx1250'', ''gfx1250'')]"

definition AOTRITON_ARCH_TO_DIRECTORY :: "(string, string) dict" where
  "AOTRITON_ARCH_TO_DIRECTORY = dict_of (map (\<lambda>(k, v). (k, ''amd-'' @ v)) AOTRITON_ARCH_TO_PACK)"

definition AOTRITON_ARCH_WARPSIZE :: "(string, nat) dict" where
  "AOTRITON_ARCH_WARPSIZE =
     [(''gfx90a'', 64), (''gfx942'', 64), (''gfx950'', 64), (''gfx1100'', 32), (''gfx1101'', 32),
      (''gfx1102'', 32), (''gfx1103'', 32), (''gfx1150'', 32), (''gfx1151'', 32),
      (''gfx1152'', 32), (''gfx1153'', 32), (''gfx1201'', 32), (''gfx1200'', 32),
      (''gfx1250'', 32), (''gfx1251'', 32)]"

section \<open>Functions\<close>

definition gpu2arch :: "string \<Rightarrow> string" where
  "gpu2arch gpu = before_first ''_mod'' gpu"

text \<open>The loop body of \<open>cluster_gpus\<close>: \<open>ret[arch].append(gpu)\<close> on a \<open>defaultdict(list)\<close>.\<close>

definition cluster_step :: "string \<Rightarrow> (string, string list) dict \<Rightarrow> (string, string list) dict" where
  "cluster_step gpu ret =
     (let arch = gpu2arch gpu
      in dset ret arch ((case dget ret arch of None \<Rightarrow> [] | Some l \<Rightarrow> l) @ [gpu]))"

definition cluster_gpus :: "string list \<Rightarrow> (string, string list) dict" where
  "cluster_gpus gpus = map (\<lambda>(k, v). (k, sort v)) (fold cluster_step gpus [])"

text \<open>\<open>None\<close> for an argument that was not given; an empty list is falsy as well.\<close>

definition select_gpus :: "string list option \<Rightarrow> string list option \<Rightarrow> string list" where
  "select_gpus target_arch target_gpus =
     (case target_gpus of
        Some (g # gs) \<Rightarrow> g # gs
      | _ \<Rightarrow> (case target_arch of
                Some (a # as) \<Rightarrow>
                  filter (\<lambda>gpu. gpu2arch gpu \<in> set (a # as)) AOTRITON_SUPPORTED_GPUS
              | _ \<Rightarrow> []))"

text \<open>
  The outcome of \<open>main\<close> once its arguments are parsed: the text printed on stdout, or
  exit code 2 together with the requested and the filtered-out architectures, the supported
  ones and the argument that contains a comma, from which the message is formatted.
\<close>

datatype main_outcome =
    Printed string
  | ExitTwo (requested: "string list") (unsupported: "string list")
      (supported: "string list") (comma_blob: "string option")

definition truthy_list :: "'a list option \<Rightarrow> 'a list" where
  "truthy_list x = (case x of None \<Rightarrow> [] | Some l \<Rightarrow> l)"

definition gpu_main :: "string list option \<Rightarrow> string list option \<Rightarrow> main_outcome" where
  "gpu_main target_arch target_gpus =
     (let gpus = select_gpus target_arch target_gpus in
      if gpus = [] then
        let supp = sort (remdups (map gpu2arch AOTRITON_SUPPORTED_GPUS));
            req = (if truthy_list target_gpus \<noteq> [] then truthy_list target_gpus
                   else truthy_list target_arch);
            unsup = filter (\<lambda>a. a \<notin> set supp) (truthy_list target_arch);
            blob = find (\<lambda>a. CHR '','' \<in> set a) (truthy_list target_arch)
        in ExitTwo req unsup supp blob
      else Printed (join '';'' gpus))"

section \<open>Lemmas\<close>

lemma cluster_step_dget:
  "dget (cluster_step g ret) a =
     (if gpu2arch g = a then Some ((case dget ret a of None \<Rightarrow> [] | Some l \<Rightarrow> l) @ [g])
      else dget ret a)"
  by (auto simp: cluster_step_def Let_def)

text \<open>The dictionary the clustering loop has built after a prefix of the GPUs.\<close>

lemma cluster_fold_dget:
  "dget (fold cluster_step gpus ret) a =
     (if a \<in> gpu2arch ` set gpus
      then Some ((case dget ret a of None \<Rightarrow> [] | Some l \<Rightarrow> l)
                 @ filter (\<lambda>g. gpu2arch g = a) gpus)
      else dget ret a)"
proof (induction gpus arbitrary: ret)
  case Nil
  then show ?case by simp
next
  case (Cons g gpus)
  show ?case
    by (cases "gpu2arch g = a")
      (auto simp: Cons.IH cluster_step_dget split: option.splits)
qed

lemma cluster_fold_distinct:
  "distinct (map fst ret) \<Longrightarrow> distinct (map fst (fold cluster_step gpus ret))"
  by (induction gpus arbitrary: ret) (simp_all add: cluster_step_def Let_def)

lemma map_of_map_snd: "map_of (map (\<lambda>(k, v). (k, f v)) d) k = map_option f (map_of d k)"
  by (induction d) auto

lemma cluster_gpus_dget:
  "dget (cluster_gpus gpus) a =
     (if a \<in> gpu2arch ` set gpus then Some (sort (filter (\<lambda>g. gpu2arch g = a) gpus)) else None)"
  by (simp add: cluster_gpus_def map_of_map_snd cluster_fold_dget)

lemma cluster_gpus_distinct: "distinct (map fst (cluster_gpus gpus))"
proof -
  have "map fst (cluster_gpus gpus) = map fst (fold cluster_step gpus [])"
    by (simp add: cluster_gpus_def case_prod_beta comp_def)
  then show ?thesis by (simp add: cluster_fold_distinct)
qed

text \<open>
  clustering loses no GPU, invents none and mixes no architectures: the keys are distinct
  and are exactly the architectures of the given GPUs, and the cluster of an architecture is
  sorted and holds precisely the given GPUs of that architecture, duplicates included.
\<close>

lemma cluster_gpus_partition:
  "distinct (map fst (cluster_gpus gpus))
   \<and> fst ` set (cluster_gpus gpus) = gpu2arch ` set gpus
   \<and> list_all (\<lambda>(arch, l). l \<noteq> [] \<and> sorted l
                     \<and> mset l = mset (filter (\<lambda>g. gpu2arch g = arch) gpus)) (cluster_gpus gpus)"
proof (intro conjI)
  show d: "distinct (map fst (cluster_gpus gpus))" by (rule cluster_gpus_distinct)
  show "fst ` set (cluster_gpus gpus) = gpu2arch ` set gpus"
    by (auto simp: dom_map_of_conv_image_fst [symmetric] dom_def cluster_gpus_dget)
  have "l \<noteq> [] \<and> sorted l \<and> mset l = mset (filter (\<lambda>g. gpu2arch g = arch) gpus)"
    if "(arch, l) \<in> set (cluster_gpus gpus)" for arch l
  proof -
    have "dget (cluster_gpus gpus) arch = Some l" using d that by simp
    then have l: "l = sort (filter (\<lambda>g. gpu2arch g = arch) gpus)"
      and a: "arch \<in> gpu2arch ` set gpus"
      by (auto simp: cluster_gpus_dget split: if_splits)
    then have "filter (\<lambda>g. gpu2arch g = arch) gpus \<noteq> []" by (auto simp: filter_empty_conv)
    then have "l \<noteq> []" using l by (metis mset_sort mset_zero_iff)
    with l show ?thesis by simp
  qed
  then show "list_all (\<lambda>(arch, l). l \<noteq> [] \<and> sorted l
                     \<and> mset l = mset (filter (\<lambda>g. gpu2arch g = arch) gpus)) (cluster_gpus gpus)"
    by (auto simp: list_all_iff)
qed

end
