(* ===== verification/Functional.thy ===== *)
theory Functional
  imports Parameter GpuTargets
begin

text \<open>
  \<open>v3python/base/functional.py\<close> and \<open>interface.py\<close>: the functionals of an interface (one per
  architecture and combination of choices), the settling of conditional choices, the
  construction of an interface from its choice tables and the enumeration of its functionals.
\<close>

section \<open>Functional\<close>

record functional =
  f_family :: string
  f_name :: string
  f_arch :: string
  f_arch_number :: nat
  f_binds :: "bind list"
  f_optimized_for :: "string list"
  f_database_gpus :: "string list"
  f_compact_dict :: "(string, tc) dict"

definition build_tc_dict :: "bind list \<Rightarrow> (string, tc) dict" where
  "build_tc_dict args = dict_of (map (\<lambda>b. (b_name b, b_value b)) args)"

definition build_compact_dict :: "bind list \<Rightarrow> (string, tc) dict" where
  "build_compact_dict args =
     dict_of (map (\<lambda>b. (b_name b, b_value b)) (filter show_in_compact args))"

definition build_complete_dict :: "bind list \<Rightarrow> (string, bind) dict" where
  "build_complete_dict args =
     dict_of (concat (map (\<lambda>b. map (\<lambda>aname. (aname, b)) (tp_names (b_klass b))) args))"

text \<open>
  One round of \<open>__settle_conditional_values\<close>: the dictionary is built once, from the values
  before the round. The loop itself may never end, so it is a partial function: None is not
  returning, \<open>Some (Inl e)\<close> is an exception.
\<close>

definition settle_round :: "bind list \<Rightarrow> bind list res" where
  "settle_round binds = rtraverse (settle_unresolved (build_tc_dict binds)) binds"

partial_function (option) settle_conditional_values :: "bind list \<Rightarrow> bind list res option" where
  "settle_conditional_values binds =
     (if list_ex is_unresolved binds then
        (case settle_round binds of
           Inl e \<Rightarrow> Some (Inl e)
         | Inr binds' \<Rightarrow> settle_conditional_values binds')
      else Some (Inr binds))"

declare settle_conditional_values.simps [code]

definition mk_functional ::
  "string \<Rightarrow> string \<Rightarrow> string \<Rightarrow> nat \<Rightarrow> bind list \<Rightarrow> string list \<Rightarrow> functional res option" where
  "mk_functional family name arch arch_number binds optimized_for =
     map_option (rmap (\<lambda>bs.
       \<lparr>f_family = family, f_name = name, f_arch = arch, f_arch_number = arch_number,
        f_binds = bs, f_optimized_for = optimized_for,
        f_database_gpus = map (\<lambda>gpu. case dget AOTRITON_TUNING_DATABASE_REUSE gpu of
                                       None \<Rightarrow> gpu | Some g \<Rightarrow> g) optimized_for,
        f_compact_dict = build_compact_dict bs\<rparr>))
       (settle_conditional_values binds)"

definition noptimized_for :: "functional \<Rightarrow> nat" where
  "noptimized_for f = length (f_optimized_for f)"

text \<open>\<open>sum([s.godel_number for s in self._binds])\<close>, a sum of int64 values.\<close>

definition godel_number :: "functional \<Rightarrow> int res" where
  "godel_number f =
     rmap (foldl (\<lambda>acc g. wrap64 (acc + g)) 0) (rtraverse bind_godel (f_binds f))"

definition unified_signature :: "functional \<Rightarrow> string res" where
  "unified_signature f =
     rmap (join '';'')
       (rtraverse (\<lambda>b. case b_value b of
                         Settled c \<Rightarrow> Inr (b_name b @ ''='' @ testrun_entry_signature c)
                       | _ \<Rightarrow> Inl TypeError)
         (filter show_in_compact (f_binds f)))"

definition signature_in_func_name :: "functional \<Rightarrow> string res" where
  "signature_in_func_name f =
     rmap (\<lambda>l. join ''_'' (map (\<lambda>s. case s of None \<Rightarrow> [] | Some t \<Rightarrow> t) l))
       (rtraverse bind_signature_in_func_name (filter show_in_compact (f_binds f)))"

definition f_human_readable_signature :: "functional \<Rightarrow> string res" where
  "f_human_readable_signature f =
     rmap (\<lambda>lf. ''Human-readable Signature '' @ [CHR 0x0A] @ ''// ''
                 @ join ([CHR 0x0A] @ ''// '') (map the (filter (\<lambda>x. x \<noteq> None) lf)))
       (rtraverse human_readable_signature (f_binds f))"

text \<open>
  Paths are given as their components. \<open>sha256\<close> stands for hashlib's hex digest of the
  encoded text.
\<close>

definition filepack_ondisk_path :: "(string \<Rightarrow> string) \<Rightarrow> functional \<Rightarrow> string list res" where
  "filepack_ondisk_path sha256 f =
     rbind (unified_signature f) (\<lambda>sig.
     rmap (\<lambda>d. [d, f_family f, f_name f, sha256 sig])
       (of_option KeyError (dget AOTRITON_ARCH_TO_DIRECTORY (f_arch f))))"

definition filepack_inzip_name :: "functional \<Rightarrow> string res" where
  "filepack_inzip_name f = unified_signature f"

definition full_flatzip_path :: "functional \<Rightarrow> string list res" where
  "full_flatzip_path f =
     rmap (\<lambda>d. [d, f_family f, f_name f @ ''.zip''])
       (of_option KeyError (dget AOTRITON_ARCH_TO_DIRECTORY (f_arch f)))"

definition full_filepack_dir :: "functional \<Rightarrow> string list res" where
  "full_filepack_dir f =
     rmap (\<lambda>d. [d, f_family f, f_name f])
       (of_option KeyError (dget AOTRITON_ARCH_TO_DIRECTORY (f_arch f)))"

definition tunecc_signature :: "functional \<Rightarrow> string res" where
  "tunecc_signature f =
     rmap (\<lambda>sig. ''#F;'' @ sig @ '';;arch='' @ f_arch f) (unified_signature f)"

definition compact_signature_noarch :: "functional \<Rightarrow> string res" where
  "compact_signature_noarch f = rmap (\<lambda>sf. ''F__'' @ sf) (signature_in_func_name f)"

text \<open>\<open>build_complete_tc_dict\<close>: every argument name with its typed value.\<close>

definition build_complete_tc_dict ::
  "(string \<Rightarrow> tparam option) \<Rightarrow> functional \<Rightarrow> (string, stc) dict res" where
  "build_complete_tc_dict tp_dict f =
     rmap dict_of
       (rtraverse (\<lambda>(aname, b). rmap (\<lambda>c. (aname, c)) (get_typed_value tp_dict b aname))
         (build_complete_dict (f_binds f)))"

text \<open>\<open>fallback_choices\<close>, through \<open>Interface.fallback_compact_dict\<close>.\<close>

definition fallback_compact_dict ::
  "(string, tc) dict \<Rightarrow> (string, tc) dict \<Rightarrow> (string, tc) dict" where
  "fallback_compact_dict PARTIALLY_TUNED_FUNCTIONALS compact_dict =
     dict_of (map (\<lambda>(k, v). (k, case dget PARTIALLY_TUNED_FUNCTIONALS k of
                                    None \<Rightarrow> v | Some v' \<Rightarrow> v')) compact_dict)"

section \<open>Interface\<close>

text \<open>
  The class attributes of an interface. A key of a choice table is a frozenset or a tuple of
  argument names; the list is the order in which Python iterates over it.
\<close>

record iface_class =
  ic_family :: string
  ic_name :: string
  ic_arguments :: "string list"
  ic_type_choices :: "(string list \<times> choices_lit) list option"
  ic_feat_choices :: "(string list \<times> choices_lit) list option"
  ic_tensor_ranks :: "(string, int) dict option"
  ic_tensor_stride_inputs :: "(string, string list \<times> (string \<times> pyval) option) dict option"
  ic_choice_filters :: "(string, choice_lit \<Rightarrow> bool) dict option"

text \<open>
  \<open>_collect_functionals_from_shared\<close>: tables the class does not set are taken from the shared
  interface, restricted to the arguments of this one.
\<close>

definition remove_missing :: "string list \<Rightarrow> string list \<Rightarrow> string list res" where
  "remove_missing ARGUMENTS args =
     rmap (\<lambda>l. map fst (sort_key snd l))
       (rtraverse (\<lambda>a. rmap (\<lambda>i. (a, i)) (py_index ARGUMENTS a))
         (filter (\<lambda>a. a \<in> set ARGUMENTS) args))"

text \<open>
  The loop over \<open>key\<close> returns at the first argument that has a filter. Filtering rebuilds the
  list, so a numpy array becomes a plain list of its elements.
\<close>

definition choices_elems :: "choices_lit \<Rightarrow> choice_lit list" where
  "choices_elems c = (case c of NdArray d vs \<Rightarrow> map Lit vs | Plain vs \<Rightarrow> vs)"

fun remove_unsupported ::
  "(string, choice_lit \<Rightarrow> bool) dict \<Rightarrow> string list \<Rightarrow> choices_lit \<Rightarrow> choices_lit" where
  "remove_unsupported filters [] values = values"
| "remove_unsupported filters (k # ks) values =
     (case dget filters k of
        Some p \<Rightarrow> Plain (filter p (choices_elems values))
      | None \<Rightarrow> remove_unsupported filters ks values)"

definition list_key_set :: "(string list \<times> 'v) list \<Rightarrow> string list \<Rightarrow> 'v \<Rightarrow> (string list \<times> 'v) list" where
  "list_key_set d k v = dset d k v"

definition shared_choices ::
  "iface_class \<Rightarrow> (string list \<times> choices_lit) list \<Rightarrow> (string list \<times> choices_lit) list res" where
  "shared_choices ic mattr =
     rmap (\<lambda>l. dict_of (filter (\<lambda>(args, v). args \<noteq> []) l))
       (rtraverse (\<lambda>(k, v).
          rmap (\<lambda>args. (args, case ic_choice_filters ic of
                                None \<Rightarrow> v
                              | Some fs \<Rightarrow> remove_unsupported fs k v))
            (remove_missing (ic_arguments ic) k))
          mattr)"

definition collect_functionals_from_shared ::
  "iface_class option \<Rightarrow> iface_class \<Rightarrow> iface_class res" where
  "collect_functionals_from_shared shared ic =
     (case shared of
        None \<Rightarrow> Inr ic
      | Some m \<Rightarrow>
          rbind (case ic_type_choices ic of
                   Some _ \<Rightarrow> Inr ic
                 | None \<Rightarrow> rbind (of_option AttributeError (ic_type_choices m)) (\<lambda>t.
                     rmap (\<lambda>d. ic\<lparr>ic_type_choices := Some d\<rparr>) (shared_choices ic t))) (\<lambda>ic.
          rbind (case ic_feat_choices ic of
                   Some _ \<Rightarrow> Inr ic
                 | None \<Rightarrow> rbind (of_option AttributeError (ic_feat_choices m)) (\<lambda>t.
                     rmap (\<lambda>d. ic\<lparr>ic_feat_choices := Some d\<rparr>) (shared_choices ic t))) (\<lambda>ic.
          rbind (case ic_tensor_ranks ic of
                   Some _ \<Rightarrow> Inr ic
                 | None \<Rightarrow> rmap (\<lambda>t. ic\<lparr>ic_tensor_ranks :=
                       Some (filter (\<lambda>(k, v). k \<in> set (ic_arguments ic)) t)\<rparr>)
                     (of_option AttributeError (ic_tensor_ranks m))) (\<lambda>ic.
          rbind (case ic_tensor_stride_inputs ic of
                   Some _ \<Rightarrow> Inr ic
                 | None \<Rightarrow> rmap (\<lambda>t. ic\<lparr>ic_tensor_stride_inputs :=
                       Some (filter (\<lambda>(k, v). k \<in> set (ic_arguments ic)) t)\<rparr>)
                     (of_option AttributeError (ic_tensor_stride_inputs m))) (\<lambda>ic.
          rbind (of_option TypeError (ic_tensor_ranks m)) (\<lambda>mr.
          rbind (of_option KeyError (dget mr ''_default'')) (\<lambda>dflt.
          Inr (ic\<lparr>ic_tensor_ranks :=
                 Some (dset (case ic_tensor_ranks ic of None \<Rightarrow> [] | Some r \<Rightarrow> r) ''_default'' dflt)\<rparr>))))))))"

text \<open>
  \<open>_insert_tensor_strides_to_choices\<close>. With \<open>delete_when\<close> the stride becomes the constant 0
  when the feature has the given value: \<open>parse_choices([0])\<close> makes an int8 constexpr of it.
\<close>

definition stride_choice :: "(string \<times> pyval) option \<Rightarrow> tc" where
  "stride_choice delete_when =
     (case delete_when of
        None \<Rightarrow> Settled (Scalar Stride_a8)
      | Some (feat, feat_value) \<Rightarrow>
          ConditionalConstexpr feat (CondIn [feat_value]) (Constexpr CxInt8 (PInt 0))
            (Scalar Stride_a8))"

definition insert_strides ::
  "bool \<Rightarrow> string list \<times> (string \<times> pyval) option
   \<Rightarrow> (string list \<times> choices_lit) list \<times> (string list \<times> choices_lit) list
   \<Rightarrow> (string list \<times> choices_lit) list \<times> (string list \<times> choices_lit) list" where
  "insert_strides last_is_continuous sd tf =
     (let (strides, delete_when) = sd; (types, feats) = tf;
          typed_strides = (if last_is_continuous then butlast strides else strides);
          constant_strides = (if last_is_continuous then drop (length strides - 1) strides else []);
          types = list_key_set types typed_strides (Plain [Typed (stride_choice delete_when)]);
          feats = (if constant_strides = [] then feats
                   else list_key_set feats constant_strides (Plain [Typed (Settled stride1)]))
      in (types, feats))"

definition insert_tensor_strides_to_choices :: "bool \<Rightarrow> iface_class \<Rightarrow> iface_class res" where
  "insert_tensor_strides_to_choices last_is_continuous ic =
     rbind (of_option AttributeError (ic_tensor_stride_inputs ic)) (\<lambda>inputs.
     rbind (of_option TypeError (ic_type_choices ic)) (\<lambda>types.
     rbind (of_option TypeError (ic_feat_choices ic)) (\<lambda>feats.
       let (types', feats') = fold (\<lambda>(t, sd). insert_strides last_is_continuous sd) inputs (types, feats)
       in Inr (ic\<lparr>ic_type_choices := Some types', ic_feat_choices := Some feats'\<rparr>))))"

text \<open>
  An initialised interface: \<open>if_func_params\<close> sorted and numbered, \<open>if_perf_params\<close> the other
  parameters, \<open>if_godel\<close> the number of functionals per architecture.
\<close>

record iface =
  if_class :: iface_class
  if_func_params :: "tparam list"
  if_perf_params :: "tparam list"
  if_godel :: int
  if_func_cfields :: "cfield list"

definition if_tp_dict :: "iface \<Rightarrow> string \<Rightarrow> tparam option" where
  "if_tp_dict i = tp_lookup (if_func_params i @ if_perf_params i)"

text \<open>\<open>Interface.__init__\<close>.\<close>

definition iface_init :: "iface_class option \<Rightarrow> iface_class \<Rightarrow> (iface_class \<times> tparam list) res" where
  "iface_init shared ic =
     rbind (collect_functionals_from_shared shared ic) (\<lambda>ic.
     rbind (insert_tensor_strides_to_choices True ic) (\<lambda>ic.
     rbind (of_option AttributeError (ic_type_choices ic)) (\<lambda>types.
     rbind (of_option AttributeError (ic_feat_choices ic)) (\<lambda>feats.
     rmap (\<lambda>ps. (ic, ps)) (rtraverse (\<lambda>(k, v). mk_tparam k v) (types @ feats))))))"

text \<open>
  \<open>Interface._late_init\<close>: the functional parameters come first in the list that \<open>late_init\<close>
  works on; they are then sorted by first appearance (a stable sort) and numbered.
\<close>

definition number_params :: "tparam list \<Rightarrow> (tparam list \<times> int) res" where
  "number_params ps =
     (let sorted_ps = assign_godel_number (sort_key tp_first ps)
      in rmap (\<lambda>p. (sorted_ps, wrap64 (tp_godel p * int (nchoices p)))) (py_nth sorted_ps 0))"

definition iface_late_init :: "iface_class \<Rightarrow> tparam list \<Rightarrow> tparam list \<Rightarrow> iface res" where
  "iface_late_init ic func_params perf_params =
     (let ps = func_params @ perf_params; ix = tp_index ps; nf = length func_params in
      rbind (of_option TypeError (ic_tensor_ranks ic)) (\<lambda>RANKS.
      rbind (late_init_all (ic_arguments ic) ix RANKS [0..<length ps] ps) (\<lambda>ps'.
      rbind (number_params (take nf ps')) (\<lambda>(sorted_ps, g).
        let perf = drop nf ps'; tp_dict = tp_lookup (sorted_ps @ perf) in
      rmap (\<lambda>cfs. \<lparr>if_class = ic, if_func_params = sorted_ps, if_perf_params = perf, if_godel = g,
                   if_func_cfields = sort_key cf_index (concat cfs)\<rparr>)
        (rtraverse (get_cfields tp_dict) sorted_ps)))))"

text \<open>
  \<open>gen_functionals\<close>: for every architecture, in the order of the clustering, and every
  combination of choices, in the order of \<open>itertools.product\<close>. None: a functional whose
  conditional choices never settle.
\<close>

fun create_binds_from_nths :: "tparam list \<Rightarrow> nat list \<Rightarrow> bind list res" where
  "create_binds_from_nths (tp # tps) (k # ks) =
     rbind (create_nth tp (int k)) (\<lambda>b. rmap ((#) b) (create_binds_from_nths tps ks))"
| "create_binds_from_nths _ _ = Inr []"

definition gen_one ::
  "iface \<Rightarrow> nat \<Rightarrow> string \<Rightarrow> string list \<Rightarrow> nat list \<Rightarrow> functional res option" where
  "gen_one i arch_number arch gpus sel =
     (case create_binds_from_nths (if_func_params i) sel of
        Inl e \<Rightarrow> Some (Inl e)
      | Inr binds \<Rightarrow> mk_functional (ic_family (if_class i)) (ic_name (if_class i))
                       arch arch_number binds gpus)"

definition gen_functionals :: "iface \<Rightarrow> (string, string list) dict \<Rightarrow> functional res option list" where
  "gen_functionals i target_arch =
     concat (map (\<lambda>(arch_number, arch, gpus).
         map (gen_one i arch_number arch gpus)
           (product_lists (map (\<lambda>p. [0..<nchoices p]) (if_func_params i))))
       (enumerate 0 target_arch))"

definition get_tensor_rank :: "iface_class \<Rightarrow> string \<Rightarrow> int res" where
  "get_tensor_rank ic tensor_arg =
     rbind (of_option AttributeError (ic_tensor_ranks ic)) (\<lambda>r.
     rbind (of_option KeyError (dget r ''_default'')) (\<lambda>dflt.
     Inr (case dget r tensor_arg of None \<Rightarrow> dflt | Some k \<Rightarrow> k)))"

definition unique_path :: "iface_class \<Rightarrow> string \<Rightarrow> string list" where
  "unique_path ic codegen_module = [ic_family ic, codegen_module, ic_name ic]"

section \<open>Lemmas\<close>

lemma late_init_nchoices:
  assumes "late_init ARGS ix RANKS i ps = Inr ps'"
  shows "map nchoices ps' = map nchoices ps"
proof -
  obtain tp where tp: "sort_arguments ARGS (ps ! i) = Inr tp"
    and rk: "rank_choices recursion_limit ix (tp_names tp) RANKS i [0..<nchoices tp] (ps[i := tp])
               = Inr ps'"
    using assms by (auto simp: late_init_def res_iffs)
  from tp have "nchoices tp = nchoices (ps ! i)"
    by (auto simp: sort_arguments_def res_iffs Let_def nchoices_def)
  then have "map nchoices (ps[i := tp]) = map nchoices ps"
    by (cases "i < length ps") (simp_all add: map_update list_update_same_conv list_update_beyond)
  with rank_choices_nchoices [OF rk] show ?thesis by simp
qed

lemma late_init_all_nchoices:
  "late_init_all ARGS ix RANKS is ps = Inr ps' \<Longrightarrow> map nchoices ps' = map nchoices ps"
  by (induction ARGS ix RANKS "is" ps arbitrary: ps' rule: late_init_all.induct)
    (auto simp: res_iffs dest: late_init_nchoices)

lemma prod_list_mset_eq: "mset xs = mset ys \<Longrightarrow> prod_list xs = prod_list (ys :: nat list)"
  by (metis prod_mset_prod_list)

lemma nchoices_pos_map: "(\<forall>p\<in>set ps. 0 < nchoices p) \<longleftrightarrow> (\<forall>n\<in>set (map nchoices ps). 0 < n)"
  by simp

lemma int_prod_list: "int (prod_list ns) = prod_list (map int ns)"
  by (induction ns) auto

lemma map_comp_nchoices: "map (int \<circ> nchoices) ps = map int (map nchoices ps)"
  by simp

text \<open>What \<open>number_params\<close> leaves in an initialised interface.\<close>

definition numbered :: "tparam list \<Rightarrow> bool" where
  "numbered ps \<longleftrightarrow>
     (\<forall>p\<in>set ps. 0 < nchoices p) \<and> int (prod_list (map nchoices ps)) < 2 ^ 63
     \<and> map tp_godel ps = strides (map (int \<circ> nchoices) ps)"

lemma number_params_numbered:
  assumes "number_params ps = Inr (sps, g)"
    and pos: "\<forall>p\<in>set ps. 0 < nchoices p" and lt: "int (prod_list (map nchoices ps)) < 2 ^ 63"
  shows "numbered sps \<and> prod_list (map nchoices sps) = prod_list (map nchoices ps)
         \<and> g = int (prod_list (map nchoices ps))"
proof -
  let ?qs = "sort_key tp_first ps"
  have perm: "mset (map nchoices ?qs) = mset (map nchoices ps)" by simp
  then have pr: "prod_list (map nchoices ?qs) = prod_list (map nchoices ps)"
    by (rule prod_list_mset_eq)
  have posq: "\<forall>p\<in>set ?qs. 0 < nchoices p" using pos by simp
  have ltq: "prod_list (map (int \<circ> nchoices) ?qs) < 2 ^ 63"
    using lt pr by (simp only: map_comp_nchoices flip: int_prod_list)
  note asg = assign_godel_nchoices [OF posq ltq]
  from assms(1) have sps: "sps = assign_godel_number ?qs"
    and g: "\<exists>p. py_nth sps 0 = Inr p \<and> g = wrap64 (tp_godel p * int (nchoices p))"
    by (auto simp: number_params_def Let_def res_iffs)
  have nch: "map nchoices sps = map nchoices ?qs" using asg sps by simp
  have "numbered sps"
    unfolding numbered_def nchoices_pos_map map_comp_nchoices
    using asg nch posq ltq pr lt by (simp add: sps int_prod_list)
  moreover have "g = int (prod_list (map nchoices ps))"
  proof -
    from g obtain p rest where sp: "sps = p # rest" and gp: "g = wrap64 (tp_godel p * int (nchoices p))"
      by (cases sps) (auto simp: py_nth_def)
    have "map tp_godel sps = strides (map (int \<circ> nchoices) sps)"
      using \<open>numbered sps\<close> by (simp add: numbered_def)
    then have "tp_godel p * int (nchoices p) = int (prod_list (map nchoices sps))"
      by (simp add: sp int_prod_list comp_def mult.commute)
    then show ?thesis using gp lt pr nch by (simp add: wrap64_id)
  qed
  ultimately show ?thesis using nch pr by simp
qed

text \<open>The binds of one combination, and their numbers.\<close>

lemma create_binds_Inr:
  "list_all2 (\<lambda>k p. k < nchoices p) sel ps \<Longrightarrow>
   \<exists>bs. create_binds_from_nths ps sel = Inr bs
      \<and> map b_klass bs = ps \<and> map b_nth bs = map (\<lambda>k. Some (int k)) sel"
proof (induction sel ps rule: list_all2_induct)
  case Nil
  then show ?case by simp
next
  case (Cons k ks p ps)
  then show ?case by (auto simp: create_nth_def py_nth_nat nchoices_def mk_bind_def)
qed

lemma settle_unresolved_frame:
  "settle_unresolved d b = Inr b' \<Longrightarrow> b_klass b' = b_klass b \<and> b_nth b' = b_nth b"
  by (auto simp: settle_unresolved_def res_iffs split: if_splits)

lemma settle_round_frame:
  assumes "settle_round bs = Inr bs'"
  shows "map b_klass bs' = map b_klass bs \<and> map b_nth bs' = map b_nth bs"
proof -
  have "list_all2 (\<lambda>b b'. settle_unresolved (build_tc_dict bs) b = Inr b') bs bs'"
    using assms by (simp add: settle_round_def rtraverse_Inr_iff)
  then show ?thesis
    by (simp add: list_all2_conv_all_nth list_eq_iff_nth_eq) (metis settle_unresolved_frame)
qed

lemma settle_frame:
  assumes "settle_conditional_values bs = Some (Inr bs')"
  shows "map b_klass bs' = map b_klass bs \<and> map b_nth bs' = map b_nth bs"
proof -
  have "\<forall>r. y = Inr r \<longrightarrow> map b_klass r = map b_klass bs \<and> map b_nth r = map b_nth bs"
    if "settle_conditional_values bs = Some y" for y
  proof (rule settle_conditional_values.raw_induct [where P = "\<lambda>bs y. \<forall>r. y = Inr r \<longrightarrow>
        map b_klass r = map b_klass bs \<and> map b_nth r = map b_nth bs", OF _ that])
    fix f binds y
    assume IH: "\<And>bs y. f bs = Some y \<Longrightarrow>
        \<forall>r. y = Inr r \<longrightarrow> map b_klass r = map b_klass bs \<and> map b_nth r = map b_nth bs"
      and eq: "(if list_ex is_unresolved binds then
            (case settle_round binds of Inl e \<Rightarrow> Some (Inl e) | Inr binds' \<Rightarrow> f binds')
          else Some (Inr binds)) = Some y"
    show "\<forall>r. y = Inr r \<longrightarrow> map b_klass r = map b_klass binds \<and> map b_nth r = map b_nth binds"
    proof (cases "list_ex is_unresolved binds")
      case True
      show ?thesis
      proof (cases "settle_round binds")
        case (Inl e)
        with True eq show ?thesis by auto
      next
        case (Inr binds')
        with True eq have "f binds' = Some y" by simp
        from IH [OF this] settle_round_frame [OF Inr] show ?thesis by simp
      qed
    next
      case False
      with eq show ?thesis by auto
    qed
  qed
  with assms show ?thesis by simp
qed

lemma mk_functional_frame:
  assumes "mk_functional fam name arch k bs gpus = Some (Inr f)"
  shows "map b_klass (f_binds f) = map b_klass bs \<and> map b_nth (f_binds f) = map b_nth bs
         \<and> f_arch f = arch \<and> f_arch_number f = k"
proof -
  from assms obtain m where m: "settle_conditional_values bs = Some m"
    and f: "rmap (\<lambda>bs. \<lparr>f_family = fam, f_name = name, f_arch = arch, f_arch_number = k,
        f_binds = bs, f_optimized_for = gpus,
        f_database_gpus = map (\<lambda>gpu. case dget AOTRITON_TUNING_DATABASE_REUSE gpu of
                                       None \<Rightarrow> gpu | Some g \<Rightarrow> g) gpus,
        f_compact_dict = build_compact_dict bs\<rparr>) m = Inr f"
    by (auto simp: mk_functional_def)
  from f obtain bs' where bs': "m = Inr bs'" by (auto simp: rmap_Inr_iff)
  with m have "map b_klass bs' = map b_klass bs \<and> map b_nth bs' = map b_nth bs"
    by (intro settle_frame) simp
  with f bs' show ?thesis by auto
qed

lemma foldl_wrap_sum:
  "\<forall>x\<in>set xs. 0 \<le> x \<Longrightarrow> 0 \<le> acc \<Longrightarrow> acc + sum_list xs < 2 ^ 63
   \<Longrightarrow> foldl (\<lambda>a g. wrap64 (a + g)) acc xs = acc + sum_list xs"
proof (induction xs arbitrary: acc)
  case Nil
  then show ?case by simp
next
  case (Cons x xs)
  have "0 \<le> sum_list xs" using Cons.prems by (simp add: sum_list_nonneg)
  then have "wrap64 (acc + x) = acc + x" using Cons.prems by (intro wrap64_id) auto
  with Cons show ?case by (simp add: add.assoc)
qed

lemma strides_nonneg: "\<forall>n\<in>set ns. 0 < n \<Longrightarrow> \<forall>s\<in>set (strides ns). 0 < s"
  by (induction ns) (auto simp: prod_list_pos)

lemma map2_nonneg:
  "\<forall>s\<in>set ss. 0 < s \<Longrightarrow> \<forall>x\<in>set (map2 (\<lambda>k s. int k * s) sel ss). 0 \<le> x"
  by (auto dest!: set_zip_rightD intro!: mult_nonneg_nonneg)

lemma product_lists_weigh_lt:
  assumes "sel \<in> set (product_lists (map (\<lambda>n. [0..<n]) ns))"
  shows "weigh (strides (map int ns)) sel < int (prod_list ns)"
proof -
  have "weigh (strides (map int ns)) sel \<in> set (map int [0..<prod_list ns])"
    using assms by (simp flip: weigh_product)
  then show ?thesis by auto
qed

lemma map_nth_eq: "map f xs = ys \<Longrightarrow> i < length xs \<Longrightarrow> f (xs ! i) = ys ! i"
  by auto

text \<open>Every summand is below the total, so neither a product nor a partial sum wraps.\<close>

lemma bounded_terms:
  "\<forall>x\<in>set xs. 0 \<le> x \<Longrightarrow> x \<in> set xs \<Longrightarrow> x \<le> sum_list (xs :: int list)"
proof (induction xs)
  case Nil
  then show ?case by simp
next
  case (Cons y ys)
  have "0 \<le> sum_list ys" using Cons.prems by (simp add: sum_list_nonneg)
  moreover have "x = y \<or> x \<le> sum_list ys" using Cons by auto
  moreover have "0 \<le> y" using Cons.prems by simp
  ultimately show ?case by auto
qed

lemma godel_number_weigh:
  assumes num: "numbered ps"
    and sel: "sel \<in> set (product_lists (map (\<lambda>p. [0..<nchoices p]) ps))"
    and kl: "map b_klass bs = ps" and nt: "map b_nth bs = map (\<lambda>k. Some (int k)) sel"
    and fb: "f_binds f = bs"
  shows "godel_number f = Inr (weigh (strides (map int (map nchoices ps))) sel)"
proof -
  let ?ss = "strides (map int (map nchoices ps))"
  let ?terms = "map2 (\<lambda>k s. int k * s) sel ?ss"
  have ss: "map tp_godel ps = ?ss" using num by (simp add: numbered_def)
  have pos: "\<forall>s\<in>set ?ss. 0 < s" using num by (intro strides_nonneg) (auto simp: numbered_def)
  have nn: "\<forall>x\<in>set ?terms. 0 \<le> x" using pos by (rule map2_nonneg)
  have "sel \<in> set (product_lists (map (\<lambda>n. [0..<n]) (map nchoices ps)))"
    using sel by (simp add: comp_def)
  then have lt: "sum_list ?terms < 2 ^ 63"
    using product_lists_weigh_lt [of sel "map nchoices ps"] num
    by (simp add: weigh_def numbered_def)
  have len: "length sel = length bs" using nt by (metis length_map)
  have "rtraverse bind_godel bs = Inr ?terms"
    unfolding rtraverse_Inr_iff list_all2_conv_all_nth
  proof (intro conjI allI impI)
    show ln: "length bs = length ?terms" using len kl by auto
    fix i
    assume i: "i < length bs"
    have bi: "b_nth (bs ! i) = Some (int (sel ! i))"
      using arg_cong [OF nt, of "\<lambda>l. l ! i"] i len by simp
    have ip: "i < length ps" using arg_cong [OF kl, of length] i by simp
    have gi: "tp_godel (b_klass (bs ! i)) = ?ss ! i"
      by (rule trans [OF arg_cong [where f = tp_godel, OF map_nth_eq [OF kl i]] map_nth_eq [OF ss ip]])
    have isel: "i < length sel" and iss: "i < length ?ss" using i len ip by simp_all
    then have ti: "?terms ! i = int (sel ! i) * ?ss ! i" by (simp del: map_map)
    have "i < length ?terms" using isel iss by (simp del: map_map)
    then have "?terms ! i \<in> set ?terms" by (rule nth_mem)
    then have "0 \<le> ?terms ! i" "?terms ! i \<le> sum_list ?terms"
      using nn bounded_terms [OF nn] by blast+
    with lt have "wrap64 (int (sel ! i) * ?ss ! i) = ?terms ! i"
      using ti by (simp add: wrap64_id)
    with bi gi show "bind_godel (bs ! i) = Inr (?terms ! i)" by (simp add: bind_godel_def)
  qed
  moreover have "foldl (\<lambda>acc g. wrap64 (acc + g)) 0 ?terms = sum_list ?terms"
    using foldl_wrap_sum [OF nn, of 0] lt by simp
  ultimately show ?thesis by (simp add: godel_number_def fb weigh_def)
qed

lemma product_list_all2:
  "sel \<in> set (product_lists (map (\<lambda>p. [0..<nchoices p]) ps))
   \<Longrightarrow> list_all2 (\<lambda>k p. k < nchoices p) sel ps"
proof (induction ps arbitrary: sel)
  case Nil
  then show ?case by simp
next
  case (Cons p ps)
  then show ?case by auto
qed

lemma gen_one_godel:
  assumes num: "numbered (if_func_params i)"
    and sel: "sel \<in> set (product_lists (map (\<lambda>p. [0..<nchoices p]) (if_func_params i)))"
    and gen: "gen_one i k arch gpus sel = Some (Inr f)"
  shows "godel_number f
           = Inr (weigh (strides (map int (map nchoices (if_func_params i)))) sel)
         \<and> f_arch f = arch \<and> f_arch_number f = k"
proof -
  from create_binds_Inr [OF product_list_all2 [OF sel]] obtain bs
    where bs: "create_binds_from_nths (if_func_params i) sel = Inr bs"
      "map b_klass bs = if_func_params i" "map b_nth bs = map (\<lambda>k. Some (int k)) sel"
    by blast
  from gen bs(1) have mk: "mk_functional (ic_family (if_class i)) (ic_name (if_class i)) arch k bs gpus
                         = Some (Inr f)"
    by (simp add: gen_one_def)
  from mk_functional_frame [OF mk] have fr: "map b_klass (f_binds f) = if_func_params i"
    "map b_nth (f_binds f) = map (\<lambda>k. Some (int k)) sel" "f_arch f = arch" "f_arch_number f = k"
    using bs by auto
  from godel_number_weigh [OF num sel fr(1,2) refl] fr(3,4) show ?thesis by simp
qed

lemma late_init_numbered:
  assumes init: "iface_late_init ic fps pps = Inr i"
    and pos: "\<forall>p\<in>set fps. 0 < nchoices p" and lt: "int (prod_list (map nchoices fps)) < 2 ^ 63"
  shows "numbered (if_func_params i) \<and> if_godel i = int (prod_list (map nchoices fps))
         \<and> prod_list (map nchoices (if_func_params i)) = prod_list (map nchoices fps)"
proof -
  from init obtain RANKS ps' sps g where li: "late_init_all (ic_arguments ic) (tp_index (fps @ pps))
      RANKS [0..<length (fps @ pps)] (fps @ pps) = Inr ps'"
    and nm: "number_params (take (length fps) ps') = Inr (sps, g)"
    and i: "if_func_params i = sps" "if_godel i = g"
    by (auto simp: iface_late_init_def Let_def res_iffs)
  have "map nchoices (take (length fps) ps') = map nchoices fps"
    using late_init_all_nchoices [OF li] by (simp flip: take_map)
  moreover from this have "\<forall>p\<in>set (take (length fps) ps'). 0 < nchoices p"
    using pos by (metis nchoices_pos_map)
  ultimately show ?thesis using number_params_numbered [OF nm] lt i by simp
qed

lemma map_functionals_const:
  "map h fs = concat (map (\<lambda>x. r) xs) \<Longrightarrow> map h fs = concat (replicate (length xs) r)"
  by (simp add: map_replicate_const)

text \<open>
  C21: the Goedel numbers enumerate the functionals of an interface. Whenever the interface
  initialises, every parameter has a choice and the number of combinations fits an int64,
  the functionals that \<open>gen_functionals\<close> yields carry, for each architecture in turn, exactly
  the numbers 0, 1, ..., N-1 in this order, where N, the interface's own \<open>godel_number\<close>, is the
  product of the numbers of choices: no number is used twice and none is left out.
\<close>

theorem gen_functionals_godel:
  assumes "iface_late_init ic fps pps = Inr i"
    and "\<forall>p\<in>set fps. 0 < nchoices p" and "int (prod_list (map nchoices fps)) < 2 ^ 63"
    and gen: "gen_functionals i target_arch = map (\<lambda>f. Some (Inr f)) fs"
  shows "if_godel i = int (prod_list (map nchoices fps))
         \<and> map godel_number fs =
             concat (replicate (length target_arch)
               (map (\<lambda>n. Inr (int n)) [0..<prod_list (map nchoices fps)]))"
proof
  note nb = late_init_numbered [OF assms(1-3)]
  then show "if_godel i = int (prod_list (map nchoices fps))" by simp
  let ?ps = "if_func_params i" and ?N = "prod_list (map nchoices fps)"
  let ?P = "product_lists (map (\<lambda>p. [0..<nchoices p]) ?ps)"
  let ?w = "weigh (strides (map int (map nchoices ?ps)))"
  let ?jobs = "concat (map (\<lambda>(k, arch, gpus). map (\<lambda>sel. (k, arch, gpus, sel)) ?P)
                 (enumerate 0 target_arch))"
  have jobs: "gen_functionals i target_arch
                = map (\<lambda>(k, arch, gpus, sel). gen_one i k arch gpus sel) ?jobs"
    by (simp add: gen_functionals_def map_concat split_def comp_def)
  have len: "length fs = length ?jobs" using gen jobs by (metis length_map)
  have "map godel_number fs = map (\<lambda>(k, arch, gpus, sel). Inr (?w sel)) ?jobs"
  proof (rule nth_equalityI)
    show "length (map godel_number fs) = length (map (\<lambda>(k, arch, gpus, sel). Inr (?w sel)) ?jobs)"
      using len by simp
    fix n
    assume n: "n < length (map godel_number fs)"
    obtain k arch gpus sel where j: "?jobs ! n = (k, arch, gpus, sel)" by (metis prod_cases4)
    have "?jobs ! n \<in> set ?jobs" by (rule nth_mem) (use n len in simp)
    with j have "sel \<in> set ?P" by auto
    moreover have "gen_one i k arch gpus sel = Some (Inr (fs ! n))"
      using arg_cong [OF trans [OF jobs [symmetric] gen], of "\<lambda>l. l ! n"] n len j by simp
    ultimately show "map godel_number fs ! n = map (\<lambda>(k, arch, gpus, sel). Inr (?w sel)) ?jobs ! n"
      using gen_one_godel [of i sel k arch gpus "fs ! n"] nb n len j by simp
  qed
  also have "\<dots> = concat (map (\<lambda>_. map Inr (map ?w ?P)) (enumerate 0 target_arch))"
    by (simp add: map_concat split_def comp_def)
  also have "map ?w ?P = map int [0..<?N]"
    using weigh_product [of "map nchoices ?ps"] nb by (simp add: comp_def)
  finally show "map godel_number fs = concat (replicate (length target_arch)
      (map (\<lambda>n. Inr (int n)) [0..<?N]))"
    by (simp add: map_replicate_const comp_def)
qed

text \<open>A small interface: a tensor parameter, a tensor deferred to it, and the deciding feature.\<close>

definition ex_class :: iface_class where
  "ex_class = \<lparr>ic_family = ''flash'', ic_name = ''demo'',
     ic_arguments = [''Q'', ''B'', ''BIAS_TYPE''],
     ic_type_choices = None, ic_feat_choices = None,
     ic_tensor_ranks = Some [(''_default'', 4), (''B'', 2)],
     ic_tensor_stride_inputs = None, ic_choice_filters = None\<rparr>"

definition ex_params :: "tparam list" where
  "ex_params = map (\<lambda>(k, v). projr (mk_tparam k v))
     [([''B''], Plain [Typed (ConditionalDeferredElseTensor ''BIAS_TYPE'' (CondIn [PInt 0])
                        (Constexpr CxInt8 (PInt 0)) ''Q'')]),
      ([''BIAS_TYPE''], Plain [Lit (PInt 0), Lit (PInt 1)]),
      ([''Q''], Plain [Lit (PStr ''*fp16:16''), Lit (PStr ''*bf16:16'')])]"

definition ex_iface :: iface where
  "ex_iface = projr (iface_late_init ex_class ex_params [])"

definition ex_archs :: "(string, string list) dict" where
  "ex_archs = cluster_gpus [''gfx942_mod0'', ''gfx90a_mod0'']"

definition all_settled :: "functional res option list \<Rightarrow> bool" where
  "all_settled = list_all (\<lambda>x. case x of Some (Inr f) \<Rightarrow> True | _ \<Rightarrow> False)"

lemma all_settled_map: "all_settled xs \<Longrightarrow> xs = map (\<lambda>f. Some (Inr f)) (map (projr \<circ> the) xs)"
  by (induction xs) (auto simp: all_settled_def split: option.splits sum.splits)

lemma ex_iface_ok: "is_ok (iface_late_init ex_class ex_params [])"
  by code_simp

lemma ex_params_ok: "map nchoices ex_params = [1, 2, 2]"
  by code_simp

lemma ex_functionals_ok: "all_settled (gen_functionals ex_iface ex_archs)"
  by code_simp

theorem gen_functionals_godel_witness:
  "map godel_number (map (projr \<circ> the) (gen_functionals ex_iface ex_archs))
     = map Inr [0, 1, 2, 3, 0, 1, 2, 3]"
proof -
  have init: "iface_late_init ex_class ex_params [] = Inr ex_iface"
    using is_ok_projr [OF ex_iface_ok] by (simp add: ex_iface_def)
  have pos: "\<forall>p\<in>set ex_params. 0 < nchoices p"
    using ex_params_ok by (simp add: nchoices_pos_map)
  have lt: "int (prod_list (map nchoices ex_params)) < 2 ^ 63"
    by (simp add: ex_params_ok)
  have "length ex_archs = 2" by code_simp
  with gen_functionals_godel [OF init pos lt all_settled_map [OF ex_functionals_ok]]
  show ?thesis by (simp add: ex_params_ok numeral_2_eq_2 upt_rec)
qed

section \<open>Settling the conditional choices\<close>

text \<open>
  What a conditional choice is meant to become: its then choice when the feature has one of
  the given values, otherwise its else choice, specialised for the parameter's name; the
  deferred ones read the choice of the parameter they name.
\<close>

definition settled_of :: "(string, tc) dict \<Rightarrow> string \<Rightarrow> stc option" where
  "settled_of d name = (case dget d name of Some (Settled c) \<Rightarrow> Some c | _ \<Rightarrow> None)"

fun intended :: "(string, tc) dict \<Rightarrow> string \<Rightarrow> tc \<Rightarrow> stc option" where
  "intended d name (Settled c) = Some c"
| "intended d name (ConditionalConstexpr feat cd th el) =
     Option.bind (settled_of d feat) (\<lambda>f.
       Some (if cond_holds cd (stc_signature f) then th else stc_resolve el name))"
| "intended d name (ConditionalDeferredConstexpr feat cd th el) =
     Option.bind (settled_of d feat) (\<lambda>f. Option.bind (settled_of d th) (\<lambda>t.
       Some (if cond_holds cd (stc_signature f) then stc_resolve t th else stc_resolve el name)))"
| "intended d name (ConditionalDeferredElseTensor feat cd th el) =
     Option.bind (settled_of d feat) (\<lambda>f. Option.bind (settled_of d el) (\<lambda>t.
       Some (if cond_holds cd (stc_signature f) then th else t)))"

lemma settled_of_Some: "settled_of d name = Some c \<longleftrightarrow> dget d name = Some (Settled c)"
  by (auto simp: settled_of_def split: option.splits tc.splits)

lemma is_matching_settled:
  "settled_of d feat = Some f \<Longrightarrow> is_matching feat cd d = Inr (cond_holds cd (stc_signature f))"
  by (simp add: settled_of_Some is_matching_def)

lemma resolve_intended:
  assumes "intended d name t = Some c" "is_conditional_choice t"
  shows "resolve (Suc n) t name d = Inr (Settled c)"
  using assms
  by (cases t) (auto simp: is_matching_settled settled_of_Some bind_eq_Some_conv split: if_splits)

text \<open>
  C22: settling terminates after one round when every conditional choice of a functional
  depends only on parameters whose own choices are settled (as in every rule of the
  repository): the constructor returns, no bind is left unresolved, settled binds are
  untouched, and each conditional bind takes exactly its intended value, computed from the
  dictionary of the values before the round.
\<close>

theorem settle_conditional_values_direct:
  assumes cond: "\<forall>b\<in>set bs. b_conditional b = is_conditional_choice (b_value b)"
    and int: "\<forall>b\<in>set bs. intended (build_tc_dict bs) (b_name b) (b_value b) \<noteq> None"
  shows "settle_conditional_values bs = Some (Inr (map (\<lambda>b. b\<lparr>b_value :=
           Settled (the (intended (build_tc_dict bs) (b_name b) (b_value b)))\<rparr>) bs))"
proof -
  let ?d = "build_tc_dict bs"
  let ?g = "\<lambda>b. b\<lparr>b_value := Settled (the (intended ?d (b_name b) (b_value b)))\<rparr>"
  have step: "settle_unresolved ?d b = Inr (?g b)" if "b \<in> set bs" for b
  proof (cases "is_conditional_choice (b_value b)")
    case True
    obtain c where c: "intended ?d (b_name b) (b_value b) = Some c" using int \<open>b \<in> set bs\<close> by blast
    have "resolve recursion_limit (b_value b) (b_name b) ?d = Inr (Settled c)"
      using resolve_intended [OF c True, of 999] by (simp add: recursion_limit_def)
    with c True cond that show ?thesis by (simp add: settle_unresolved_def is_unresolved_def)
  next
    case False
    then obtain c where "b_value b = Settled c" by (cases "b_value b") auto
    with False show ?thesis by (cases b) (simp add: settle_unresolved_def is_unresolved_def)
  qed
  have round: "settle_round bs = Inr (map ?g bs)"
    unfolding settle_round_def by (rule rtraverse_map_Inr) (rule step)
  have fin: "\<not> list_ex is_unresolved (map ?g bs)"
    by (simp add: list_ex_iff is_unresolved_def)
  show ?thesis
  proof (cases "list_ex is_unresolved bs")
    case True
    then show ?thesis
      using round fin by (simp add: settle_conditional_values.simps)
  next
    case False
    have "?g b = b" if "b \<in> set bs" for b
      using step [OF that] False that by (auto simp: settle_unresolved_def list_ex_iff)
    then have "map ?g bs = bs" by (simp add: map_idI)
    with False show ?thesis by (simp add: settle_conditional_values.simps)
  qed
qed

text \<open>The binds of the small interface for the choices bf16 and \<open>BIAS_TYPE = 1\<close>.\<close>

definition ex_binds :: "bind list" where
  "ex_binds = projr (create_binds_from_nths (if_func_params ex_iface) [1, 0, 1])"

lemma ex_binds_ok:
  "list_all (\<lambda>b. b_conditional b = is_conditional_choice (b_value b)) ex_binds"
  "list_all (\<lambda>b. intended (build_tc_dict ex_binds) (b_name b) (b_value b) \<noteq> None) ex_binds"
  by code_simp+

theorem settle_conditional_values_direct_witness:
  "list_ex is_unresolved ex_binds
   \<and> (\<exists>bs. settle_conditional_values ex_binds = Some (Inr bs) \<and> length bs = length ex_binds)"
proof
  show "list_ex is_unresolved ex_binds" by code_simp
  show "\<exists>bs. settle_conditional_values ex_binds = Some (Inr bs) \<and> length bs = length ex_binds"
    using settle_conditional_values_direct [of ex_binds] ex_binds_ok by (simp add: list_all_iff)
qed

text \<open>Two tensors deferred to each other, and a feature that selects both else branches.\<close>

definition cyc_param :: "string \<Rightarrow> tparam" where
  "cyc_param n = \<lparr>tp_names = [n], tp_choices = [], tp_maybe_conditional = True, tp_first = 0,
                  tp_ordered = [], tp_godel = 1\<rparr>"

definition cyc_tensor :: "string \<Rightarrow> tc" where
  "cyc_tensor n = ConditionalDeferredElseTensor ''F'' (CondIn [PBool False])
                    (Constexpr CxInt8 (PInt 0)) n"

definition cyc_bind :: "string \<Rightarrow> tc \<Rightarrow> tc \<Rightarrow> bind" where
  "cyc_bind n v v0 = \<lparr>b_klass = cyc_param n, b_value = v, b_conditional = is_conditional_choice v0,
                      b_init = v0, b_nth = Some 0\<rparr>"

definition cyc_binds :: "string \<Rightarrow> string \<Rightarrow> bind list" where
  "cyc_binds a b =
     [cyc_bind ''A'' (cyc_tensor a) (cyc_tensor ''B''),
      cyc_bind ''B'' (cyc_tensor b) (cyc_tensor ''A''),
      mk_bind (cyc_param ''F'') (Settled (Constexpr CxBool (PBool True))) (Some 0)]"

lemma cyc_round:
  "settle_round (cyc_binds ''B'' ''A'') = Inr (cyc_binds ''A'' ''B'')"
  "settle_round (cyc_binds ''A'' ''B'') = Inr (cyc_binds ''A'' ''B'')"
  by (simp_all add: settle_round_def cyc_binds_def cyc_bind_def cyc_tensor_def cyc_param_def
      mk_bind_def build_tc_dict_def dict_of_def b_name_def settle_unresolved_def
      is_unresolved_def is_matching_def pv_eq_def recursion_limit_def)

lemma cyc_unresolved: "list_ex is_unresolved (cyc_binds a b)"
  by (simp add: cyc_binds_def cyc_bind_def cyc_tensor_def is_unresolved_def)

text \<open>
  The loop that settles conditional values need not terminate. Two tensor parameters each
  deferred to the other exchange their values in every round, so constructing the functional
  never returns; the dependency condition of the previous property cannot be dropped.
\<close>

lemma settle_cycle_diverges: "settle_conditional_values (cyc_binds ''B'' ''A'') = None"
proof -
  have "bs \<noteq> cyc_binds ''B'' ''A'' \<and> bs \<noteq> cyc_binds ''A'' ''B''"
    if "settle_conditional_values bs = Some y" for bs y
  proof (rule settle_conditional_values.raw_induct [where
        P = "\<lambda>bs y. bs \<noteq> cyc_binds ''B'' ''A'' \<and> bs \<noteq> cyc_binds ''A'' ''B''", OF _ that])
    fix f binds y
    assume IH: "\<And>bs y. f bs = Some y \<Longrightarrow>
        bs \<noteq> cyc_binds ''B'' ''A'' \<and> bs \<noteq> cyc_binds ''A'' ''B''"
      and eq: "(if list_ex is_unresolved binds then
            (case settle_round binds of Inl e \<Rightarrow> Some (Inl e) | Inr binds' \<Rightarrow> f binds')
          else Some (Inr binds)) = Some y"
    show "binds \<noteq> cyc_binds ''B'' ''A'' \<and> binds \<noteq> cyc_binds ''A'' ''B''"
      using eq IH [of "cyc_binds ''A'' ''B''" y] by (auto simp: cyc_unresolved cyc_round)
  qed
  then show ?thesis by fastforce
qed

section \<open>The order of a key does not matter\<close>

lemma rtraverse_index:
  "rtraverse (\<lambda>a. rmap (\<lambda>i. (a, i)) (py_index A a)) ns =
     (if set ns \<subseteq> set A then Inr (map (\<lambda>a. (a, the (find_index a A))) ns) else Inl ValueError)"
  by (induction ns) (auto simp: py_index_member)

lemma sort_index_perm:
  assumes "mset ns = mset ns'" "distinct ns" "set ns \<subseteq> set A"
  shows "sort_key snd (map (\<lambda>a. (a, the (find_index a A))) ns)
           = sort_key snd (map (\<lambda>a. (a, the (find_index a A))) ns')"
proof (rule sort_key_inj_key_eq)
  let ?g = "\<lambda>a. (a, the (find_index a A))"
  show "mset (map ?g ns) = mset (sort_key snd (map ?g ns'))"
    by (simp add: assms(1))
  show "inj_on snd (set (map ?g ns))"
  proof (rule inj_onI, clarsimp)
    fix a b
    assume "a \<in> set ns" "b \<in> set ns" and eq: "the (find_index a A) = the (find_index b A)"
    with assms(3) have "a \<in> set A" "b \<in> set A" by auto
    then obtain i j where "find_index a A = Some i" "find_index b A = Some j"
      by (metis find_index_None_iff not_None_eq)
    with eq show "a = b" using find_index_inj by fastforce
  qed
qed simp

text \<open>
  a choice table may be keyed by a frozenset, whose iteration order Python does not fix.
  The order in which a parameter receives its names has no influence on what \<open>late_init\<close>
  makes of them: any two orders of the same names give the same parameter, or the same error.
\<close>

lemma sort_arguments_order_independent:
  assumes "mset ns = mset ns'" and "distinct ns"
  shows "sort_arguments A (tp\<lparr>tp_names := ns\<rparr>) = sort_arguments A (tp\<lparr>tp_names := ns'\<rparr>)"
proof -
  have "set ns = set ns'" using assms(1) by (metis set_mset_mset)
  then show ?thesis
    using sort_index_perm [OF assms, of A]
    by (simp add: sort_arguments_def rtraverse_index Let_def)
qed

theorem sort_arguments_order_independent_witness:
  "sort_arguments [''Q'', ''K'', ''V''] (cyc_param ''Q''\<lparr>tp_names := [''V'', ''Q'', ''K'']\<rparr>)
     = sort_arguments [''Q'', ''K'', ''V''] (cyc_param ''Q''\<lparr>tp_names := [''K'', ''V'', ''Q'']\<rparr>)"
  by (rule sort_arguments_order_independent) simp_all

end
