(* ===== verification/Json.thy ===== *)
theory Json
  imports Prelude
begin

text \<open>
  The objects that travel between the processes of the tuning queue and the part of Python's
  \<open>json\<close> module that carries them. A string is a list of code points below 256. A float is
  kept as the text \<open>json\<close> writes for it (\<open>repr\<close>, or NaN and the infinities). A payload byte above 127 and a \<open>\u\<close> escape above 255
  lie outside this alphabet and are given the error UnicodeError; \<open>json.dumps\<close> produces neither
  for the strings considered here.
\<close>

section \<open>Objects\<close>

text \<open>
  A dictionary key is a string in a message from the wire; the broker itself adds integer keys.
  \<open>key_of\<close> is the hashing of a key: a bool is equal to the integer of its value, a list or
  a dictionary is not hashable.
\<close>

datatype pkey = KNone | KInt int | KFloat string | KStr string

datatype pyobj =
    ONone | OBool bool | OInt int | OFloat string | OStr string
  | OList "pyobj list" | ODict "(pkey \<times> pyobj) list"

fun key_of :: "pyobj \<Rightarrow> pkey res" where
  "key_of ONone = Inr KNone"
| "key_of (OBool b) = Inr (KInt (if b then 1 else 0))"
| "key_of (OInt i) = Inr (KInt i)"
| "key_of (OFloat f) = Inr (KFloat f)"
| "key_of (OStr s) = Inr (KStr s)"
| "key_of _ = Inl TypeError"

fun obj_true :: "pyobj \<Rightarrow> bool" where
  "obj_true ONone = False"
| "obj_true (OBool b) = b"
| "obj_true (OInt i) = (i \<noteq> 0)"
| "obj_true (OFloat f) = (f \<notin> {''0.0'', ''-0.0''})"
| "obj_true (OStr s) = (s \<noteq> [])"
| "obj_true (OList l) = (l \<noteq> [])"
| "obj_true (ODict d) = (d \<noteq> [])"

section \<open>Writing\<close>

definition hex_digit :: "nat \<Rightarrow> char" where
  "hex_digit d = char_of (if d < 10 then 48 + d else 87 + d)"

definition backslash :: char where
  "backslash = CHR 0x5C"

definition ESCAPE_DCT :: "(char \<times> char) list" where
  "ESCAPE_DCT = [(CHR 0x22, CHR 0x22), (backslash, backslash), (CHR 0x0A, CHR ''n''),
                 (CHR 0x0D, CHR ''r''), (CHR 0x09, CHR ''t''), (CHR 0x0C, CHR ''f''),
                 (CHR 0x08, CHR ''b'')]"

definition esc_char :: "char \<Rightarrow> string" where
  "esc_char c =
     (let n = (of_char c :: nat) in
      case map_of ESCAPE_DCT c of
        Some e \<Rightarrow> [backslash, e]
      | None \<Rightarrow>
          if 32 \<le> n \<and> n \<le> 126 then [c]
          else [backslash, CHR ''u'', CHR ''0'', CHR ''0'', hex_digit (n div 16), hex_digit (n mod 16)])"

definition dump_str :: "string \<Rightarrow> string" where
  "dump_str s = CHR ''\"'' # concat (map esc_char s) @ [CHR ''\"'']"

fun dump_key :: "pkey \<Rightarrow> string" where
  "dump_key KNone = dump_str ''null''"
| "dump_key (KInt i) = dump_str (show_int i)"
| "dump_key (KFloat f) = dump_str f"
| "dump_key (KStr s) = dump_str s"

fun dumps :: "pyobj \<Rightarrow> string"
  and dump_elems :: "pyobj list \<Rightarrow> string"
  and dump_members :: "(pkey \<times> pyobj) list \<Rightarrow> string" where
  "dumps ONone = ''null''"
| "dumps (OBool b) = (if b then ''true'' else ''false'')"
| "dumps (OInt i) = show_int i"
| "dumps (OFloat f) = f"
| "dumps (OStr s) = dump_str s"
| "dumps (OList l) = ''['' @ (if l = [] then '']'' else dump_elems l)"
| "dumps (ODict d) = ''{'' @ (if d = [] then ''}'' else dump_members d)"
| "dump_elems [] = '']''"
| "dump_elems (x # xs) = dumps x @ (if xs = [] then '']'' else '', '' @ dump_elems xs)"
| "dump_members [] = ''}''"
| "dump_members ((k, v) # d) =
     dump_key k @ '': '' @ dumps v @ (if d = [] then ''}'' else '', '' @ dump_members d)"

section \<open>Reading\<close>

definition is_ws :: "char \<Rightarrow> bool" where
  "is_ws c \<longleftrightarrow> c \<in> {CHR '' '', CHR 0x09, CHR 0x0A, CHR 0x0D}"

definition skip_ws :: "string \<Rightarrow> string" where
  "skip_ws s = dropWhile is_ws s"

definition hex_val :: "char \<Rightarrow> nat option" where
  "hex_val c =
     (let n = (of_char c :: nat) in
      if 48 \<le> n \<and> n \<le> 57 then Some (n - 48)
      else if 97 \<le> n \<and> n \<le> 102 then Some (n - 87)
      else if 65 \<le> n \<and> n \<le> 70 then Some (n - 55) else None)"

definition unescape :: "char \<Rightarrow> char option" where
  "unescape c = map_of ((CHR ''/'', CHR ''/'') # map prod.swap ESCAPE_DCT) c"

definition read_hex4 :: "string \<Rightarrow> (char \<times> string) res" where
  "read_hex4 s =
     (let hs = map hex_val (take 4 s) in
      if length hs < 4 \<or> None \<in> set hs then Inl JSONDecodeError
      else let n = foldl (\<lambda>a h. 16 * a + the h) 0 hs
           in if n < 256 then Inr (char_of n, drop 4 s) else Inl UnicodeError)"

text \<open>The characters of a string up to the closing quote. Control characters are refused.\<close>

function parse_str :: "string \<Rightarrow> (string \<times> string) res" where
  "parse_str s =
     (case s of
        [] \<Rightarrow> Inl JSONDecodeError
      | c # r \<Rightarrow>
          if c = CHR ''\"'' then Inr ([], r)
          else if c = backslash then
            (case r of
               [] \<Rightarrow> Inl JSONDecodeError
             | e # r' \<Rightarrow>
                 if e = CHR ''u'' then
                   (case read_hex4 r' of
                      Inl err \<Rightarrow> Inl err
                    | Inr (x, r'') \<Rightarrow> rmap (\<lambda>(t, u). (x # t, u)) (parse_str (drop 4 r')))
                 else (case unescape e of
                         None \<Rightarrow> Inl JSONDecodeError
                       | Some x \<Rightarrow> rmap (\<lambda>(t, u). (x # t, u)) (parse_str r')))
          else if (of_char c :: nat) < 32 then Inl JSONDecodeError
          else rmap (\<lambda>(t, u). (c # t, u)) (parse_str r))"
  by auto
termination by (relation "measure length") auto

declare parse_str.simps [simp del]

definition scan_digits :: "string \<Rightarrow> string \<times> string" where
  "scan_digits s = (takeWhile is_digit s, dropWhile is_digit s)"

text \<open>The integer part of a number: no digit follows a leading zero.\<close>

definition scan_int :: "string \<Rightarrow> (string \<times> string) option" where
  "scan_int s =
     (let (sg, t) = (if startswith s ''-'' then (''-'', tl s) else ([], s)) in
      if startswith t ''0'' then Some (sg @ ''0'', tl t)
      else let (ds, u) = scan_digits t in if ds = [] then None else Some (sg @ ds, u))"

definition scan_frac :: "string \<Rightarrow> string \<times> string" where
  "scan_frac s =
     (if startswith s ''.'' \<and> fst (scan_digits (tl s)) \<noteq> []
      then (''.'' @ fst (scan_digits (tl s)), snd (scan_digits (tl s))) else ([], s))"

definition scan_sign :: "string \<Rightarrow> string \<times> string" where
  "scan_sign s = (if startswith s ''-'' \<or> startswith s ''+'' then (take 1 s, tl s) else ([], s))"

definition scan_exp :: "string \<Rightarrow> string \<times> string" where
  "scan_exp s =
     (if startswith s ''e'' \<or> startswith s ''E'' then
        (let (sg, u) = scan_sign (tl s); (ds, w) = scan_digits u
         in if ds = [] then ([], s) else (take 1 s @ sg @ ds, w))
      else ([], s))"

definition int_value :: "string \<Rightarrow> int" where
  "int_value s = (if startswith s ''-'' then - int (digits_val 0 (tl s)) else int (digits_val 0 s))"

definition parse_number :: "string \<Rightarrow> (pyobj \<times> string) res" where
  "parse_number s =
     (case scan_int s of
        None \<Rightarrow> Inl JSONDecodeError
      | Some (i, t) \<Rightarrow>
          let (f, u) = scan_frac t; (e, w) = scan_exp u
          in if f = [] \<and> e = [] then Inr (OInt (int_value i), w) else Inr (OFloat (i @ f @ e), w))"

definition atoms :: "(string \<times> pyobj) list" where
  "atoms = [(''null'', ONone), (''true'', OBool True), (''false'', OBool False),
            (''NaN'', OFloat ''NaN''), (''Infinity'', OFloat ''Infinity''),
            (''-Infinity'', OFloat ''-Infinity'')]"

definition parse_atom :: "string \<Rightarrow> (pyobj \<times> string) res" where
  "parse_atom s =
     (case find (\<lambda>(t, v). startswith s t) atoms of
        Some (t, v) \<Rightarrow> Inr (v, drop (length t) s)
      | None \<Rightarrow> parse_number s)"

definition expect :: "char \<Rightarrow> string \<Rightarrow> string res" where
  "expect c s = (case skip_ws s of [] \<Rightarrow> Inl JSONDecodeError
                 | x # r \<Rightarrow> if x = c then Inr r else Inl JSONDecodeError)"

text \<open>The first argument bounds the number of nested calls; \<open>loads\<close> supplies enough.\<close>

fun parse_value :: "nat \<Rightarrow> string \<Rightarrow> (pyobj \<times> string) res"
  and parse_elems :: "nat \<Rightarrow> string \<Rightarrow> (pyobj list \<times> string) res"
  and parse_members :: "nat \<Rightarrow> string \<Rightarrow> ((pkey \<times> pyobj) list \<times> string) res" where
  "parse_value 0 s = Inl RecursionError"
| "parse_value (Suc n) s =
     (case skip_ws s of
        [] \<Rightarrow> Inl JSONDecodeError
      | c # r \<Rightarrow>
          if c = CHR ''\"'' then rmap (\<lambda>(t, u). (OStr t, u)) (parse_str r)
          else if c = CHR ''['' then
            (case expect (CHR '']'') r of
               Inr u \<Rightarrow> Inr (OList [], u)
             | Inl _ \<Rightarrow> rmap (\<lambda>(l, u). (OList l, u)) (parse_elems n r))
          else if c = CHR ''{'' then
            (case expect (CHR ''}'') r of
               Inr u \<Rightarrow> Inr (ODict [], u)
             | Inl _ \<Rightarrow> rmap (\<lambda>(d, u). (ODict (dict_of d), u)) (parse_members n r))
          else parse_atom (c # r))"
| "parse_elems 0 s = Inl RecursionError"
| "parse_elems (Suc n) s =
     rbind (parse_value n s) (\<lambda>(v, r).
       case expect (CHR '','') r of
         Inr u \<Rightarrow> rmap (\<lambda>(l, w). (v # l, w)) (parse_elems n u)
       | Inl _ \<Rightarrow> rmap (\<lambda>u. ([v], u)) (expect (CHR '']'') r))"
| "parse_members 0 s = Inl RecursionError"
| "parse_members (Suc n) s =
     rbind (expect (CHR ''\"'') s) (\<lambda>r.
     rbind (parse_str r) (\<lambda>(k, r1).
     rbind (expect (CHR '':'') r1) (\<lambda>r2.
     rbind (parse_value n r2) (\<lambda>(v, r3).
       case expect (CHR '','') r3 of
         Inr u \<Rightarrow> rmap (\<lambda>(d, w). ((KStr k, v) # d, w)) (parse_members n u)
       | Inl _ \<Rightarrow> rmap (\<lambda>u. ([(KStr k, v)], u)) (expect (CHR ''}'') r3)))))"

text \<open>\<open>json.loads(payload.decode('utf-8'))\<close>; only white space may follow the value.\<close>

definition ascii :: "string \<Rightarrow> bool" where
  "ascii s \<longleftrightarrow> list_all (\<lambda>c. (of_char c :: nat) < 128) s"

definition loads :: "string \<Rightarrow> pyobj res" where
  "loads s =
     (if \<not> ascii s then Inl UnicodeError
      else rbind (parse_value (Suc (length s)) s) (\<lambda>(v, r).
             if skip_ws r = [] then Inr v else Inl JSONDecodeError))"

section \<open>Round trip\<close>

text \<open>
  The texts of floats, and the objects whose dictionaries have string keys only, each once:
  those come back from the wire as they were sent.
\<close>

definition float_text :: "string \<Rightarrow> bool" where
  "float_text f \<longleftrightarrow>
     f \<in> {''NaN'', ''Infinity'', ''-Infinity''}
     \<or> (case scan_int f of
          None \<Rightarrow> False
        | Some (i, t) \<Rightarrow> (let (fr, u) = scan_frac t; (e, w) = scan_exp u
                         in w = [] \<and> (fr \<noteq> [] \<or> e \<noteq> [])))"

definition is_KStr :: "pkey \<Rightarrow> bool" where
  "is_KStr k = (case k of KStr _ \<Rightarrow> True | _ \<Rightarrow> False)"

fun wf_obj :: "pyobj \<Rightarrow> bool" where
  "wf_obj (OFloat f) = (float_text f \<and> ascii f)"
| "wf_obj (OList l) = list_all wf_obj l"
| "wf_obj (ODict d) = (list_all (\<lambda>p. is_KStr (fst p) \<and> wf_obj (snd p)) d \<and> distinct (map fst d))"
| "wf_obj _ = True"

text \<open>What follows a value: a separator, a closing bracket, or nothing.\<close>

definition stops :: "string \<Rightarrow> bool" where
  "stops r = (case r of [] \<Rightarrow> True | c # _ \<Rightarrow> c \<in> {CHR '','', CHR '']'', CHR ''}''})"

lemma hex_val_digit: "d < 16 \<Longrightarrow> hex_val (hex_digit d) = Some d"
  by (simp add: hex_val_def hex_digit_def Let_def)

lemma of_char_less: "(of_char c :: nat) < 256"
  by simp

lemma read_hex4_digits:
  "hex_val a = Some i \<Longrightarrow> hex_val b = Some j \<Longrightarrow> hex_val c = Some k \<Longrightarrow> hex_val d = Some l
   \<Longrightarrow> 16 * (16 * (16 * i + j) + k) + l < 256
   \<Longrightarrow> read_hex4 (a # b # c # d # t) = Inr (char_of (16 * (16 * (16 * i + j) + k) + l), t)"
  by (simp add: read_hex4_def numeral_eq_Suc)

lemma hex_val_0: "hex_val (CHR ''0'') = Some 0"
  by code_simp

lemma read_hex4_escape:
  assumes "n < 256"
  shows "read_hex4 (CHR ''0'' # CHR ''0'' # hex_digit (n div 16) # hex_digit (n mod 16) # t)
           = Inr (char_of n, t)"
proof -
  have "hex_val (hex_digit (n div 16)) = Some (n div 16)" using assms by (intro hex_val_digit) simp
  moreover have "hex_val (hex_digit (n mod 16)) = Some (n mod 16)" by (intro hex_val_digit) simp
  moreover have "16 * (16 * (16 * 0 + 0) + n div 16) + n mod 16 = n" by simp
  ultimately show ?thesis
    using read_hex4_digits [OF hex_val_0 hex_val_0, of _ "n div 16" _ "n mod 16" t] assms by metis
qed

lemma escape_table:
  "list_all (\<lambda>(c, e). unescape e = Some c \<and> e \<noteq> CHR ''u'') ESCAPE_DCT"
  by code_simp

lemma parse_str_backslash:
  "parse_str (backslash # e # t) =
     (if e = CHR ''u'' then
        (case read_hex4 t of
           Inl err \<Rightarrow> Inl err
         | Inr (x, r'') \<Rightarrow> rmap (\<lambda>(w, u). (x # w, u)) (parse_str (drop 4 t)))
      else (case unescape e of
              None \<Rightarrow> Inl JSONDecodeError
            | Some x \<Rightarrow> rmap (\<lambda>(w, u). (x # w, u)) (parse_str t)))"
  by (simp add: parse_str.simps [of "backslash # e # t"]) (simp add: backslash_def)

lemma parse_str_esc:
  "parse_str (esc_char c @ t) = rmap (\<lambda>(x, u). (c # x, u)) (parse_str t)"
proof (cases "map_of ESCAPE_DCT c")
  case (Some e)
  then have "unescape e = Some c" "e \<noteq> CHR ''u''"
    using escape_table by (auto simp: list_all_iff dest: map_of_SomeD)
  with Some show ?thesis by (simp add: esc_char_def parse_str_backslash)
next
  case None
  let ?n = "of_char c :: nat"
  from None have c: "c \<noteq> CHR ''\"''" "c \<noteq> backslash"
    by (auto simp: ESCAPE_DCT_def split: if_splits)
  show ?thesis
  proof (cases "32 \<le> ?n \<and> ?n \<le> 126")
    case True
    with None c show ?thesis by (simp add: esc_char_def parse_str.simps [of "c # t"])
  next
    case False
    with None have "esc_char c = [backslash, CHR ''u'', CHR ''0'', CHR ''0'', hex_digit (?n div 16),
                                  hex_digit (?n mod 16)]"
      by (auto simp: esc_char_def Let_def)
    moreover have "drop 4 (CHR ''0'' # CHR ''0'' # x # y # t) = t" for x y
      by (simp add: numeral_eq_Suc)
    ultimately show ?thesis
      using read_hex4_escape [OF of_char_less, of c t] by (simp add: parse_str_backslash)
  qed
qed

lemma parse_str_dump: "parse_str (concat (map esc_char s) @ CHR ''\"'' # t) = Inr (s, t)"
proof (induction s)
  case Nil
  then show ?case by (simp add: parse_str.simps)
next
  case (Cons c s)
  then show ?case by (simp add: parse_str_esc)
qed

text \<open>Scanning a number does not look past a separator.\<close>

lemma stops_digit: "stops r \<Longrightarrow> takeWhile is_digit r = [] \<and> dropWhile is_digit r = r"
  by (cases r) (auto simp: stops_def is_digit_def)

lemma stops_startswith:
  "stops r \<Longrightarrow> c \<notin> {CHR '','', CHR '']'', CHR ''}''} \<Longrightarrow> startswith (s @ r) [c] = startswith s [c]"
  by (cases s; cases r) (auto simp: stops_def)

lemma startswith_single: "startswith s [c] \<longleftrightarrow> s \<noteq> [] \<and> hd s = c"
  by (cases s) auto

lemma scan_digits_append:
  assumes "stops r"
  shows "scan_digits (s @ r) = (fst (scan_digits s), snd (scan_digits s) @ r)"
proof (cases "\<forall>c\<in>set s. is_digit c")
  case True
  then have tw: "takeWhile is_digit s = s" by (metis takeWhile_eq_all_conv)
  from True stops_digit [OF assms] show ?thesis by (simp add: scan_digits_def tw)
next
  case False
  then show ?thesis by (auto simp: scan_digits_def)
qed

lemma tl_append_nonempty: "startswith s [c] \<Longrightarrow> tl (s @ r) = tl s @ r"
  by (cases s) auto

lemma scan_int_append:
  "stops r \<Longrightarrow> scan_int (s @ r) = map_option (\<lambda>(i, t). (i, t @ r)) (scan_int s)"
  by (auto simp: scan_int_def Let_def stops_startswith tl_append_nonempty scan_digits_append
      split: prod.splits)

lemma scan_frac_append:
  "stops r \<Longrightarrow> scan_frac (s @ r) = (fst (scan_frac s), snd (scan_frac s) @ r)"
  by (auto simp: scan_frac_def stops_startswith tl_append_nonempty scan_digits_append)

lemma scan_sign_append:
  "stops r \<Longrightarrow> scan_sign (s @ r) = (fst (scan_sign s), snd (scan_sign s) @ r)"
  by (cases s) (auto simp: scan_sign_def stops_startswith [where s = "[]", simplified])

lemma take_append_nonempty: "startswith s [c] \<Longrightarrow> take (Suc 0) (s @ r) = take (Suc 0) s"
  by (cases s) auto

lemma scan_exp_append:
  assumes "stops r"
  shows "scan_exp (s @ r) = (fst (scan_exp s), snd (scan_exp s) @ r)"
proof (cases "startswith s ''e'' \<or> startswith s ''E''")
  case True
  then have "startswith (s @ r) ''e'' \<or> startswith (s @ r) ''E''" "tl (s @ r) = tl s @ r"
    "take 1 (s @ r) = take 1 s"
    using assms by (auto simp: stops_startswith tl_append_nonempty take_append_nonempty
        simp del: take_append)
  with True assms show ?thesis
    by (simp add: scan_exp_def scan_sign_append scan_digits_append split_def Let_def)
next
  case False
  then show ?thesis using assms by (simp add: scan_exp_def stops_startswith)
qed

lemma parse_number_append:
  "stops r \<Longrightarrow> parse_number (s @ r) = rmap (\<lambda>(v, t). (v, t @ r)) (parse_number s)"
  by (auto simp: parse_number_def scan_int_append scan_frac_append scan_exp_append
      split: option.splits prod.splits)

lemma scan_digits_id: "\<forall>c\<in>set s. is_digit c \<Longrightarrow> scan_digits s = (s, [])"
  by (simp add: scan_digits_def)

lemma show_nat_hd_digit: "is_digit (hd (show_nat n))"
  using show_nat_digits [of n] by (cases "show_nat n") auto

lemma show_nat_zero: "show_nat 0 = ''0''"
  by code_simp

lemma show_nat_zero_head: "startswith (show_nat n) ''0'' \<longleftrightarrow> n = 0"
  using show_nat_leading [of n]
  by (cases "n = 0") (auto simp: startswith_single show_nat_zero)

lemma show_nat_not_minus: "\<not> startswith (show_nat n) ''-''"
  using show_nat_hd_digit [of n] by (auto simp: startswith_single is_digit_def)

lemma scan_int_show: "scan_int (show_int i) = Some (show_int i, [])"
proof -
  have nat: "scan_int (show_nat n) = Some (show_nat n, [])" for n
    using show_nat_digits [of n]
    by (cases "n = 0")
      (simp_all add: scan_int_def show_nat_not_minus show_nat_zero_head scan_digits_id show_nat_zero)
  have neg: "scan_int (CHR ''-'' # show_nat n) = Some (CHR ''-'' # show_nat n, [])" for n
    using show_nat_digits [of n]
    by (cases "n = 0")
      (simp_all add: scan_int_def show_nat_zero_head scan_digits_id show_nat_zero)
  show ?thesis by (simp add: show_int_def nat neg)
qed

lemma int_value_show: "int_value (show_int i) = i"
  by (simp add: int_value_def show_int_def show_nat_not_minus digits_val_show_nat)

lemma parse_number_int: "parse_number (show_int i) = Inr (OInt i, [])"
  by (simp add: parse_number_def scan_int_show scan_frac_def scan_exp_def int_value_show)

lemma startswith_hd_tl: "startswith s [c] \<Longrightarrow> c # tl s = s"
  by (cases s) auto

lemma scan_digits_concat: "fst (scan_digits s) @ snd (scan_digits s) = s"
  by (simp add: scan_digits_def)

lemma scan_int_concat: "scan_int s = Some (i, t) \<Longrightarrow> i @ t = s"
  using scan_digits_concat [of s] scan_digits_concat [of "tl s"]
  by (auto simp: scan_int_def Let_def split_def startswith_hd_tl split: if_splits)

lemma scan_frac_concat: "fst (scan_frac s) @ snd (scan_frac s) = s"
  by (auto simp: scan_frac_def scan_digits_concat startswith_hd_tl)

lemma scan_sign_concat: "fst (scan_sign s) @ snd (scan_sign s) = s"
  by (cases s) (auto simp: scan_sign_def)

lemma scan_exp_concat: "fst (scan_exp s) @ snd (scan_exp s) = s"
proof (cases "startswith s ''e'' \<or> startswith s ''E''")
  case True
  then have "take 1 s @ tl s = s" by (cases s) auto
  then show ?thesis
    using scan_sign_concat [of "tl s"] scan_digits_concat [of "snd (scan_sign (tl s))"]
    by (simp add: scan_exp_def split_def Let_def)
next
  case False
  then show ?thesis by (simp add: scan_exp_def)
qed

lemma parse_number_float:
  assumes "float_text f" "f \<notin> {''NaN'', ''Infinity'', ''-Infinity''}"
  shows "parse_number f = Inr (OFloat f, [])"
proof -
  from assms obtain i t where i: "scan_int f = Some (i, t)"
    and w: "snd (scan_exp (snd (scan_frac t))) = []"
    and ne: "fst (scan_frac t) \<noteq> [] \<or> fst (scan_exp (snd (scan_frac t))) \<noteq> []"
    by (auto simp: float_text_def split_def Let_def split: option.splits)
  have "i @ fst (scan_frac t) @ fst (scan_exp (snd (scan_frac t))) = f"
    using scan_int_concat [OF i] scan_frac_concat [of t] scan_exp_concat [of "snd (scan_frac t)"] w
    by simp
  with i w ne show ?thesis by (auto simp: parse_number_def split_def Let_def)
qed

lemma scan_digits_head:
  "startswith u ''0'' \<or> fst (scan_digits u) \<noteq> [] \<Longrightarrow> u \<noteq> [] \<and> is_digit (hd u)"
  by (cases u) (auto simp: scan_digits_def is_digit_def split: if_splits)

lemma scan_int_head:
  assumes "scan_int s = Some (i, t)"
  shows "s \<noteq> [] \<and> (is_digit (hd s) \<or> hd s = CHR ''-'' \<and> tl s \<noteq> [] \<and> is_digit (hd (tl s)))"
proof (cases "startswith s ''-''")
  case True
  with assms have "startswith (tl s) ''0'' \<or> fst (scan_digits (tl s)) \<noteq> []"
    by (auto simp: scan_int_def Let_def split_def split: if_splits)
  with True scan_digits_head [of "tl s"] show ?thesis by (simp add: startswith_single)
next
  case False
  with assms have "startswith s ''0'' \<or> fst (scan_digits s) \<noteq> []"
    by (auto simp: scan_int_def Let_def split_def split: if_splits)
  with scan_digits_head [of s] show ?thesis by simp
qed

text \<open>No constant of the language starts like a number.\<close>

lemma find_atoms_number:
  assumes "s \<noteq> []" "is_digit (hd s) \<or> hd s = CHR ''-'' \<and> tl s \<noteq> [] \<and> is_digit (hd (tl s))"
  shows "find (\<lambda>(t, v). startswith s t) atoms = None"
proof -
  have nd: "\<not> is_digit (CHR ''n'')" "\<not> is_digit (CHR ''t'')" "\<not> is_digit (CHR ''f'')"
    "\<not> is_digit (CHR ''N'')" "\<not> is_digit (CHR ''I'')" "\<not> is_digit (CHR ''-'')"
    by code_simp+
  obtain c r where s: "s = c # r" using assms(1) by (cases s) auto
  show ?thesis
  proof (cases r)
    case Nil
    with assms s nd show ?thesis by (auto simp: atoms_def)
  next
    case (Cons c' r')
    with assms s nd show ?thesis by (auto simp: atoms_def)
  qed
qed

lemma parse_atom_number:
  assumes "parse_number f = Inr (v, [])" "stops r"
  shows "parse_atom (f @ r) = Inr (v, r)"
proof -
  from assms(1) obtain i t where i: "scan_int f = Some (i, t)"
    by (auto simp: parse_number_def split: option.splits)
  from scan_int_head [OF i] have "f \<noteq> []" by simp
  then have "f @ r \<noteq> []" "hd (f @ r) = hd f" "tl (f @ r) = tl f @ r" by auto
  with scan_int_head [OF i] have "find (\<lambda>(t, v). startswith (f @ r) t) atoms = None"
    by (intro find_atoms_number) auto
  then show ?thesis using assms by (simp add: parse_atom_def parse_number_append)
qed

lemma parse_atom_const:
  "parse_atom (''null'' @ r) = Inr (ONone, r)"
  "parse_atom (''true'' @ r) = Inr (OBool True, r)"
  "parse_atom (''false'' @ r) = Inr (OBool False, r)"
  "parse_atom (''NaN'' @ r) = Inr (OFloat ''NaN'', r)"
  "parse_atom (''Infinity'' @ r) = Inr (OFloat ''Infinity'', r)"
  "parse_atom (''-Infinity'' @ r) = Inr (OFloat ''-Infinity'', r)"
  by (simp_all add: parse_atom_def atoms_def)

text \<open>The first character of a written value is neither white space nor punctuation.\<close>

definition value_head :: "string \<Rightarrow> bool" where
  "value_head s \<longleftrightarrow>
     s \<noteq> [] \<and> \<not> is_ws (hd s) \<and> hd s \<notin> {CHR '','', CHR '']'', CHR ''}'', CHR '':''}"

definition number_head :: "string \<Rightarrow> bool" where
  "number_head s \<longleftrightarrow> value_head s \<and> hd s \<notin> {CHR ''\"'', CHR ''['', CHR ''{''}"

lemma digit_head:
  "s \<noteq> [] \<Longrightarrow> is_digit (hd s) \<or> hd s = CHR ''-'' \<Longrightarrow> number_head s"
  by (auto simp: number_head_def value_head_def is_ws_def is_digit_def)

lemma number_text_head:
  assumes "parse_number f = Inr (v, [])"
  shows "number_head f"
proof -
  from assms obtain i t where "scan_int f = Some (i, t)"
    by (auto simp: parse_number_def split: option.splits)
  then show ?thesis using scan_int_head [of f i t] by (intro digit_head) auto
qed

lemma const_head: "list_all (\<lambda>(t, v). number_head t) atoms"
  by code_simp

lemma value_head_append: "value_head s \<Longrightarrow> value_head (s @ r)"
  by (cases s) (auto simp: value_head_def)

lemma number_head_append: "number_head s \<Longrightarrow> number_head (s @ r)"
  by (cases s) (auto simp: number_head_def value_head_def)

lemma parse_value_number: "number_head s \<Longrightarrow> parse_value (Suc n) s = parse_atom s"
  by (cases s) (auto simp: number_head_def value_head_def skip_ws_def)

lemma dumps_head: "wf_obj v \<Longrightarrow> value_head (dumps v)"
proof (cases v)
  case (OInt i)
  then show ?thesis using number_text_head [OF parse_number_int, of i] by (simp add: number_head_def)
next
  case (OFloat f)
  assume "wf_obj v"
  show ?thesis
  proof (cases "f \<in> {''NaN'', ''Infinity'', ''-Infinity''}")
    case True
    then show ?thesis using OFloat const_head by (auto simp: atoms_def number_head_def)
  next
    case False
    with \<open>wf_obj v\<close> OFloat number_text_head [OF parse_number_float, of f]
    show ?thesis by (simp add: number_head_def)
  qed
qed (use const_head in \<open>auto simp: atoms_def number_head_def value_head_def dump_str_def is_ws_def\<close>)

lemma expect_hit: "\<not> is_ws c \<Longrightarrow> expect c (c # r) = Inr r"
  by (simp add: expect_def skip_ws_def)

lemma expect_miss: "s \<noteq> [] \<Longrightarrow> \<not> is_ws (hd s) \<Longrightarrow> hd s \<noteq> c \<Longrightarrow> expect c s = Inl JSONDecodeError"
  by (cases s) (auto simp: expect_def skip_ws_def)

lemma expect_space: "expect c (CHR '' '' # s) = expect c s"
  by (simp add: expect_def skip_ws_def is_ws_def)

lemma parse_value_space: "parse_value n (CHR '' '' # s) = parse_value n s"
  by (cases n) (simp_all add: skip_ws_def is_ws_def)

lemma parse_elems_space: "parse_elems n (CHR '' '' # s) = parse_elems n s"
  by (cases n) (simp_all add: parse_value_space)

lemma parse_members_space: "parse_members n (CHR '' '' # s) = parse_members n s"
  by (cases n) (simp_all add: expect_space)

lemmas parse_space = parse_value_space parse_elems_space parse_members_space expect_space

lemma not_ws: "\<not> is_ws (CHR '','')" "\<not> is_ws (CHR '']'')" "\<not> is_ws (CHR ''}'')"
  "\<not> is_ws (CHR '':'')" "\<not> is_ws (CHR ''\"'')" "\<not> is_ws (CHR ''['')" "\<not> is_ws (CHR ''{'')"
  by (simp_all add: is_ws_def)

lemma stops_sep: "stops (CHR '','' # r)" "stops (CHR '']'' # r)" "stops (CHR ''}'' # r)"
  by (simp_all add: stops_def)

lemma parse_value_atom:
  "parse_number f = Inr (v, []) \<Longrightarrow> stops r \<Longrightarrow> parse_value (Suc n) (f @ r) = Inr (v, r)"
  by (simp add: parse_value_number number_head_append number_text_head parse_atom_number
      del: parse_value.simps)

lemma parse_value_const:
  "(t, v) \<in> set atoms \<Longrightarrow> parse_atom (t @ r) = Inr (v, r) \<Longrightarrow> parse_value (Suc n) (t @ r) = Inr (v, r)"
  using const_head
  by (auto simp: list_all_iff parse_value_number number_head_append simp del: parse_value.simps)

lemma parse_value_str: "parse_value (Suc n) (dump_str s @ r) = Inr (OStr s, r)"
  by (simp add: dump_str_def skip_ws_def is_ws_def parse_str_dump)

lemma parse_key: "rbind (expect (CHR ''\"'') (dump_str s @ r)) parse_str = Inr (s, r)"
  by (simp add: dump_str_def expect_hit not_ws parse_str_dump)

lemma parse_elems_step:
  assumes "parse_value n (dumps x @ (if xs = [] then '']'' else '', '' @ dump_elems xs) @ r)
             = Inr (x, (if xs = [] then '']'' else '', '' @ dump_elems xs) @ r)"
    and "xs \<noteq> [] \<Longrightarrow> parse_elems n (dump_elems xs @ r) = Inr (xs, r)"
  shows "parse_elems (Suc n) (dump_elems (x # xs) @ r) = Inr (x # xs, r)"
  using assms by (simp add: expect_hit expect_miss not_ws parse_space)

lemma parse_members_step:
  assumes "parse_value n (dumps v @ (if d = [] then ''}'' else '', '' @ dump_members d) @ r)
             = Inr (v, (if d = [] then ''}'' else '', '' @ dump_members d) @ r)"
    and "d \<noteq> [] \<Longrightarrow> parse_members n (dump_members d @ r) = Inr (d, r)"
  shows "parse_members (Suc n) (dump_members ((KStr k, v) # d) @ r) = Inr ((KStr k, v) # d, r)"
proof -
  have key: "expect (CHR ''\"'') (dump_str k @ w) = Inr (concat (map esc_char k) @ CHR ''\"'' # w)" for w
    by (simp add: dump_str_def expect_hit not_ws)
  show ?thesis
    using assms by (simp add: key parse_str_dump expect_hit expect_miss not_ws parse_space)
qed

lemma parse_dumps:
  "wf_obj v \<Longrightarrow> stops r \<Longrightarrow> length (dumps v) < n \<Longrightarrow> parse_value n (dumps v @ r) = Inr (v, r)"
  "list_all wf_obj l \<Longrightarrow> l \<noteq> [] \<Longrightarrow> length (dump_elems l) < n
     \<Longrightarrow> parse_elems n (dump_elems l @ r) = Inr (l, r)"
  "list_all (\<lambda>p. is_KStr (fst p) \<and> wf_obj (snd p)) d \<Longrightarrow> d \<noteq> [] \<Longrightarrow> length (dump_members d) < n
     \<Longrightarrow> parse_members n (dump_members d @ r) = Inr (d, r)"
proof (induction v and l and d arbitrary: n r and n r and n r
    rule: dumps_dump_elems_dump_members.induct)
  case 1
  have "(''null'', ONone) \<in> set atoms" by (simp add: atoms_def)
  then show ?case using 1 parse_atom_const(1) [of r]
    by (cases n) (simp_all only: dumps.simps parse_value_const not_less0)
next
  case (2 b)
  have "(dumps (OBool b), OBool b) \<in> set atoms" by (simp add: atoms_def)
  moreover have "parse_atom (dumps (OBool b) @ r) = Inr (OBool b, r)"
    using parse_atom_const(2,3) [of r] by simp
  ultimately show ?case using 2 by (cases n) (simp_all only: parse_value_const not_less0)
next
  case (3 i)
  then show ?case by (cases n) (simp_all only: dumps.simps parse_value_atom parse_number_int not_less0)
next
  case (4 f)
  show ?case
  proof (cases "f \<in> {''NaN'', ''Infinity'', ''-Infinity''}")
    case True
    have "(f, OFloat f) \<in> set atoms" "parse_atom (f @ r) = Inr (OFloat f, r)"
      using True parse_atom_const by (auto simp: atoms_def)
    with 4 show ?thesis by (cases n) (simp_all only: dumps.simps parse_value_const not_less0)
  next
    case False
    with 4 have "parse_number f = Inr (OFloat f, [])" by (intro parse_number_float) auto
    with 4 show ?thesis by (cases n) (simp_all only: dumps.simps parse_value_atom not_less0)
  qed
next
  case (5 s)
  then show ?case by (cases n) (simp_all only: dumps.simps parse_value_str not_less0)
next
  case (6 l)
  obtain m where n: "n = Suc m" using 6 by (cases n) auto
  show ?case
  proof (cases l)
    case Nil
    then show ?thesis using n by (simp add: skip_ws_def expect_hit not_ws)
  next
    case (Cons x xs)
    with 6 have "value_head (dumps x)" by (auto intro: dumps_head)
    then have "value_head (dump_elems l @ r)" using Cons by (simp add: value_head_append)
    then have "expect (CHR '']'') (dump_elems l @ r) = Inl JSONDecodeError"
      by (intro expect_miss) (auto simp: value_head_def)
    moreover have "parse_elems m (dump_elems l @ r) = Inr (l, r)"
      using 6 Cons n by simp
    ultimately show ?thesis using n Cons by (simp add: skip_ws_def not_ws del: dump_elems.simps)
  qed
next
  case (7 d)
  obtain m where n: "n = Suc m" using 7 by (cases n) auto
  show ?case
  proof (cases d)
    case Nil
    then show ?thesis using n by (simp add: skip_ws_def expect_hit not_ws)
  next
    case (Cons p ps)
    obtain k v where p: "p = (KStr k, v)"
      using 7 Cons by (cases p; cases "fst p") (auto simp: is_KStr_def)
    have "expect (CHR ''}'') (dump_members d @ r) = Inl JSONDecodeError"
      by (intro expect_miss) (simp_all add: Cons p dump_str_def not_ws)
    moreover have "parse_members m (dump_members d @ r) = Inr (d, r)"
      using 7 Cons n by simp
    moreover have "dict_of d = d" using 7 by (simp add: dict_of_distinct)
    ultimately show ?thesis using n Cons by (simp add: skip_ws_def not_ws del: dump_members.simps)
  qed
next
  case (9 x xs)
  obtain m where n: "n = Suc m" using 9 by (cases n) auto
  show ?case unfolding n
    by (rule parse_elems_step; (cases "xs = []")?) (use 9 n in \<open>auto simp: stops_sep\<close>)
next
  case (11 k v d)
  obtain m where n: "n = Suc m" using 11 by (cases n) auto
  obtain s where k: "k = KStr s" using 11 by (cases k) (auto simp: is_KStr_def)
  show ?case unfolding n k
    by (rule parse_members_step; (cases "d = []")?) (use 11 n k in \<open>auto simp: stops_sep\<close>)
qed simp_all

lemma ascii_simps [simp]:
  "ascii []" "ascii (c # s) \<longleftrightarrow> (of_char c :: nat) < 128 \<and> ascii s" "ascii (s @ t) \<longleftrightarrow> ascii s \<and> ascii t"
  by (simp_all add: ascii_def)

lemma escape_ascii: "list_all (\<lambda>(c, e). ascii [e]) ESCAPE_DCT" "ascii [backslash]"
  by code_simp+

lemma hex_digit_ascii: "d < 16 \<Longrightarrow> (of_char (hex_digit d) :: nat) < 128"
  by (simp add: hex_digit_def)

lemma esc_char_ascii: "ascii (esc_char c)"
proof (cases "map_of ESCAPE_DCT c")
  case (Some e)
  then have "ascii [e]" using escape_ascii(1) by (auto simp: list_all_iff dest: map_of_SomeD)
  with Some escape_ascii(2) show ?thesis by (simp add: esc_char_def)
next
  case None
  have "(of_char c :: nat) div 16 < 16" using of_char_less [of c] by linarith
  with None escape_ascii(2) show ?thesis
    by (auto simp: esc_char_def Let_def hex_digit_ascii)
qed

lemma dump_str_ascii: "ascii (dump_str s)"
  by (induction s) (auto simp: dump_str_def esc_char_ascii)

lemma show_int_ascii: "ascii (show_int i)"
proof -
  have "ascii (show_nat n)" for n
    using show_nat_digits [of n] by (auto simp: ascii_def list_all_iff is_digit_def)
  then show ?thesis by (simp add: show_int_def)
qed

lemma dumps_ascii:
  "wf_obj v \<Longrightarrow> ascii (dumps v)"
  "list_all wf_obj l \<Longrightarrow> ascii (dump_elems l)"
  "list_all (\<lambda>p. is_KStr (fst p) \<and> wf_obj (snd p)) d \<Longrightarrow> ascii (dump_members d)"
proof (induction v and l and d rule: dumps_dump_elems_dump_members.induct)
  case (11 k v d)
  then show ?case by (cases k) (auto simp: is_KStr_def dump_str_ascii)
qed (auto simp: dump_str_ascii show_int_ascii)

lemma loads_dumps:
  assumes "wf_obj v"
  shows "loads (dumps v) = Inr v"
proof -
  have "parse_value (Suc (length (dumps v))) (dumps v) = Inr (v, [])"
    using parse_dumps(1) [OF assms, of "[]"] by (simp add: stops_def del: parse_value.simps)
  then show ?thesis
    using dumps_ascii(1) [OF assms] by (simp add: loads_def skip_ws_def del: parse_value.simps)
qed

lemma dumps_nonempty: "wf_obj v \<Longrightarrow> dumps v \<noteq> []"
  using dumps_head [of v] by (simp add: value_head_def)

end
