(* ===== verification/Framing.thy ===== *)
theory Framing
  imports Json
begin

text \<open>
  \<open>v3python/tune/localq/protocol.py\<close> and \<open>buffered_socket.py\<close>: messages on a Unix socket as a
  four byte big-endian length followed by that many bytes of JSON; the blocking functions the
  workers use and the buffering state machine the broker uses. The encoder and decoder are
  arguments, so that the laws of the framing are proved once from the contract of a codec;
  the program's codec is \<open>dumps\<close> and \<open>loads\<close>.
\<close>

section \<open>The length prefix\<close>

text \<open>\<open>struct.pack('>I', n)\<close> and \<open>struct.unpack('>I', b)[0]\<close>.\<close>

definition pack_u32 :: "nat \<Rightarrow> string res" where
  "pack_u32 n =
     (let i = int n in
      if i < 2 ^ 32 then Inr (map char_of [i div 16777216, i div 65536 mod 256, i div 256 mod 256, i mod 256])
      else Inl StructError)"

definition unpack_u32 :: "string \<Rightarrow> nat res" where
  "unpack_u32 b =
     (if length b = 4 then Inr (foldl (\<lambda>a c. 256 * a + of_char c) 0 b) else Inl StructError)"

definition MAX_MESSAGE :: int where
  "MAX_MESSAGE = 100 * 1024 * 1024"

section \<open>Sockets\<close>

text \<open>
  What the receiving end of a stream socket is going to see: fragments of bytes in whatever
  sizes the kernel delivers, moments at which nothing is available, and the end of the stream.
  When the list is used up, nothing more has arrived yet.
\<close>

datatype net_event = Data string | WouldBlock | Eof

datatype recv_outcome = Got string | Blocked

fun sock_recv :: "nat \<Rightarrow> net_event list \<Rightarrow> recv_outcome \<times> net_event list" where
  "sock_recv k [] = (Blocked, [])"
| "sock_recv k (WouldBlock # es) = (Blocked, es)"
| "sock_recv k (Eof # es) = (Got [], Eof # es)"
| "sock_recv k (Data bs # es) =
     (if bs = [] then sock_recv k es
      else if length bs \<le> k then (Got bs, es)
      else (Got (take k bs), Data (drop k bs) # es))"

fun event_bytes :: "net_event list \<Rightarrow> string" where
  "event_bytes [] = []"
| "event_bytes (Data bs # es) = bs @ event_bytes es"
| "event_bytes (_ # es) = event_bytes es"

lemma sock_recv_bytes:
  "sock_recv k es = (Got bs, es') \<Longrightarrow>
     event_bytes es = bs @ event_bytes es' \<and> length bs \<le> k"
  by (induction k es rule: sock_recv.induct) (auto split: if_splits)

lemma sock_recv_blocked: "sock_recv k es = (Blocked, es') \<Longrightarrow> event_bytes es = event_bytes es'"
  by (induction k es rule: sock_recv.induct) (auto split: if_splits)

section \<open>protocol.py\<close>

definition frame :: "(pyobj \<Rightarrow> string) \<Rightarrow> pyobj \<Rightarrow> string res" where
  "frame enc msg = rmap (\<lambda>p. p @ enc msg) (pack_u32 (length (enc msg)))"

text \<open>\<open>send_message\<close>: the bytes both calls of \<open>sendall\<close> put on the wire.\<close>

definition send_message :: "(pyobj \<Rightarrow> string) \<Rightarrow> pyobj \<Rightarrow> string res" where
  "send_message enc msg =
     (let json_bytes = enc msg
      in rbind (pack_u32 (length json_bytes)) (\<lambda>prefix. Inr (prefix @ json_bytes)))"

lemma sock_recv_shrinks:
  "sock_recv k es = (r, es') \<Longrightarrow> (r = Blocked \<longrightarrow> es' \<noteq> [] \<longrightarrow> length es' < length es)
     \<and> length es' \<le> length es"
  by (induction k es rule: sock_recv.induct) (auto split: if_splits)

lemma append_closer: "x \<noteq> [] \<Longrightarrow> k < n \<Longrightarrow> n - (k + length x) < n - k"
  by (cases x) auto

text \<open>
  \<open>recv_exactly\<close> on a blocking socket: None when it waits for bytes that have not arrived.
\<close>

function recv_exactly ::
  "string \<Rightarrow> nat \<Rightarrow> net_event list \<Rightarrow> (string res \<times> net_event list) option" where
  "recv_exactly data n es =
     (if length data < n then
        (case sock_recv (n - length data) es of
           (Blocked, es') \<Rightarrow> if es' = [] then None else recv_exactly data n es'
         | (Got chunk, es') \<Rightarrow>
             if chunk = [] then Some (Inl ConnectionError, es')
             else recv_exactly (data @ chunk) n es')
      else Some (Inr data, es))"
  by auto

termination
  by (relation "measures [\<lambda>(data, n, es). n - length data, \<lambda>(data, n, es). length es]")
    (auto dest!: sock_recv_shrinks [OF sym] simp: append_closer)

declare recv_exactly.simps [simp del]

definition recv_message ::
  "(string \<Rightarrow> pyobj res) \<Rightarrow> net_event list \<Rightarrow> (pyobj option res \<times> net_event list) option" where
  "recv_message dec es =
     Option.bind (recv_exactly [] 4 es) (\<lambda>(r, es).
       case r of
         Inl e \<Rightarrow> Some (Inl e, es)
       | Inr length_bytes \<Rightarrow>
           if length_bytes = [] then Some (Inr None, es)
           else (case unpack_u32 length_bytes of
                   Inl e \<Rightarrow> Some (Inl e, es)
                 | Inr n \<Rightarrow>
                     if int n > MAX_MESSAGE then Some (Inl ValueError, es)
                     else Option.bind (recv_exactly [] n es) (\<lambda>(r, es).
                            Some (rmap Some (rbind r dec), es))))"

section \<open>BufferedSocket\<close>

datatype recv_state = READING_LENGTH | READING_PAYLOAD

datatype send_state = IDLE | SENDING

record bsock =
  worker_id :: pyobj
  recv_buffer :: string
  recv_state :: recv_state
  expected_length :: "nat option"
  payload_received :: nat
  send_buffer :: string
  send_state :: send_state
  send_offset :: nat

definition new_bsock :: "pyobj \<Rightarrow> bsock" where
  "new_bsock wid =
     \<lparr>worker_id = wid, recv_buffer = [], recv_state = READING_LENGTH, expected_length = None,
      payload_received = 0, send_buffer = [], send_state = IDLE, send_offset = 0\<rparr>"

definition wants_write :: "bsock \<Rightarrow> bool" where
  "wants_write b \<longleftrightarrow> length (send_buffer b) > 0"

text \<open>
  \<open>_recv_length\<close>: \<open>Inr (Some True)\<close> complete, \<open>Inr (Some False)\<close> more data needed,
  \<open>Inr None\<close> connection closed.
\<close>

definition finish_length :: "bsock \<Rightarrow> bsock \<times> bool option res" where
  "finish_length b =
     (if length (recv_buffer b) < 4 then (b, Inr (Some False))
      else (case unpack_u32 (recv_buffer b) of
              Inl e \<Rightarrow> (b, Inl e)
            | Inr n \<Rightarrow>
                (let b = b\<lparr>expected_length := Some n\<rparr> in
                 if int n > MAX_MESSAGE then (b, Inl ValueError)
                 else (b\<lparr>recv_buffer := replicate n (CHR 0x00), payload_received := 0,
                         recv_state := READING_PAYLOAD\<rparr>, Inr (Some True)))))"

definition recv_length :: "bsock \<Rightarrow> net_event list \<Rightarrow> bsock \<times> net_event list \<times> bool option res" where
  "recv_length b es =
     (let needed = 4 - length (recv_buffer b) in
      if needed > 0 then
        (case sock_recv needed es of
           (Got chunk, es') \<Rightarrow>
             if chunk = [] then (b, es', Inr None)
             else (let (b', r) = finish_length (b\<lparr>recv_buffer := recv_buffer b @ chunk\<rparr>) in (b', es', r))
         | (Blocked, es') \<Rightarrow> (b, es', Inr (Some False)))
      else (let (b', r) = finish_length b in (b', es, r)))"

text \<open>
  \<open>_recv_payload\<close> returns the message, None for a closed connection and False for more data
  needed: a payload that decodes to null or false cannot be told from those.
\<close>

definition finish_payload :: "(string \<Rightarrow> pyobj res) \<Rightarrow> nat \<Rightarrow> bsock \<Rightarrow> bsock \<times> pyobj res" where
  "finish_payload dec n b =
     (if payload_received b < n then (b, Inr (OBool False))
      else (case dec (recv_buffer b) of
              Inl e \<Rightarrow> (b, Inl e)
            | Inr msg \<Rightarrow> (b\<lparr>recv_buffer := [], recv_state := READING_LENGTH,
                            expected_length := None\<rparr>, Inr msg)))"

definition recv_payload ::
  "(string \<Rightarrow> pyobj res) \<Rightarrow> bsock \<Rightarrow> net_event list \<Rightarrow> bsock \<times> net_event list \<times> pyobj res" where
  "recv_payload dec b es =
     (case expected_length b of
        None \<Rightarrow> (b, es, Inl TypeError)
      | Some n \<Rightarrow>
          (let needed = n - payload_received b; k = payload_received b in
           if needed > 0 then
             (case sock_recv needed es of
                (Got chunk, es') \<Rightarrow>
                  if chunk = [] then (b, es', Inr ONone)
                  else (let (b', r) = finish_payload dec n
                              (b\<lparr>recv_buffer := take k (recv_buffer b) @ chunk
                                               @ drop (k + length chunk) (recv_buffer b),
                                 payload_received := k + length chunk\<rparr>)
                        in (b', es', r))
              | (Blocked, es') \<Rightarrow> (b, es', Inr (OBool False)))
           else (let (b', r) = finish_payload dec n b in (b', es, r))))"

text \<open>
  One turn of the loop of \<open>recv_messages\<close>, and the whole generator: the messages it yields
  until it stops (more data needed) or raises.
\<close>

datatype turn = Continue | Yield pyobj | Stop | Raised pyerr

definition recv_turn ::
  "(string \<Rightarrow> pyobj res) \<Rightarrow> bsock \<Rightarrow> net_event list \<Rightarrow> bsock \<times> net_event list \<times> turn" where
  "recv_turn dec b es =
     (case recv_state b of
        READING_LENGTH \<Rightarrow>
          (case recv_length b es of
             (b', es', Inl e) \<Rightarrow> (b', es', Raised e)
           | (b', es', Inr None) \<Rightarrow> (b', es', Raised ConnectionError)
           | (b', es', Inr (Some ready)) \<Rightarrow> (b', es', if ready then Continue else Stop))
      | READING_PAYLOAD \<Rightarrow>
          (case recv_payload dec b es of
             (b', es', Inl e) \<Rightarrow> (b', es', Raised e)
           | (b', es', Inr msg) \<Rightarrow>
               (b', es', if msg = ONone then Raised ConnectionError
                         else if msg = OBool False then Stop else Yield msg)))"

text \<open>Every turn that goes on or yields brings the generator closer to its end.\<close>

definition turn_weight :: "bsock \<Rightarrow> net_event list \<Rightarrow> nat" where
  "turn_weight b es =
     3 * length (event_bytes es)
     + (case recv_state b of READING_PAYLOAD \<Rightarrow> 1
        | READING_LENGTH \<Rightarrow> if length (recv_buffer b) < 4 then 0 else 2)"

lemma finish_length_cases:
  "finish_length b = (b', r) \<Longrightarrow> recv_state b = READING_LENGTH \<Longrightarrow>
     (r = Inr (Some True) \<longrightarrow> recv_state b' = READING_PAYLOAD) \<and> (r = Inr (Some False) \<longrightarrow> b' = b)"
  by (auto simp: finish_length_def Let_def split: if_splits sum.splits)

lemma recv_turn_length_weight:
  assumes "recv_turn dec b es = (b', es', t)" "recv_state b = READING_LENGTH" "t = Continue \<or> (\<exists>m. t = Yield m)"
  shows "turn_weight b' es' < turn_weight b es"
  using assms
  by (auto simp: recv_turn_def recv_length_def turn_weight_def Let_def finish_length_def
      split: if_splits sum.splits option.splits prod.splits recv_outcome.splits
      dest!: sock_recv_bytes)

lemma recv_turn_payload_weight:
  assumes "recv_turn dec b es = (b', es', t)" "recv_state b = READING_PAYLOAD" "t = Continue \<or> (\<exists>m. t = Yield m)"
  shows "turn_weight b' es' < turn_weight b es"
  using assms
  by (auto simp: recv_turn_def recv_payload_def turn_weight_def Let_def finish_payload_def
      split: if_splits sum.splits option.splits prod.splits recv_outcome.splits
      dest!: sock_recv_bytes)

lemma recv_turn_weight:
  "recv_turn dec b es = (b', es', t) \<Longrightarrow> t = Continue \<or> (\<exists>m. t = Yield m)
   \<Longrightarrow> turn_weight b' es' < turn_weight b es"
  using recv_turn_length_weight recv_turn_payload_weight by (cases "recv_state b") blast+

function recv_messages ::
  "(string \<Rightarrow> pyobj res) \<Rightarrow> bsock \<Rightarrow> net_event list
   \<Rightarrow> bsock \<times> net_event list \<times> pyobj list \<times> unit res" where
  "recv_messages dec b es =
     (case recv_turn dec b es of
        (b', es', Stop) \<Rightarrow> (b', es', [], Inr ())
      | (b', es', Raised e) \<Rightarrow> (b', es', [], Inl e)
      | (b', es', Continue) \<Rightarrow> recv_messages dec b' es'
      | (b', es', Yield m) \<Rightarrow>
          (let (b2, es2, ms, r) = recv_messages dec b' es' in (b2, es2, m # ms, r)))"
  by auto
termination
  by (relation "measure (\<lambda>(dec, b, es). turn_weight b es)")
    (auto dest!: sym [where s = "(_, _, _)"] dest: recv_turn_weight)

declare recv_messages.simps [simp del]

section \<open>Sending\<close>

definition queue_message :: "(pyobj \<Rightarrow> string) \<Rightarrow> pyobj \<Rightarrow> bsock \<Rightarrow> bsock res" where
  "queue_message enc msg b =
     (let json_bytes = enc msg
      in rmap (\<lambda>p. b\<lparr>send_buffer := send_buffer b @ (p @ json_bytes)\<rparr>) (pack_u32 (length json_bytes)))"

text \<open>
  What the kernel does with a call of \<open>send\<close>: it accepts at most so many bytes, has no room, or
  fails. \<open>flush_send\<close> returns the bytes that went out and whether everything has been sent.
\<close>

datatype send_event = Accept nat | SendBlock | SendError pyerr

definition flush_send :: "send_event \<Rightarrow> bsock \<Rightarrow> bsock \<times> string \<times> bool res" where
  "flush_send ev b =
     (if send_buffer b = [] then (b, [], Inr True)
      else (case ev of
              SendBlock \<Rightarrow> (b, [], Inr False)
            | SendError e \<Rightarrow> (b, [], Inl e)
            | Accept k \<Rightarrow>
                (let out = take k (drop (send_offset b) (send_buffer b));
                     b = b\<lparr>send_offset := send_offset b + length out\<rparr>
                 in if send_offset b \<ge> length (send_buffer b)
                    then (b\<lparr>send_buffer := [], send_offset := 0\<rparr>, out, Inr True)
                    else (b, out, Inr False))))"

section \<open>The length prefix comes back\<close>

lemma pack_u32_nat:
  "pack_u32 n =
     (if n < 2 ^ 32 then Inr (map char_of [n div 16777216, n div 65536 mod 256, n div 256 mod 256, n mod 256])
      else Inl StructError)"
proof -
  have d: "char_of (int n div int k mod int m) = char_of (n div k mod m)"
    "char_of (int n div int k) = char_of (n div k)" "char_of (int n mod int k) = char_of (n mod k)" for k m
    by (simp_all flip: zdiv_int zmod_int)
  show ?thesis
    using d(1) [of 65536 256] d(1) [of 256 256] d(2) [of 16777216] d(3) [of 256]
    by (simp add: pack_u32_def Let_def)
qed

lemma pack_u32_Inr: "pack_u32 n = Inr p \<Longrightarrow> length p = 4 \<and> unpack_u32 p = Inr n \<and> n < 2 ^ 32"
proof -
  assume a: "pack_u32 n = Inr p"
  then have n: "n < 4294967296"
    and p: "p = map char_of [n div 16777216, n div 65536 mod 256, n div 256 mod 256, n mod 256]"
    by (auto simp: pack_u32_nat split: if_splits)
  have "n div 16777216 < 256" using n by (simp add: less_mult_imp_div_less)
  moreover have "256 * (256 * (256 * (n div 16777216) + n div 65536 mod 256) + n div 256 mod 256)
      + n mod 256 = n"
  proof -
    have x: "256 * (n div 256) + n mod 256 = n" by simp
    have y: "256 * (n div 65536) + n div 256 mod 256 = n div 256"
      using div_mult2_eq [of n 256 256] by simp
    have z: "256 * (n div 16777216) + n div 65536 mod 256 = n div 65536"
      using div_mult2_eq [of n 65536 256] by simp
    show ?thesis by (simp only: x y z)
  qed
  ultimately show ?thesis using n by (simp add: p unpack_u32_def)
qed

lemma unpack_u32_inj:
  assumes "length p = 4" "length q = 4" "unpack_u32 p = unpack_u32 q"
  shows "p = q"
proof -
  obtain a b c d where p: "p = [a, b, c, d]"
    using assms(1) by (auto simp: numeral_eq_Suc length_Suc_conv)
  obtain a' b' c' d' where q: "q = [a', b', c', d']"
    using assms(2) by (auto simp: numeral_eq_Suc length_Suc_conv)
  have u: "unpack_u32 [a, b, c, d]
      = Inr (256 * (256 * (256 * of_char a + of_char b) + of_char c) + of_char d)" for a b c d
    by (simp add: unpack_u32_def)
  have e: "256 * (256 * (256 * of_char a + of_char b) + of_char c) + (of_char d :: nat)
         = 256 * (256 * (256 * of_char a' + of_char b') + of_char c') + of_char d'"
    using assms(3) unfolding p q u by (simp only: sum.inject)
  have eq: "x = x' \<and> y = y'" if "256 * x + y = 256 * x' + y'" "y < 256" "y' < 256" for x y x' y' :: nat
  proof -
    have "(256 * x + y) div 256 = x" "(256 * x + y) mod 256 = y" using that(2) by simp_all
    moreover have "(256 * x' + y') div 256 = x'" "(256 * x' + y') mod 256 = y'"
      using that(3) by simp_all
    ultimately show ?thesis using that(1) by simp
  qed
  note e3 = eq [OF e of_char_less of_char_less]
  note e2 = eq [OF conjunct1 [OF e3] of_char_less of_char_less]
  note e1 = eq [OF conjunct1 [OF e2] of_char_less of_char_less]
  have inj: "x = y" if "(of_char x :: nat) = of_char y" for x y :: char
    using that by (metis char_of_char)
  show ?thesis using e1 e2 e3 inj p q by blast
qed

lemma unpack_pack: "length p = 4 \<Longrightarrow> unpack_u32 p = Inr n \<Longrightarrow> int n \<le> MAX_MESSAGE \<Longrightarrow> pack_u32 n = Inr p"
proof -
  assume a: "length p = 4" "unpack_u32 p = Inr n" "int n \<le> MAX_MESSAGE"
  then have "n < 2 ^ 32" by (simp add: MAX_MESSAGE_def)
  then obtain q where q: "pack_u32 n = Inr q" by (simp add: pack_u32_nat)
  with a show ?thesis using unpack_u32_inj [of p q] pack_u32_Inr [OF q] by simp
qed

section \<open>What a byte stream means\<close>

text \<open>
  The specification of the receiver: a whole stream of bytes is cut into frames. The result is
  the decoded payloads and either the bytes of the last, incomplete frame or the error.
\<close>

function unframe :: "(string \<Rightarrow> pyobj res) \<Rightarrow> string \<Rightarrow> pyobj list \<times> string res" where
  "unframe dec s =
     (if length s < 4 then ([], Inr s)
      else case unpack_u32 (take 4 s) of
        Inl e \<Rightarrow> ([], Inl e)
      | Inr n \<Rightarrow>
          if int n > MAX_MESSAGE then ([], Inl ValueError)
          else if length s < 4 + n then ([], Inr s)
          else (case dec (take n (drop 4 s)) of
                  Inl e \<Rightarrow> ([], Inl e)
                | Inr m \<Rightarrow>
                    if m = ONone then ([], Inl ConnectionError)
                    else (let (ms, r) = unframe dec (drop (4 + n) s) in (m # ms, r))))"
  by auto
termination by (relation "measure (\<lambda>(dec, s). length s)") auto

declare unframe.simps [simp del]

text \<open>
  The bytes a buffered socket has taken from the stream and not yet turned into a message, and
  the invariant of its receiving state.
\<close>

definition pending :: "bsock \<Rightarrow> string" where
  "pending b =
     (case recv_state b of
        READING_LENGTH \<Rightarrow> recv_buffer b
      | READING_PAYLOAD \<Rightarrow>
          projr (pack_u32 (the (expected_length b))) @ take (payload_received b) (recv_buffer b))"

definition wf_recv :: "bsock \<Rightarrow> bool" where
  "wf_recv b =
     (case recv_state b of
        READING_LENGTH \<Rightarrow> length (recv_buffer b) < 4
      | READING_PAYLOAD \<Rightarrow>
          (case expected_length b of
             None \<Rightarrow> False
           | Some n \<Rightarrow> int n \<le> MAX_MESSAGE \<and> length (recv_buffer b) = n
                       \<and> (payload_received b < n \<or> n = 0 \<and> payload_received b = 0)))"

section \<open>The receiver implements the specification\<close>

lemma unframe_short: "length s < 4 \<Longrightarrow> unframe dec s = ([], Inr s)"
  by (simp add: unframe.simps)

lemma unframe_partial:
  "pack_u32 n = Inr p \<Longrightarrow> int n \<le> MAX_MESSAGE \<Longrightarrow> length q < n \<Longrightarrow> unframe dec (p @ q) = ([], Inr (p @ q))"
  using pack_u32_Inr [of n p] by (simp add: unframe.simps [of dec "p @ q"])

lemma unframe_frame:
  "pack_u32 n = Inr p \<Longrightarrow> int n \<le> MAX_MESSAGE \<Longrightarrow> length q = n
   \<Longrightarrow> unframe dec (p @ q @ s) =
        (case dec q of Inl e \<Rightarrow> ([], Inl e)
         | Inr m \<Rightarrow> if m = ONone then ([], Inl ConnectionError)
                   else (m # fst (unframe dec s), snd (unframe dec s)))"
  using pack_u32_Inr [of n p] by (simp add: unframe.simps [of dec "p @ q @ s"] split_def Let_def split: sum.splits)

lemma unframe_too_large:
  "length p = 4 \<Longrightarrow> unpack_u32 p = Inr n \<Longrightarrow> int n > MAX_MESSAGE \<Longrightarrow> unframe dec p = ([], Inl ValueError)"
  by (simp add: unframe.simps)

lemma sock_recv_Eof: "Eof \<notin> set es \<Longrightarrow> sock_recv k es = (r, es') \<Longrightarrow> k > 0
  \<Longrightarrow> Eof \<notin> set es' \<and> r \<noteq> Got [] \<and> (r = Blocked \<longrightarrow> es' = [] \<or> WouldBlock \<in> set es)
     \<and> (\<forall>bs. r = Got bs \<longrightarrow> length bs < k \<longrightarrow> set es' \<subseteq> set es)
     \<and> (WouldBlock \<in> set es' \<longrightarrow> WouldBlock \<in> set es)"
  by (induction k es rule: sock_recv.induct) (auto split: if_splits)

text \<open>What a turn in either state does to the bytes not yet turned into a message.\<close>

lemma length_turn:
  assumes wf: "wf_recv b" and st: "recv_state b = READING_LENGTH" and op: "Eof \<notin> set es"
    and turn: "recv_turn dec b es = (b', es', t)"
  shows "\<exists>c. event_bytes es = c @ event_bytes es' \<and> Eof \<notin> set es'
           \<and> (WouldBlock \<in> set es' \<longrightarrow> WouldBlock \<in> set es)
           \<and> (case t of
                Continue \<Rightarrow> wf_recv b' \<and> pending b' = pending b @ c
              | Stop \<Rightarrow> wf_recv b' \<and> pending b' = pending b @ c \<and> length (pending b') < 4
                       \<and> recv_state b' = READING_LENGTH
              | Raised e \<Rightarrow> unframe dec (pending b @ c) = ([], Inl e)
              | Yield m \<Rightarrow> False)"
proof -
  have lt: "length (recv_buffer b) < 4" using wf st by (simp add: wf_recv_def)
  obtain r es2 where rc: "sock_recv (4 - length (recv_buffer b)) es = (r, es2)" by fastforce
  note eof = sock_recv_Eof [OF op rc]
  show ?thesis
  proof (cases r)
    case Blocked
    with rc lt st turn have "b' = b" "es' = es2" "t = Stop"
      by (auto simp: recv_turn_def recv_length_def)
    with Blocked rc eof lt wf st show ?thesis
      by (auto simp: sock_recv_blocked pending_def)
  next
    case (Got chunk)
    let ?b = "b\<lparr>recv_buffer := recv_buffer b @ chunk\<rparr>"
    have bt: "event_bytes es = chunk @ event_bytes es2" "length chunk \<le> 4 - length (recv_buffer b)"
      and ne: "chunk \<noteq> []"
      using sock_recv_bytes [of _ es chunk es2] rc Got eof lt by auto
    show ?thesis
    proof (cases "length (recv_buffer b @ chunk) < 4")
      case True
      with rc lt st turn Got ne have "b' = ?b" "es' = es2" "t = Stop"
        by (auto simp: recv_turn_def recv_length_def finish_length_def)
      with bt eof lt True st show ?thesis
        by (intro exI [of _ chunk]) (simp add: wf_recv_def pending_def)
    next
      case False
      then have l4: "length (recv_buffer b @ chunk) = 4" using bt lt by simp
      then obtain n where n: "unpack_u32 (recv_buffer b @ chunk) = Inr n"
        by (auto simp: unpack_u32_def)
      show ?thesis
      proof (cases "int n > MAX_MESSAGE")
        case True
        with rc lt st turn Got ne False n have "es' = es2" "t = Raised ValueError"
          by (auto simp: recv_turn_def recv_length_def finish_length_def Let_def)
        with bt eof lt st True n l4 show ?thesis
          by (intro exI [of _ chunk]) (simp add: pending_def unframe_too_large)
      next
        case small: False
        with rc lt st turn Got ne False n have "es' = es2" "t = Continue"
          "b' = ?b\<lparr>expected_length := Some n, recv_buffer := replicate n (CHR 0x00),
                   payload_received := 0, recv_state := READING_PAYLOAD\<rparr>"
          by (auto simp: recv_turn_def recv_length_def finish_length_def Let_def)
        moreover have "pack_u32 n = Inr (recv_buffer b @ chunk)"
          using unpack_pack [OF l4 n] small by simp
        ultimately show ?thesis using bt eof lt st small
          by (intro exI [of _ chunk]) (auto simp: wf_recv_def pending_def)
      qed
    qed
  qed
qed

lemma payload_complete:
  assumes pk: "pack_u32 n = Inr p" "int n \<le> MAX_MESSAGE" and len: "length (recv_buffer b) = n"
    and rcv: "payload_received b = n"
    and fin: "finish_payload dec n b = (b', r)"
  shows "(case r of
            Inl e \<Rightarrow> unframe dec (p @ recv_buffer b) = ([], Inl e)
          | Inr m \<Rightarrow>
              (if m = ONone then unframe dec (p @ recv_buffer b) = ([], Inl ConnectionError)
               else wf_recv b' \<and> pending b' = [] \<and> recv_state b' = READING_LENGTH
                    \<and> unframe dec (p @ recv_buffer b) = ([m], Inr [])))"
  using fin rcv unframe_frame [OF pk len, of dec "[]"]
  by (auto simp: finish_payload_def wf_recv_def pending_def unframe_short split: sum.splits if_splits)

lemma payload_turn:
  assumes wf: "wf_recv b" and st: "recv_state b = READING_PAYLOAD" and op: "Eof \<notin> set es"
    and turn: "recv_turn dec b es = (b', es', t)"
  shows "\<exists>c. event_bytes es = c @ event_bytes es' \<and> Eof \<notin> set es'
           \<and> (WouldBlock \<in> set es' \<longrightarrow> WouldBlock \<in> set es)
           \<and> (case t of
                Continue \<Rightarrow> False
              | Stop \<Rightarrow> wf_recv b'
                  \<and> (pending b' = pending b @ c \<and> unframe dec (pending b') = ([], Inr (pending b'))
                       \<and> (es' = [] \<or> WouldBlock \<in> set es \<or> recv_state b' = READING_PAYLOAD)
                     \<or> pending b' = [] \<and> unframe dec (pending b @ c) = ([OBool False], Inr []))
              | Raised e \<Rightarrow> unframe dec (pending b @ c) = ([], Inl e)
              | Yield m \<Rightarrow> wf_recv b' \<and> pending b' = [] \<and> m \<noteq> OBool False
                  \<and> unframe dec (pending b @ c) = ([m], Inr []))"
proof -
  from wf st obtain n where n: "expected_length b = Some n" "int n \<le> MAX_MESSAGE"
    "length (recv_buffer b) = n" "payload_received b < n \<or> n = 0 \<and> payload_received b = 0"
    by (auto simp: wf_recv_def split: option.splits)
  then obtain p where p: "pack_u32 n = Inr p" by (auto simp: pack_u32_nat MAX_MESSAGE_def)
  let ?k = "payload_received b"
  have pend: "pending b = p @ take ?k (recv_buffer b)" using st n p by (simp add: pending_def)
  show ?thesis
  proof (cases "n = 0")
    case True
    then have z: "recv_buffer b = []" "payload_received b = 0" using n by auto
    obtain b2 r where fin: "finish_payload dec 0 b = (b2, r)" by fastforce
    with turn st n True have "es' = es" "b' = b2" and t: "t = (case r of Inl e \<Rightarrow> Raised e
        | Inr msg \<Rightarrow> if msg = ONone then Raised ConnectionError
                   else if msg = OBool False then Stop else Yield msg)"
      by (auto simp: recv_turn_def recv_payload_def split: sum.splits)
    with payload_complete [OF p n(2,3), of dec b2 r] fin z True op pend show ?thesis
      by (intro exI [of _ "[]"]) (auto split: sum.splits)
  next
    case False
    then have lt: "?k < n" using n by simp
    obtain r es2 where rc: "sock_recv (n - ?k) es = (r, es2)" by fastforce
    note eof = sock_recv_Eof [OF op rc]
    show ?thesis
    proof (cases r)
      case Blocked
      with rc lt st turn n have "b' = b" "es' = es2" "t = Stop"
        by (auto simp: recv_turn_def recv_payload_def)
      moreover have "unframe dec (pending b) = ([], Inr (pending b))"
        using unframe_partial [OF p n(2)] lt n(3) pend by simp
      ultimately show ?thesis using Blocked rc eof lt wf
        by (intro exI [of _ "[]"]) (auto simp: sock_recv_blocked)
    next
      case (Got chunk)
      let ?buf = "take ?k (recv_buffer b) @ chunk @ drop (?k + length chunk) (recv_buffer b)"
      let ?b = "b\<lparr>recv_buffer := ?buf, payload_received := ?k + length chunk\<rparr>"
      have bt: "event_bytes es = chunk @ event_bytes es2" "length chunk \<le> n - ?k"
        and ne: "chunk \<noteq> []"
        using sock_recv_bytes [of _ es chunk es2] rc Got eof lt by auto
      have tk: "take (?k + length chunk) ?buf = take ?k (recv_buffer b) @ chunk"
        using lt n(3) by simp
      have blen: "length ?buf = n" using bt lt n(3) by simp
      obtain b2 s where fin: "finish_payload dec n ?b = (b2, s)" by fastforce
      with turn st n rc Got ne lt have es': "es' = es2" "b' = b2" and t: "t = (case s of Inl e \<Rightarrow> Raised e
          | Inr msg \<Rightarrow> if msg = ONone then Raised ConnectionError
                     else if msg = OBool False then Stop else Yield msg)"
        by (auto simp: recv_turn_def recv_payload_def split: sum.splits)
      show ?thesis
      proof (cases "?k + length chunk < n")
        case True
        then have "s = Inr (OBool False)" "b' = ?b" using fin es' by (auto simp: finish_payload_def)
        moreover have "wf_recv ?b" using True n st blen by (simp add: wf_recv_def)
        moreover have "pending ?b = pending b @ chunk"
          using st n p tk pend by (simp add: pending_def)
        moreover have "unframe dec (pending b @ chunk) = ([], Inr (pending b @ chunk))"
          using unframe_partial [OF p n(2), of "take ?k (recv_buffer b) @ chunk"] True pend n(3) lt
          by simp
        ultimately show ?thesis using bt eof lt es' t st
          by (intro exI [of _ chunk]) simp
      next
        case full: False
        then have k: "?k + length chunk = n" using bt lt by simp
        then have "pending b @ chunk = p @ ?buf" using pend n(3) by simp
        with payload_complete [OF p n(2), of ?b dec b2 s] fin k blen bt eof lt es' t
        show ?thesis
          by (intro exI [of _ chunk]) (auto split: sum.splits)
      qed
    qed
  qed
qed

lemma unframe_append:
  "unframe dec (s @ w) =
     (case snd (unframe dec s) of
        Inl e \<Rightarrow> unframe dec s
      | Inr l \<Rightarrow> (fst (unframe dec s) @ fst (unframe dec (l @ w)), snd (unframe dec (l @ w))))"
proof (induction dec s arbitrary: w rule: unframe.induct)
  case (1 dec s)
  show ?case
  proof (cases "length s < 4")
    case True
    then show ?thesis by (simp add: unframe_short)
  next
    case False
    obtain n where n: "unpack_u32 (take 4 s) = Inr n" using False by (simp add: unpack_u32_def)
    show ?thesis
    proof (cases "int n > MAX_MESSAGE \<or> length s < 4 + n")
      case True
      show ?thesis
      proof (cases "int n > MAX_MESSAGE")
        case True
        then show ?thesis using False n
          by (simp add: unframe.simps [of dec s] unframe.simps [of dec "s @ w"])
      next
        case small: False
        then have "unframe dec s = ([], Inr s)" using True False n by (simp add: unframe.simps [of dec s])
        then show ?thesis by simp
      qed
    next
      case whole: False
      then have tk: "take n (drop 4 (s @ w)) = take n (drop 4 s)"
        and dr: "drop (4 + n) (s @ w) = drop (4 + n) s @ w" using False by simp_all
      show ?thesis
        using 1 False n whole tk dr
        by (simp add: unframe.simps [of dec s] unframe.simps [of dec "s @ w"] Let_def split_def
            split: sum.splits)
    qed
  qed
qed

text \<open>
  The refinement: on an open stream, one call of the generator yields the messages the
  specification finds in the pending bytes followed by the bytes taken from the stream, keeps
  the incomplete rest pending, and raises exactly the specification's error.
\<close>

definition shown :: "pyobj list \<Rightarrow> pyobj list" where
  "shown ms = filter (\<lambda>m. m \<noteq> OBool False) ms"

lemma recv_messages_unframe:
  "recv_messages dec b es = (b', es', ms, r) \<Longrightarrow> wf_recv b \<Longrightarrow> Eof \<notin> set es
   \<Longrightarrow> \<exists>c sp. event_bytes es = c @ event_bytes es' \<and> Eof \<notin> set es'
         \<and> (WouldBlock \<in> set es' \<longrightarrow> WouldBlock \<in> set es) \<and> ms = shown sp
         \<and> (case r of
              Inl e \<Rightarrow> unframe dec (pending b @ c) = (sp, Inl e)
            | Inr _ \<Rightarrow> wf_recv b' \<and> unframe dec (pending b @ c) = (sp, Inr (pending b')))"
proof (induction dec b es arbitrary: b' es' ms r rule: recv_messages.induct)
  case (1 dec b es)
  obtain b1 es1 t where turn: "recv_turn dec b es = (b1, es1, t)" by (metis prod_cases3)
  show ?case
  proof (cases "recv_state b")
    case READING_LENGTH
    from length_turn [OF 1(4) this 1(5) turn] obtain c where
      c: "event_bytes es = c @ event_bytes es1" "Eof \<notin> set es1"
         "WouldBlock \<in> set es1 \<longrightarrow> WouldBlock \<in> set es" and
      t: "case t of
                Continue \<Rightarrow> wf_recv b1 \<and> pending b1 = pending b @ c
              | Stop \<Rightarrow> wf_recv b1 \<and> pending b1 = pending b @ c \<and> length (pending b1) < 4
                       \<and> recv_state b1 = READING_LENGTH
              | Raised e \<Rightarrow> unframe dec (pending b @ c) = ([], Inl e)
              | Yield m \<Rightarrow> False"
      by blast
    show ?thesis
    proof (cases t)
      case Continue
      with t have t1: "wf_recv b1" "pending b1 = pending b @ c" by simp_all
      from 1(3) turn Continue have "recv_messages dec b1 es1 = (b', es', ms, r)"
        by (simp add: recv_messages.simps [of dec b es])
      from 1(1) [OF turn [symmetric] refl Continue this t1(1) c(2)] obtain c2 sp where
        "event_bytes es1 = c2 @ event_bytes es'" "Eof \<notin> set es'"
        "WouldBlock \<in> set es' \<longrightarrow> WouldBlock \<in> set es1" "ms = shown sp"
        "case r of Inl e \<Rightarrow> unframe dec (pending b1 @ c2) = (sp, Inl e)
         | Inr _ \<Rightarrow> wf_recv b' \<and> unframe dec (pending b1 @ c2) = (sp, Inr (pending b'))"
        by blast
      with c t1 show ?thesis
        by (intro exI [of _ "c @ c2"] exI [of _ sp]) (auto split: sum.splits)
    next
      case Stop
      with t c 1(3) turn show ?thesis
        by (intro exI [of _ c] exI [of _ "[]"])
          (auto simp: recv_messages.simps [of dec b es] unframe_short shown_def)
    next
      case (Raised e)
      with t c 1(3) turn show ?thesis
        by (intro exI [of _ c] exI [of _ "[]"])
          (auto simp: recv_messages.simps [of dec b es] shown_def)
    qed (use t in simp)
  next
    case READING_PAYLOAD
    from payload_turn [OF 1(4) this 1(5) turn] obtain c where
      c: "event_bytes es = c @ event_bytes es1" "Eof \<notin> set es1"
         "WouldBlock \<in> set es1 \<longrightarrow> WouldBlock \<in> set es" and
      t: "case t of
            Continue \<Rightarrow> False
          | Stop \<Rightarrow> wf_recv b1
              \<and> (pending b1 = pending b @ c \<and> unframe dec (pending b1) = ([], Inr (pending b1))
                   \<and> (es1 = [] \<or> WouldBlock \<in> set es \<or> recv_state b1 = READING_PAYLOAD)
                 \<or> pending b1 = [] \<and> unframe dec (pending b @ c) = ([OBool False], Inr []))
          | Raised e \<Rightarrow> unframe dec (pending b @ c) = ([], Inl e)
          | Yield m \<Rightarrow> wf_recv b1 \<and> pending b1 = [] \<and> m \<noteq> OBool False
              \<and> unframe dec (pending b @ c) = ([m], Inr [])"
      by blast
    show ?thesis
    proof (cases t)
      case (Yield m)
      with t have t1: "wf_recv b1" "pending b1 = []" "m \<noteq> OBool False"
        "unframe dec (pending b @ c) = ([m], Inr [])" by simp_all
      obtain ms2 where ms: "recv_messages dec b1 es1 = (b', es', ms2, r)" "ms = m # ms2"
        using 1(3) turn Yield by (auto simp: recv_messages.simps [of dec b es] split: prod.splits)
      from 1(2) [OF turn [symmetric] refl Yield ms(1) t1(1) c(2)] obtain c2 sp where
        x: "event_bytes es1 = c2 @ event_bytes es'" "Eof \<notin> set es'"
        "WouldBlock \<in> set es' \<longrightarrow> WouldBlock \<in> set es1" "ms2 = shown sp"
        "case r of Inl e \<Rightarrow> unframe dec (pending b1 @ c2) = (sp, Inl e)
         | Inr _ \<Rightarrow> wf_recv b' \<and> unframe dec (pending b1 @ c2) = (sp, Inr (pending b'))"
        by blast
      have u: "unframe dec (pending b @ c @ c2) = (m # fst (unframe dec c2), snd (unframe dec c2))"
        using unframe_append [of dec "pending b @ c" c2] t1(4) by simp
      have e: "event_bytes es = (c @ c2) @ event_bytes es'" using c(1) x(1) by simp
      have sh: "ms = shown (m # sp)" using x(4) ms(2) t1(3) by (simp add: shown_def)
      have wb: "WouldBlock \<in> set es' \<longrightarrow> WouldBlock \<in> set es" using x(3) c(3) by blast
      have "case r of Inl e \<Rightarrow> unframe dec (pending b @ c @ c2) = (m # sp, Inl e)
         | Inr _ \<Rightarrow> wf_recv b' \<and> unframe dec (pending b @ c @ c2) = (m # sp, Inr (pending b'))"
        using x(5) t1(2) by (cases r) (simp_all add: u)
      with e sh wb x(2) show ?thesis by (intro exI [of _ "c @ c2"] exI [of _ "m # sp"]) simp
    next
      case Stop
      with 1(3) turn have eq: "b' = b1" "es' = es1" "ms = []" "r = Inr ()"
        by (auto simp: recv_messages.simps [of dec b es])
      from t Stop consider "pending b1 = pending b @ c" "unframe dec (pending b1) = ([], Inr (pending b1))"
        | "pending b1 = []" "unframe dec (pending b @ c) = ([OBool False], Inr [])" by auto
      then show ?thesis
      proof cases
        case 1
        with t Stop eq c show ?thesis by (intro exI [of _ c] exI [of _ "[]"]) (simp add: shown_def)
      next
        case 2
        with t Stop eq c show ?thesis
          by (intro exI [of _ c] exI [of _ "[OBool False]"]) (simp add: shown_def)
      qed
    next
      case (Raised e)
      with t c 1(3) turn show ?thesis
        by (intro exI [of _ c] exI [of _ "[]"])
          (auto simp: recv_messages.simps [of dec b es] shown_def)
    qed (use t in simp)
  qed
qed

section \<open>Polling a socket until nothing is left to read\<close>

text \<open>
  The broker registers its sockets level triggered: as long as something can be read, the next
  \<open>poll\<close> reports the socket again and \<open>recv_messages\<close> is called again.
\<close>

definition poll_weight :: "bsock \<Rightarrow> net_event list \<Rightarrow> nat" where
  "poll_weight b es = turn_weight b es + length es"

lemma recv_length_length: "recv_length b es = (b', es', r) \<Longrightarrow> length es' \<le> length es"
  by (auto simp: recv_length_def Let_def split: if_splits prod.splits recv_outcome.splits
      dest: sock_recv_shrinks)

lemma recv_payload_length: "recv_payload dec b es = (b', es', r) \<Longrightarrow> length es' \<le> length es"
  by (auto simp: recv_payload_def Let_def split: if_splits option.splits prod.splits recv_outcome.splits
      dest: sock_recv_shrinks)

lemma recv_turn_length: "recv_turn dec b es = (b', es', t) \<Longrightarrow> length es' \<le> length es"
  by (auto simp: recv_turn_def split: sum.splits option.splits prod.splits recv_state.splits if_splits
      dest: recv_length_length recv_payload_length)

lemma sock_recv_closer:
  "sock_recv k es = (r, es') \<Longrightarrow> es \<noteq> [] \<Longrightarrow> k > 0 \<Longrightarrow> r \<noteq> Got []
   \<Longrightarrow> length (event_bytes es') + length es' < length (event_bytes es) + length es"
  by (induction k es rule: sock_recv.induct) (fastforce split: if_splits)+

lemma recv_turn_empty:
  "recv_turn dec b [] = (b', es', Stop) \<Longrightarrow> es' = [] \<and> poll_weight b' [] \<le> poll_weight b []"
  by (auto simp: recv_turn_def recv_length_def recv_payload_def finish_length_def finish_payload_def
      poll_weight_def turn_weight_def Let_def
      split: if_splits sum.splits option.splits prod.splits recv_outcome.splits recv_state.splits)

lemma recv_turn_stop_length:
  assumes "recv_turn dec b es = (b', es', Stop)" "es \<noteq> []" "recv_state b = READING_LENGTH"
  shows "poll_weight b' es' < poll_weight b es"
proof -
  have lt: "length (recv_buffer b) < 4"
    using assms
    by (auto simp: recv_turn_def recv_length_def finish_length_def Let_def
        split: if_splits sum.splits prod.splits recv_outcome.splits)
  obtain r es2 where rc: "sock_recv (4 - length (recv_buffer b)) es = (r, es2)" by fastforce
  have "r \<noteq> Got []" using assms rc lt by (auto simp: recv_turn_def recv_length_def)
  with sock_recv_closer [OF rc assms(2)] lt
  have cl: "length (event_bytes es2) + length es2 < length (event_bytes es) + length es" by simp
  have mono: "length (event_bytes es2) \<le> length (event_bytes es)"
    using rc by (cases r) (auto dest: sock_recv_bytes sock_recv_blocked)
  have "es' = es2" "turn_weight b' es2 = 3 * length (event_bytes es2)"
    using assms rc lt
    by (auto simp: recv_turn_def recv_length_def finish_length_def turn_weight_def Let_def
        split: if_splits sum.splits prod.splits recv_outcome.splits)
  with cl mono assms lt show ?thesis by (simp add: poll_weight_def turn_weight_def)
qed

lemma recv_turn_stop_payload:
  assumes "recv_turn dec b es = (b', es', Stop)" "es \<noteq> []" "recv_state b = READING_PAYLOAD"
  shows "poll_weight b' es' < poll_weight b es"
proof -
  obtain n where n: "expected_length b = Some n"
    using assms by (auto simp: recv_turn_def recv_payload_def split: option.splits)
  show ?thesis
  proof (cases "n \<le> payload_received b")
    case True
    with assms n show ?thesis
      by (auto simp: recv_turn_def recv_payload_def finish_payload_def poll_weight_def turn_weight_def
          split: if_splits sum.splits)
  next
    case False
    then have lt: "payload_received b < n" using n by simp
    obtain r es2 where rc: "sock_recv (n - payload_received b) es = (r, es2)" by fastforce
    have "r \<noteq> Got []" using assms rc lt n by (auto simp: recv_turn_def recv_payload_def)
    with sock_recv_closer [OF rc assms(2)] lt
    have cl: "length (event_bytes es2) + length es2 < length (event_bytes es) + length es" by simp
    have mono: "length (event_bytes es2) \<le> length (event_bytes es)"
      using rc by (cases r) (auto dest: sock_recv_bytes sock_recv_blocked)
    have "es' = es2" "turn_weight b' es2 \<le> 3 * length (event_bytes es2) + 1"
      using assms rc lt n
      by (auto simp: recv_turn_def recv_payload_def finish_payload_def turn_weight_def Let_def
          split: if_splits sum.splits prod.splits recv_outcome.splits)
    with cl mono assms show ?thesis by (simp add: poll_weight_def turn_weight_def)
  qed
qed

lemma recv_messages_closer:
  "recv_messages dec b es = (b', es', ms, Inr u)
   \<Longrightarrow> poll_weight b' es' \<le> poll_weight b es \<and> (es \<noteq> [] \<longrightarrow> poll_weight b' es' < poll_weight b es)"
proof (induction dec b es arbitrary: b' es' ms u rule: recv_messages.induct)
  case (1 dec b es)
  obtain b1 es1 t where turn: "recv_turn dec b es = (b1, es1, t)" by (metis prod_cases3)
  have step: "poll_weight b1 es1 < poll_weight b es" if "t = Continue \<or> (\<exists>m. t = Yield m)"
    using recv_turn_weight [OF turn that] recv_turn_length [OF turn] by (simp add: poll_weight_def)
  show ?case
  proof (cases t)
    case Continue
    with 1(3) turn have "recv_messages dec b1 es1 = (b', es', ms, Inr u)"
      by (simp add: recv_messages.simps [of dec b es])
    from 1(1) [OF turn [symmetric] refl Continue this] step Continue show ?thesis by auto
  next
    case (Yield m)
    with 1(3) turn obtain ms2 where "recv_messages dec b1 es1 = (b', es', ms2, Inr u)"
      by (auto simp: recv_messages.simps [of dec b es] split: prod.splits)
    from 1(2) [OF turn [symmetric] refl Yield this] step Yield show ?thesis by auto
  next
    case Stop
    with 1(3) turn have eq: "b' = b1" "es' = es1" by (auto simp: recv_messages.simps [of dec b es])
    show ?thesis
    proof (cases "es = []")
      case True
      with turn Stop eq recv_turn_empty [of dec b b1 es1] show ?thesis by simp
    next
      case False
      then have "poll_weight b1 es1 < poll_weight b es"
        using turn Stop recv_turn_stop_length recv_turn_stop_payload by (cases "recv_state b") blast+
      with eq show ?thesis by simp
    qed
  next
    case (Raised e)
    with 1(3) turn show ?thesis by (simp add: recv_messages.simps [of dec b es])
  qed
qed

lemma recv_messages_closer_sym:
  "(b', es', ms, Inr u) = recv_messages dec b es \<Longrightarrow> es \<noteq> [] \<Longrightarrow> poll_weight b' es' < poll_weight b es"
  using recv_messages_closer [of dec b es b' es' ms u] by simp

function recv_all ::
  "(string \<Rightarrow> pyobj res) \<Rightarrow> bsock \<Rightarrow> net_event list \<Rightarrow> bsock \<times> pyobj list \<times> unit res" where
  "recv_all dec b es =
     (if es = [] then (b, [], Inr ())
      else (case recv_messages dec b es of
              (b', es', ms, Inl e) \<Rightarrow> (b', ms, Inl e)
            | (b', es', ms, Inr _) \<Rightarrow>
                (let (b2, ms2, r) = recv_all dec b' es' in (b2, ms @ ms2, r))))"
  by auto
termination
  by (relation "measure (\<lambda>(dec, b, es). poll_weight b es)") (auto intro: recv_messages_closer_sym)

declare recv_all.simps [simp del]

lemma unframe_rest: "snd (unframe dec s) = Inr l \<Longrightarrow> unframe dec l = ([], Inr l)"
proof (induction dec s arbitrary: l rule: unframe.induct)
  case (1 dec s)
  show ?case
  proof (cases "length s < 4 \<or> (\<exists>n. unpack_u32 (take 4 s) = Inr n \<and> int n \<le> MAX_MESSAGE \<and> length s < 4 + n)")
    case True
    then have "unframe dec s = ([], Inr s)" by (auto simp: unframe.simps [of dec s])
    with 1(2) show ?thesis by simp
  next
    case False
    then have l4: "\<not> length s < 4" by simp
    then obtain n where n: "unpack_u32 (take 4 s) = Inr n" by (simp add: unpack_u32_def)
    have big: "\<not> int n > MAX_MESSAGE" using 1(2) l4 n by (auto simp: unframe.simps [of dec s])
    with False n have whole: "\<not> length s < 4 + n" by auto
    obtain m where m: "dec (take n (drop 4 s)) = Inr m" "m \<noteq> ONone"
      using 1(2) l4 n big whole
      by (cases "dec (take n (drop 4 s))") (auto simp: unframe.simps [of dec s] split: if_splits)
    have "snd (unframe dec (drop (4 + n) s)) = Inr l"
      using 1(2) l4 n big whole m by (simp add: unframe.simps [of dec s] Let_def split_def)
    then show ?thesis using 1(1) [OF l4 n big whole m] by blast
  qed
qed

text \<open>Polling to the end finds what the specification finds in the whole stream.\<close>

lemma recv_all_unframe:
  "recv_all dec b es = (b', ms, r) \<Longrightarrow> wf_recv b \<Longrightarrow> Eof \<notin> set es
   \<Longrightarrow> unframe dec (pending b) = ([], Inr (pending b))
   \<Longrightarrow> ms = shown (fst (unframe dec (pending b @ event_bytes es)))
     \<and> (case r of
          Inl e \<Rightarrow> snd (unframe dec (pending b @ event_bytes es)) = Inl e
        | Inr _ \<Rightarrow> wf_recv b' \<and> snd (unframe dec (pending b @ event_bytes es)) = Inr (pending b'))"
proof (induction dec b es arbitrary: b' ms r rule: recv_all.induct)
  case (1 dec b es)
  show ?case
  proof (cases "es = []")
    case True
    with 1(2) have "b' = b" "ms = []" "r = Inr ()" by (simp_all add: recv_all.simps [of dec b "[]"])
    with 1(3,5) True show ?thesis by (simp add: shown_def)
  next
    case False
    obtain b1 es1 ms1 r1 where rm: "recv_messages dec b es = (b1, es1, ms1, r1)" by (metis prod_cases4)
    from recv_messages_unframe [OF rm 1(3,4)] obtain c sp where
      c: "event_bytes es = c @ event_bytes es1" "Eof \<notin> set es1" "ms1 = shown sp"
      "case r1 of Inl e \<Rightarrow> unframe dec (pending b @ c) = (sp, Inl e)
       | Inr _ \<Rightarrow> wf_recv b1 \<and> unframe dec (pending b @ c) = (sp, Inr (pending b1))"
      by blast
    have app: "unframe dec (pending b @ event_bytes es)
                 = unframe dec ((pending b @ c) @ event_bytes es1)" using c(1) by simp
    show ?thesis
    proof (cases r1)
      case (Inl e)
      with 1(2) False rm have "ms = ms1" "r = Inl e" by (auto simp: recv_all.simps [of dec b es])
      moreover have "unframe dec (pending b @ event_bytes es) = (sp, Inl e)"
        using c(4) Inl app unframe_append [of dec "pending b @ c" "event_bytes es1"] by simp
      ultimately show ?thesis using c(3) by simp
    next
      case (Inr u)
      with c(4) have b1: "wf_recv b1" "unframe dec (pending b @ c) = (sp, Inr (pending b1))" by simp_all
      obtain ms2 where ms: "recv_all dec b1 es1 = (b', ms2, r)" "ms = ms1 @ ms2"
        using 1(2) False rm Inr by (auto simp: recv_all.simps [of dec b es] split: prod.splits)
      have p1: "unframe dec (pending b1) = ([], Inr (pending b1))"
        using unframe_rest [of dec "pending b @ c"] b1(2) by simp
      from 1(1) [OF False rm [symmetric] refl refl Inr ms(1) b1(1) c(2) p1]
      show ?thesis
        using app unframe_append [of dec "pending b @ c" "event_bytes es1"] b1(2) c(3) ms(2)
        by (auto simp: shown_def split: sum.splits)
    qed
  qed
qed

section \<open>A sender and its socket\<close>

datatype send_op = Queue pyobj | Flush send_event

fun run_sends :: "(pyobj \<Rightarrow> string) \<Rightarrow> bsock \<Rightarrow> send_op list \<Rightarrow> (bsock \<times> string) res" where
  "run_sends enc b [] = Inr (b, [])"
| "run_sends enc b (Queue m # ops) = rbind (queue_message enc m b) (\<lambda>b. run_sends enc b ops)"
| "run_sends enc b (Flush ev # ops) =
     (let (b, out, r) = flush_send ev b
      in rbind r (\<lambda>_. rmap (\<lambda>(b2, out2). (b2, out @ out2)) (run_sends enc b ops)))"

fun queued :: "send_op list \<Rightarrow> pyobj list" where
  "queued [] = []"
| "queued (Queue m # ops) = m # queued ops"
| "queued (Flush ev # ops) = queued ops"

text \<open>The offset stays inside a nonempty buffer; the rest of the buffer is still to be sent.\<close>

definition wf_send :: "bsock \<Rightarrow> bool" where
  "wf_send b \<longleftrightarrow> (if send_buffer b = [] then send_offset b = 0
                  else send_offset b < length (send_buffer b))"

definition unsent :: "bsock \<Rightarrow> string" where
  "unsent b = drop (send_offset b) (send_buffer b)"

lemma wf_send_new: "wf_send (new_bsock w) \<and> unsent (new_bsock w) = []"
  by (simp add: wf_send_def unsent_def new_bsock_def)

lemma wants_write_unsent: "wf_send b \<Longrightarrow> wants_write b \<longleftrightarrow> unsent b \<noteq> []"
  by (auto simp: wf_send_def wants_write_def unsent_def split: if_splits)

lemma queue_message_unsent:
  assumes "queue_message enc m b = Inr b'" "wf_send b"
  shows "wf_send b' \<and> (\<exists>f. frame enc m = Inr f \<and> unsent b' = unsent b @ f)"
  using assms pack_u32_Inr
  by (fastforce simp: queue_message_def frame_def wf_send_def unsent_def Let_def rmap_Inr_iff
      split: if_splits)

lemma flush_send_unsent:
  assumes "flush_send ev b = (b', out, r)" "wf_send b"
  shows "wf_send b' \<and> unsent b = out @ unsent b' \<and> (\<forall>x. r = Inr x \<longrightarrow> x = (unsent b' = []))"
proof (cases "send_buffer b = []")
  case True
  with assms show ?thesis by (auto simp: flush_send_def unsent_def)
next
  case False
  then have lt: "send_offset b < length (send_buffer b)" using assms(2) by (simp add: wf_send_def)
  show ?thesis
  proof (cases ev)
    case (Accept k)
    let ?out = "take k (drop (send_offset b) (send_buffer b))"
    let ?all = "length (send_buffer b) \<le> send_offset b + length ?out"
    have "flush_send (Accept k) b =
        (if ?all then (b\<lparr>send_offset := 0, send_buffer := []\<rparr>, ?out, Inr True)
         else (b\<lparr>send_offset := send_offset b + length ?out\<rparr>, ?out, Inr False))"
      using False lt by (simp add: flush_send_def Let_def)
    then have fl: "(if ?all then (b\<lparr>send_offset := 0, send_buffer := []\<rparr>, ?out, Inr True)
         else (b\<lparr>send_offset := send_offset b + length ?out\<rparr>, ?out, Inr False)) = (b', out, r)"
      using assms(1) Accept by (simp only:)
    show ?thesis
    proof (cases ?all)
      case True
      from fl have "out = ?out" "r = Inr True" "b' = b\<lparr>send_offset := 0, send_buffer := []\<rparr>"
        by (simp_all only: if_P [OF True] prod.inject)
      moreover have "?out = drop (send_offset b) (send_buffer b)" using True lt by simp
      ultimately show ?thesis by (simp add: wf_send_def unsent_def)
    next
      case part: False
      from fl have "out = ?out" "r = Inr False"
        "b' = b\<lparr>send_offset := send_offset b + length ?out\<rparr>"
        by (auto simp only: if_not_P [OF part] prod.inject)
      moreover have k: "send_offset b + k < length (send_buffer b)" "length ?out = k"
        using part lt by (auto simp: min_def split: if_splits)
      moreover have "drop (send_offset b) (send_buffer b) = ?out @ drop (send_offset b + k) (send_buffer b)"
        by (metis add.commute append_take_drop_id drop_drop)
      ultimately show ?thesis using False by (auto simp: wf_send_def unsent_def)
    qed
  qed (use False assms lt in \<open>auto simp: flush_send_def unsent_def\<close>)
qed

lemma run_sends_unsent:
  "run_sends enc b ops = Inr (b', out) \<Longrightarrow> wf_send b
   \<Longrightarrow> wf_send b' \<and> (\<exists>fs. rtraverse (frame enc) (queued ops) = Inr fs
                         \<and> out @ unsent b' = unsent b @ concat fs)"
proof (induction enc b ops arbitrary: b' out rule: run_sends.induct)
  case (1 enc b)
  then show ?case by simp
next
  case (2 enc b m ops)
  then obtain b1 where q: "queue_message enc m b = Inr b1" and r: "run_sends enc b1 ops = Inr (b', out)"
    by (auto simp: rbind_Inr_iff)
  from queue_message_unsent [OF q 2(3)] obtain f where f: "wf_send b1" "frame enc m = Inr f"
    "unsent b1 = unsent b @ f" by blast
  from 2(1) [OF r f(1)] f show ?case by auto
next
  case (3 enc b ev ops)
  obtain b1 o1 r where fl: "flush_send ev b = (b1, o1, r)" by (metis prod_cases3)
  with 3(2) obtain x o2 where r: "r = Inr x" "run_sends enc b1 ops = Inr (b', o2)" "out = o1 @ o2"
    by (auto simp: rbind_Inr_iff rmap_Inr_iff)
  from flush_send_unsent [OF fl 3(3)] have f: "wf_send b1" "unsent b = o1 @ unsent b1" by simp_all
  from 3(1) [OF fl [symmetric] refl refl r(2) f(1)] f r(3) show ?case by auto
qed

section \<open>The contract of a codec\<close>

text \<open>
  All that the framing asks of the encoding: a message that is \<open>ok\<close> decodes to itself. In the
  lemmas of this locale the messages are dictionaries of at most \<open>MAX_MESSAGE\<close> encoded bytes.
\<close>

definition is_dict :: "pyobj \<Rightarrow> bool" where
  "is_dict m = (case m of ODict _ \<Rightarrow> True | _ \<Rightarrow> False)"

locale codec =
  fixes enc :: "pyobj \<Rightarrow> string" and dec :: "string \<Rightarrow> pyobj res" and ok :: "pyobj \<Rightarrow> bool"
  assumes dec_enc: "ok m \<Longrightarrow> dec (enc m) = Inr m"
begin

definition sendable :: "pyobj \<Rightarrow> bool" where
  "sendable m \<longleftrightarrow> ok m \<and> is_dict m \<and> int (length (enc m)) \<le> MAX_MESSAGE"

lemma unframe_one:
  assumes "sendable m" "frame enc m = Inr f"
  shows "unframe dec (f @ s) = (m # fst (unframe dec s), snd (unframe dec s))"
proof -
  from assms(2) obtain p where p: "pack_u32 (length (enc m)) = Inr p" "f = p @ enc m"
    by (auto simp: frame_def rmap_Inr_iff)
  have "int (length (enc m)) \<le> MAX_MESSAGE" "m \<noteq> ONone" "dec (enc m) = Inr m"
    using assms(1) dec_enc by (auto simp: sendable_def is_dict_def)
  then show ?thesis using unframe_frame [OF p(1), of "enc m" dec s] p(2) by simp
qed

lemma unframe_frames:
  "list_all sendable ms \<Longrightarrow> rtraverse (frame enc) ms = Inr fs
   \<Longrightarrow> unframe dec (concat fs @ s) = (ms @ fst (unframe dec s), snd (unframe dec s))"
  by (induction ms arbitrary: fs) (auto simp: res_iffs unframe_one)

lemma shown_dicts: "list_all is_dict ms \<Longrightarrow> shown ms = ms"
  by (induction ms) (auto simp: shown_def is_dict_def)

text \<open>A part of the stream of frames is read as a part of the messages.\<close>

lemma unframe_part:
  assumes "list_all sendable ms" "rtraverse (frame enc) ms = Inr fs" "u @ w = concat fs"
  shows "\<exists>ms1 ms2 l. ms = ms1 @ ms2 \<and> unframe dec u = (ms1, Inr l) \<and> (w = [] \<longrightarrow> ms2 = [] \<and> l = [])"
proof -
  have whole: "unframe dec (u @ w) = (ms, Inr [])"
    using unframe_frames [OF assms(1,2), of "[]"] assms(3) by (simp add: unframe_short)
  show ?thesis
  proof (cases "snd (unframe dec u)")
    case (Inl e)
    with whole have "unframe dec u = (ms, Inr [])" by (simp add: unframe_append [of dec u w])
    with Inl show ?thesis by simp
  next
    case (Inr l)
    with whole have "ms = fst (unframe dec u) @ fst (unframe dec (l @ w))"
      by (simp add: unframe_append [of dec u w])
    moreover have "w = [] \<longrightarrow> fst (unframe dec (l @ w)) = [] \<and> l = []"
      using unframe_rest [OF Inr] whole Inr by auto
    ultimately show ?thesis using Inr by (metis prod.collapse)
  qed
qed

lemma transport:
  assumes sends: "run_sends enc (new_bsock w) ops = Inr (b, out)" and sn: "list_all sendable (queued ops)"
    and recv: "recv_all dec (new_bsock v) es = (b', ms, r)"
    and es: "event_bytes es = out" "Eof \<notin> set es"
  shows "r = Inr () \<and> (\<exists>rest. queued ops = ms @ rest \<and> (\<not> wants_write b \<longrightarrow> rest = [] \<and> pending b' = []))"
proof -
  from run_sends_unsent [OF sends] wf_send_new obtain fs where
    wf: "wf_send b" and fs: "rtraverse (frame enc) (queued ops) = Inr fs" "out @ unsent b = concat fs"
    by auto
  from unframe_part [OF sn fs] obtain ms1 ms2 l where
    u: "queued ops = ms1 @ ms2" "unframe dec out = (ms1, Inr l)" "unsent b = [] \<longrightarrow> ms2 = [] \<and> l = []"
    by blast
  have new: "wf_recv (new_bsock v)" "pending (new_bsock v) = []"
    by (simp_all add: new_bsock_def wf_recv_def pending_def)
  have "shown ms1 = ms1" using sn u(1) by (intro shown_dicts) (auto simp: sendable_def list_all_iff)
  with recv_all_unframe [OF recv new(1) es(2)] new(2) es(1) u(2)
  have "ms = ms1" "r = Inr ()" "pending b' = l" by (auto simp: unframe_short split: sum.splits)
  with u wants_write_unsent [OF wf] show ?thesis by auto
qed

end

interpretation json: codec dumps loads wf_obj
  by unfold_locales (rule loads_dumps)

section \<open>The blocking functions\<close>

lemma recv_exactly_bytes:
  "recv_exactly d n es = Some (Inr b, es') \<Longrightarrow> length d \<le> n
   \<Longrightarrow> length b = n \<and> d @ event_bytes es = b @ event_bytes es'"
proof (induction d n es arbitrary: es' rule: recv_exactly.induct)
  case (1 d n es)
  show ?case
  proof (cases "length d < n")
    case True
    obtain r es1 where rc: "sock_recv (n - length d) es = (r, es1)" by fastforce
    show ?thesis
    proof (cases r)
      case Blocked
      with 1 rc True have "es1 \<noteq> []" "recv_exactly d n es1 = Some (Inr b, es')"
        by (auto simp: recv_exactly.simps [of d n es] split: if_splits)
      with 1(2) [OF True rc [symmetric] Blocked] 1(4) rc Blocked show ?thesis
        by (auto simp: sock_recv_blocked)
    next
      case (Got chunk)
      with 1 rc True have g: "chunk \<noteq> []" "recv_exactly (d @ chunk) n es1 = Some (Inr b, es')"
        by (auto simp: recv_exactly.simps [of d n es] split: if_splits)
      have "length chunk \<le> n - length d"
        using sock_recv_bytes [of "n - length d" es chunk es1] rc Got by blast
      then have "length (d @ chunk) \<le> n" using True by simp
      from 1(1) [OF True rc [symmetric] Got g(1) g(2) this] sock_recv_bytes [of _ es chunk es1] rc Got
      show ?thesis by simp
    qed
  next
    case False
    with 1 show ?thesis by (simp add: recv_exactly.simps [of d n es])
  qed
qed

lemma sock_recv_no_eof:
  "Eof \<notin> set es \<Longrightarrow> sock_recv k es = (r, es') \<Longrightarrow> Eof \<notin> set es'"
  by (induction k es rule: sock_recv.induct) (auto split: if_splits)

lemma recv_exactly_total:
  "Eof \<notin> set es \<Longrightarrow> n \<le> length d + length (event_bytes es)
   \<Longrightarrow> \<exists>b es'. recv_exactly d n es = Some (Inr b, es') \<and> Eof \<notin> set es'"
proof (induction d n es rule: recv_exactly.induct)
  case (1 d n es)
  show ?case
  proof (cases "length d < n")
    case True
    obtain r es1 where rc: "sock_recv (n - length d) es = (r, es1)" by fastforce
    note ne = sock_recv_no_eof [OF 1(3) rc] and eof = sock_recv_Eof [OF 1(3) rc]
    show ?thesis
    proof (cases r)
      case Blocked
      with rc have eq: "event_bytes es = event_bytes es1" by (simp add: sock_recv_blocked)
      with 1(4) True have "es1 \<noteq> []" by auto
      with 1(2) [OF True rc [symmetric] Blocked _ ne] 1(4) eq True rc Blocked show ?thesis
        by (simp add: recv_exactly.simps [of d n es])
    next
      case (Got chunk)
      then have "chunk \<noteq> []" using eof True by simp
      moreover have "event_bytes es = chunk @ event_bytes es1" using sock_recv_bytes rc Got by blast
      ultimately show ?thesis
        using 1(1) [OF True rc [symmetric] Got _ ne] 1(4) True rc Got
        by (simp add: recv_exactly.simps [of d n es])
    qed
  next
    case False
    with 1 show ?thesis by (simp add: recv_exactly.simps [of d n es])
  qed
qed

context codec
begin

lemma recv_message_frame:
  assumes "send_message enc m = Inr bytes" "sendable m" "event_bytes es = bytes @ tail" "Eof \<notin> set es"
  shows "\<exists>es'. recv_message dec es = Some (Inr (Some m), es') \<and> event_bytes es' = tail"
proof -
  from assms(1) obtain p where p: "pack_u32 (length (enc m)) = Inr p" "bytes = p @ enc m"
    by (auto simp: send_message_def Let_def rbind_Inr_iff)
  note pk = pack_u32_Inr [OF p(1)]
  have "4 \<le> length (event_bytes es)" using assms(3) p pk by simp
  then obtain b es1 where b: "recv_exactly [] 4 es = Some (Inr b, es1)" "Eof \<notin> set es1"
    using recv_exactly_total [OF assms(4), of 4 "[]"] by auto
  from recv_exactly_bytes [OF b(1)] have b4: "length b = 4" "event_bytes es = b @ event_bytes es1"
    by simp_all
  have bp: "b = p" and rest: "event_bytes es1 = enc m @ tail"
    using b4 assms(3) p(2) pk by (metis append_eq_append_conv append.assoc)+
  have "length (enc m) \<le> length (event_bytes es1)" using rest by simp
  then obtain d es2 where d: "recv_exactly [] (length (enc m)) es1 = Some (Inr d, es2)"
    using recv_exactly_total [OF b(2), of "length (enc m)" "[]"] by auto
  from recv_exactly_bytes [OF d] have "length d = length (enc m)" "event_bytes es1 = d @ event_bytes es2"
    by simp_all
  with rest have "d = enc m" "event_bytes es2 = tail" by simp_all
  moreover have "dec (enc m) = Inr m" "\<not> int (length (enc m)) > MAX_MESSAGE"
    using assms(2) dec_enc by (auto simp: sendable_def)
  moreover have "b \<noteq> []" using b4 by auto
  ultimately show ?thesis using b(1) d bp pk by (simp add: recv_message_def)
qed

end

section \<open>Properties\<close>

text \<open>
  C10: the transport delivers the messages of a sender in order, whatever the kernel does. A
  sender queues dictionaries of at most 100 MB and flushes its socket in any interleaving, each
  \<open>send\<close> accepting any part of the buffer; the receiving buffered socket sees the bytes in any
  fragments. It never fails, what it yields is a prefix of what was queued, and it is all of it
  once the sender has nothing left to write.
\<close>

theorem transport_in_order:
  assumes "run_sends dumps (new_bsock w) ops = Inr (b, out)"
    and "list_all (\<lambda>m. wf_obj m \<and> is_dict m \<and> int (length (dumps m)) \<le> MAX_MESSAGE) (queued ops)"
    and "recv_all loads (new_bsock v) es = (b', ms, r)"
    and "event_bytes es = out" and "Eof \<notin> set es"
  shows "r = Inr ()
         \<and> (\<exists>rest. queued ops = ms @ rest \<and> (\<not> wants_write b \<longrightarrow> rest = [] \<and> pending b' = []))"
proof (rule json.transport [OF assms(1) _ assms(3-5)])
  show "list_all json.sendable (queued ops)"
    using assms(2) by (simp add: json.sendable_def list_all_iff)
qed

definition ex_msg :: pyobj where
  "ex_msg = ODict [(KStr ''type'', OStr ''no_task'')]"

definition ex_ops :: "send_op list" where
  "ex_ops = [Queue ex_msg, Flush (Accept 6), Flush SendBlock, Queue ex_msg, Flush (Accept 100)]"

definition ex_out :: string where
  "ex_out = snd (projr (run_sends dumps (new_bsock ONone) ex_ops))"

definition ex_frag :: "net_event list" where
  "ex_frag = [Data (take 3 ex_out), WouldBlock, Data (take 6 (drop 3 ex_out)), Data (drop 9 ex_out)]"

lemma ex_ops_ok:
  "is_ok (run_sends dumps (new_bsock ONone) ex_ops)"
  "wants_write (fst (projr (run_sends dumps (new_bsock ONone) ex_ops))) = False"
  "length (dumps ex_msg) = 19" "wf_obj ex_msg" "is_dict ex_msg"
  by code_simp+

theorem transport_in_order_witness:
  "fst (snd (recv_all loads (new_bsock ONone) ex_frag)) = [ex_msg, ex_msg]"
proof -
  obtain b' ms r where r: "recv_all loads (new_bsock ONone) ex_frag = (b', ms, r)"
    by (metis prod_cases3)
  obtain b where run: "run_sends dumps (new_bsock ONone) ex_ops = Inr (b, ex_out)"
    using ex_ops_ok(1) by (cases "run_sends dumps (new_bsock ONone) ex_ops") (auto simp: ex_out_def)
  then have nw: "\<not> wants_write b" using ex_ops_ok(2) by simp
  have all: "list_all (\<lambda>m. wf_obj m \<and> is_dict m \<and> int (length (dumps m)) \<le> MAX_MESSAGE) (queued ex_ops)"
    using ex_ops_ok(3-5) by (simp add: ex_ops_def MAX_MESSAGE_def)
  have "take 6 (drop 3 ex_out) @ drop 9 ex_out = drop 3 ex_out"
    using append_take_drop_id [of 6 "drop 3 ex_out"] by simp
  then have "event_bytes ex_frag = ex_out" by (simp add: ex_frag_def)
  moreover have "Eof \<notin> set ex_frag" by (simp add: ex_frag_def)
  ultimately have "ms = queued ex_ops"
    using transport_in_order [OF run all r] nw by auto
  with r show ?thesis by (simp add: ex_ops_def)
qed

text \<open>
  the buffering state machine refines the stream specification \<open>unframe\<close>: polled until
  nothing is left, a fresh buffered socket yields exactly the payloads the specification cuts
  out of the concatenated bytes (less the payload \<open>false\<close>, which it takes for a lack of data),
  raises exactly the specification's error, and otherwise holds back exactly its incomplete
  last frame. The sizes of the fragments have no influence.
\<close>

theorem recv_all_refines:
  assumes "Eof \<notin> set es" and "recv_all loads (new_bsock w) es = (b, ms, r)"
  shows "ms = shown (fst (unframe loads (event_bytes es)))
         \<and> rmap (\<lambda>_. pending b) r = snd (unframe loads (event_bytes es))"
proof -
  have new: "wf_recv (new_bsock w)" "pending (new_bsock w) = []"
    by (simp_all add: new_bsock_def wf_recv_def pending_def)
  have "unframe loads [] = ([], Inr [])" by (simp add: unframe_short)
  with recv_all_unframe [OF assms(2) new(1) assms(1)] new(2) show ?thesis
    by (auto split: sum.splits)
qed

theorem recv_all_refines_witness:
  "let es = [Data [CHR 0xFF], Data [CHR 0x00, CHR 0x00], Data (CHR 0x00 # ''{}'')];
       (b, ms, r) = recv_all loads (new_bsock ONone) es
   in ms = [] \<and> rmap (\<lambda>_. pending b) r = Inl ValueError"
proof -
  let ?es = "[Data [CHR 0xFF], Data [CHR 0x00, CHR 0x00], Data (CHR 0x00 # ''{}'')]"
  obtain b ms r where x: "recv_all loads (new_bsock ONone) ?es = (b, ms, r)" by (metis prod_cases3)
  have "unframe loads (event_bytes ?es) = ([], Inl ValueError)"
    by (simp add: unframe.simps unpack_u32_def MAX_MESSAGE_def)
  with recv_all_refines [OF _ x] show ?thesis by (simp add: x shown_def)
qed

text \<open>
  the blocking functions of the workers agree: what \<open>send_message\<close> puts on the wire,
  \<open>recv_message\<close> reads back from any fragmentation, and it takes not one byte more.
\<close>

theorem recv_message_sent:
  assumes "send_message dumps m = Inr bytes"
    and "wf_obj m \<and> is_dict m \<and> int (length (dumps m)) \<le> MAX_MESSAGE"
    and "event_bytes es = bytes @ rest" and "Eof \<notin> set es"
  shows "\<exists>es'. recv_message loads es = Some (Inr (Some m), es') \<and> event_bytes es' = rest"
  using json.recv_message_frame [OF assms(1) _ assms(3,4)] assms(2) by (simp add: json.sendable_def)

theorem recv_message_sent_witness:
  "\<exists>es'. recv_message loads [Data (take 2 (projr (send_message dumps ex_msg))),
                             Data (drop 2 (projr (send_message dumps ex_msg)) @ ''x'')]
           = Some (Inr (Some ex_msg), es') \<and> event_bytes es' = ''x''"
proof -
  have "is_ok (send_message dumps ex_msg)" by code_simp
  then obtain bytes where b: "send_message dumps ex_msg = Inr bytes"
    by (cases "send_message dumps ex_msg") auto
  show ?thesis
    using recv_message_sent [OF b, of "[Data (take 2 bytes), Data (drop 2 bytes @ ''x'')]" "''x''"] ex_ops_ok
    by (simp add: b MAX_MESSAGE_def)
qed

text \<open>
  \<open>recv_message\<close> never returns None, although its documentation and both worker loops
  reserve that value for a closed connection: a closed connection raises ConnectionError.
\<close>

lemma recv_message_never_none:
  "recv_message dec es \<noteq> Some (Inr None, es') \<and> recv_message dec [Eof] = Some (Inl ConnectionError, [Eof])"
proof
  show "recv_message dec es \<noteq> Some (Inr None, es')"
  proof
    assume a: "recv_message dec es = Some (Inr None, es')"
    then obtain r es1 where r: "recv_exactly [] 4 es = Some (r, es1)"
      by (auto simp: recv_message_def bind_eq_Some_conv)
    show False
    proof (cases r)
      case (Inl e)
      with a r show ?thesis by (simp add: recv_message_def)
    next
      case (Inr lb)
      with recv_exactly_bytes [of "[]" 4 es lb es1] r have "lb \<noteq> []" by auto
      with a r Inr show ?thesis
        by (auto simp: recv_message_def bind_eq_Some_conv rmap_Inr_iff split: sum.splits if_splits)
    qed
  qed
  show "recv_message dec [Eof] = Some (Inl ConnectionError, [Eof])"
    by (simp add: recv_message_def recv_exactly.simps)
qed

end
