(* ===== verification/PyObj.thy ===== *)
theory PyObj
  imports Json
begin

text \<open>
  What the message handling does with Python objects: subscripts, \<open>get\<close>, \<open>in\<close>, equality,
  iteration, the paths of \<open>pathlib\<close>, white space and the case of (ASCII) letters.
\<close>

section \<open>Dictionaries as objects\<close>

text \<open>\<open>o['k']\<close>: only a dictionary has string subscripts.\<close>

fun obj_get :: "pyobj \<Rightarrow> string \<Rightarrow> pyobj res" where
  "obj_get (ODict d) k = of_option KeyError (dget d (KStr k))"
| "obj_get _ k = Inl TypeError"

text \<open>\<open>o[x]\<close> for a dictionary; no list or string is subscripted by the handlers.\<close>

fun obj_sub :: "pyobj \<Rightarrow> pyobj \<Rightarrow> pyobj res" where
  "obj_sub (ODict d) x = rbind (key_of x) (\<lambda>k. of_option KeyError (dget d k))"
| "obj_sub _ x = Inl TypeError"

text \<open>\<open>o.get('k', dflt)\<close>.\<close>

fun obj_get_or :: "pyobj \<Rightarrow> string \<Rightarrow> pyobj \<Rightarrow> pyobj res" where
  "obj_get_or (ODict d) k dflt = Inr (case dget d (KStr k) of None \<Rightarrow> dflt | Some v \<Rightarrow> v)"
| "obj_get_or _ k dflt = Inl AttributeError"

text \<open>\<open>o['k'] = v\<close>.\<close>

fun obj_set :: "pyobj \<Rightarrow> string \<Rightarrow> pyobj \<Rightarrow> pyobj res" where
  "obj_set (ODict d) k v = Inr (ODict (dset d (KStr k) v))"
| "obj_set _ k v = Inl TypeError"

text \<open>\<open>o.pop('k', None)\<close>, as a change of the object.\<close>

fun obj_pop :: "pyobj \<Rightarrow> string \<Rightarrow> pyobj res" where
  "obj_pop (ODict d) k = Inr (ODict (ddel d (KStr k)))"
| "obj_pop _ k = Inl AttributeError"

text \<open>A dictionary display with string keys.\<close>

definition mk_dict :: "(string \<times> pyobj) list \<Rightarrow> pyobj" where
  "mk_dict kvs = ODict (dict_of (map (\<lambda>(k, v). (KStr k, v)) kvs))"

text \<open>\<open>==\<close>: dictionaries regardless of the order of their items, a bool as its number.\<close>

fun obj_num :: "pyobj \<Rightarrow> int option" where
  "obj_num (OBool b) = Some (if b then 1 else 0)"
| "obj_num (OInt i) = Some i"
| "obj_num _ = None"

fun obj_eq :: "pyobj \<Rightarrow> pyobj \<Rightarrow> bool"
  and objs_eq :: "pyobj list \<Rightarrow> pyobj list \<Rightarrow> bool"
  and items_in :: "(pkey \<times> pyobj) list \<Rightarrow> (pkey \<times> pyobj) list \<Rightarrow> bool" where
  "obj_eq (OList l) (OList m) = objs_eq l m"
| "obj_eq (ODict d) (ODict e) = (length d = length e \<and> items_in d e)"
| "obj_eq a b = (if obj_num a \<noteq> None then obj_num a = obj_num b else a = b)"
| "objs_eq [] [] = True"
| "objs_eq (x # xs) (y # ys) = (obj_eq x y \<and> objs_eq xs ys)"
| "objs_eq _ _ = False"
| "items_in [] e = True"
| "items_in ((k, v) # d) e = ((case dget e k of None \<Rightarrow> False | Some w \<Rightarrow> obj_eq v w) \<and> items_in d e)"

text \<open>\<open>x in o\<close>. Membership of a string in a string is the search for a substring.\<close>

fun substring :: "string \<Rightarrow> string \<Rightarrow> bool" where
  "substring p [] = (p = [])"
| "substring p (c # cs) = (startswith (c # cs) p \<or> substring p cs)"

fun obj_in :: "pyobj \<Rightarrow> pyobj \<Rightarrow> bool res" where
  "obj_in x (OList l) = Inr (list_ex (obj_eq x) l)"
| "obj_in x (ODict d) = rmap (\<lambda>k. dhas d k) (key_of x)"
| "obj_in (OStr p) (OStr s) = Inr (substring p s)"
| "obj_in _ _ = Inl TypeError"

text \<open>\<open>for x in o\<close>.\<close>

fun obj_of_key :: "pkey \<Rightarrow> pyobj" where
  "obj_of_key KNone = ONone"
| "obj_of_key (KInt i) = OInt i"
| "obj_of_key (KFloat f) = OFloat f"
| "obj_of_key (KStr s) = OStr s"

fun obj_iter :: "pyobj \<Rightarrow> pyobj list res" where
  "obj_iter (OList l) = Inr l"
| "obj_iter (ODict d) = Inr (map (\<lambda>p. obj_of_key (fst p)) d)"
| "obj_iter (OStr s) = Inr (map (\<lambda>c. OStr [c]) s)"
| "obj_iter _ = Inl TypeError"

text \<open>\<open>o.items()\<close> and \<open>len(o)\<close>.\<close>

fun obj_items :: "pyobj \<Rightarrow> (pyobj \<times> pyobj) list res" where
  "obj_items (ODict d) = Inr (map (\<lambda>p. (obj_of_key (fst p), snd p)) d)"
| "obj_items _ = Inl AttributeError"

fun obj_len :: "pyobj \<Rightarrow> nat res" where
  "obj_len (OList l) = Inr (length l)"
| "obj_len (ODict d) = Inr (length d)"
| "obj_len (OStr s) = Inr (length s)"
| "obj_len _ = Inl TypeError"

section \<open>Paths\<close>

fun split_on :: "char \<Rightarrow> string \<Rightarrow> string list" where
  "split_on c [] = [[]]"
| "split_on c (x # xs) =
     (if x = c then [] # split_on c xs
      else (case split_on c xs of [] \<Rightarrow> [[x]] | w # ws \<Rightarrow> (x # w) # ws))"

text \<open>
  \<open>Path(s).as_posix()\<close>: empty and dot components go; exactly two leading slashes stay two, any
  other number of leading slashes is one; the empty path is a dot.
\<close>

definition path_root :: "string \<Rightarrow> string" where
  "path_root s =
     (if \<not> startswith s ''/'' then []
      else if startswith s ''//'' \<and> \<not> startswith s ''///'' then ''//'' else ''/'')"

definition posix_path :: "string \<Rightarrow> string" where
  "posix_path s =
     (let parts = filter (\<lambda>w. w \<noteq> [] \<and> w \<noteq> ''.'') (split_on (CHR ''/'') s);
          p = path_root s @ join ''/'' parts
      in if p = [] then ''.'' else p)"

fun as_path :: "pyobj \<Rightarrow> string res" where
  "as_path (OStr s) = Inr (posix_path s)"
| "as_path _ = Inl TypeError"

section \<open>White space\<close>

definition is_space :: "char \<Rightarrow> bool" where
  "is_space c \<longleftrightarrow> (of_char c :: nat) \<in> {9, 10, 11, 12, 13, 28, 29, 30, 31, 32, 133, 160}"

text \<open>\<open>s.strip(chars)\<close> and \<open>s.strip()\<close>.\<close>

definition strip_chars :: "(char \<Rightarrow> bool) \<Rightarrow> string \<Rightarrow> string" where
  "strip_chars p s = rev (dropWhile p (rev (dropWhile p s)))"

definition strip :: "string \<Rightarrow> string" where
  "strip s = strip_chars is_space s"

section \<open>Case\<close>

definition ascii_lower :: "char \<Rightarrow> char" where
  "ascii_lower c = (let n = (of_char c :: nat) in if 65 \<le> n \<and> n \<le> 90 then char_of (n + 32) else c)"

definition ascii_upper :: "char \<Rightarrow> char" where
  "ascii_upper c = (let n = (of_char c :: nat) in if 97 \<le> n \<and> n \<le> 122 then char_of (n - 32) else c)"

definition py_lower :: "string \<Rightarrow> string" where
  "py_lower s = map ascii_lower s"

section \<open>Lemmas\<close>

lemma obj_get_set [simp]:
  "obj_get (ODict (dset d (KStr k) v)) k' = (if k = k' then Inr v else obj_get (ODict d) k')"
  by auto

lemma obj_get_Inr: "obj_get m k = Inr v \<longleftrightarrow> (\<exists>d. m = ODict d \<and> dget d (KStr k) = Some v)"
  by (cases m) (auto simp: of_option_Inr_iff)

lemma obj_in_fields: "obj_in (OStr k) (ODict d) = Inr (dhas d (KStr k))"
  by simp

lemma key_of_of_key [simp]: "key_of (obj_of_key k) = Inr k"
  by (cases k) auto

lemma distinct_field_keys:
  "distinct (map fst kvs) \<Longrightarrow> distinct (map fst (map (\<lambda>(k, v). (KStr k, v)) kvs))"
  by (induction kvs) force+

lemma mk_dict_distinct:
  "distinct (map fst kvs) \<Longrightarrow> mk_dict kvs = ODict (map (\<lambda>(k, v). (KStr k, v)) kvs)"
  unfolding mk_dict_def by (simp only: dict_of_distinct [OF distinct_field_keys])

lemma split_on_none: "c \<notin> set w \<Longrightarrow> split_on c w = [w]"
  by (induction w) auto

lemma split_on_append: "c \<notin> set w \<Longrightarrow> split_on c (w @ c # t) = w # split_on c t"
  by (induction w) auto

lemma split_on_join: "ws \<noteq> [] \<Longrightarrow> list_all (\<lambda>w. c \<notin> set w) ws \<Longrightarrow> split_on c (join [c] ws) = ws"
  by (induction ws rule: induct_list012) (auto simp: split_on_none split_on_append)

lemma join_Cons: "join sep (t # ts) = t @ (if ts = [] then [] else sep @ join sep ts)"
  by (cases ts) simp_all

lemma join_all: "list_all P sep \<Longrightarrow> list_all (list_all P) ts \<Longrightarrow> list_all P (join sep ts)"
  by (induction sep ts rule: join.induct) simp_all

end
