(* ===== verification/Handlers.thy ===== *)
theory Handlers
  imports PyObj
begin

text \<open>
  \<open>v3python/tune/localq/handlers.py\<close>: the message handlers of the tuning DAG. A message is a
  Python object; a handler returns the object it would forward (a dictionary, a list of
  dictionaries, or None). The tuner subprocess behind \<open>exaid_create\<close> and the database are
  arguments: what they answer is up to the environment.
\<close>

section \<open>Environment\<close>

text \<open>
  An exception of the exaid object: an OSError with its class name, errno and strerror, an
  \<open>ExaidSubprocessNotOK\<close> with its stdout and stderr, or anything else. \<open>text\<close> is \<open>str(e)\<close>.
\<close>

datatype exa_error =
    ExOSError (tname: string) (errno: pyobj) (strerror: pyobj) (etext: string)
  | ExNotOK (stdout: pyobj) (stderr: pyobj) (etext: string)
  | ExOther pyerr

fun exa_type_name :: "exa_error \<Rightarrow> string" where
  "exa_type_name (ExOSError t n m s) = t"
| "exa_type_name (ExNotOK out err s) = ''ExaidSubprocessNotOK''"
| "exa_type_name (ExOther e) = []"

record exaid =
  ex_tmpfs_for :: "pyobj \<Rightarrow> string res"
  ex_prepare :: "pyobj \<Rightarrow> string \<Rightarrow> pyobj \<Rightarrow> exa_error + unit"
  ex_probe :: "string \<Rightarrow> exa_error + pyobj"
  ex_benchmark :: "string \<Rightarrow> pyobj \<Rightarrow> pyobj \<Rightarrow> exa_error + pyobj"

text \<open>\<open>exaid_create(module, gpu_id)\<close> looks the pair up in a cache, so the module is hashed.\<close>

definition exaid_create :: "(pyobj \<Rightarrow> exaid) \<Rightarrow> pyobj \<Rightarrow> exaid res" where
  "exaid_create env module = rmap (\<lambda>_. env module) (key_of module)"

text \<open>Database operations the handlers of the CPU worker call, and the directories on tmpfs.\<close>

record 'db db_ops =
  save_tuning_result :: "pyobj \<Rightarrow> pyobj \<Rightarrow> ('db, unit) act"
  save_optune_result :: "pyobj \<Rightarrow> pyobj \<Rightarrow> ('db, unit) act"
  mark_completed :: "pyobj \<Rightarrow> pyobj \<Rightarrow> ('db, unit) act"
  mark_pending :: "pyobj \<Rightarrow> pyobj \<Rightarrow> ('db, unit) act"
  mark_failed :: "pyobj \<Rightarrow> pyobj \<Rightarrow> pyobj \<Rightarrow> ('db, unit) act"

record 'db world =
  w_db :: 'db
  w_dirs :: "string list"

definition on_db :: "('db, 'a) act \<Rightarrow> ('db world, 'a) act" where
  "on_db m w = (let (db, r) = m (w_db w) in (w\<lparr>w_db := db\<rparr>, r))"

text \<open>\<open>shutil.rmtree\<close>: the directory and everything below it.\<close>

definition rmtree :: "string \<Rightarrow> 'db world \<Rightarrow> 'db world" where
  "rmtree d w = w\<lparr>w_dirs := filter (\<lambda>p. p \<noteq> d \<and> \<not> startswith p (d @ ''/'')) (w_dirs w)\<rparr>"

section \<open>TuneKernelHandler, PreprocessHandler\<close>

definition tune_kernel_handle :: "pyobj \<Rightarrow> pyobj res" where
  "tune_kernel_handle message =
     rbind (obj_get message ''task_id'') (\<lambda>task_id.
     rbind (obj_get message ''task_config'') (\<lambda>task_config.
     Inr (mk_dict [(''class'', OStr ''preprocess''), (''target_queue'', OStr ''gpu_queue''),
                   (''task_id'', task_id), (''task_config'', task_config)])))"

definition mark_task_failed_msg :: "pyobj \<Rightarrow> pyobj \<Rightarrow> string \<Rightarrow> string \<Rightarrow> pyobj" where
  "mark_task_failed_msg task_id arch err tmpdir =
     mk_dict [(''class'', OStr ''mark_task_failed''), (''target_queue'', OStr ''cpu_queue''),
              (''task_id'', task_id), (''arch'', arch), (''error'', OStr err),
              (''tmpdir'', OStr tmpdir)]"

definition fail_text :: "string \<Rightarrow> exa_error \<Rightarrow> string" where
  "fail_text stage e = stage @ '' failed: '' @ exa_type_name e @ '': '' @ etext e"

definition preprocess_handle :: "(pyobj \<Rightarrow> exaid) \<Rightarrow> pyobj \<Rightarrow> pyobj res" where
  "preprocess_handle env message =
     rbind (obj_get message ''task_config'') (\<lambda>task_config.
     rbind (obj_get message ''task_id'') (\<lambda>task_id.
     rbind (obj_get task_config ''module'') (\<lambda>module.
     rbind (exaid_create env module) (\<lambda>exaid.
     rbind (obj_in (OStr ''tmpdir'') task_config) (\<lambda>has_tmpdir.
     rbind (if has_tmpdir then rbind (obj_get task_config ''tmpdir'') as_path
            else rbind (obj_get task_config ''entry'') (ex_tmpfs_for exaid)) (\<lambda>tmpdir.
     rbind (obj_get_or task_config ''extra_im_texts'' (OList [])) (\<lambda>extra_im_texts.
     rbind (obj_get task_config ''entry'') (\<lambda>entry.
       case ex_prepare exaid entry tmpdir extra_im_texts of
         Inl (ExOther e) \<Rightarrow> Inl e
       | Inl e \<Rightarrow>
           rbind (obj_get_or task_config ''arch'' ONone) (\<lambda>arch.
           Inr (mark_task_failed_msg task_id arch (fail_text ''Preprocess'' e) tmpdir))
       | Inr _ \<Rightarrow>
           rbind (obj_set task_config ''tmpdir'' (OStr tmpdir)) (\<lambda>task_config.
           Inr (mk_dict [(''class'', OStr ''probe''), (''target_queue'', OStr ''gpu_queue''),
                         (''task_id'', task_id), (''task_config'', task_config)]))))))))))"

section \<open>ProbeHandler\<close>

text \<open>\<open>expected_impls.setdefault(name, []).append(index)\<close> over the implementation tasks.\<close>

definition add_expected :: "(pkey \<times> pyobj) list \<Rightarrow> pkey \<times> pyobj \<Rightarrow> (pkey \<times> pyobj) list" where
  "add_expected d t =
     (case dget d (fst t) of
        Some (OList l) \<Rightarrow> dset d (fst t) (OList (l @ [snd t]))
      | _ \<Rightarrow> dset d (fst t) (OList [snd t]))"

definition expected_impls :: "(pkey \<times> pyobj) list \<Rightarrow> pyobj" where
  "expected_impls impl_tasks = ODict (foldl add_expected [] impl_tasks)"

definition tune_msg :: "string \<Rightarrow> pyobj \<Rightarrow> pyobj \<Rightarrow> string \<Rightarrow> string \<Rightarrow> pkey \<times> pyobj \<Rightarrow> pyobj" where
  "tune_msg cls task_id task_config name_key index_key t =
     mk_dict [(''class'', OStr cls), (''target_queue'', OStr ''gpu_queue''),
              (''task_id'', task_id), (''task_config'', task_config),
              (name_key, obj_of_key (fst t)), (index_key, snd t)]"

definition postprocess_msg ::
  "pyobj \<Rightarrow> pyobj \<Rightarrow> string \<Rightarrow> string \<Rightarrow> string \<Rightarrow> (pkey \<times> pyobj) list \<Rightarrow> pyobj" where
  "postprocess_msg task_id task_config result_class name_key index_key impl_tasks =
     mk_dict [(''class'', OStr ''postprocess''), (''target_queue'', OStr ''cpu_queue''),
              (''task_id'', task_id), (''task_config'', task_config),
              (''depends'', OList [OStr result_class]),
              (''name_key'', OStr name_key), (''index_key'', OStr index_key),
              (''expected_impls'', expected_impls impl_tasks), (''received_impls'', ODict [])]"

text \<open>\<open>l[:n]\<close> for a list and a truthy integer, negative ones included.\<close>

definition slice_to :: "int \<Rightarrow> 'a list \<Rightarrow> 'a list" where
  "slice_to n l = (if n < 0 then take (nat (int (length l) + n)) l else take (nat n) l)"

text \<open>\<open>hsaco_list[:max_h] if max_h else hsaco_list\<close>, and its length.\<close>

definition limited_length :: "pyobj \<Rightarrow> pyobj \<Rightarrow> nat res" where
  "limited_length hsaco_list max_h =
     (if \<not> obj_true max_h then obj_len hsaco_list
      else (case (obj_num max_h, hsaco_list) of
              (Some n, OList l) \<Rightarrow> Inr (length (slice_to n l))
            | (Some n, OStr s) \<Rightarrow> Inr (length (slice_to n s))
            | _ \<Rightarrow> Inl TypeError))"

definition limited_impls ::
  "(pkey \<times> pyobj) list \<Rightarrow> pyobj \<Rightarrow> pkey \<times> pyobj \<Rightarrow> (pkey \<times> pyobj) list res" where
  "limited_impls max_hsaco_dict max_hsaco_global item =
     (let (kname, hsaco_list) = item;
          max_h = (case dget max_hsaco_dict kname of None \<Rightarrow> max_hsaco_global | Some m \<Rightarrow> m)
      in rmap (\<lambda>n. map (\<lambda>hsaco_index. (kname, OInt (int hsaco_index))) [0..<n])
           (limited_length hsaco_list max_h))"

definition kernel_impls :: "pyobj \<Rightarrow> pyobj \<Rightarrow> (pkey \<times> pyobj) list res" where
  "kernel_impls impl_dict task_config =
     rbind (obj_get_or task_config ''max_hsaco'' (ODict [])) (\<lambda>max_hsaco_dict.
     rbind (obj_get_or max_hsaco_dict ''*'' ONone) (\<lambda>max_hsaco_global.
       case (impl_dict, max_hsaco_dict) of
         (ODict impls, ODict limits) \<Rightarrow>
           rmap concat (rtraverse (limited_impls limits max_hsaco_global) impls)
       | _ \<Rightarrow> Inl AttributeError))"

definition build_fanout_kernel :: "pyobj \<Rightarrow> pyobj \<Rightarrow> pyobj \<Rightarrow> pyobj list res" where
  "build_fanout_kernel impl_dict task_id task_config =
     rmap (\<lambda>impl_tasks.
         map (tune_msg ''tune_hsaco'' task_id task_config ''kname'' ''hsaco_index'') impl_tasks
         @ [postprocess_msg task_id task_config ''hsaco_result'' ''kname'' ''hsaco_index'' impl_tasks])
       (kernel_impls impl_dict task_config)"

text \<open>Operators with at most one backend are skipped.\<close>

definition op_impls :: "pyobj \<Rightarrow> (pkey \<times> pyobj) list res" where
  "op_impls impl_dict =
     (case impl_dict of
        ODict impls \<Rightarrow>
          rmap concat (rtraverse (\<lambda>(op_name, backend_list).
            rbind (obj_len backend_list) (\<lambda>n.
              if n \<le> 1 then Inr []
              else rbind (obj_iter backend_list) (\<lambda>entries.
                     rtraverse (\<lambda>entry. rmap (\<lambda>i. (op_name, i)) (obj_get entry ''backend_index''))
                       entries))) impls)
      | _ \<Rightarrow> Inl AttributeError)"

definition build_fanout_op :: "pyobj \<Rightarrow> pyobj \<Rightarrow> pyobj \<Rightarrow> pyobj list res" where
  "build_fanout_op impl_dict task_id task_config =
     rmap (\<lambda>impl_tasks.
         map (tune_msg ''tune_backend'' task_id task_config ''op_name'' ''backend_index'') impl_tasks
         @ [postprocess_msg task_id task_config ''backend_result'' ''op_name'' ''backend_index''
              impl_tasks])
       (op_impls impl_dict)"

fun obj_endswith :: "pyobj \<Rightarrow> string \<Rightarrow> bool res" where
  "obj_endswith (OStr s) p = Inr (endswith s p)"
| "obj_endswith _ p = Inl AttributeError"

definition probe_handle :: "(pyobj \<Rightarrow> exaid) \<Rightarrow> pyobj \<Rightarrow> pyobj res" where
  "probe_handle env message =
     rbind (obj_get message ''task_config'') (\<lambda>task_config.
     rbind (obj_get message ''task_id'') (\<lambda>task_id.
     rbind (obj_get task_config ''module'') (\<lambda>module.
     rbind (obj_endswith module ''_op'') (\<lambda>is_op.
     rbind (exaid_create env module) (\<lambda>exaid.
     rbind (rbind (obj_get task_config ''tmpdir'') as_path) (\<lambda>tmpdir.
       case ex_probe exaid tmpdir of
         Inl (ExOther e) \<Rightarrow> Inl e
       | Inl e \<Rightarrow>
           rbind (obj_get_or task_config ''arch'' ONone) (\<lambda>arch.
           Inr (mark_task_failed_msg task_id arch (fail_text ''Probe'' e) tmpdir))
       | Inr impl_dict \<Rightarrow>
           rmap OList (if is_op then build_fanout_op impl_dict task_id task_config
                       else build_fanout_kernel impl_dict task_id task_config)))))))"

section \<open>TuneHsacoHandler, TuneBackendHandler\<close>

text \<open>
  The two classes differ in the keys they read and write. The report's error holds what the
  exception carries.
\<close>

record tune_keys =
  k_name :: string
  k_index :: string
  k_result_class :: string
  k_report_name :: string
  k_report_index :: string

definition TuneHsaco :: tune_keys where
  "TuneHsaco = \<lparr>k_name = ''kname'', k_index = ''hsaco_index'', k_result_class = ''hsaco_result'',
                k_report_name = ''kernel_name'', k_report_index = ''hsaco_index''\<rparr>"

definition TuneBackend :: tune_keys where
  "TuneBackend = \<lparr>k_name = ''op_name'', k_index = ''backend_index'',
                  k_result_class = ''backend_result'',
                  k_report_name = ''op_name'', k_report_index = ''backend_index''\<rparr>"

definition tune_report :: "tune_keys \<Rightarrow> pyobj \<Rightarrow> pyobj \<Rightarrow> exa_error + pyobj \<Rightarrow> pyobj res" where
  "tune_report k impl_name impl_index outcome =
     (let report = (\<lambda>result data err.
            mk_dict [(k_report_name k, impl_name), (k_report_index k, impl_index),
                     (''result'', OStr result), (''result_data'', data), (''error'', err)])
      in case outcome of
           Inr result_data \<Rightarrow> Inr (report ''OK'' result_data ONone)
         | Inl (ExOSError t no str txt) \<Rightarrow>
             Inr (report ''crash'' ONone (mk_dict [(''errno'', no), (''stderr'', str)]))
         | Inl (ExNotOK out err txt) \<Rightarrow>
             Inr (report ''NotOK'' ONone (mk_dict [(''stdout'', out), (''stderr'', err)]))
         | Inl (ExOther e) \<Rightarrow> Inl e)"

definition tune_handle :: "tune_keys \<Rightarrow> (pyobj \<Rightarrow> exaid) \<Rightarrow> pyobj \<Rightarrow> pyobj res" where
  "tune_handle k env message =
     rbind (obj_get message ''task_config'') (\<lambda>task_config.
     rbind (obj_get message ''task_id'') (\<lambda>task_id.
     rbind (obj_get message (k_name k)) (\<lambda>impl_name.
     rbind (obj_get message (k_index k)) (\<lambda>impl_index.
     rbind (obj_get task_config ''module'') (\<lambda>module.
     rbind (exaid_create env module) (\<lambda>exaid.
     rbind (rbind (obj_get task_config ''tmpdir'') as_path) (\<lambda>tmpdir.
     rbind (tune_report k impl_name impl_index (ex_benchmark exaid tmpdir impl_name impl_index)) (\<lambda>report.
     Inr (mk_dict [(''class'', OStr (k_result_class k)), (''target_queue'', OStr ''cpu_queue''),
                   (''task_id'', task_id), (k_name k, impl_name), (k_index k, impl_index),
                   (''report'', report)])))))))))"

section \<open>Writing results\<close>

text \<open>The debug line after the write reads two more fields of the report.\<close>

definition write_hsaco_handle :: "'db db_ops \<Rightarrow> pyobj \<Rightarrow> ('db world, pyobj) act" where
  "write_hsaco_handle ops message =
     sbind (slift (obj_get message ''task_id'')) (\<lambda>task_id.
     sbind (slift (obj_get message ''report'')) (\<lambda>report.
     sbind (on_db (save_tuning_result ops task_id report)) (\<lambda>_.
     sbind (slift (obj_get report ''kernel_name'')) (\<lambda>_.
     sbind (slift (obj_get report ''hsaco_index'')) (\<lambda>_. sret ONone)))))"

definition write_backend_handle :: "'db db_ops \<Rightarrow> pyobj \<Rightarrow> ('db world, pyobj) act" where
  "write_backend_handle ops message =
     sbind (slift (obj_get message ''task_id'')) (\<lambda>task_id.
     sbind (slift (obj_get message ''report'')) (\<lambda>report.
     sbind (on_db (save_optune_result ops task_id report)) (\<lambda>_.
     sbind (slift (obj_get report ''op_name'')) (\<lambda>_.
     sbind (slift (obj_get report ''backend_index'')) (\<lambda>_. sret ONone)))))"

section \<open>PostprocessHandler\<close>

text \<open>
  \<open>received_impls.setdefault(impl_name, {})[impl_index] = report\<close>. The right-hand side has
  been evaluated; the name is hashed by \<open>setdefault\<close>, which leaves its empty dictionary
  behind when hashing the index fails.
\<close>

definition store_report ::
  "(pkey \<times> pyobj) list \<Rightarrow> pyobj \<Rightarrow> pyobj \<Rightarrow> pyobj \<Rightarrow> (pkey \<times> pyobj) list \<times> unit res" where
  "store_report received impl_name impl_index report =
     (case key_of impl_name of
        Inl e \<Rightarrow> (received, Inl e)
      | Inr n \<Rightarrow>
          (let inner = (case dget received n of None \<Rightarrow> ODict [] | Some x \<Rightarrow> x);
               received = dset received n inner
           in case (inner, key_of impl_index) of
                (ODict d, Inr i) \<Rightarrow> (dset received n (ODict (dset d i report)), Inr ())
              | (_, Inl e) \<Rightarrow> (received, Inl e)
              | _ \<Rightarrow> (received, Inl TypeError)))"

text \<open>The check that everything expected has been received; it returns at the first miss.\<close>

fun all_in :: "pyobj \<Rightarrow> pyobj list \<Rightarrow> bool res" where
  "all_in got [] = Inr True"
| "all_in got (idx # idxs) = rbind (obj_in idx got) (\<lambda>b. if b then all_in got idxs else Inr False)"

fun all_received :: "pyobj \<Rightarrow> (pyobj \<times> pyobj) list \<Rightarrow> bool res" where
  "all_received received [] = Inr True"
| "all_received received ((name, indices) # items) =
     rbind (obj_in name received) (\<lambda>has.
       if \<not> has then Inr False
       else rbind (obj_iter indices) (\<lambda>idxs.
            rbind (obj_sub received name) (\<lambda>got.
            rbind (all_in got idxs) (\<lambda>b.
              if b then all_received received items else Inr False))))"

text \<open>
  \<open>resolve_dependency\<close> returns the blocked message as it leaves it, and its result.
\<close>

definition resolve_guards :: "pyobj \<Rightarrow> pyobj \<Rightarrow> bool res" where
  "resolve_guards blocked_msg incoming_msg =
     rbind (obj_get blocked_msg ''class'') (\<lambda>c.
       if \<not> obj_eq c (OStr ''postprocess'') then Inr False
       else rbind (obj_get incoming_msg ''class'') (\<lambda>ic.
            rbind (obj_get blocked_msg ''depends'') (\<lambda>deps.
            rbind (obj_in ic deps) (\<lambda>dep.
              if \<not> dep then Inr False
              else rbind (obj_get blocked_msg ''task_id'') (\<lambda>t.
                   rbind (obj_get incoming_msg ''task_id'') (\<lambda>it. Inr (obj_eq t it)))))))"

definition report_parts :: "pyobj \<Rightarrow> pyobj \<Rightarrow> (pyobj \<times> pyobj \<times> pyobj \<times> pyobj) res" where
  "report_parts blocked_msg incoming_msg =
     rbind (obj_get blocked_msg ''name_key'') (\<lambda>name_key.
     rbind (obj_get blocked_msg ''index_key'') (\<lambda>index_key.
     rbind (obj_sub incoming_msg name_key) (\<lambda>impl_name.
     rbind (obj_sub incoming_msg index_key) (\<lambda>impl_index.
     rbind (obj_get incoming_msg ''report'') (\<lambda>report.
     rbind (obj_get blocked_msg ''received_impls'') (\<lambda>received.
     Inr (impl_name, impl_index, report, received)))))))"

definition record_report :: "pyobj \<Rightarrow> pyobj \<Rightarrow> pyobj \<times> unit res" where
  "record_report blocked_msg incoming_msg =
     (case report_parts blocked_msg incoming_msg of
        Inl e \<Rightarrow> (blocked_msg, Inl e)
      | Inr (impl_name, impl_index, report, ODict received) \<Rightarrow>
          (let (received', r) = store_report received impl_name impl_index report
           in (case obj_set blocked_msg ''received_impls'' (ODict received') of
                 Inl e \<Rightarrow> (blocked_msg, Inl e)
               | Inr b \<Rightarrow> (b, r)))
      | Inr _ \<Rightarrow> (blocked_msg, Inl AttributeError))"

definition resolve_dependency :: "pyobj \<Rightarrow> pyobj \<Rightarrow> pyobj \<times> bool res" where
  "resolve_dependency blocked_msg incoming_msg =
     (case resolve_guards blocked_msg incoming_msg of
        Inl e \<Rightarrow> (blocked_msg, Inl e)
      | Inr False \<Rightarrow> (blocked_msg, Inr False)
      | Inr True \<Rightarrow>
          (case record_report blocked_msg incoming_msg of
             (b, Inl e) \<Rightarrow> (b, Inl e)
           | (b, Inr _) \<Rightarrow>
               (b, rbind (rbind (obj_get b ''expected_impls'') obj_items) (\<lambda>expected.
                   rbind (obj_get b ''received_impls'') (\<lambda>received.
                   all_received received expected)))))"

definition postprocess_handle :: "'db db_ops \<Rightarrow> pyobj \<Rightarrow> ('db world, pyobj) act" where
  "postprocess_handle ops message =
     sbind (slift (obj_get message ''task_id'')) (\<lambda>task_id.
     sbind (slift (obj_get message ''task_config'')) (\<lambda>task_config.
     sbind (slift (obj_get_or task_config ''arch'' ONone)) (\<lambda>arch.
     sbind (on_db (mark_completed ops task_id arch)) (\<lambda>_.
     sbind (slift (rbind (obj_get task_config ''tmpdir'') as_path)) (\<lambda>tmpdir.
     sbind (supd (rmtree tmpdir)) (\<lambda>_.
     sret (mk_dict [(''class'', OStr ''tune_kernel_ack''), (''task_id'', task_id)])))))))"

text \<open>The teardown runs in the broker; the directory it removes is part of its result.\<close>

definition teardown_with_unmet_dependency :: "pyobj \<Rightarrow> (pyobj \<times> string option) res" where
  "teardown_with_unmet_dependency message =
     rbind (obj_get message ''task_id'') (\<lambda>task_id.
     rbind (obj_get_or message ''task_config'' (ODict [])) (\<lambda>task_config.
     rbind (obj_get_or task_config ''arch'' ONone) (\<lambda>arch.
     rbind (obj_in (OStr ''tmpdir'') task_config) (\<lambda>has_tmpdir.
     rbind (if has_tmpdir then rmap Some (rbind (obj_get task_config ''tmpdir'') as_path) else Inr None)
       (\<lambda>tmpdir.
     Inr (mk_dict [(''class'', OStr ''graceful_cancel_running_task''),
                   (''target_queue'', OStr ''cpu_queue''), (''task_id'', task_id), (''arch'', arch)],
          tmpdir))))))"

section \<open>Cancelling and failing tasks\<close>

definition graceful_cancel_handle :: "'db db_ops \<Rightarrow> pyobj \<Rightarrow> ('db world, pyobj) act" where
  "graceful_cancel_handle ops message =
     sbind (slift (obj_get message ''task_id'')) (\<lambda>task_id.
     sbind (slift (obj_get message ''arch'')) (\<lambda>arch.
     sbind (on_db (mark_pending ops task_id arch)) (\<lambda>_. sret ONone)))"

definition mark_task_failed_handle :: "'db db_ops \<Rightarrow> pyobj \<Rightarrow> ('db world, pyobj) act" where
  "mark_task_failed_handle ops message =
     sbind (slift (obj_get message ''task_id'')) (\<lambda>task_id.
     sbind (slift (obj_get message ''arch'')) (\<lambda>arch.
     sbind (slift (obj_get message ''error'')) (\<lambda>err.
     sbind (on_db (mark_failed ops task_id arch err)) (\<lambda>_.
     sbind (slift (obj_get_or message ''tmpdir'' ONone)) (\<lambda>tmpdir.
     sbind (if obj_true tmpdir
            then sbind (slift (as_path tmpdir)) (\<lambda>d.
                 sbind (sget w_dirs) (\<lambda>dirs. if d \<in> set dirs then supd (rmtree d) else sret ()))
            else sret ()) (\<lambda>_.
     sret (mk_dict [(''class'', OStr ''tune_kernel_ack''), (''task_id'', task_id),
                    (''negative'', OBool True)])))))))"

section \<open>Lemmas: what has been received\<close>

definition rec_wf :: "(pkey \<times> pyobj) list \<Rightarrow> bool" where
  "rec_wf D \<longleftrightarrow> (\<forall>n x. dget D n = Some x \<longrightarrow> (\<exists>d. x = ODict d))"

definition has_impl :: "(pkey \<times> pyobj) list \<Rightarrow> pkey \<Rightarrow> pkey \<Rightarrow> bool" where
  "has_impl D n i \<longleftrightarrow> (\<exists>d. dget D n = Some (ODict d) \<and> dhas d i)"

lemma rec_wf_Nil [simp]: "rec_wf []"
  by (simp add: rec_wf_def)

lemma has_impl_Nil [simp]: "\<not> has_impl [] n i"
  by (simp add: has_impl_def)

lemma store_report_wf:
  assumes "rec_wf D" "key_of nm = Inr n" "key_of ix = Inr i"
  shows "\<exists>D'. store_report D nm ix report = (D', Inr ()) \<and> rec_wf D'
          \<and> (\<forall>n' i'. has_impl D' n' i' \<longleftrightarrow> has_impl D n' i' \<or> n' = n \<and> i' = i)"
proof (cases "dget D n")
  case None
  with assms show ?thesis
    by (auto simp: store_report_def rec_wf_def has_impl_def dhas_def)
next
  case (Some x)
  then obtain d where "x = ODict d" using assms(1) by (auto simp: rec_wf_def)
  with Some assms show ?thesis
    by (auto simp: store_report_def rec_wf_def has_impl_def dhas_def)
qed

lemma all_in_eq:
  "\<forall>x\<in>set idxs. \<exists>k. key_of x = Inr k \<Longrightarrow>
   all_in (ODict d) idxs = Inr (\<forall>x\<in>set idxs. dhas d (projr (key_of x)))"
  by (induction idxs) auto

text \<open>An entry of the expected implementations: a name and a nonempty list of hashable indices.\<close>

definition entry_ok :: "pkey \<times> pyobj \<Rightarrow> bool" where
  "entry_ok e \<longleftrightarrow> (\<exists>l. snd e = OList l \<and> l \<noteq> [] \<and> (\<forall>x\<in>set l. \<exists>k. key_of x = Inr k))"

fun obj_elems :: "pyobj \<Rightarrow> pyobj list" where
  "obj_elems (OList l) = l"
| "obj_elems _ = []"

lemma all_received_eq:
  "rec_wf D \<Longrightarrow> \<forall>e\<in>set E. entry_ok e \<Longrightarrow>
   all_received (ODict D) (map (\<lambda>p. (obj_of_key (fst p), snd p)) E)
     = Inr (\<forall>e\<in>set E. \<forall>x\<in>set (obj_elems (snd e)). has_impl D (fst e) (projr (key_of x)))"
proof (induction E)
  case Nil
  then show ?case by simp
next
  case (Cons e E)
  from Cons.prems obtain l where l: "snd e = OList l" "l \<noteq> []" "\<forall>x\<in>set l. \<exists>k. key_of x = Inr k"
    by (auto simp: entry_ok_def)
  show ?case
  proof (cases "dget D (fst e)")
    case None
    then have "\<not> has_impl D (fst e) i" for i by (simp add: has_impl_def)
    moreover obtain x where "x \<in> set l" using l(2) by (cases l) auto
    ultimately show ?thesis using None l by (auto simp: dhas_def)
  next
    case (Some x)
    then obtain d where d: "x = ODict d" using Cons.prems by (auto simp: rec_wf_def)
    have "(\<forall>x\<in>set l. dhas d (projr (key_of x)))
        \<longleftrightarrow> (\<forall>x\<in>set l. has_impl D (fst e) (projr (key_of x)))"
      using Some d by (simp add: has_impl_def)
    then show ?thesis using Some d l Cons by (simp add: dhas_def all_in_eq)
  qed
qed

lemma dget_add_expected:
  "(\<forall>n x. dget d n = Some x \<longrightarrow> (\<exists>l. x = OList l)) \<Longrightarrow>
   dget (foldl add_expected d ts) n =
     (if n \<in> fst ` set ts
      then Some (OList ((case dget d n of Some (OList l) \<Rightarrow> l | _ \<Rightarrow> [])
                        @ map snd (filter (\<lambda>t. fst t = n) ts)))
      else dget d n)"
proof (induction ts arbitrary: d)
  case Nil
  then show ?case by simp
next
  case (Cons t ts)
  have wf: "\<forall>n x. dget (add_expected d t) n = Some x \<longrightarrow> (\<exists>l. x = OList l)"
    using Cons.prems by (auto simp: add_expected_def split: option.splits pyobj.splits)
  show ?case
    using Cons.prems
    by (simp add: Cons.IH [OF wf])
      (auto simp: add_expected_def split: option.splits pyobj.splits; fastforce)
qed

lemma distinct_add_expected:
  "distinct (map fst d) \<Longrightarrow> distinct (map fst (foldl add_expected d ts))"
  by (induction ts arbitrary: d) (auto simp: add_expected_def split: option.splits pyobj.splits)

text \<open>The dictionary of expected implementations groups the tasks by name.\<close>

lemma expected_entries:
  assumes "e \<in> set (foldl add_expected [] ts)"
  shows "snd e = OList (map snd (filter (\<lambda>t. fst t = fst e) ts)) \<and> fst e \<in> fst ` set ts"
proof -
  have "dget (foldl add_expected [] ts) (fst e) = Some (snd e)"
    using assms distinct_add_expected [of "[]" ts] by simp
  then show ?thesis by (auto simp: dget_add_expected split: if_splits)
qed

lemma expected_names: "fst ` set (foldl add_expected [] ts) = fst ` set ts"
  by (auto simp: dom_map_of_conv_image_fst [symmetric] dom_def dget_add_expected split: if_splits)

section \<open>Lemmas: a postprocess message collecting its results\<close>

text \<open>The postprocess message of a fanout with the reports \<open>D\<close> received so far.\<close>

definition post_with :: "tune_keys \<Rightarrow> pyobj \<Rightarrow> pyobj \<Rightarrow> (pkey \<times> pyobj) list \<Rightarrow> (pkey \<times> pyobj) list \<Rightarrow> pyobj" where
  "post_with k task_id task_config impls D =
     ODict [(KStr ''class'', OStr ''postprocess''), (KStr ''target_queue'', OStr ''cpu_queue''),
            (KStr ''task_id'', task_id), (KStr ''task_config'', task_config),
            (KStr ''depends'', OList [OStr (k_result_class k)]),
            (KStr ''name_key'', OStr (k_name k)), (KStr ''index_key'', OStr (k_index k)),
            (KStr ''expected_impls'', expected_impls impls), (KStr ''received_impls'', ODict D)]"

lemma postprocess_msg_post:
  "postprocess_msg task_id task_config (k_result_class k) (k_name k) (k_index k) impls
     = post_with k task_id task_config impls []"
  by (simp add: postprocess_msg_def post_with_def mk_dict_def dict_of_def)

lemma post_get:
  "obj_get (post_with k t c impls D) ''class'' = Inr (OStr ''postprocess'')"
  "obj_get (post_with k t c impls D) ''task_id'' = Inr t"
  "obj_get (post_with k t c impls D) ''depends'' = Inr (OList [OStr (k_result_class k)])"
  "obj_get (post_with k t c impls D) ''name_key'' = Inr (OStr (k_name k))"
  "obj_get (post_with k t c impls D) ''index_key'' = Inr (OStr (k_index k))"
  "obj_get (post_with k t c impls D) ''expected_impls'' = Inr (expected_impls impls)"
  "obj_get (post_with k t c impls D) ''received_impls'' = Inr (ODict D)"
  "obj_set (post_with k t c impls D) ''received_impls'' (ODict D') = Inr (post_with k t c impls D')"
  by (simp_all add: post_with_def)

text \<open>The result message for one implementation.\<close>

definition result_msg :: "tune_keys \<Rightarrow> pyobj \<Rightarrow> pkey \<times> pyobj \<Rightarrow> pyobj \<Rightarrow> pyobj" where
  "result_msg k task_id t report =
     mk_dict [(''class'', OStr (k_result_class k)), (''target_queue'', OStr ''cpu_queue''),
              (''task_id'', task_id), (k_name k, obj_of_key (fst t)), (k_index k, snd t),
              (''report'', report)]"

definition tune_kinds :: "tune_keys list" where
  "tune_kinds = [TuneHsaco, TuneBackend]"

lemma result_get:
  assumes "k \<in> set tune_kinds"
  shows "obj_get (result_msg k tid t r) ''class'' = Inr (OStr (k_result_class k))"
    "obj_get (result_msg k tid t r) ''task_id'' = Inr tid"
    "obj_get (result_msg k tid t r) ''report'' = Inr r"
    "obj_sub (result_msg k tid t r) (OStr (k_name k)) = Inr (obj_of_key (fst t))"
    "obj_sub (result_msg k tid t r) (OStr (k_index k)) = Inr (snd t)"
  using assms
  by (auto simp: tune_kinds_def TuneHsaco_def TuneBackend_def result_msg_def mk_dict_def dict_of_def)

lemma tune_get:
  assumes "k \<in> set tune_kinds"
  shows "obj_get (tune_msg cls tid cfg (k_name k) (k_index k) t) ''task_config'' = Inr cfg"
    "obj_get (tune_msg cls tid cfg (k_name k) (k_index k) t) ''task_id'' = Inr tid"
    "obj_get (tune_msg cls tid cfg (k_name k) (k_index k) t) (k_name k) = Inr (obj_of_key (fst t))"
    "obj_get (tune_msg cls tid cfg (k_name k) (k_index k) t) (k_index k) = Inr (snd t)"
  using assms
  by (auto simp: tune_kinds_def TuneHsaco_def TuneBackend_def tune_msg_def mk_dict_def dict_of_def)

text \<open>A tune handler answers a tune message with the result message of its implementation.\<close>

lemma tune_handle_result:
  assumes "k \<in> set tune_kinds"
    and "tune_handle k env (tune_msg cls tid cfg (k_name k) (k_index k) t) = Inr m"
  shows "\<exists>r. m = result_msg k tid t r"
  using assms(2) unfolding tune_handle_def result_msg_def
  by (auto simp: tune_get [OF assms(1)] rbind_Inr_iff)

definition int_indices :: "(pkey \<times> pyobj) list \<Rightarrow> bool" where
  "int_indices impls = list_all (\<lambda>t. case snd t of OInt i \<Rightarrow> True | _ \<Rightarrow> False) impls"

lemma int_indices_OInt: "int_indices impls \<Longrightarrow> u \<in> set impls \<Longrightarrow> \<exists>j. snd u = OInt j"
  by (cases "snd u") (force simp: int_indices_def list_all_iff)+

text \<open>One result: it is recorded, and the answer is whether everything expected is there.\<close>

lemma resolve_dependency_step:
  assumes k: "k \<in> set tune_kinds" and D: "rec_wf D" and ix: "snd t = OInt j"
    and ints: "int_indices impls"
  shows "\<exists>D'. resolve_dependency (post_with k (OInt i) c impls D) (result_msg k (OInt i) t r)
           = (post_with k (OInt i) c impls D',
              Inr (\<forall>u\<in>set impls. has_impl D' (fst u) (projr (key_of (snd u)))))
         \<and> rec_wf D' \<and> (\<forall>n x. has_impl D' n x \<longleftrightarrow> has_impl D n x \<or> n = fst t \<and> x = KInt j)"
proof -
  let ?b = "post_with k (OInt i) c impls D" and ?m = "result_msg k (OInt i) t r"
  have ne: "k_result_class k \<noteq> []" "obj_eq (OStr s) (OStr s)" "obj_eq (OInt i) (OInt i)" for s
    using k by (auto simp: tune_kinds_def TuneHsaco_def TuneBackend_def)
  have guards: "resolve_guards ?b ?m = Inr True"
    using ne by (simp add: resolve_guards_def post_get result_get [OF k])
  from store_report_wf [OF D, of "obj_of_key (fst t)" "fst t" "snd t" "KInt j" r] ix obtain D' where
    st: "store_report D (obj_of_key (fst t)) (snd t) r = (D', Inr ())" and D': "rec_wf D'"
    and has: "\<forall>n x. has_impl D' n x \<longleftrightarrow> has_impl D n x \<or> n = fst t \<and> x = KInt j"
    by auto
  have rec: "record_report ?b ?m = (post_with k (OInt i) c impls D', Inr ())"
    using st by (simp add: record_report_def report_parts_def post_get result_get [OF k])
  let ?E = "foldl add_expected [] impls"
  have ok: "\<forall>e\<in>set ?E. entry_ok e"
  proof
    fix e
    assume "e \<in> set ?E"
    from expected_entries [OF this] have e: "snd e = OList (map snd (filter (\<lambda>t. fst t = fst e) impls))"
      "fst e \<in> fst ` set impls" by simp_all
    then have "filter (\<lambda>t. fst t = fst e) impls \<noteq> []" by (force simp: filter_empty_conv)
    moreover have "\<exists>k. key_of x = Inr k" if "x \<in> snd ` set impls" for x
      using that int_indices_OInt [OF ints] by fastforce
    ultimately show "entry_ok e" using e(1) by (auto simp: entry_ok_def)
  qed
  have "(\<forall>e\<in>set ?E. \<forall>x\<in>set (obj_elems (snd e)). has_impl D' (fst e) (projr (key_of x)))
      = (\<forall>u\<in>set impls. has_impl D' (fst u) (projr (key_of (snd u))))"
  proof
    assume a: "\<forall>e\<in>set ?E. \<forall>x\<in>set (obj_elems (snd e)). has_impl D' (fst e) (projr (key_of x))"
    show "\<forall>u\<in>set impls. has_impl D' (fst u) (projr (key_of (snd u)))"
    proof
      fix u
      assume u: "u \<in> set impls"
      then have "fst u \<in> fst ` set ?E" by (simp add: expected_names)
      then obtain e where e: "e \<in> set ?E" "fst e = fst u" by auto
      then have "snd u \<in> set (obj_elems (snd e))" using expected_entries [OF e(1)] u by auto
      with a e show "has_impl D' (fst u) (projr (key_of (snd u)))" by metis
    qed
  next
    assume "\<forall>u\<in>set impls. has_impl D' (fst u) (projr (key_of (snd u)))"
    then show "\<forall>e\<in>set ?E. \<forall>x\<in>set (obj_elems (snd e)). has_impl D' (fst e) (projr (key_of x))"
      using expected_entries by fastforce
  qed
  with all_received_eq [OF D' ok] guards rec have
    "resolve_dependency ?b ?m = (post_with k (OInt i) c impls D',
              Inr (\<forall>u\<in>set impls. has_impl D' (fst u) (projr (key_of (snd u)))))"
    by (simp add: resolve_dependency_def post_get expected_impls_def)
  with D' has show ?thesis by blast
qed

text \<open>The answers of \<open>resolve_dependency\<close> to a sequence of incoming messages.\<close>

fun answers :: "pyobj \<Rightarrow> pyobj list \<Rightarrow> bool res list" where
  "answers b [] = []"
| "answers b (m # ms) = (let (b', r) = resolve_dependency b m in r # answers b' ms)"

lemma answers_results:
  assumes k: "k \<in> set tune_kinds" and ints: "int_indices impls"
  shows "set ts \<subseteq> set impls \<Longrightarrow> list_all2 (\<lambda>t m. \<exists>r. m = result_msg k (OInt i) t r) ts ms
    \<Longrightarrow> rec_wf D \<Longrightarrow> \<forall>n x. has_impl D n x \<longleftrightarrow> (\<exists>t\<in>seen. fst t = n \<and> key_of (snd t) = Inr x)
    \<Longrightarrow> seen \<subseteq> set impls
    \<Longrightarrow> answers (post_with k (OInt i) c impls D) ms
        = map (\<lambda>j. Inr (set impls \<subseteq> seen \<union> set (take (Suc j) ts))) [0..<length ts]"
proof (induction ts arbitrary: ms D seen)
  case Nil
  then show ?case by simp
next
  case (Cons t ts)
  from Cons.prems(2) obtain m ms' r where ms: "ms = m # ms'" "m = result_msg k (OInt i) t r"
    "list_all2 (\<lambda>t m. \<exists>r. m = result_msg k (OInt i) t r) ts ms'"
    by (auto simp: list_all2_Cons1)
  have idx: "\<exists>j. snd u = OInt j" if "u \<in> set impls" for u
    using int_indices_OInt [OF ints that] .
  obtain j where j: "snd t = OInt j" using idx [of t] Cons.prems(1) by force
  from resolve_dependency_step [OF k Cons.prems(3) j ints, of i c r] obtain D' where
    res: "resolve_dependency (post_with k (OInt i) c impls D) m
           = (post_with k (OInt i) c impls D',
              Inr (\<forall>u\<in>set impls. has_impl D' (fst u) (projr (key_of (snd u)))))"
    and D': "rec_wf D'" "\<forall>n x. has_impl D' n x \<longleftrightarrow> has_impl D n x \<or> n = fst t \<and> x = KInt j"
    using ms(2) by blast
  have seen': "\<forall>n x. has_impl D' n x \<longleftrightarrow> (\<exists>u\<in>insert t seen. fst u = n \<and> key_of (snd u) = Inr x)"
    using D'(2) Cons.prems(4) j by auto
  have sub: "insert t seen \<subseteq> set impls" using Cons.prems(1,5) by simp
  have mem: "has_impl D' (fst u) (projr (key_of (snd u))) \<longleftrightarrow> u \<in> insert t seen"
    if "u \<in> set impls" for u
  proof -
    from idx [OF that] obtain a where a: "snd u = OInt a" by blast
    have eq: "v = u" if "v \<in> insert t seen" "fst v = fst u" "key_of (snd v) = Inr (KInt a)" for v
    proof -
      have "v \<in> set impls" using that(1) sub by blast
      then obtain b where "snd v = OInt b" using idx by blast
      with that a show ?thesis by (simp add: prod_eq_iff)
    qed
    have "has_impl D' (fst u) (KInt a)
        \<longleftrightarrow> (\<exists>v\<in>insert t seen. fst v = fst u \<and> key_of (snd v) = Inr (KInt a))"
      using seen' by blast
    also have "\<dots> \<longleftrightarrow> u \<in> insert t seen" using eq a by (metis key_of.simps(3))
    finally show ?thesis using a by simp
  qed
  from Cons.IH [OF _ ms(3) D'(1) seen' sub] Cons.prems(1)
  have "answers (post_with k (OInt i) c impls D') ms'
      = map (\<lambda>j. Inr (set impls \<subseteq> insert t seen \<union> set (take (Suc j) ts))) [0..<length ts]" by simp
  moreover have "(\<forall>u\<in>set impls. has_impl D' (fst u) (projr (key_of (snd u))))
      \<longleftrightarrow> set impls \<subseteq> insert t seen" using mem by blast
  moreover have "[0..<length (t # ts)] = 0 # map Suc [0..<length ts]"
    by (simp only: map_Suc_upt length_Cons) (rule upt_conv_Cons, simp)
  ultimately show ?case using res ms(1) by (simp add: comp_def)
qed

lemma kernel_impls_int:
  assumes "kernel_impls d c = Inr impls"
  shows "int_indices impls"
proof -
  obtain md glob where md: "obj_get_or md ''*'' ONone = Inr glob"
    "(case (d, md) of
         (ODict impls, ODict limits) \<Rightarrow> rmap concat (rtraverse (limited_impls limits glob) impls)
       | _ \<Rightarrow> Inl AttributeError) = Inr impls"
    using assms unfolding kernel_impls_def rbind_Inr_iff by blast
  then have "\<exists>limits dd ls. rtraverse (limited_impls limits glob) dd = Inr ls \<and> impls = concat ls"
    by (cases d; cases md) (auto simp: rmap_Inr_iff)
  then obtain limits dd ls where
    ls: "list_all2 (\<lambda>x y. limited_impls limits glob x = Inr y) dd ls" "impls = concat ls"
    by (auto simp: rtraverse_Inr_iff)
  have "int_indices l" if "l \<in> set ls" for l
  proof -
    from that ls(1) obtain x where "limited_impls limits glob x = Inr l"
      unfolding list_all2_conv_all_nth in_set_conv_nth by metis
    then show ?thesis
      by (auto simp: limited_impls_def rmap_Inr_iff int_indices_def list_all_iff split_def)
  qed
  then show ?thesis using ls(2) by (simp add: int_indices_def list_all_iff)
qed

text \<open>
  C11: the postprocess message of a fanout is unblocked exactly when every implementation has
  reported. The probe of a kernel fans out into tune messages and one postprocess message; when
  the results of handling tune messages of this fanout, in any order and with any repetitions,
  are offered to the blocked postprocess message one by one, the answer to each is True if and
  only if by then all tune messages of the fanout have been handled.
\<close>

theorem fanout_unblocks:
  assumes "build_fanout_kernel impl_dict (OInt i) task_config = Inr msgs"
    and "set ns \<subseteq> set (butlast msgs)"
    and "list_all2 (\<lambda>n m. tune_handle TuneHsaco env n = Inr m) ns ms"
  shows "answers (last msgs) ms
         = map (\<lambda>j. Inr (set (butlast msgs) \<subseteq> set (take (Suc j) ns))) [0..<length ns]"
proof -
  let ?k = TuneHsaco and ?c = task_config
  let ?tune = "tune_msg ''tune_hsaco'' (OInt i) ?c (k_name ?k) (k_index ?k)"
  from assms(1) obtain impls where impls: "kernel_impls impl_dict ?c = Inr impls"
    and msgs: "butlast msgs = map ?tune impls" "last msgs = post_with ?k (OInt i) ?c impls []"
    by (auto simp: build_fanout_kernel_def rmap_Inr_iff TuneHsaco_def simp flip: postprocess_msg_post)
  have k: "?k \<in> set tune_kinds" by (simp add: tune_kinds_def)
  note ints = kernel_impls_int [OF impls]
  have inj: "t = u" if "?tune t = ?tune u" for t u
  proof -
    have "obj_of_key (fst t) = obj_of_key (fst u)" "snd t = snd u"
      using tune_get(3,4) [OF k, of _ "OInt i" ?c t] tune_get(3,4) [OF k, of _ "OInt i" ?c u] that
      by (metis sum.inject(2))+
    then show ?thesis by (metis key_of_of_key prod.collapse sum.inject(2))
  qed
  have "\<exists>ts. ns = map ?tune ts \<and> set ts \<subseteq> set impls"
    using assms(2) unfolding msgs(1)
  proof (induction ns)
    case Nil
    then show ?case by simp
  next
    case (Cons n ns)
    then obtain ts t where "ns = map ?tune ts" "set ts \<subseteq> set impls" "n = ?tune t" "t \<in> set impls"
      by auto
    then show ?case by (intro exI [of _ "t # ts"]) simp
  qed
  then obtain ts where ts: "ns = map ?tune ts" "set ts \<subseteq> set impls" by blast
  have "list_all2 (\<lambda>t m. \<exists>r. m = result_msg ?k (OInt i) t r) ts ms"
    using assms(3) unfolding ts(1) list_all2_map1
    by (rule list_all2_mono) (rule tune_handle_result [OF k])
  from answers_results [OF k ints ts(2) this rec_wf_Nil, of "{}" ?c]
  have "answers (last msgs) ms
      = map (\<lambda>j. Inr (set impls \<subseteq> set (take (Suc j) ts))) [0..<length ts]" by (simp add: msgs(2))
  moreover have "set impls \<subseteq> set (take (Suc j) ts) \<longleftrightarrow> set (map ?tune impls) \<subseteq> set (take (Suc j) ns)" for j
    using inj by (fastforce simp: ts(1) take_map)
  ultimately show ?thesis using msgs(1) ts(1) by simp
qed

text \<open>Two kernels, the first with its three code objects limited to two.\<close>

definition ex_impl_dict :: pyobj where
  "ex_impl_dict = mk_dict [(''attn_fwd'', OList [ONone, ONone, ONone]), (''dk_dv'', OList [ONone])]"

definition ex_task_config :: pyobj where
  "ex_task_config = mk_dict [(''module'', OStr ''flash''), (''tmpdir'', OStr ''/dev/shm/t''),
                             (''max_hsaco'', mk_dict [(''attn_fwd'', OInt 2)])]"

definition ex_exaid :: exaid where
  "ex_exaid = \<lparr>ex_tmpfs_for = \<lambda>_. Inr ''/dev/shm/t'', ex_prepare = \<lambda>_ _ _. Inr (),
               ex_probe = \<lambda>_. Inr ex_impl_dict,
               ex_benchmark = \<lambda>_ _ i. if obj_eq i (OInt 0) then Inr (OFloat ''1.5'')
                                      else Inl (ExNotOK ONone ONone [])\<rparr>"

definition ex_fanout :: "pyobj list" where
  "ex_fanout = projr (build_fanout_kernel ex_impl_dict (OInt 7) ex_task_config)"

definition ex_results :: "pyobj list" where
  "ex_results = map (\<lambda>j. projr (tune_handle TuneHsaco (\<lambda>_. ex_exaid) (ex_fanout ! j))) [1, 1, 2, 0]"

lemma ex_fanout_ok:
  "is_ok (build_fanout_kernel ex_impl_dict (OInt 7) ex_task_config)" "length ex_fanout = 4"
  "list_all (\<lambda>j. is_ok (tune_handle TuneHsaco (\<lambda>_. ex_exaid) (ex_fanout ! j))) [1, 1, 2, 0]"
  "ex_fanout ! 0 \<noteq> ex_fanout ! 1" "ex_fanout ! 0 \<noteq> ex_fanout ! 2"
  by code_simp+

theorem fanout_unblocks_witness:
  "answers (last ex_fanout) ex_results = [Inr False, Inr False, Inr False, Inr True]"
proof -
  have bf: "build_fanout_kernel ex_impl_dict (OInt 7) ex_task_config = Inr ex_fanout"
    using is_ok_projr [OF ex_fanout_ok(1)] by (simp add: ex_fanout_def)
  obtain a b c p where f: "ex_fanout = [a, b, c, p]"
    using ex_fanout_ok(2) by (auto simp: numeral_eq_Suc length_Suc_conv)
  have "list_all2 (\<lambda>n m. tune_handle TuneHsaco (\<lambda>_. ex_exaid) n = Inr m) [b, b, c, a] ex_results"
    using ex_fanout_ok(3) by (auto simp: ex_results_def f intro: is_ok_projr)
  from fanout_unblocks [OF bf _ this] ex_fanout_ok(4,5)
  show ?thesis by (simp add: f numeral_eq_Suc upt_rec)
qed

end
