(* ===== verification/Broker.thy ===== *)
theory Broker
  imports Framing Handlers
begin

text \<open>
  \<open>v3python/tune/localq/broker.py\<close>: the message router of the local queue. The broker keeps its
  messages by reference: a message that waits for several classes is one object in several
  lists, and the handler changes it in place. The model's store gives every message that
  arrives an address; queues and lists of blocked messages hold addresses.
\<close>

section \<open>State\<close>

text \<open>
  A worker's connection with the events its stream still holds; the broker's dictionaries;
  \<open>epoll_out\<close> maps a registered descriptor to whether it is also polled for writing;
  \<open>removed_dirs\<close> are the directories a teardown removed.
\<close>

record worker =
  w_sock :: bsock
  w_unread :: "net_event list"

record broker =
  running :: bool
  graceful_shutdown_requested :: bool
  store :: "pyobj list"
  queues :: "(pkey, nat list) dict"
  blocked_messages :: "(pkey, nat list) dict"
  pending_acks :: "(pkey, pyobj list) dict"
  workers :: "(nat, worker) dict"
  epoll_out :: "(nat, bool) dict"
  removed_dirs :: "string list"

definition new_broker :: broker where
  "new_broker =
     \<lparr>running = False, graceful_shutdown_requested = False, store = [],
      queues = [(KStr ''gpu_queue'', []), (KStr ''cpu_queue'', []), (KStr ''dispatcher_queue'', [])],
      blocked_messages = [], pending_acks = [], workers = [], epoll_out = [], removed_dirs = []\<rparr>"

definition deref :: "broker \<Rightarrow> nat \<Rightarrow> pyobj" where
  "deref s r = (if r < length (store s) then store s ! r else ONone)"

definition set_msg :: "nat \<Rightarrow> pyobj \<Rightarrow> broker \<Rightarrow> broker" where
  "set_msg r m s = s\<lparr>store := (store s)[r := m]\<rparr>"

text \<open>A message decoded from the wire, or made by a handler, is a new object.\<close>

definition alloc :: "pyobj \<Rightarrow> (broker, nat) act" where
  "alloc m s = (s\<lparr>store := store s @ [m]\<rparr>, Inr (length (store s)))"

section \<open>Priority queues\<close>

definition priorities :: "(string, int) dict" where
  "priorities = [(''postprocess'', 4), (''probe'', 3), (''tune_hsaco'', 2), (''preprocess'', 1),
                 (''hsaco_result'', 0)]"

definition get_priority :: "pyobj \<Rightarrow> int res" where
  "get_priority msg_class =
     rmap (\<lambda>k. case k of KStr c \<Rightarrow> (case dget priorities c of None \<Rightarrow> 0 | Some p \<Rightarrow> p) | _ \<Rightarrow> 0)
       (key_of msg_class)"

definition msg_priority :: "pyobj \<Rightarrow> int res" where
  "msg_priority m = rbind (obj_get m ''class'') get_priority"

text \<open>The loop that looks for the first message of a lower priority, and the insertion.\<close>

fun insert_pos :: "('a \<Rightarrow> int res) \<Rightarrow> int \<Rightarrow> 'a list \<Rightarrow> nat res" where
  "insert_pos prio p [] = Inr 0"
| "insert_pos prio p (x # xs) =
     rbind (prio x) (\<lambda>q. if p > q then Inr 0 else rmap Suc (insert_pos prio p xs))"

definition insert_at :: "nat \<Rightarrow> 'a \<Rightarrow> 'a list \<Rightarrow> 'a list" where
  "insert_at i x xs = take i xs @ x # drop i xs"

definition enqueue_with_priority :: "pyobj \<Rightarrow> nat \<Rightarrow> (broker, unit) act" where
  "enqueue_with_priority queue_name r s =
     (case key_of queue_name of
        Inl e \<Rightarrow> (s, Inl e)
      | Inr qn \<Rightarrow>
          (case dget (queues s) qn of
             None \<Rightarrow> (s, Inr ())
           | Some queue \<Rightarrow>
               (case rbind (msg_priority (deref s r)) (\<lambda>p.
                       insert_pos (\<lambda>x. msg_priority (deref s x)) p queue) of
                  Inl e \<Rightarrow> (s, Inl e)
                | Inr i \<Rightarrow> (s\<lparr>queues := dset (queues s) qn (insert_at i r queue)\<rparr>, Inr ()))))"

definition dequeue_task :: "pyobj \<Rightarrow> (broker, pyobj) act" where
  "dequeue_task queue_name s =
     (case key_of queue_name of
        Inl e \<Rightarrow> (s, Inl e)
      | Inr qn \<Rightarrow>
          (case dget (queues s) qn of
             Some (r # queue) \<Rightarrow>
               (s\<lparr>queues := dset (queues s) qn queue\<rparr>,
                rmap (\<lambda>_. deref s r) (obj_get (deref s r) ''class''))
           | _ \<Rightarrow> (s, Inr ONone)))"

section \<open>Workers and acks\<close>

text \<open>\<open>_find_worker_by_id\<close>: the first connection, in the order of acceptance, with that id.\<close>

definition find_worker_by_id :: "pyobj \<Rightarrow> broker \<Rightarrow> nat option" where
  "find_worker_by_id wid s =
     map_option fst (find (\<lambda>(fd, w). obj_eq (worker_id (w_sock w)) wid) (workers s))"

definition upd_worker :: "nat \<Rightarrow> (worker \<Rightarrow> worker) \<Rightarrow> broker \<Rightarrow> broker" where
  "upd_worker fd f s =
     (case dget (workers s) fd of
        None \<Rightarrow> s
      | Some w \<Rightarrow> s\<lparr>workers := dset (workers s) fd (f w)\<rparr>)"

text \<open>\<open>_send_to_worker\<close>: an unregistered descriptor makes \<open>epoll.modify\<close> fail, which is ignored.\<close>

definition send_to_worker :: "nat \<Rightarrow> pyobj \<Rightarrow> (broker, unit) act" where
  "send_to_worker fd msg s =
     (case dget (workers s) fd of
        None \<Rightarrow> (s, Inr ())
      | Some w \<Rightarrow>
          (case queue_message dumps msg (w_sock w) of
             Inl e \<Rightarrow> (s, Inl e)
           | Inr b \<Rightarrow>
               (let s = s\<lparr>workers := dset (workers s) fd (w\<lparr>w_sock := b\<rparr>)\<rparr>
                in (if dhas (epoll_out s) fd then s\<lparr>epoll_out := dset (epoll_out s) fd True\<rparr> else s,
                    Inr ()))))"

definition ack_reply :: "pyobj \<Rightarrow> pyobj" where
  "ack_reply task_id = mk_dict [(''type'', OStr ''ack''), (''task_id'', task_id)]"

definition handle_ack :: "pyobj \<Rightarrow> (broker, unit) act" where
  "handle_ack ack_msg =
     sbind (slift (obj_get ack_msg ''task_id'')) (\<lambda>task_id.
     sbind (slift (key_of task_id)) (\<lambda>k.
     sbind (sget (\<lambda>s. dget (pending_acks s) k)) (\<lambda>waiting.
       case waiting of
         None \<Rightarrow> sret ()
       | Some ids \<Rightarrow>
           sbind (sfor ids (\<lambda>wid.
             sbind (sget (find_worker_by_id wid)) (\<lambda>fd.
               case fd of None \<Rightarrow> sret () | Some fd \<Rightarrow> send_to_worker fd (ack_reply task_id)))) (\<lambda>_.
           supd (\<lambda>s. s\<lparr>pending_acks := ddel (pending_acks s) k\<rparr>)))))"

section \<open>Forwarding and dependencies\<close>

text \<open>\<open>self.blocked_messages[dep_class].append(message)\<close> on a \<open>defaultdict(list)\<close>.\<close>

definition add_blocked :: "nat \<Rightarrow> pyobj \<Rightarrow> (broker, unit) act" where
  "add_blocked r dep_class =
     sbind (slift (key_of dep_class)) (\<lambda>k.
     supd (\<lambda>s. s\<lparr>blocked_messages :=
       dset (blocked_messages s) k
         ((case dget (blocked_messages s) k of None \<Rightarrow> [] | Some l \<Rightarrow> l) @ [r])\<rparr>))"

text \<open>
  The loop over the blocked messages of a class; the list itself does not change meanwhile.
  \<open>resolve_dependency\<close> changes the blocked message in place, also when it raises.
\<close>

fun try_unblock :: "pyobj \<Rightarrow> nat list \<Rightarrow> (broker, nat list) act" where
  "try_unblock incoming [] = sret []"
| "try_unblock incoming (r # rs) =
     sbind (\<lambda>s. let (m, b) = resolve_dependency (deref s r) incoming in (set_msg r m s, b)) (\<lambda>b.
     sbind (try_unblock incoming rs) (\<lambda>us. sret (if b then r # us else us)))"

text \<open>\<open>blocked_list.remove(msg)\<close>: the first object that is, or equals, the message.\<close>

definition remove_blocked :: "pkey \<Rightarrow> nat \<Rightarrow> (broker, unit) act" where
  "remove_blocked k r s =
     (case py_remove (\<lambda>x. x = r \<or> obj_eq (deref s x) (deref s r))
             (case dget (blocked_messages s) k of None \<Rightarrow> [] | Some l \<Rightarrow> l) of
        None \<Rightarrow> (s, Inl ValueError)
      | Some l \<Rightarrow> (s\<lparr>blocked_messages := dset (blocked_messages s) k l\<rparr>, Inr ()))"

definition pop_depends :: "nat \<Rightarrow> (broker, unit) act" where
  "pop_depends r s =
     (case obj_pop (deref s r) ''depends'' of
        Inl e \<Rightarrow> (s, Inl e)
      | Inr m \<Rightarrow> (set_msg r m s, Inr ()))"

text \<open>What \<open>forward\<close> does after the dependencies: an ack is consumed, the rest is queued.\<close>

definition deliver :: "nat \<Rightarrow> (broker, unit) act" where
  "deliver r =
     sbind (sget (\<lambda>s. deref s r)) (\<lambda>message.
     sbind (slift (obj_get message ''class'')) (\<lambda>c.
       if obj_eq c (OStr ''tune_kernel_ack'') then handle_ack message
       else sbind (slift (obj_get_or message ''target_queue'' ONone)) (\<lambda>target_queue.
              if obj_true target_queue then enqueue_with_priority target_queue r else sret ())))"

text \<open>The truth value of \<open>'depends' in message and message['depends']\<close>, and the value.\<close>

definition has_depends :: "pyobj \<Rightarrow> pyobj option res" where
  "has_depends message =
     rbind (obj_in (OStr ''depends'') message) (\<lambda>b.
       if \<not> b then Inr None
       else rmap (\<lambda>d. if obj_true d then Some d else None) (obj_get message ''depends''))"

text \<open>A message with dependencies waits in the list of each class it depends on.\<close>

definition block_on :: "nat \<Rightarrow> pyobj \<Rightarrow> pyobj \<Rightarrow> (broker, unit) act" where
  "block_on r message deps =
     sbind (slift (obj_iter deps)) (\<lambda>classes.
     sbind (sfor classes (add_blocked r)) (\<lambda>_.
     sbind (slift (obj_get message ''class'')) (\<lambda>_. sret ())))"

text \<open>\<open>_resolve_dependencies\<close>, with the call of \<open>forward\<close> for an unblocked message as an argument.\<close>

definition resolve_dependencies :: "(nat \<Rightarrow> (broker, unit) act) \<Rightarrow> pyobj \<Rightarrow> (broker, unit) act" where
  "resolve_dependencies fwd incoming =
     sbind (slift (rbind (obj_get incoming ''class'') key_of)) (\<lambda>k.
     sbind (sget (\<lambda>s. dget (blocked_messages s) k)) (\<lambda>blocked.
       case blocked of
         None \<Rightarrow> sret ()
       | Some blocked_list \<Rightarrow>
           sbind (try_unblock incoming blocked_list) (\<lambda>unblocked.
           sfor unblocked (\<lambda>u.
             sbind (remove_blocked k u) (\<lambda>_. sbind (pop_depends u) (\<lambda>_. fwd u))))))"

text \<open>
  \<open>forward\<close> and \<open>_resolve_dependencies\<close> call each other. The first argument bounds the depth;
  every nested call is preceded by the removal of a blocked message, so the number of blocked
  messages is enough, as \<open>forward_enough\<close> shows in \<open>BrokerRun\<close>.
\<close>

fun forward_n :: "nat \<Rightarrow> nat \<Rightarrow> (broker, unit) act" where
  "forward_n 0 r = slift (Inl RecursionError)"
| "forward_n (Suc n) r =
     sbind (sget (\<lambda>s. deref s r)) (\<lambda>message.
     sbind (slift (has_depends message)) (\<lambda>deps.
       case deps of
         Some d \<Rightarrow> block_on r message d
       | None \<Rightarrow> sbind (resolve_dependencies (forward_n n) message) (\<lambda>_. deliver r)))"

declare forward_n.simps(2) [simp del]

definition nblocked :: "broker \<Rightarrow> nat" where
  "nblocked s = sum_list (map (\<lambda>p. length (snd p)) (blocked_messages s))"

definition forward :: "nat \<Rightarrow> (broker, unit) act" where
  "forward r s = forward_n (Suc (nblocked s)) r s"

section \<open>Requests of the workers\<close>

definition no_task_reply :: pyobj where
  "no_task_reply = mk_dict [(''type'', OStr ''no_task'')]"

definition task_reply :: "pyobj \<Rightarrow> pyobj" where
  "task_reply m = mk_dict [(''type'', OStr ''task''), (''message'', m)]"

definition name_worker :: "nat \<Rightarrow> pyobj \<Rightarrow> (broker, unit) act" where
  "name_worker fd wid =
     supd (upd_worker fd (\<lambda>w. if worker_id (w_sock w) = ONone
                              then w\<lparr>w_sock := (w_sock w)\<lparr>worker_id := wid\<rparr>\<rparr> else w))"

definition handle_get_task :: "nat \<Rightarrow> pyobj \<Rightarrow> (broker, unit) act" where
  "handle_get_task fd msg =
     sbind (slift (obj_get msg ''queue_name'')) (\<lambda>queue_name.
     sbind (slift (obj_get msg ''worker_id'')) (\<lambda>wid.
     sbind (name_worker fd wid) (\<lambda>_.
     sbind (dequeue_task queue_name) (\<lambda>task_msg.
       send_to_worker fd (if obj_true task_msg then task_reply task_msg else no_task_reply)))))"

text \<open>The log line reads the class, and \<open>get\<close> needs a dictionary, before anything is forwarded.\<close>

definition handle_forward :: "pyobj \<Rightarrow> (broker, unit) act" where
  "handle_forward msg =
     sbind (slift (obj_get msg ''message'')) (\<lambda>message.
     sbind (slift (obj_get message ''class'')) (\<lambda>_.
     sbind (slift (obj_get_or message ''task_id'' ONone)) (\<lambda>_.
     sbind (alloc message) forward)))"

definition handle_register_ack :: "nat \<Rightarrow> pyobj \<Rightarrow> (broker, unit) act" where
  "handle_register_ack fd msg =
     sbind (slift (obj_get msg ''task_id'')) (\<lambda>task_id.
     sbind (slift (obj_get msg ''worker_id'')) (\<lambda>wid.
     sbind (name_worker fd wid) (\<lambda>_.
     sbind (slift (key_of task_id)) (\<lambda>k.
     supd (\<lambda>s. s\<lparr>pending_acks :=
       dset (pending_acks s) k
         ((case dget (pending_acks s) k of None \<Rightarrow> [] | Some l \<Rightarrow> l) @ [wid])\<rparr>)))))"

definition dispatch :: "nat \<Rightarrow> pyobj \<Rightarrow> (broker, unit) act" where
  "dispatch fd msg =
     sbind (slift (obj_get msg ''type'')) (\<lambda>msg_type.
       if obj_eq msg_type (OStr ''get_task'') then handle_get_task fd msg
       else if obj_eq msg_type (OStr ''forward'') then handle_forward msg
       else if obj_eq msg_type (OStr ''register_ack'') then handle_register_ack fd msg
       else sret ())"

section \<open>Connections\<close>

definition remove_worker :: "nat \<Rightarrow> broker \<Rightarrow> broker" where
  "remove_worker fd s =
     (case dget (workers s) fd of
        None \<Rightarrow> s
      | Some w \<Rightarrow> s\<lparr>workers := ddel (workers s) fd, epoll_out := ddel (epoll_out s) fd\<rparr>)"

text \<open>\<open>_accept_worker\<close>: None when \<open>accept\<close> failed, which is only logged.\<close>

definition accept_worker :: "nat option \<Rightarrow> broker \<Rightarrow> broker" where
  "accept_worker conn s =
     (case conn of
        None \<Rightarrow> s
      | Some fd \<Rightarrow> s\<lparr>epoll_out := dset (epoll_out s) fd False,
                     workers := dset (workers s) fd
                       \<lparr>w_sock = new_bsock ONone, w_unread = []\<rparr>\<rparr>)"

text \<open>
  \<open>_handle_worker_message\<close>: the messages the generator yields are dispatched in turn until one
  raises; then, or when the generator raises, the worker is removed. Dispatching neither reads
  nor writes the receiving half of the socket, so the generator is run first; what it would
  have left unread after an exception is lost with the connection either way.
\<close>

definition handle_worker_message :: "nat \<Rightarrow> net_event list \<Rightarrow> broker \<Rightarrow> broker" where
  "handle_worker_message fd arrived s =
     (case dget (workers s) fd of
        None \<Rightarrow> s
      | Some w \<Rightarrow>
          (let (b, unread, msgs, r) = recv_messages loads (w_sock w) (w_unread w @ arrived);
               s = s\<lparr>workers := dset (workers s) fd \<lparr>w_sock = b, w_unread = unread\<rparr>\<rparr>;
               (s, r') = sfor msgs (dispatch fd) s
           in if is_ok r' \<and> is_ok r then s else remove_worker fd s))"

text \<open>\<open>_handle_worker_write\<close>, with the bytes that went out.\<close>

definition handle_worker_write :: "nat \<Rightarrow> send_event \<Rightarrow> broker \<Rightarrow> broker \<times> string" where
  "handle_worker_write fd ev s =
     (case dget (workers s) fd of
        None \<Rightarrow> (s, [])
      | Some w \<Rightarrow>
          (let (b, out, r) = flush_send ev (w_sock w);
               s = s\<lparr>workers := dset (workers s) fd (w\<lparr>w_sock := b\<rparr>)\<rparr>
           in case r of
                Inl e \<Rightarrow> (remove_worker fd s, out)
              | Inr all_sent \<Rightarrow>
                  (if all_sent
                   then (if dhas (epoll_out s) fd
                         then s\<lparr>epoll_out := dset (epoll_out s) fd False\<rparr>
                         else remove_worker fd s)
                   else s, out)))"

section \<open>The event loop\<close>

text \<open>
  One event of a poll: a new connection, or a descriptor that is readable (with what arrived),
  else writable (with what the kernel accepts), else hung up. A signal handler only sets a
  flag; the model lets it run between two polls.
\<close>

datatype poll_event =
    NewConnection "nat option"
  | Readable nat "net_event list"
  | Writable nat send_event
  | HungUp nat

datatype happening = Poll "poll_event list" | Shutdown | GracefulShutdown

fun poll_step :: "poll_event \<Rightarrow> broker \<Rightarrow> broker" where
  "poll_step (NewConnection c) s = accept_worker c s"
| "poll_step (Readable fd es) s = handle_worker_message fd es s"
| "poll_step (Writable fd ev) s = fst (handle_worker_write fd ev s)"
| "poll_step (HungUp fd) s = remove_worker fd s"

text \<open>\<open>_teardown_blocked_messages\<close>: list by list, in the order the classes were first waited for.\<close>

definition teardown_one :: "nat \<Rightarrow> (broker, unit) act" where
  "teardown_one r =
     sbind (sget (\<lambda>s. deref s r)) (\<lambda>msg.
     sbind (slift (obj_get_or msg ''class'' ONone)) (\<lambda>msg_class.
       if \<not> obj_true msg_class \<or> \<not> obj_eq msg_class (OStr ''postprocess'') then sret ()
       else sbind (slift (teardown_with_unmet_dependency msg)) (\<lambda>(cancel, tmpdir).
            sbind (supd (\<lambda>s. s\<lparr>removed_dirs := removed_dirs s
                                 @ (case tmpdir of None \<Rightarrow> [] | Some d \<Rightarrow> [d])\<rparr>)) (\<lambda>_.
            sbind (slift (obj_get cancel ''target_queue'')) (\<lambda>target_queue.
            sbind (alloc cancel) (enqueue_with_priority target_queue))))))"

definition teardown_blocked_messages :: "(broker, unit) act" where
  "teardown_blocked_messages =
     sbind (sget (\<lambda>s. concat (map snd (blocked_messages s)))) (\<lambda>refs.
     sbind (sfor refs teardown_one) (\<lambda>_.
     supd (\<lambda>s. s\<lparr>blocked_messages := []\<rparr>)))"

text \<open>
  The loop of \<open>run\<close>, from the moment \<open>running\<close> has been set, over what happens; then the
  cleanup. An exception of the teardown leaves \<open>run\<close>.
\<close>

fun run_loop :: "happening list \<Rightarrow> broker \<Rightarrow> broker" where
  "run_loop [] s = s"
| "run_loop (h # hs) s =
     (if \<not> running s then s
      else case h of
        Poll events \<Rightarrow> run_loop hs (fold poll_step events s)
      | Shutdown \<Rightarrow> run_loop hs (s\<lparr>running := False\<rparr>)
      | GracefulShutdown \<Rightarrow> run_loop hs (s\<lparr>graceful_shutdown_requested := True\<rparr>))"

definition broker_run :: "happening list \<Rightarrow> (broker, unit) act" where
  "broker_run hs s =
     (let s = run_loop hs (s\<lparr>running := True\<rparr>)
      in if running s then (s, Inr ())
         else if graceful_shutdown_requested s then teardown_blocked_messages s else (s, Inr ()))"

section \<open>The contract of a priority queue\<close>

text \<open>
  The specification does not know of a queue: \<open>ps\<close> are the messages that wait, in the order of their
  arrival. A request is answered with the first of those of the highest priority, and with None
  only if nothing waits.
\<close>

fun serve :: "('a \<Rightarrow> int) \<Rightarrow> 'a option list \<Rightarrow> 'a list \<Rightarrow> 'a list \<times> 'a option list" where
  "serve prio [] ps = (ps, [])"
| "serve prio (Some x # ops) ps = serve prio ops (ps @ [x])"
| "serve prio (None # ops) ps =
     (if ps = [] then (let (ps', replies) = serve prio ops [] in (ps', None # replies))
      else
        let p = Max (prio ` set ps);
            later = takeWhile (\<lambda>y. prio y \<noteq> p) ps;
            first = dropWhile (\<lambda>y. prio y \<noteq> p) ps;
            (ps', replies) = serve prio ops (later @ tl first)
        in (ps', Some (hd first) # replies))"

abbreviation by_priority :: "('a \<Rightarrow> int) \<Rightarrow> 'a list \<Rightarrow> 'a list" where
  "by_priority prio \<equiv> sort_key (\<lambda>x. - prio x)"

lemma mset_from_classes:
  assumes "\<And>p. filter (\<lambda>y. f y = p) ys = filter (\<lambda>y. f y = p) xs"
  shows "mset ys = mset xs"
proof (rule multiset_eqI)
  fix x
  have "count (mset (filter (\<lambda>y. f y = f x) ys)) x = count (mset (filter (\<lambda>y. f y = f x) xs)) x"
    by (simp only: assms)
  then show "count (mset ys) x = count (mset xs) x" by (simp add: count_filter_mset)
qed

lemma by_priority_eq:
  assumes "sorted_wrt (\<lambda>x y. prio y \<le> prio x) ys"
    and "\<And>p. filter (\<lambda>y. prio y = p) ys = filter (\<lambda>y. prio y = p) xs"
  shows "by_priority prio xs = ys"
proof (rule properties_for_sort_key)
  show "mset ys = mset xs" using assms(2) by (rule mset_from_classes)
  show "filter (\<lambda>x. - prio k = - prio x) ys = filter (\<lambda>x. - prio k = - prio x) xs" for k
    using assms(2) [of "prio k"] by (simp add: eq_commute)
  show "sorted (map (\<lambda>x. - prio x) ys)" using assms(1) by (simp add: sorted_wrt_map)
qed

lemma by_priority_class: "filter (\<lambda>y. prio y = p) (by_priority prio xs) = filter (\<lambda>y. prio y = p) xs"
  using sort_key_stable [of "\<lambda>x. - prio x" "- p" xs] by simp

text \<open>
  What the workers rely on: a queue whose items leave highest priority first, and in the order
  of their arrival within a priority; nothing is lost and nothing is invented.
\<close>

locale fifo_priority =
  fixes enq :: "'a \<Rightarrow> 'q \<Rightarrow> 'q" and deq :: "'q \<Rightarrow> ('a \<times> 'q) option" and items :: "'q \<Rightarrow> 'a list"
    and prio :: "'a \<Rightarrow> int" and inv :: "'q \<Rightarrow> bool"
  assumes enq_inv: "inv q \<Longrightarrow> inv (enq x q)"
    and enq_class: "inv q \<Longrightarrow> filter (\<lambda>y. prio y = p) (items (enq x q))
                      = filter (\<lambda>y. prio y = p) (items q) @ (if prio x = p then [x] else [])"
    and deq_inv: "inv q \<Longrightarrow> deq q = Some (x, q') \<Longrightarrow> inv q'"
    and deq_items: "deq q = Some (x, q') \<Longrightarrow> items q = x # items q'"
    and deq_None: "deq q = None \<longleftrightarrow> items q = []"
    and items_sorted: "inv q \<Longrightarrow> sorted_wrt (\<lambda>x y. prio y \<le> prio x) (items q)"
begin

fun run_queue :: "'a option list \<Rightarrow> 'q \<Rightarrow> 'q \<times> 'a option list" where
  "run_queue [] q = (q, [])"
| "run_queue (Some x # ops) q = run_queue ops (enq x q)"
| "run_queue (None # ops) q =
     (case deq q of
        None \<Rightarrow> (let (q2, out) = run_queue ops q in (q2, None # out))
      | Some (x, q') \<Rightarrow> (let (q2, out) = run_queue ops q' in (q2, Some x # out)))"

text \<open>The items are the waiting messages, sorted; an arrival and a removal keep it so.\<close>

lemma enq_waiting:
  assumes "inv q" "items q = by_priority prio ps"
  shows "items (enq x q) = by_priority prio (ps @ [x])"
  by (rule by_priority_eq [symmetric])
    (simp_all add: assms enq_class [OF assms(1)] enq_inv items_sorted by_priority_class)

lemma deq_waiting:
  assumes "inv q" "items q = by_priority prio ps" "deq q = Some (x, q')"
  defines "p \<equiv> Max (prio ` set ps)"
  shows "hd (dropWhile (\<lambda>y. prio y \<noteq> p) ps) = x"
    and "items q' = by_priority prio (takeWhile (\<lambda>y. prio y \<noteq> p) ps @ tl (dropWhile (\<lambda>y. prio y \<noteq> p) ps))"
proof -
  have it: "by_priority prio ps = x # items q'" using deq_items [OF assms(3)] assms(2) by simp
  then have st: "set ps = insert x (set (items q'))" by (metis list.simps(15) set_sort)
  have "\<forall>y\<in>set (items q'). prio y \<le> prio x" using items_sorted [OF assms(1)] assms(2) it by simp
  then have p: "p = prio x" unfolding p_def st by (intro Max_eqI) auto
  have cls: "filter (\<lambda>y. prio y = r) (x # items q') = filter (\<lambda>y. prio y = r) ps" for r
    unfolding it [symmetric] by (rule by_priority_class)
  from cls [of p] obtain us vs where ps: "ps = us @ x # vs" "\<forall>u\<in>set us. prio u \<noteq> p"
    "filter (\<lambda>y. prio y = p) (items q') = filter (\<lambda>y. prio y = p) vs"
    using p by (auto simp: eq_commute [of "_ # _"] filter_eq_Cons_iff)
  then have cut: "takeWhile (\<lambda>y. prio y \<noteq> p) ps = us" "dropWhile (\<lambda>y. prio y \<noteq> p) ps = x # vs"
    using p by (simp_all add: takeWhile_append dropWhile_append)
  then show "hd (dropWhile (\<lambda>y. prio y \<noteq> p) ps) = x" by simp
  have "filter (\<lambda>y. prio y = r) (items q') = filter (\<lambda>y. prio y = r) (us @ vs)" for r
  proof (cases "r = p")
    case True
    then show ?thesis using ps(2,3) by (auto simp: filter_empty_conv)
  next
    case False
    then show ?thesis using cls [of r] p by (simp add: ps(1))
  qed
  then show "items q' = by_priority prio (takeWhile (\<lambda>y. prio y \<noteq> p) ps @ tl (dropWhile (\<lambda>y. prio y \<noteq> p) ps))"
    unfolding cut list.sel using items_sorted [OF deq_inv [OF assms(1,3)]] by (intro by_priority_eq [symmetric])
qed

lemma run_queue_serves:
  "inv q \<Longrightarrow> items q = by_priority prio ps \<Longrightarrow> run_queue ops q = (q', replies) \<Longrightarrow>
     \<exists>ps'. serve prio ops ps = (ps', replies) \<and> items q' = by_priority prio ps'"
proof (induction ops q arbitrary: ps q' replies rule: run_queue.induct)
  case (1 q)
  then show ?case by simp
next
  case (2 x ops q)
  from 2(1) [OF enq_inv [OF 2(2)] enq_waiting [OF 2(2,3)]] 2(4) show ?case by simp
next
  case (3 ops q)
  show ?case
  proof (cases "deq q")
    case None
    then have "ps = []" using 3(4) deq_None by (metis length_0_conv length_sort)
    with None 3(1) [OF None 3(3,4)] 3(5) show ?thesis by (auto split: prod.splits)
  next
    case (Some xq)
    obtain x q1 where x: "xq = (x, q1)" by (cases xq)
    with 3(5) Some obtain out where o: "run_queue ops q1 = (q', out)" "replies = Some x # out"
      by (auto split: prod.splits)
    from Some x have d: "deq q = Some (x, q1)" by simp
    have "ps \<noteq> []" using deq_items [OF d] 3(4) by auto
    with 3(2) [OF Some x [symmetric] deq_inv [OF 3(3) d] deq_waiting(2) [OF 3(3,4) d] o(1)]
      deq_waiting(1) [OF 3(3,4) d] o(2) show ?thesis by (auto simp: Let_def)
  qed
qed

end

text \<open>The broker's insertion, for messages whose priorities are known.\<close>

definition prio_sorted :: "('a \<Rightarrow> int) \<Rightarrow> 'a list \<Rightarrow> bool" where
  "prio_sorted prio q \<longleftrightarrow> sorted_wrt (\<lambda>x y. prio y \<le> prio x) q"

definition queue_insert :: "('a \<Rightarrow> int) \<Rightarrow> 'a \<Rightarrow> 'a list \<Rightarrow> 'a list" where
  "queue_insert prio x q = insert_at (projr (insert_pos (\<lambda>y. Inr (prio y)) (prio x) q)) x q"

definition queue_pop :: "'a list \<Rightarrow> ('a \<times> 'a list) option" where
  "queue_pop q = (case q of [] \<Rightarrow> None | x # xs \<Rightarrow> Some (x, xs))"

lemma insert_pos_pure:
  "insert_pos (\<lambda>y. Inr (prio y)) p q = Inr (length (takeWhile (\<lambda>y. p \<le> prio y) q))"
  by (induction q) auto

lemma queue_insert_split:
  "queue_insert prio x q = takeWhile (\<lambda>y. prio x \<le> prio y) q @ x # dropWhile (\<lambda>y. prio x \<le> prio y) q"
  by (simp add: queue_insert_def insert_at_def insert_pos_pure)
    (metis takeWhile_eq_take dropWhile_eq_drop)

lemma prio_sorted_dropWhile:
  "prio_sorted prio q \<Longrightarrow> y \<in> set (dropWhile (\<lambda>y. p \<le> prio y) q) \<Longrightarrow> prio y < p"
  by (induction q) (auto simp: prio_sorted_def split: if_splits)

lemma prio_sorted_insert:
  assumes "prio_sorted prio q"
  shows "prio_sorted prio (queue_insert prio x q)"
proof -
  let ?P = "\<lambda>y. prio x \<le> prio y"
  have "sorted_wrt (\<lambda>x y. prio y \<le> prio x) (takeWhile ?P q @ dropWhile ?P q)"
    using assms by (simp add: prio_sorted_def)
  moreover have "\<forall>y\<in>set (takeWhile ?P q). prio x \<le> prio y" by (auto dest: set_takeWhileD)
  moreover have "\<forall>y\<in>set (dropWhile ?P q). prio y \<le> prio x"
    using prio_sorted_dropWhile [OF assms, of _ "prio x"] by force
  ultimately show ?thesis
    unfolding queue_insert_split prio_sorted_def by (fastforce simp: sorted_wrt_append)
qed

lemma filter_queue_insert:
  assumes "prio_sorted prio q"
  shows "filter (\<lambda>y. prio y = p) (queue_insert prio x q)
           = filter (\<lambda>y. prio y = p) q @ (if prio x = p then [x] else [])"
proof -
  let ?P = "\<lambda>y. prio x \<le> prio y"
  have split: "filter Q q = filter Q (takeWhile ?P q) @ filter Q (dropWhile ?P q)" for Q
    by (metis filter_append takeWhile_dropWhile_id)
  have "filter (\<lambda>y. prio y = p) (dropWhile ?P q) = []" if "prio x = p"
    using prio_sorted_dropWhile [OF assms, of _ "prio x"] that by (fastforce simp: filter_empty_conv)
  then show ?thesis by (simp add: queue_insert_split split)
qed

lemma queue_pop_simps [simp]:
  "queue_pop q = None \<longleftrightarrow> q = []" "queue_pop q = Some (x, q') \<longleftrightarrow> q = x # q'"
  by (auto simp: queue_pop_def split: list.splits)

lemma prio_sorted_Cons [simp]:
  "prio_sorted prio (x # q) \<longleftrightarrow> prio_sorted prio q \<and> (\<forall>y\<in>set q. prio y \<le> prio x)"
  by (auto simp: prio_sorted_def)

interpretation bq: fifo_priority "queue_insert prio" queue_pop "\<lambda>q. q" prio "prio_sorted prio"
  for prio :: "'a \<Rightarrow> int"
  by unfold_locales (simp_all add: prio_sorted_insert filter_queue_insert, simp add: prio_sorted_def)

end
