(* ===== verification/BrokerInv.thy ===== *)
theory BrokerInv
  imports Broker
begin

text \<open>
  The broker's state keeps an invariant: every queue holds messages with a known priority, highest
  first; no list refers to a message that does not exist; the workers' table and the epoll
  registrations agree. Handling a message may mutate blocked messages that other lists share;
  their class, and so their place in a queue, stays the same.
\<close>

section \<open>The invariant\<close>

definition mprio :: "broker \<Rightarrow> nat \<Rightarrow> int" where
  "mprio s r = projr (msg_priority (deref s r))"

definition queue_ok :: "broker \<Rightarrow> nat list \<Rightarrow> bool" where
  "queue_ok s q \<longleftrightarrow> prio_sorted (mprio s) q
     \<and> list_all (\<lambda>r. r < length (store s) \<and> is_ok (msg_priority (deref s r))) q"

definition binv :: "broker \<Rightarrow> bool" where
  "binv s \<longleftrightarrow> map fst (queues s) = map fst (queues new_broker)
     \<and> list_all (\<lambda>(k, q). queue_ok s q) (queues s)
     \<and> list_all (\<lambda>(k, l). list_all (\<lambda>r. r < length (store s)) l) (blocked_messages s)
     \<and> distinct (map fst (workers s)) \<and> distinct (map fst (epoll_out s))
     \<and> set (map fst (workers s)) = set (map fst (epoll_out s))"

lemma binv_new: "binv new_broker"
  by (simp add: binv_def new_broker_def queue_ok_def prio_sorted_def)

text \<open>The part of the state that the router changes, with the number of messages fixed.\<close>

definition binv_at :: "nat \<Rightarrow> broker \<Rightarrow> bool" where
  "binv_at n s \<longleftrightarrow> binv s \<and> length (store s) = n"

lemma queue_ok_cong:
  assumes "queue_ok s q" "length (store s) \<le> length (store s')"
    and "\<And>r. r < length (store s) \<Longrightarrow> msg_priority (deref s' r) = msg_priority (deref s r)"
  shows "queue_ok s' q"
proof -
  have eq: "mprio s' r = mprio s r" if "r \<in> set q" for r
    using assms that by (auto simp: queue_ok_def list_all_iff mprio_def)
  have "prio_sorted (mprio s') q \<longleftrightarrow> prio_sorted (mprio s) q"
    unfolding prio_sorted_def using eq by (auto intro: sorted_wrt_mono_rel [rotated])
  with assms show ?thesis by (fastforce simp: queue_ok_def list_all_iff)
qed

lemma deref_set_msg:
  "deref (set_msg r m s) r' = (if r' = r \<and> r < length (store s) then m else deref s r')"
  by (auto simp: deref_def set_msg_def)

lemma set_msg_fields [simp]:
  "queues (set_msg r m s) = queues s" "blocked_messages (set_msg r m s) = blocked_messages s"
  "workers (set_msg r m s) = workers s" "epoll_out (set_msg r m s) = epoll_out s"
  "length (store (set_msg r m s)) = length (store s)" "pending_acks (set_msg r m s) = pending_acks s"
  by (simp_all add: set_msg_def)

lemma binv_set_msg:
  assumes "binv_at n s" "msg_priority m = msg_priority (deref s r)"
  shows "binv_at n (set_msg r m s)"
proof -
  have "queue_ok s q \<Longrightarrow> queue_ok (set_msg r m s) q" for q
    by (rule queue_ok_cong) (use assms(2) in \<open>auto simp: deref_set_msg\<close>)
  with assms(1) show ?thesis by (auto simp: binv_at_def binv_def list_all_iff)
qed

section \<open>Mutations of a message\<close>

lemma msg_priority_dset:
  "k \<noteq> ''class'' \<Longrightarrow> msg_priority (ODict (dset d (KStr k) v)) = msg_priority (ODict d)"
  by (simp add: msg_priority_def)

lemma msg_priority_obj_set:
  "obj_set m k v = Inr m' \<Longrightarrow> k \<noteq> ''class'' \<Longrightarrow> msg_priority m' = msg_priority m"
  by (cases m) (auto simp: msg_priority_dset)

lemma msg_priority_obj_pop:
  "obj_pop m k = Inr m' \<Longrightarrow> k \<noteq> ''class'' \<Longrightarrow> msg_priority m' = msg_priority m"
  by (cases m) (auto simp: msg_priority_def)

lemma msg_priority_record:
  "record_report b m = (b', r) \<Longrightarrow> msg_priority b' = msg_priority b"
  by (auto simp: record_report_def split: sum.splits pyobj.splits prod.splits
      intro: msg_priority_obj_set)

lemma msg_priority_resolve:
  "resolve_dependency b m = (b', r) \<Longrightarrow> msg_priority b' = msg_priority b"
  by (auto simp: resolve_dependency_def split: sum.splits bool.splits prod.splits
      dest: msg_priority_record)

section \<open>The router keeps the invariant\<close>

lemma binv_at_ref:
  "binv_at n s \<Longrightarrow> dget (blocked_messages s) k = Some l \<Longrightarrow> r \<in> set l \<Longrightarrow> r < n"
  by (auto simp: binv_at_def binv_def list_all_iff dest!: map_of_SomeD)

lemma set_AList_update: "p \<in> set (dset d k v) \<Longrightarrow> p = (k, v) \<or> p \<in> set d"
  by (induction d) (auto split: if_splits)

lemma set_AList_delete: "p \<in> set (ddel d k) \<Longrightarrow> p \<in> set d"
  by (simp add: AList.delete_eq)

lemma deref_fields [simp]:
  "deref (s\<lparr>queues := a\<rparr>) = deref s" "deref (s\<lparr>blocked_messages := b\<rparr>) = deref s"
  "deref (s\<lparr>pending_acks := c\<rparr>) = deref s" "deref (s\<lparr>workers := d\<rparr>) = deref s"
  "deref (s\<lparr>epoll_out := e\<rparr>) = deref s" "deref (s\<lparr>removed_dirs := f\<rparr>) = deref s"
  "deref (s\<lparr>running := g\<rparr>) = deref s" "deref (s\<lparr>graceful_shutdown_requested := h\<rparr>) = deref s"
  by (rule ext, simp add: deref_def)+

lemma queue_ok_deref: "deref s' = deref s \<Longrightarrow> store s' = store s \<Longrightarrow> queue_ok s' q = queue_ok s q"
  by (simp add: queue_ok_def mprio_def [abs_def])

lemma binv_at_blocked:
  assumes "binv_at n s" "list_all (\<lambda>r. r < n) l"
  shows "binv_at n (s\<lparr>blocked_messages := dset (blocked_messages s) k l\<rparr>)"
proof -
  have "queue_ok (s\<lparr>blocked_messages := b\<rparr>) q = queue_ok s q" for b q
    by (rule queue_ok_deref) simp_all
  with assms show ?thesis
    by (auto simp: binv_at_def binv_def list_all_iff dest!: set_AList_update)
qed

lemma add_blocked_ok: "r < n \<Longrightarrow> preserves (binv_at n) (add_blocked r c)"
  unfolding add_blocked_def
  by (rule yields_sbind [OF yields_slift], rule preserves_supd, frule binv_at_blocked)
    (auto simp: list_all_iff dest: binv_at_ref [OF _ sym] split: option.splits)

lemma try_unblock_ok:
  "list_all (\<lambda>r. r < n) rs \<Longrightarrow> yields (binv_at n) (try_unblock m rs) (list_all (\<lambda>r. r < n))"
proof (induction rs)
  case Nil
  then show ?case by (simp add: yields_def)
next
  case (Cons r rs)
  have "preserves (binv_at n)
     (\<lambda>s. let (m, b) = resolve_dependency (deref s r) m in (set_msg r m s, b))"
    by (rule yieldsI)
      (auto split: prod.splits intro!: binv_set_msg dest: msg_priority_resolve)
  with Cons show ?case
    by (auto intro!: yields_sbind yields_sret)
qed

lemma remove_blocked_ok: "preserves (binv_at n) (remove_blocked k r)"
proof (rule yieldsI)
  fix s assume "binv_at n s"
  show "binv_at n (fst (remove_blocked k r s))"
  proof (cases "remove_blocked k r s")
    case (Pair s' res)
    show ?thesis
    proof (cases res)
      case (Inr u)
      with Pair obtain l l' where "dget (blocked_messages s) k = Some l" and l: "set l' \<subseteq> set l"
        and s': "s' = s\<lparr>blocked_messages := dset (blocked_messages s) k l'\<rparr>"
        by (auto simp: remove_blocked_def split: option.splits dest!: set_py_remove)
      with \<open>binv_at n s\<close> have "list_all (\<lambda>r. r < n) l'"
        by (auto simp: list_all_iff dest: binv_at_ref)
      with \<open>binv_at n s\<close> Pair s' show ?thesis by (simp add: binv_at_blocked)
    qed (use \<open>binv_at n s\<close> Pair in \<open>auto simp: remove_blocked_def split: option.splits\<close>)
  qed
qed

lemma pop_depends_ok: "preserves (binv_at n) (pop_depends r)"
  by (rule yieldsI)
    (auto simp: pop_depends_def split: sum.splits intro!: binv_set_msg dest: msg_priority_obj_pop)

text \<open>With known priorities, \<open>_enqueue_with_priority\<close> is the abstract insertion.\<close>

lemma insert_pos_known:
  "list_all (\<lambda>x. is_ok (f x)) q \<Longrightarrow> insert_pos f p q = insert_pos (\<lambda>x. Inr (projr (f x))) p q"
  by (induction q) (auto simp: is_ok_iff)

lemma enqueue_known:
  assumes "queue_ok s q" "is_ok (msg_priority (deref s r))" "key_of qname = Inr k"
    and "dget (queues s) k = Some q"
  shows "enqueue_with_priority qname r s
           = (s\<lparr>queues := dset (queues s) k (queue_insert (mprio s) r q)\<rparr>, Inr ())"
proof -
  from assms(1) have "list_all (\<lambda>x. is_ok (msg_priority (deref s x))) q"
    by (simp add: queue_ok_def list_all_iff)
  moreover obtain p where "msg_priority (deref s r) = Inr p" using assms(2) by (auto simp: is_ok_iff)
  ultimately show ?thesis
    using assms(3,4) insert_pos_known [of "\<lambda>x. msg_priority (deref s x)" q p]
    by (simp add: enqueue_with_priority_def queue_insert_def insert_pos_pure mprio_def)
qed

lemma queue_ok_insert:
  assumes "queue_ok s q" "r < length (store s)" "is_ok (msg_priority (deref s r))"
  shows "queue_ok s (queue_insert (mprio s) r q)"
proof -
  have "set (queue_insert (mprio s) r q) = insert r (set q)"
    using takeWhile_dropWhile_id [of "\<lambda>y. mprio s r \<le> mprio s y" q]
    by (metis Un_insert_right list.simps(15) queue_insert_split set_append)
  with assms show ?thesis by (auto simp: queue_ok_def list_all_iff intro: bq.enq_inv)
qed

lemma keys_dset_same: "dget d k = Some v \<Longrightarrow> map fst (dset d k w) = map fst d"
  by (induction d) (auto split: if_splits)

lemma binv_queue:
  "binv s \<Longrightarrow> dget (queues s) k = Some q \<Longrightarrow> queue_ok s q"
  by (auto simp: binv_def list_all_iff dest!: map_of_SomeD)

lemma binv_at_queues:
  assumes "binv_at n s" "dget (queues s) k = Some q0" "queue_ok s q"
  shows "binv_at n (s\<lparr>queues := dset (queues s) k q\<rparr>)"
proof -
  have "queue_ok (s\<lparr>queues := x\<rparr>) y = queue_ok s y" for x y
    by (rule queue_ok_deref) simp_all
  with assms keys_dset_same [OF assms(2)] show ?thesis
    by (auto simp: binv_at_def binv_def list_all_iff dest!: set_AList_update)
qed

lemma enqueue_ok:
  assumes "r < n"
  shows "preserves (binv_at n) (enqueue_with_priority qname r)"
proof (rule yieldsI)
  fix s assume I: "binv_at n s"
  show "binv_at n (fst (enqueue_with_priority qname r s))"
  proof (cases "\<exists>k q. key_of qname = Inr k \<and> dget (queues s) k = Some q
      \<and> is_ok (msg_priority (deref s r))")
    case True
    then obtain k q where k: "key_of qname = Inr k" "dget (queues s) k = Some q"
      and ok: "is_ok (msg_priority (deref s r))" by blast
    from I k(2) have q: "queue_ok s q" by (simp add: binv_at_def binv_queue)
    moreover have "r < length (store s)" using I assms by (simp add: binv_at_def)
    ultimately show ?thesis
      using enqueue_known [OF q ok k] binv_at_queues [OF I k(2) queue_ok_insert] ok by simp
  next
    case False
    with I show ?thesis
      by (auto simp: enqueue_with_priority_def is_ok_def rbind_def split: sum.splits option.splits)
  qed
qed

lemma queue_ok_tl: "queue_ok s (r # q) \<Longrightarrow> queue_ok s q"
  by (simp add: queue_ok_def)

lemma dequeue_ok: "preserves (binv_at n) (dequeue_task qname)"
proof (rule yieldsI)
  fix s assume I: "binv_at n s"
  show "binv_at n (fst (dequeue_task qname s))"
    using I binv_at_queues [OF I _ queue_ok_tl [OF binv_queue]]
    by (auto simp: dequeue_task_def binv_at_def [of n s] split: sum.splits option.splits list.splits)
qed

text \<open>Sending to a worker changes neither the keys of the tables nor a message.\<close>

lemma binv_at_workers:
  assumes "binv_at n s" "map fst ws = map fst (workers s)"
  shows "binv_at n (s\<lparr>workers := ws\<rparr>)"
proof -
  have "queue_ok (s\<lparr>workers := x\<rparr>) y = queue_ok s y" for x y
    by (rule queue_ok_deref) simp_all
  with assms show ?thesis by (simp add: binv_at_def binv_def) (metis list.set_map)
qed

lemma binv_at_epoll:
  assumes "binv_at n s" "map fst es = map fst (epoll_out s)"
  shows "binv_at n (s\<lparr>epoll_out := es\<rparr>)"
proof -
  have "queue_ok (s\<lparr>epoll_out := x\<rparr>) y = queue_ok s y" for x y
    by (rule queue_ok_deref) simp_all
  with assms show ?thesis by (simp add: binv_at_def binv_def) (metis list.set_map)
qed

lemma dhas_Some: "dhas d k \<Longrightarrow> \<exists>v. dget d k = Some v"
  by (auto simp: dhas_def)

lemma binv_at_polled:
  "binv_at n s \<Longrightarrow> dhas (epoll_out s) fd \<Longrightarrow> binv_at n (s\<lparr>epoll_out := dset (epoll_out s) fd b\<rparr>)"
  by (rule binv_at_epoll) (auto dest!: dhas_Some simp: keys_dset_same)

lemma send_to_worker_ok: "preserves (binv_at n) (send_to_worker fd m)"
proof (rule yieldsI)
  fix s assume I: "binv_at n s"
  show "binv_at n (fst (send_to_worker fd m s))"
  proof (cases "dget (workers s) fd")
    case (Some w)
    then have "binv_at n (s\<lparr>workers := dset (workers s) fd w'\<rparr>)" for w'
      by (intro binv_at_workers I keys_dset_same)
    with I Some show ?thesis
      by (auto simp: send_to_worker_def Let_def split: sum.splits intro: binv_at_polled
          [of n "s\<lparr>workers := _\<rparr>", simplified])
  qed (use I in \<open>simp add: send_to_worker_def\<close>)
qed

lemma name_worker_ok: "preserves (binv_at n) (name_worker fd wid)"
  unfolding name_worker_def
  by (rule preserves_supd)
    (auto simp: upd_worker_def keys_dset_same split: option.splits intro: binv_at_workers)

lemma binv_at_acks: "binv_at n s \<Longrightarrow> binv_at n (s\<lparr>pending_acks := a\<rparr>)"
  using queue_ok_deref [of "s\<lparr>pending_acks := a\<rparr>" s]
  unfolding binv_at_def binv_def by (auto simp: list_all_iff)

lemma handle_ack_ok: "preserves (binv_at n) (handle_ack m)"
  unfolding handle_ack_def
  by (intro yields_sbind [OF yields_slift] yields_sbind [OF yields_sget])
    (auto split: option.splits intro!: yields_sret preserves_supd binv_at_acks preserves_sfor
      send_to_worker_ok yields_sbind [OF yields_sget] yields_sbind [where Q = "\<lambda>_. True"])

lemma deliver_ok: "r < n \<Longrightarrow> preserves (binv_at n) (deliver r)"
  unfolding deliver_def
  by (auto intro!: yields_sbind [OF yields_slift] yields_sbind [OF yields_sget] handle_ack_ok
      enqueue_ok yields_sret)

lemma block_on_ok: "r < n \<Longrightarrow> preserves (binv_at n) (block_on r m d)"
  unfolding block_on_def
  by (intro yields_sbind [OF yields_slift] yields_sbind [OF preserves_sfor] yields_sret
      add_blocked_ok TrueI)

lemma resolve_dependencies_ok:
  assumes "\<And>u. u < n \<Longrightarrow> preserves (binv_at n) (fwd u)"
  shows "preserves (binv_at n) (resolve_dependencies fwd m)"
proof -
  have nested: "preserves (binv_at n) (sfor us (\<lambda>u.
      sbind (remove_blocked k u) (\<lambda>_. sbind (pop_depends u) (\<lambda>_. fwd u))))"
    if "list_all (\<lambda>r. r < n) us" for us k
    using that assms
    by (auto simp: list_all_iff intro!: preserves_sfor yields_sbind [OF remove_blocked_ok]
        yields_sbind [OF pop_depends_ok])
  have "preserves (binv_at n) (case blocked of None \<Rightarrow> sret ()
      | Some l \<Rightarrow> sbind (try_unblock m l) (\<lambda>us. sfor us (\<lambda>u.
          sbind (remove_blocked k u) (\<lambda>_. sbind (pop_depends u) (\<lambda>_. fwd u)))))"
    if "\<exists>s. binv_at n s \<and> blocked = dget (blocked_messages s) k" for blocked k
    using that
    by (auto split: option.splits simp: list_all_iff intro!: yields_sret
        yields_sbind [OF try_unblock_ok nested] dest: binv_at_ref)
  then show ?thesis
    unfolding resolve_dependencies_def by (intro yields_sbind [OF yields_sget] yields_sbind [OF yields_slift])
qed

lemma forward_n_ok: "r < n \<Longrightarrow> preserves (binv_at n) (forward_n fuel r)"
proof (induction fuel arbitrary: r)
  case 0
  then show ?case by (simp add: yields_def)
next
  case (Suc fuel)
  have "preserves (binv_at n) (case deps of Some d \<Rightarrow> block_on r m d
      | None \<Rightarrow> sbind (resolve_dependencies (forward_n fuel) m) (\<lambda>_. deliver r))" for deps m
    using Suc
    by (cases deps) (simp_all add: block_on_ok yields_sbind [OF resolve_dependencies_ok deliver_ok])
  then show ?case
    unfolding forward_n.simps by (intro yields_sbind [OF yields_sget] yields_sbind [OF yields_slift])
qed

lemma forward_ok: "r < n \<Longrightarrow> preserves (binv_at n) (forward r)"
  using forward_n_ok unfolding forward_def [abs_def] yields_def by blast

section \<open>Every request keeps the invariant\<close>

text \<open>Requests also add messages, so the number of messages is no longer fixed.\<close>

lemma binv_iff_at: "binv s \<longleftrightarrow> binv_at (length (store s)) s"
  by (simp add: binv_at_def)

lemma binv_of_at: "(\<And>n. preserves (binv_at n) m) \<Longrightarrow> preserves binv m"
  by (auto simp: yields_def binv_at_def)

lemma alloc_ok:
  assumes "\<And>r n. r < n \<Longrightarrow> preserves (binv_at n) (f r)"
  shows "preserves binv (sbind (alloc m) f)"
proof (rule yieldsI)
  fix s assume I: "binv s"
  let ?s = "s\<lparr>store := store s @ [m]\<rparr>"
  have "queue_ok s q \<Longrightarrow> queue_ok ?s q" for q
    by (rule queue_ok_cong) (auto simp: deref_def nth_append)
  with I have "binv_at (Suc (length (store s))) ?s"
    by (fastforce simp: binv_at_def binv_def list_all_iff)
  with assms [of "length (store s)" "Suc (length (store s))"]
  show "binv (fst (sbind (alloc m) f s))"
    by (simp add: yields_def alloc_def sbind_def binv_at_def)
qed

lemma handle_get_task_ok: "preserves (binv_at n) (handle_get_task fd m)"
  unfolding handle_get_task_def
  by (intro yields_sbind [OF yields_slift] yields_sbind [OF name_worker_ok]
      yields_sbind [OF dequeue_ok] send_to_worker_ok)

lemma handle_forward_ok: "preserves binv (handle_forward m)"
  unfolding handle_forward_def
  by (intro yields_sbind [OF yields_slift] alloc_ok forward_ok)

lemma handle_register_ack_ok: "preserves (binv_at n) (handle_register_ack fd m)"
  unfolding handle_register_ack_def
  by (intro yields_sbind [OF yields_slift] yields_sbind [OF name_worker_ok] preserves_supd binv_at_acks)

lemma dispatch_ok: "preserves binv (dispatch fd m)"
  unfolding dispatch_def
  by (intro yields_sbind [OF yields_slift])
    (simp add: handle_forward_ok binv_of_at handle_get_task_ok handle_register_ack_ok yields_sret)

section \<open>Every event of a poll keeps the invariant\<close>

lemma map_fst_delete: "map fst (ddel d k) = filter (\<lambda>x. x \<noteq> k) (map fst d)"
  by (induction d) (auto simp: AList.delete_eq)

lemma remove_worker_ok: "binv s \<Longrightarrow> binv (remove_worker fd s)"
proof (cases "dget (workers s) fd")
  case (Some w)
  let ?s = "s\<lparr>workers := ddel (workers s) fd, epoll_out := ddel (epoll_out s) fd\<rparr>"
  assume "binv s"
  moreover have "queue_ok ?s q = queue_ok s q" for q by (rule queue_ok_deref) simp_all
  ultimately have "binv ?s" by (auto simp: binv_def list_all_iff map_fst_delete)
  with Some show ?thesis by (simp add: remove_worker_def)
qed (simp add: remove_worker_def)

lemma accept_worker_ok: "binv s \<Longrightarrow> binv (accept_worker c s)"
proof (cases c)
  case (Some fd)
  let ?s = "s\<lparr>epoll_out := dset (epoll_out s) fd False,
              workers := dset (workers s) fd \<lparr>w_sock = new_bsock ONone, w_unread = []\<rparr>\<rparr>"
  assume I: "binv s"
  have "queue_ok ?s q = queue_ok s q" for q by (rule queue_ok_deref) simp_all
  moreover have "set (map fst (workers s)) = set (map fst (epoll_out s))"
    using I by (simp add: binv_def)
  ultimately have "binv ?s"
    using I by (auto simp: binv_def list_all_iff dom_update distinct_update)
  with Some show ?thesis by (simp add: accept_worker_def)
qed (simp add: accept_worker_def)

lemma handle_worker_message_ok: "binv s \<Longrightarrow> binv (handle_worker_message fd es s)"
proof (cases "dget (workers s) fd")
  case (Some w)
  assume I: "binv s"
  obtain b unread ms r where rm: "recv_messages loads (w_sock w) (w_unread w @ es) = (b, unread, ms, r)"
    by (metis prod_cases4)
  let ?s = "s\<lparr>workers := dset (workers s) fd \<lparr>w_sock = b, w_unread = unread\<rparr>\<rparr>"
  obtain s' r' where run: "sfor ms (dispatch fd) ?s = (s', r')" by (metis prod.exhaust)
  have "binv ?s"
    using binv_at_workers [of _ s] keys_dset_same [OF Some] I by (simp add: binv_at_def)
  moreover have "preserves binv (sfor ms (dispatch fd))" by (intro preserves_sfor dispatch_ok)
  ultimately have "binv s'" using run by (metis yieldsD)
  with Some rm run show ?thesis by (simp add: handle_worker_message_def remove_worker_ok)
qed (simp add: handle_worker_message_def)

lemma handle_worker_write_ok: "binv s \<Longrightarrow> binv (fst (handle_worker_write fd ev s))"
proof (cases "dget (workers s) fd")
  case (Some w)
  assume I: "binv s"
  have w: "binv (s\<lparr>workers := dset (workers s) fd w'\<rparr>)" for w'
    using binv_at_workers [of _ s] keys_dset_same [OF Some] I by (simp add: binv_at_def)
  have "binv (s\<lparr>workers := dset (workers s) fd w', epoll_out := dset (epoll_out s) fd b\<rparr>)"
    if "dhas (epoll_out s) fd" for w' b
    using binv_at_polled [of _ "s\<lparr>workers := dset (workers s) fd w'\<rparr>" fd b] w [of w'] that
    by (simp add: binv_at_def)
  with w Some show ?thesis
    by (auto simp: handle_worker_write_def Let_def intro!: remove_worker_ok
        split: prod.splits sum.splits)
qed (simp add: handle_worker_write_def)

lemma poll_step_ok: "binv s \<Longrightarrow> binv (poll_step e s)"
  by (cases e) (simp_all add: accept_worker_ok handle_worker_message_ok handle_worker_write_ok
      remove_worker_ok)

section \<open>Reachable states\<close>

text \<open>
  A broker that has been started; the events of one poll are handled one after the other.
\<close>

inductive broker_step :: "broker \<Rightarrow> broker \<Rightarrow> bool" where
  step_poll: "running s \<Longrightarrow> broker_step s (fold poll_step events s)"
| step_shutdown: "running s \<Longrightarrow> broker_step s (s\<lparr>running := False\<rparr>)"
| step_graceful: "running s \<Longrightarrow> broker_step s (s\<lparr>graceful_shutdown_requested := True\<rparr>)"

inductive_cases broker_stepE: "broker_step s s'"

inductive reachable :: "broker \<Rightarrow> bool" where
  reach_start: "reachable (new_broker\<lparr>running := True\<rparr>)"
| reach_step: "reachable s \<Longrightarrow> broker_step s s' \<Longrightarrow> reachable s'"

lemma binv_running: "binv (s\<lparr>running := b\<rparr>) = binv s"
  "binv (s\<lparr>graceful_shutdown_requested := b\<rparr>) = binv s"
  using queue_ok_deref [of "s\<lparr>running := b\<rparr>" s]
    queue_ok_deref [of "s\<lparr>graceful_shutdown_requested := b\<rparr>" s] by (simp_all add: binv_def)

lemma fold_poll_step_ok: "binv s \<Longrightarrow> binv (fold poll_step es s)"
  by (induction es arbitrary: s) (simp_all add: poll_step_ok)

lemma broker_step_ok: "broker_step s s' \<Longrightarrow> binv s \<Longrightarrow> binv s'"
  by (elim broker_stepE) (simp_all add: fold_poll_step_ok binv_running)

lemma reachable_binv: "reachable s \<Longrightarrow> binv s"
  by (induction rule: reachable.induct) (auto simp: binv_new binv_running dest: broker_step_ok)

lemma run_loop_reachable: "reachable s \<Longrightarrow> reachable (run_loop hs s)"
proof (induction hs arbitrary: s)
  case (Cons h hs)
  then show ?case
    by (cases h) (auto intro: reach_step broker_step.intros)
qed simp

section \<open>The teardown\<close>

lemma teardown_one_ok: "preserves binv (teardown_one r)"
proof -
  have dirs: "preserves binv (supd (\<lambda>s. s\<lparr>removed_dirs := f s\<rparr>))" for f
    by (rule preserves_supd) (auto simp: binv_def list_all_iff
        queue_ok_deref [where s' = "_\<lparr>removed_dirs := _\<rparr>"])
  have "preserves binv (sbind (slift (teardown_with_unmet_dependency m)) (\<lambda>(cancel, tmpdir).
      sbind (supd (\<lambda>s. s\<lparr>removed_dirs := removed_dirs s
                                 @ (case tmpdir of None \<Rightarrow> [] | Some d \<Rightarrow> [d])\<rparr>)) (\<lambda>_.
      sbind (slift (obj_get cancel ''target_queue'')) (\<lambda>target_queue.
      sbind (alloc cancel) (enqueue_with_priority target_queue)))))" for m
    by (rule yields_sbind [OF yields_slift], simp only: split_beta)
      (intro yields_sbind [OF dirs] yields_sbind [OF yields_slift] alloc_ok enqueue_ok)
  then show ?thesis
    unfolding teardown_one_def
    by (intro yields_sbind [OF yields_sget] yields_sbind [OF yields_slift])
      (simp only: yields_sret split: if_split, blast)
qed

lemma teardown_ok: "preserves binv teardown_blocked_messages"
  unfolding teardown_blocked_messages_def
  by (intro yields_sbind [OF yields_sget] yields_sbind [OF preserves_sfor [OF teardown_one_ok]]
      preserves_supd)
    (auto simp: binv_def list_all_iff queue_ok_deref [where s' = "_\<lparr>blocked_messages := _\<rparr>"])

text \<open>
  C6: The broker's invariant. Whatever connects, arrives, is accepted by the kernel or hangs up,
  and whenever the two signals come: from the start of \<open>run\<close> to the end of the teardown every
  queue holds existing messages of known priority, highest first, no blocked message is
  dangling, and exactly the connected workers are registered with epoll.
\<close>

theorem broker_invariant: "binv (fst (broker_run hs new_broker))"
proof -
  have "binv (run_loop hs (new_broker\<lparr>running := True\<rparr>))"
    by (intro reachable_binv run_loop_reachable reach_start)
  with teardown_ok show ?thesis by (simp add: broker_run_def Let_def yields_def)
qed

end
