(* ===== verification/BrokerRun.thy ===== *)
theory BrokerRun
  imports BrokerInv
begin

text \<open>
  The router terminates: \<open>forward\<close> and \<open>_resolve_dependencies\<close> recurse only after a blocked message
  has been removed, so the number of blocked messages bounds the depth. Then what the router
  does end to end: the order of the queues, the acknowledgements, the dependencies of a
  postprocess message.
\<close>

section \<open>What can raise a RecursionError\<close>

definition norec :: "'a res \<Rightarrow> bool" where
  "norec r \<longleftrightarrow> r \<noteq> Inl RecursionError"

lemma norec_simps [simp]: "norec (Inr x)" "norec (Inl e) \<longleftrightarrow> e \<noteq> RecursionError"
  by (simp_all add: norec_def)

lemma norec_rbind: "norec m \<Longrightarrow> (\<And>x. m = Inr x \<Longrightarrow> norec (f x)) \<Longrightarrow> norec (rbind m f)"
  by (cases m) (auto simp: norec_def)

lemma norec_rmap [simp]: "norec (rmap f m) \<longleftrightarrow> norec m"
  by (cases m) (auto simp: norec_def)

lemma norec_of_option [simp]: "e \<noteq> RecursionError \<Longrightarrow> norec (of_option e x)"
  by (cases x) auto

lemma norec_objects [simp]:
  "norec (key_of x)" "norec (obj_get x k)" "norec (obj_get_or x k y)" "norec (obj_iter x)"
  "norec (obj_set x k y)" "norec (obj_pop x k)" "norec (obj_items x)"
  by (cases x; simp)+

lemma norec_obj_in [simp]: "norec (obj_in x y)"
  by (cases "(x, y)" rule: obj_in.cases) auto

lemma norec_obj_sub [simp]: "norec (obj_sub x y)"
  by (cases x) (auto intro!: norec_rbind)

lemma norec_all_in [simp]: "norec (all_in got xs)"
  by (induction xs) (auto intro!: norec_rbind)

lemma norec_all_received [simp]: "norec (all_received received xs)"
  by (induction received xs rule: all_received.induct) (auto intro!: norec_rbind)

lemma norec_Inl: "m = Inl e \<Longrightarrow> norec m \<Longrightarrow> e \<noteq> RecursionError"
  by simp

lemma norec_report_parts: "norec (report_parts b m)"
  unfolding report_parts_def by (intro norec_rbind) simp_all

lemma norec_store_report: "norec (snd (store_report d n i r))"
  using norec_objects(1) [of n] norec_objects(1) [of i]
  by (auto simp: store_report_def Let_def split: sum.splits pyobj.splits simp del: norec_objects)

lemma norec_resolve_guards: "norec (resolve_guards b m)"
  by (auto simp: resolve_guards_def intro!: norec_rbind)

lemma norec_record_report: "norec (snd (record_report b m))"
proof (cases "report_parts b m")
  case (Inl e)
  then show ?thesis using norec_Inl [OF Inl norec_report_parts] by (simp add: record_report_def)
next
  case (Inr p)
  obtain n i r received where p: "p = (n, i, r, received)" by (cases p)
  show ?thesis
  proof (cases received)
    case (ODict d)
    obtain d' res where s: "store_report d n i r = (d', res)" by fastforce
    show ?thesis
      using norec_store_report [of d n i r] norec_Inl [OF _ norec_objects(5)]
      by (auto simp: record_report_def Inr p ODict s split: sum.splits)
  qed (simp_all add: record_report_def Inr p)
qed

lemma norec_resolve: "norec (snd (resolve_dependency b m))"
proof (cases "resolve_guards b m")
  case (Inl e)
  then show ?thesis
    using norec_Inl [OF Inl norec_resolve_guards] by (simp add: resolve_dependency_def)
next
  case (Inr g)
  obtain b' res where r: "record_report b m = (b', res)" by fastforce
  show ?thesis
    using norec_record_report [of b m]
    by (cases g; cases res) (auto simp: resolve_dependency_def Inr r intro!: norec_rbind)
qed

section \<open>The number of blocked messages bounds the depth\<close>

text \<open>An action that cannot raise it, and does not increase the number of blocked messages.\<close>

definition tame :: "(broker, 'a) act \<Rightarrow> bool" where
  "tame m \<longleftrightarrow> (\<forall>s. norec (snd (m s)) \<and> nblocked (fst (m s)) \<le> nblocked s)"

lemma tameD: "tame m \<Longrightarrow> m s = (s', r) \<Longrightarrow> norec r \<and> nblocked s' \<le> nblocked s"
  by (auto simp: tame_def dest: spec [of _ s])

lemma tame_sbind:
  assumes "tame m" "\<And>x. tame (f x)"
  shows "tame (sbind m f)"
  unfolding tame_def
proof
  fix s
  obtain s' r where m: "m s = (s', r)" by fastforce
  show "norec (snd (sbind m f s)) \<and> nblocked (fst (sbind m f s)) \<le> nblocked s"
  proof (cases r)
    case (Inl e)
    with tameD [OF assms(1) m] m show ?thesis by (simp add: sbind_def)
  next
    case (Inr x)
    obtain s2 r2 where f: "f x s' = (s2, r2)" by fastforce
    with tameD [OF assms(1) m] tameD [OF assms(2) f] m Inr show ?thesis by (simp add: sbind_def)
  qed
qed

lemma tame_pure: "norec r \<Longrightarrow> tame (slift r)" "tame (sret x)" "tame (sget g)"
  by (simp_all add: tame_def)

lemma tame_supd: "(\<And>s. blocked_messages (g s) = blocked_messages s) \<Longrightarrow> tame (supd g)"
  by (simp add: tame_def nblocked_def)

lemma tame_sfor: "(\<And>x. tame (body x)) \<Longrightarrow> tame (sfor xs body)"
  by (induction xs) (auto intro: tame_sbind tame_pure)

lemmas tame_intros = tame_sbind tame_pure tame_supd tame_sfor

lemma tame_send: "tame (send_to_worker fd m)"
proof -
  have "norec (queue_message dumps m b)" for b
    by (simp add: queue_message_def pack_u32_def Let_def)
  from norec_Inl [OF _ this] show ?thesis
    by (auto simp: tame_def send_to_worker_def nblocked_def Let_def split: option.splits sum.splits)
qed

lemma tame_handle_ack: "tame (handle_ack m)"
  unfolding handle_ack_def
  by (intro tame_intros norec_objects) (auto split: option.splits intro!: tame_intros tame_send)

lemma tame_enqueue: "tame (enqueue_with_priority q r)"
proof -
  have mp: "norec (msg_priority m)" for m
    by (simp add: msg_priority_def get_priority_def norec_rbind)
  have "norec (insert_pos (\<lambda>x. msg_priority (deref s x)) p xs)" for s p xs
    by (induction xs) (auto intro!: norec_rbind mp)
  then have "norec (rbind (msg_priority (deref s r)) (\<lambda>p. insert_pos (\<lambda>x. msg_priority (deref s x)) p xs))"
    for s xs by (intro norec_rbind mp)
  from norec_Inl [OF _ this] norec_Inl [OF _ norec_objects(1) [of q]] show ?thesis
    by (auto simp: tame_def enqueue_with_priority_def nblocked_def split: sum.splits option.splits)
qed

lemma tame_deliver: "tame (deliver r)"
  unfolding deliver_def
  by (intro tame_intros norec_objects) (auto intro!: tame_intros tame_handle_ack tame_enqueue)

lemma tame_try_unblock: "tame (try_unblock m rs)"
proof (induction rs)
  case Nil
  then show ?case by (simp add: tame_def)
next
  case (Cons r rs)
  have "tame (\<lambda>s. let (m, b) = resolve_dependency (deref s r) m in (set_msg r m s, b))"
    using norec_resolve by (auto simp: tame_def nblocked_def split: prod.splits) (metis snd_conv)
  with Cons show ?case
    unfolding try_unblock.simps by (intro tame_sbind tame_pure)
qed

lemma tame_pop: "tame (pop_depends r)"
  using norec_Inl [OF _ norec_objects(6)]
  by (auto simp: tame_def pop_depends_def nblocked_def split: sum.splits)

lemma sum_list_dset:
  "dget d k = Some l \<Longrightarrow> sum_list (map (\<lambda>p. length (snd p)) (dset d k l'))
     + length l = sum_list (map (\<lambda>p. length (snd p)) d) + length l'"
  by (induction d) (auto split: if_splits)

text \<open>Removing a blocked message makes the next call of \<open>forward\<close> cheaper.\<close>

lemma remove_blocked_less:
  assumes "remove_blocked k u s = (s', r)"
  shows "norec r \<and> (r = Inl ValueError \<and> s' = s \<or> r = Inr () \<and> nblocked s' < nblocked s)"
proof (cases "dget (blocked_messages s) k")
  case None
  with assms show ?thesis by (auto simp: remove_blocked_def)
next
  case (Some l)
  show ?thesis
  proof (cases "py_remove (\<lambda>x. x = u \<or> obj_eq (deref s x) (deref s u)) l")
    case None
    with Some assms show ?thesis by (auto simp: remove_blocked_def)
  next
    case (Some l')
    with assms \<open>dget (blocked_messages s) k = Some l\<close> sum_list_dset [of "blocked_messages s" k l l']
    show ?thesis by (auto simp: remove_blocked_def nblocked_def dest!: length_py_remove)
  qed
qed

lemma pop_depends_none:
  assumes "pop_depends u s = (s', Inr ())"
  shows "has_depends (deref s' u) = Inr None"
proof -
  from assms obtain m where m: "obj_pop (deref s u) ''depends'' = Inr m" and s': "s' = set_msg u m s"
    by (auto simp: pop_depends_def split: sum.splits)
  from m obtain d where "deref s u = ODict d" "m = ODict (ddel d (KStr ''depends''))"
    by (cases "deref s u") auto
  moreover have "u < length (store s)" using m by (auto simp: deref_def split: if_splits)
  ultimately show ?thesis
    using s' by (simp add: deref_set_msg has_depends_def dhas_def)
qed

text \<open>
  The loop over the unblocked messages, for two bodies that agree below a number of blocked
  messages: it does the same with both, and does not increase that number.
\<close>

definition agree_below :: "nat \<Rightarrow> (nat \<Rightarrow> (broker, unit) act) \<Rightarrow> (nat \<Rightarrow> (broker, unit) act) \<Rightarrow> bool" where
  "agree_below b f g \<longleftrightarrow> (\<forall>u s. nblocked s < b \<longrightarrow> has_depends (deref s u) = Inr None \<longrightarrow>
     f u s = g u s \<and> norec (snd (f u s)) \<and> nblocked (fst (f u s)) \<le> nblocked s)"

lemma unblock_one:
  assumes "agree_below b f g" "nblocked s \<le> b"
    and "sbind (remove_blocked k u) (\<lambda>_. sbind (pop_depends u) (\<lambda>_. f u)) s = (s', r)"
  shows "sbind (remove_blocked k u) (\<lambda>_. sbind (pop_depends u) (\<lambda>_. g u)) s = (s', r)
           \<and> norec r \<and> nblocked s' \<le> nblocked s"
proof -
  obtain s1 r1 where rm: "remove_blocked k u s = (s1, r1)" by fastforce
  obtain s2 r2 where pop: "pop_depends u s1 = (s2, r2)" by fastforce
  show ?thesis
  proof (cases "\<exists>e. r1 = Inl e \<or> r2 = Inl e")
    case True
    with remove_blocked_less [OF rm] tameD [OF tame_pop pop] assms(3) rm pop show ?thesis
      by (auto simp: sbind_def)
  next
    case False
    then obtain "r1 = Inr ()" "r2 = Inr ()" by (cases r1; cases r2) auto
    with remove_blocked_less [OF rm] tameD [OF tame_pop pop] pop_depends_none [of u s1 s2] pop assms(2)
    have "nblocked s2 < b" "nblocked s2 \<le> nblocked s" "has_depends (deref s2 u) = Inr None" by auto
    with assms(1) assms(3) rm pop \<open>r1 = Inr ()\<close> \<open>r2 = Inr ()\<close> show ?thesis
      by (fastforce simp: sbind_def agree_below_def)
  qed
qed

lemma unblock_all:
  assumes "agree_below b f g" "nblocked s \<le> b"
    and "sfor us (\<lambda>u. sbind (remove_blocked k u) (\<lambda>_. sbind (pop_depends u) (\<lambda>_. f u))) s = (s', r)"
  shows "sfor us (\<lambda>u. sbind (remove_blocked k u) (\<lambda>_. sbind (pop_depends u) (\<lambda>_. g u))) s = (s', r)
           \<and> norec r \<and> nblocked s' \<le> nblocked s"
  using assms(2,3)
proof (induction us arbitrary: s)
  case Nil
  then show ?case by auto
next
  case (Cons u us)
  obtain s1 r1 where one: "sbind (remove_blocked k u) (\<lambda>_. sbind (pop_depends u) (\<lambda>_. f u)) s = (s1, r1)"
    by fastforce
  note step = unblock_one [OF assms(1) Cons.prems(1) one]
  show ?case
  proof (cases r1)
    case (Inl e)
    with one step Cons.prems(2) show ?thesis by (auto simp: sbind_Inl)
  next
    case (Inr x)
    with one Cons.prems(2)
    have "sfor us (\<lambda>u. sbind (remove_blocked k u) (\<lambda>_. sbind (pop_depends u) (\<lambda>_. f u))) s1 = (s', r)"
      by (simp add: sbind_Inr)
    from Cons.IH [OF _ this] step Cons.prems(1) Inr show ?thesis by (auto simp: sbind_Inr)
  qed
qed

lemma resolve_agrees:
  assumes "agree_below b f g" "nblocked s \<le> b" and "resolve_dependencies f m s = (s', r)"
  shows "resolve_dependencies g m s = (s', r) \<and> norec r \<and> nblocked s' \<le> nblocked s"
proof (cases "rbind (obj_get m ''class'') key_of")
  case (Inl e)
  moreover have "norec (rbind (obj_get m ''class'') key_of)" by (simp add: norec_rbind)
  ultimately show ?thesis using assms(3) by (auto simp: resolve_dependencies_def)
next
  case (Inr k)
  show ?thesis
  proof (cases "dget (blocked_messages s) k")
    case None
    with Inr assms(3) show ?thesis by (auto simp: resolve_dependencies_def)
  next
    case (Some l)
    obtain s1 r1 where t: "try_unblock m l s = (s1, r1)" by fastforce
    note tame = tameD [OF tame_try_unblock t]
    show ?thesis
    proof (cases r1)
      case (Inl e)
      with Some Inr \<open>rbind _ _ = Inr k\<close> t tame assms(3) show ?thesis
        by (auto simp: resolve_dependencies_def sbind_Inl)
    next
      case (Inr us)
      with Some \<open>rbind _ _ = Inr k\<close> t assms(3)
      have "sfor us (\<lambda>u. sbind (remove_blocked k u) (\<lambda>_. sbind (pop_depends u) (\<lambda>_. f u))) s1 = (s', r)"
        by (simp add: resolve_dependencies_def sbind_Inr [of "try_unblock m l"])
      from unblock_all [OF assms(1) _ this] tame assms(2) Inr Some \<open>rbind _ _ = Inr k\<close> t
      show ?thesis by (auto simp: resolve_dependencies_def sbind_Inr [of "try_unblock m l"])
    qed
  qed
qed

lemma block_on_norec: "norec (snd (block_on r m d s))"
proof -
  have add: "norec (snd (add_blocked r c s))" for c s
    using norec_objects(1) [of c] by (cases "key_of c") (simp_all add: add_blocked_def)
  have "norec (snd (sfor cs (add_blocked r) s))" for cs s
  proof (induction cs arbitrary: s)
    case (Cons c cs)
    obtain s1 r1 where "add_blocked r c s = (s1, r1)" by fastforce
    with Cons add [of c s] show ?case by (cases r1) (simp_all add: sbind_def)
  qed simp
  note loop = this
  show ?thesis
  proof (cases "obj_iter d")
    case (Inl e)
    with norec_objects(4) [of d] show ?thesis by (simp add: block_on_def)
  next
    case (Inr cs)
    obtain s1 r1 where "sfor cs (add_blocked r) s = (s1, r1)" by fastforce
    with loop [of cs s] Inr norec_objects(2) [of m "''class''"] show ?thesis
      by (cases r1; cases "obj_get m ''class''") (simp_all add: block_on_def sbind_def)
  qed
qed

lemma forward_n_agrees:
  "nblocked s < n \<Longrightarrow> nblocked s < n' \<Longrightarrow>
     forward_n n r s = forward_n n' r s \<and> norec (snd (forward_n n r s))
     \<and> (has_depends (deref s r) = Inr None \<longrightarrow> nblocked (fst (forward_n n r s)) \<le> nblocked s)"
proof (induction n arbitrary: n' r s)
  case 0
  then show ?case by simp
next
  case (Suc a)
  then obtain b where n': "n' = Suc b" by (cases n') auto
  have agree: "agree_below (min a b) (forward_n a) (forward_n b)"
    unfolding agree_below_def using Suc.IH by auto
  have le: "nblocked s \<le> min a b" using Suc.prems n' by simp
  have nh: "norec (has_depends (deref s r))" by (auto simp: has_depends_def intro!: norec_rbind)
  consider (raise) e where "has_depends (deref s r) = Inl e"
    | (block) d where "has_depends (deref s r) = Inr (Some d)"
    | (free) "has_depends (deref s r) = Inr None"
    by (metis sum.exhaust_sel option.exhaust)
  then show ?case
  proof cases
    case raise
    with nh n' show ?thesis by (simp add: forward_n.simps(2))
  next
    case block
    with n' block_on_norec show ?thesis by (simp add: forward_n.simps(2))
  next
    case free
    obtain s1 r1 where res: "resolve_dependencies (forward_n a) (deref s r) s = (s1, r1)" by fastforce
    obtain s2 r2 where del: "deliver r s1 = (s2, r2)" by fastforce
    from resolve_agrees [OF agree le res] tameD [OF tame_deliver del] res del free n'
    show ?thesis by (cases r1) (simp_all add: forward_n.simps(2) sbind_def)
  qed
qed

text \<open>
  C8: The router's recursion ends. \<open>forward\<close> never runs out of depth, whatever the state and the
  message: any bound above the number of blocked messages gives the same state and result,
  and that result is not the exhausted recursion.
\<close>

theorem forward_terminates:
  "forward_n (Suc (nblocked s + k)) r s = forward r s \<and> snd (forward r s) \<noteq> Inl RecursionError"
  using forward_n_agrees [of s "Suc (nblocked s + k)" "Suc (nblocked s)" r]
    forward_n_agrees [of s "Suc (nblocked s)" "Suc (nblocked s)" r]
  by (simp add: forward_def norec_def)

section \<open>The order of a queue\<close>

text \<open>
  Arrivals at one queue and requests for a task from it, interleaved; the answers of the requests,
  None where the worker is told that there is no task.
\<close>

fun queue_ops :: "pyobj \<Rightarrow> pyobj option list \<Rightarrow> (broker, pyobj option list) act" where
  "queue_ops qn [] = sret []"
| "queue_ops qn (Some m # ops) =
     sbind (alloc m) (\<lambda>r. sbind (enqueue_with_priority qn r) (\<lambda>_. queue_ops qn ops))"
| "queue_ops qn (None # ops) =
     sbind (dequeue_task qn) (\<lambda>m. sbind (queue_ops qn ops) (\<lambda>ms.
       sret ((if obj_true m then Some m else None) # ms)))"

definition arrivals :: "pyobj option list \<Rightarrow> pyobj list" where
  "arrivals ops = map the (filter (\<lambda>x. x \<noteq> None) ops)"

definition obj_priority :: "pyobj \<Rightarrow> int" where
  "obj_priority m = projr (msg_priority m)"

text \<open>The queue as messages: the abstract value of the broker's queue.\<close>

definition queue_msgs :: "pkey \<Rightarrow> broker \<Rightarrow> pyobj list" where
  "queue_msgs k s = map (deref s) (case dget (queues s) k of None \<Rightarrow> [] | Some q \<Rightarrow> q)"

lemma map_takeWhile_dropWhile:
  "map f (takeWhile (\<lambda>x. P (f x)) xs) = takeWhile P (map f xs)"
  "map f (dropWhile (\<lambda>x. P (f x)) xs) = dropWhile P (map f xs)"
  by (induction xs) auto

lemma map_queue_insert:
  "map f (queue_insert (\<lambda>x. prio (f x)) r q) = queue_insert prio (f r) (map f q)"
  by (simp add: queue_insert_split map_takeWhile_dropWhile [where P = "\<lambda>y. prio (f r) \<le> prio y"])

lemma queue_ok_map: "queue_ok s q \<Longrightarrow> prio_sorted obj_priority (map (deref s) q)"
  by (simp add: queue_ok_def prio_sorted_def sorted_wrt_map mprio_def obj_priority_def)

lemma binv_append:
  assumes "binv s"
  shows "binv (s\<lparr>store := store s @ [m]\<rparr>)"
  using alloc_ok [of "\<lambda>r. sret ()" m] assms yields_sret [of "\<lambda>_. True" "()"]
  by (simp add: yields_def alloc_def sbind_def)

text \<open>
  The urgency of a message, as a table of its own: what is nearer to the end of a tuning task comes
  first.
\<close>

definition urgency :: "pyobj \<Rightarrow> int" where
  "urgency m =
     (case obj_get m ''class'' of
        Inr (OStr c) \<Rightarrow>
          if c = ''postprocess'' then 4 else if c = ''probe'' then 3
          else if c = ''tune_hsaco'' then 2 else if c = ''preprocess'' then 1 else 0
      | _ \<Rightarrow> 0)"

lemma obj_priority_urgency: "is_ok (msg_priority m) \<Longrightarrow> obj_priority m = urgency m"
proof (cases "obj_get m ''class''")
  case (Inr c)
  assume "is_ok (msg_priority m)"
  with Inr show ?thesis
    by (cases c)
      (simp_all add: obj_priority_def msg_priority_def get_priority_def urgency_def priorities_def)
qed (simp add: msg_priority_def)

lemma queue_urgency:
  assumes "binv s" "dget (queues s) k = Some q"
  shows "list_all (\<lambda>m. obj_priority m = urgency m) (queue_msgs k s)"
  using binv_queue [OF assms] assms(2) obj_priority_urgency by (auto simp: queue_msgs_def queue_ok_def list_all_iff)

lemma queue_insert_cong:
  "f m = g m \<Longrightarrow> list_all (\<lambda>x. f x = g x) q \<Longrightarrow> queue_insert f m q = queue_insert g m q"
  unfolding queue_insert_split by (auto simp: list_all_iff intro!: arg_cong2 [where f = append] takeWhile_cong dropWhile_cong)

lemma queue_msgs_sorted:
  assumes "binv s" "dget (queues s) k = Some q"
  shows "prio_sorted urgency (queue_msgs k s)"
proof -
  have "prio_sorted obj_priority (queue_msgs k s)"
    using binv_queue [OF assms] assms(2) queue_ok_map by (simp add: queue_msgs_def)
  moreover have "\<And>x. x \<in> set (queue_msgs k s) \<Longrightarrow> obj_priority x = urgency x"
    using queue_urgency [OF assms] by (simp add: list_all_iff)
  ultimately show ?thesis unfolding prio_sorted_def by (auto intro: sorted_wrt_mono_rel [rotated])
qed

text \<open>One arrival refines the abstract insertion, one request the abstract removal.\<close>

lemma enqueue_refines:
  assumes I: "binv s" and k: "key_of qn = Inr k" "dhas (queues s) k" and m: "is_ok (msg_priority m)"
  shows "\<exists>s'. sbind (alloc m) (enqueue_with_priority qn) s = (s', Inr ()) \<and> binv s'
           \<and> dhas (queues s') k
           \<and> queue_msgs k s' = queue_insert urgency m (queue_msgs k s)"
proof -
  let ?s = "s\<lparr>store := store s @ [m]\<rparr>" and ?r = "length (store s)"
  obtain q where q: "dget (queues s) k = Some q" using dhas_Some [OF k(2)] by blast
  have I': "binv ?s" using I by (rule binv_append)
  have ok: "queue_ok ?s q" using binv_queue [OF I'] q by simp
  have r: "deref ?s ?r = m" by (simp add: deref_def)
  have old: "map (deref ?s) q = map (deref s) q"
    using binv_queue [OF I q] by (auto simp: queue_ok_def list_all_iff deref_def nth_append)
  have "enqueue_with_priority qn ?r ?s
      = (?s\<lparr>queues := dset (queues ?s) k (queue_insert (mprio ?s) ?r q)\<rparr>, Inr ())"
    using enqueue_known [OF ok _ k(1)] m r q by simp
  moreover have "mprio ?s = (\<lambda>x. obj_priority (deref ?s x))"
    by (simp add: mprio_def obj_priority_def fun_eq_iff)
  moreover have "binv (fst (enqueue_with_priority qn ?r ?s))"
    using enqueue_ok [of ?r "Suc ?r" qn] I' by (simp add: yields_def binv_at_def)
  ultimately show ?thesis
    using q r arg_cong [OF old, of "queue_insert obj_priority m"]
      map_queue_insert [of "deref ?s" obj_priority ?r q]
      queue_insert_cong [OF obj_priority_urgency [OF m] queue_urgency [OF I q]]
    by (simp add: alloc_def sbind_def queue_msgs_def)
qed

lemma dequeue_refines:
  assumes I: "binv s" and k: "key_of qn = Inr k" "dhas (queues s) k"
  shows "\<exists>s' m. dequeue_task qn s = (s', Inr m) \<and> binv s' \<and> dhas (queues s') k
           \<and> (if obj_true m then queue_pop (queue_msgs k s) = Some (m, queue_msgs k s')
               else queue_pop (queue_msgs k s) = None \<and> s' = s)"
proof -
  obtain q where q: "dget (queues s) k = Some q" using dhas_Some [OF k(2)] by blast
  show ?thesis
  proof (cases q)
    case Nil
    with q k I show ?thesis by (simp add: dequeue_task_def queue_msgs_def)
  next
    case (Cons r q')
    have "is_ok (msg_priority (deref s r))"
      using binv_queue [OF I q] Cons by (simp add: queue_ok_def)
    then obtain c where c: "obj_get (deref s r) ''class'' = Inr c"
      by (auto simp: is_ok_iff msg_priority_def rbind_Inr_iff)
    then obtain d where "deref s r = ODict d" "dget d (KStr ''class'') = Some c"
      by (auto simp: obj_get_Inr)
    then have t: "obj_true (deref s r)" by (cases d) auto
    have "binv (fst (dequeue_task qn s))"
      using dequeue_ok [of "length (store s)" qn] I by (simp add: yields_def binv_at_def)
    with q k Cons c t show ?thesis by (simp add: dequeue_task_def queue_msgs_def queue_pop_def)
  qed
qed

lemma queue_ops_refines:
  "binv s \<Longrightarrow> key_of qn = Inr k \<Longrightarrow> dhas (queues s) k \<Longrightarrow> list_all (\<lambda>m. is_ok (msg_priority m)) (arrivals ops)
   \<Longrightarrow> \<exists>s' out. queue_ops qn ops s = (s', Inr out) \<and> binv s'
     \<and> bq.run_queue urgency ops (queue_msgs k s) = (queue_msgs k s', out)"
proof (induction ops arbitrary: s)
  case Nil
  then show ?case by simp
next
  case (Cons op ops)
  show ?case
  proof (cases op)
    case (Some m)
    with Cons.prems(4) have m: "is_ok (msg_priority m)" by (simp add: arrivals_def)
    from enqueue_refines [OF Cons.prems(1-3) m] obtain s1 where
      s1: "sbind (alloc m) (enqueue_with_priority qn) s = (s1, Inr ())" "binv s1" "dhas (queues s1) k"
        "queue_msgs k s1 = queue_insert urgency m (queue_msgs k s)" by blast
    from s1(1) have "queue_ops qn (op # ops) s = queue_ops qn ops s1"
      using Some by (auto simp: sbind_def alloc_def)
    with Cons.IH [OF s1(2) Cons.prems(2) s1(3)] Cons.prems(4) Some s1(4) show ?thesis
      by (simp add: arrivals_def)
  next
    case None
    from dequeue_refines [OF Cons.prems(1-3)] obtain s1 m where
      s1: "dequeue_task qn s = (s1, Inr m)" "binv s1" "dhas (queues s1) k"
        "if obj_true m then queue_pop (queue_msgs k s) = Some (m, queue_msgs k s1)
         else queue_pop (queue_msgs k s) = None \<and> s1 = s" by blast
    from Cons.IH [OF s1(2) Cons.prems(2) s1(3)] Cons.prems(4) None obtain s' out where
      "queue_ops qn ops s1 = (s', Inr out)" "binv s'"
      "bq.run_queue urgency ops (queue_msgs k s1) = (queue_msgs k s', out)"
      by (auto simp: arrivals_def)
    with s1 None show ?thesis
      by (cases "obj_true m") (simp_all add: sbind_def del: queue_pop_simps)
  qed
qed

text \<open>
  C7: A queue hands out the most urgent message, and of these the one that arrived first. For any
  interleaving of arriving messages and requests, every request is answered as by the
  specification: with the oldest of the waiting messages of the highest urgency, and with no task
  only if none waits; the queue that is left holds the messages that still wait, sorted by urgency
  and, within one, by arrival.
\<close>

theorem queue_order:
  assumes "binv s" "key_of qn = Inr k" "dhas (queues s) k"
    and "list_all (\<lambda>m. is_ok (msg_priority m)) (arrivals ops)"
  shows "\<exists>s' waiting replies. queue_ops qn ops s = (s', Inr replies)
    \<and> serve urgency ops (queue_msgs k s) = (waiting, replies)
    \<and> queue_msgs k s' = sort_key (\<lambda>m. - urgency m) waiting"
proof -
  obtain q where "dget (queues s) k = Some q" using dhas_Some [OF assms(3)] by blast
  note sorted = queue_msgs_sorted [OF assms(1) this]
  then have "queue_msgs k s = sort_key (\<lambda>m. - urgency m) (queue_msgs k s)"
    by (intro by_priority_eq [symmetric]) (simp_all add: prio_sorted_def)
  moreover from queue_ops_refines [OF assms] obtain s' replies where
    run: "queue_ops qn ops s = (s', Inr replies)"
      "bq.run_queue urgency ops (queue_msgs k s) = (queue_msgs k s', replies)" by blast
  ultimately show ?thesis using bq.run_queue_serves [OF sorted _ run(2)] run(1) by blast
qed

definition ex_task :: "string \<Rightarrow> int \<Rightarrow> pyobj" where
  "ex_task c i = mk_dict [(''class'', OStr c), (''task_id'', OInt i)]"

theorem queue_order_witness:
  "\<exists>s'. queue_ops (OStr ''gpu_queue'')
       [None, Some (ex_task ''tune_hsaco'' 1), Some (ex_task ''probe'' 2), Some (ex_task ''tune_hsaco'' 3), None, None]
       new_broker = (s', Inr [None, Some (ex_task ''probe'' 2), Some (ex_task ''tune_hsaco'' 1)])
    \<and> queue_msgs (KStr ''gpu_queue'') s' = [ex_task ''tune_hsaco'' 3]"
proof -
  let ?ops = "[None, Some (ex_task ''tune_hsaco'' 1), Some (ex_task ''probe'' 2), Some (ex_task ''tune_hsaco'' 3), None, None]"
  have "list_all (\<lambda>m. is_ok (msg_priority m)) (arrivals ?ops)"
    "serve urgency ?ops (queue_msgs (KStr ''gpu_queue'') new_broker)
       = ([ex_task ''tune_hsaco'' 3], [None, Some (ex_task ''probe'' 2), Some (ex_task ''tune_hsaco'' 1)])"
    "sort_key (\<lambda>m. - urgency m) [ex_task ''tune_hsaco'' 3] = [ex_task ''tune_hsaco'' 3]"
    "dhas (queues new_broker) (KStr ''gpu_queue'')" "key_of (OStr ''gpu_queue'') = Inr (KStr ''gpu_queue'')"
    by code_simp+
  with queue_order [OF binv_new, of "OStr ''gpu_queue''" "KStr ''gpu_queue''" ?ops] show ?thesis
    by (metis Pair_inject)
qed

section \<open>Acknowledgements\<close>

definition outgoing :: "nat \<Rightarrow> broker \<Rightarrow> string" where
  "outgoing fd s = (case dget (workers s) fd of None \<Rightarrow> [] | Some w \<Rightarrow> send_buffer (w_sock w))"

lemma find_dset:
  "dget d k = Some v \<Longrightarrow> P (k, v) = P (k, v') \<Longrightarrow>
     map_option fst (find P (dset d k v')) = map_option fst (find P d)"
  by (induction d) auto

lemma send_to_worker_frame:
  assumes "dget (workers s) fd = Some w" "frame dumps m = Inr f"
  shows "\<exists>s'. send_to_worker fd m s = (s', Inr ()) \<and> pending_acks s' = pending_acks s
    \<and> (\<forall>x. outgoing x s' = outgoing x s @ (if x = fd then f else []))
    \<and> (\<forall>wid. find_worker_by_id wid s' = find_worker_by_id wid s)"
proof -
  have q: "queue_message dumps m (w_sock w) = Inr ((w_sock w)\<lparr>send_buffer := send_buffer (w_sock w) @ f\<rparr>)"
    using assms(2) by (auto simp: queue_message_def frame_def rmap_Inr_iff Let_def)
  have "map_option fst (find (\<lambda>(fd, w). obj_eq (worker_id (w_sock w)) wid)
      (dset (workers s) fd (w\<lparr>w_sock := (w_sock w)\<lparr>send_buffer := send_buffer (w_sock w) @ f\<rparr>\<rparr>)))
    = find_worker_by_id wid s" for wid
    unfolding find_worker_by_id_def by (rule find_dset [OF assms(1)]) simp
  with assms(1) q show ?thesis
    by (simp add: send_to_worker_def Let_def outgoing_def find_worker_by_id_def)
qed

lemma find_worker_connected:
  "find_worker_by_id wid s = Some fd \<Longrightarrow> \<exists>w. dget (workers s) fd = Some w"
  by (auto simp: find_worker_by_id_def find_Some_iff dest!: nth_mem intro: weak_map_of_SomeI)

lemma send_acks:
  assumes "frame dumps m = Inr f"
  shows "\<exists>s'. sfor ids (\<lambda>wid. sbind (sget (find_worker_by_id wid)) (\<lambda>fd.
           case fd of None \<Rightarrow> sret () | Some fd \<Rightarrow> send_to_worker fd m)) s = (s', Inr ())
    \<and> pending_acks s' = pending_acks s
    \<and> (\<forall>x. outgoing x s' = outgoing x s
          @ concat (replicate (length (filter (\<lambda>wid. find_worker_by_id wid s = Some x) ids)) f))"
proof (induction ids arbitrary: s)
  case Nil
  then show ?case by simp
next
  case (Cons wid ids)
  show ?case
  proof (cases "find_worker_by_id wid s")
    case None
    with Cons.IH [of s] show ?thesis by (simp add: sbind_def)
  next
    case (Some fd)
    from find_worker_connected [OF Some] send_to_worker_frame [OF _ assms, of s fd] obtain s1 where
      s1: "send_to_worker fd m s = (s1, Inr ())" "pending_acks s1 = pending_acks s"
        "\<forall>x. outgoing x s1 = outgoing x s @ (if x = fd then f else [])"
        "\<forall>wid. find_worker_by_id wid s1 = find_worker_by_id wid s" by blast
    with Cons.IH [of s1] Some show ?thesis by (auto simp: sbind_def)
  qed
qed


definition ex_reader :: broker where
  "ex_reader = new_broker
     \<lparr>workers := [(7, \<lparr>w_sock = new_bsock (OStr ''reader''), w_unread = []\<rparr>)],
      epoll_out := [(7, False)], pending_acks := [(KInt 5, [OStr ''reader'', OStr ''gone''])]\<rparr>"

definition ex_nak :: pyobj where
  "ex_nak = mk_dict [(''class'', OStr ''tune_kernel_ack''), (''task_id'', OInt 5), (''negative'', OBool True)]"

lemma ack_frame_ok: "is_ok (frame dumps (ack_reply (OInt 5)))"
  by code_simp


section \<open>The teardown of a graceful shutdown\<close>

lemma teardown_workers: "preserves (\<lambda>s. workers s = W) teardown_blocked_messages"
proof -
  have enq: "preserves (\<lambda>s. workers s = W) (enqueue_with_priority q r)" for q r
    by (rule yieldsI) (auto simp: enqueue_with_priority_def split: sum.splits option.splits)
  have new: "preserves (\<lambda>s. workers s = W) (alloc m)" for m
    by (rule yieldsI) (simp add: alloc_def)
  have "preserves (\<lambda>s. workers s = W) (case p of (cancel, tmpdir) \<Rightarrow>
      sbind (supd (\<lambda>s. s\<lparr>removed_dirs := removed_dirs s
                                 @ (case tmpdir of None \<Rightarrow> [] | Some d \<Rightarrow> [d])\<rparr>)) (\<lambda>_.
      sbind (slift (obj_get cancel ''target_queue'')) (\<lambda>target_queue.
      sbind (alloc cancel) (enqueue_with_priority target_queue))))" for p
    by (cases p; simp only: prod.case;
        intro yields_sbind [OF preserves_supd] yields_sbind [OF yields_slift] yields_sbind [OF new] enq;
        simp)
  note cancelled = yields_sbind [OF yields_slift this]
  have "preserves (\<lambda>s. workers s = W) (teardown_one r)" for r
    unfolding teardown_one_def
    by (intro yields_sbind [OF yields_sget] yields_sbind [OF yields_slift])
      (simp only: yields_sret cancelled split: if_split, simp)
  then show ?thesis
    unfolding teardown_blocked_messages_def
    by (intro yields_sbind [OF yields_sget] yields_sbind [OF preserves_sfor] preserves_supd) simp_all
qed

text \<open>
  What the teardown does, nobody sees. Whatever the loop has served, the connections and their
  send buffers after \<open>run\<close> are those of the moment the loop ended: the cancellations that the
  teardown queues for the CPU workers are never sent to one.
\<close>

theorem teardown_unsent:
  "workers (fst (broker_run hs s)) = workers (run_loop hs (s\<lparr>running := True\<rparr>))"
  using teardown_workers [of "workers (run_loop hs (s\<lparr>running := True\<rparr>))"]
  by (simp add: broker_run_def Let_def yields_def)

end
