(* ===== verification/Workers.thy ===== *)
theory Workers
  imports Broker
begin

text \<open>
  \<open>v3python/tune/localq/generic_worker.py\<close> with the workers of \<open>gpu_worker_socket.py\<close> and
  \<open>cpu_worker.py\<close>, and \<open>pg_reader_worker.py\<close>: the clients of the broker. A worker's connection is
  what it has sent and whether its next sends succeed; what reaches it is a list of wake-ups.
  Sleeping and logging are left out.
\<close>

section \<open>A worker\<close>

text \<open>
  \<open>gw_fate\<close> says of the next sends whether they succeed (all, when the list is used up); a send
  that fails raises an OSError. The handlers run in a world of their own.
\<close>

record 'w gworker =
  gw_running :: bool
  gw_sent :: "pyobj list"
  gw_fate :: "bool list"
  gw_world :: 'w

record 'w worker_cfg =
  wc_id :: string
  wc_queue :: string
  wc_handlers :: "(string \<times> (pyobj \<Rightarrow> ('w, pyobj) act)) list"
  wc_mark_failed :: "(pyobj \<Rightarrow> pyobj \<Rightarrow> string \<Rightarrow> ('w, unit) act) option"

definition gw_send :: "pyobj \<Rightarrow> ('w gworker, unit) act" where
  "gw_send m s =
     (case gw_fate s of
        [] \<Rightarrow> (s\<lparr>gw_sent := gw_sent s @ [m]\<rparr>, Inr ())
      | ok # fate \<Rightarrow>
          (if ok then (s\<lparr>gw_fate := fate, gw_sent := gw_sent s @ [m]\<rparr>, Inr ())
           else (s\<lparr>gw_fate := fate\<rparr>, Inl OSError)))"

definition on_world :: "('w, 'a) act \<Rightarrow> ('w gworker, 'a) act" where
  "on_world m s = (let (w, r) = m (gw_world s) in (s\<lparr>gw_world := w\<rparr>, r))"

definition registry :: "'w worker_cfg \<Rightarrow> (string, pyobj \<Rightarrow> ('w, pyobj) act) dict" where
  "registry cfg = dict_of (wc_handlers cfg)"

definition forward_msg :: "pyobj \<Rightarrow> pyobj" where
  "forward_msg m = mk_dict [(''type'', OStr ''forward''), (''message'', m)]"

definition get_task_msg :: "'w worker_cfg \<Rightarrow> pyobj" where
  "get_task_msg cfg =
     mk_dict [(''type'', OStr ''get_task''), (''queue_name'', OStr (wc_queue cfg)),
              (''worker_id'', OStr (wc_id cfg))]"

text \<open>The messages a handler's result forwards, and the loop that does it.\<close>

definition forwarded :: "pyobj \<Rightarrow> pyobj list" where
  "forwarded result =
     (case result of OList rs \<Rightarrow> filter obj_true rs | _ \<Rightarrow> if obj_true result then [result] else [])"

definition forward_results :: "pyobj \<Rightarrow> ('w gworker, unit) act" where
  "forward_results result =
     (case result of
        OList rs \<Rightarrow> sfor rs (\<lambda>r. if obj_true r then gw_send (forward_msg r) else sret ())
      | _ \<Rightarrow> if obj_true result then gw_send (forward_msg result) else sret ())"

text \<open>
  What is done about an exception of the handler or of the forwarding: with a database and a
  message that starts a task, the task is marked as failed; an exception of that is ignored.
  \<open>err_text\<close> is the type and text of an exception.
\<close>

definition starts_task :: "pyobj \<Rightarrow> bool" where
  "starts_task msg_class =
     list_ex (\<lambda>c. obj_eq msg_class (OStr c)) [''tune_kernel'', ''preprocess'', ''probe'']"

definition handle_failure ::
  "(pyerr \<Rightarrow> string) \<Rightarrow> 'w worker_cfg \<Rightarrow> pyobj \<Rightarrow> pyobj \<Rightarrow> pyerr \<Rightarrow> ('w gworker, unit) act" where
  "handle_failure err_text cfg msg_class message e =
     sbind (slift (obj_get_or message ''task_id'' ONone)) (\<lambda>task_id.
       case wc_mark_failed cfg of
         None \<Rightarrow> sret ()
       | Some mark \<Rightarrow>
           (if starts_task msg_class \<and> obj_true task_id then
              (\<lambda>s. (fst (sbind (slift (rbind (obj_get_or message ''task_config'' (ODict []))
                                     (\<lambda>c. obj_get_or c ''arch'' ONone))) (\<lambda>arch.
                         on_world (mark task_id arch
                           ((case msg_class of OStr c \<Rightarrow> c | _ \<Rightarrow> []) @ '' failed: '' @ err_text e))) s),
                    Inr ()))
            else sret ()))"

definition handle_task ::
  "(pyerr \<Rightarrow> string) \<Rightarrow> 'w worker_cfg \<Rightarrow> pyobj \<Rightarrow> ('w gworker, unit) act" where
  "handle_task err_text cfg message =
     sbind (slift (obj_get message ''class'')) (\<lambda>msg_class.
     sbind (slift (key_of msg_class)) (\<lambda>k.
       case (case k of KStr c \<Rightarrow> dget (registry cfg) c | _ \<Rightarrow> None) of
         None \<Rightarrow> sret ()
       | Some handler \<Rightarrow>
           (\<lambda>s. case sbind (slift (obj_get_or message ''task_id'' ONone)) (\<lambda>_.
                       sbind (on_world (handler message)) forward_results) s of
                  (s', Inr _) \<Rightarrow> (s', Inr ())
                | (s', Inl e) \<Rightarrow> handle_failure err_text cfg msg_class message e s')))"

text \<open>
  What ends the wait for the socket: a signal, after which the worker still runs or not, or the
  outcome of \<open>recv_message\<close> and whether the worker still runs once it has dealt with it.
\<close>

datatype wakeup = Signal bool | Reply "pyobj res" bool

definition is_os_error :: "pyerr \<Rightarrow> bool" where
  "is_os_error e \<longleftrightarrow> e = OSError \<or> e = ConnectionError"

text \<open>The reaction to a reply; True leaves the loop.\<close>

definition react ::
  "(pyerr \<Rightarrow> string) \<Rightarrow> 'w worker_cfg \<Rightarrow> pyobj res \<Rightarrow> ('w gworker, bool) act" where
  "react err_text cfg received =
     sbind (slift received) (\<lambda>task.
       if task = ONone then sret True
       else sbind (slift (obj_get task ''type'')) (\<lambda>t.
              if obj_eq t (OStr ''no_task'') then sret False
              else if obj_eq t (OStr ''shutdown'') then sret True
              else if obj_eq t (OStr ''task'') then
                sbind (slift (obj_get task ''message'')) (\<lambda>message.
                sbind (slift (obj_get message ''class'')) (\<lambda>_.
                sbind (slift (obj_get_or message ''task_id'' ONone)) (\<lambda>_.
                sbind (handle_task err_text cfg message) (\<lambda>_. sret False))))
              else sret False))"

text \<open>
  The loop of \<open>run\<close>: True if it has ended, False if it waits for the next wake-up. A failed send
  of the request leaves the loop, as any OSError does.
\<close>

fun worker_loop ::
  "(pyerr \<Rightarrow> string) \<Rightarrow> 'w worker_cfg \<Rightarrow> wakeup list \<Rightarrow> 'w gworker \<Rightarrow> 'w gworker \<times> bool" where
  "worker_loop err_text cfg ws s =
     (if \<not> gw_running s then (s, True)
      else case gw_send (get_task_msg cfg) s of
             (s, Inl _) \<Rightarrow> (s, True)
           | (s, Inr _) \<Rightarrow>
               (case ws of
                  [] \<Rightarrow> (s, False)
                | Signal b # ws \<Rightarrow>
                    (if b then worker_loop err_text cfg ws s else (s\<lparr>gw_running := False\<rparr>, True))
                | Reply received b # ws \<Rightarrow>
                    (case react err_text cfg received s of
                       (s, Inl e) \<Rightarrow>
                         (if is_os_error e then (s\<lparr>gw_running := b\<rparr>, True)
                          else worker_loop err_text cfg ws (s\<lparr>gw_running := b\<rparr>))
                     | (s, Inr stop) \<Rightarrow>
                         (if stop then (s\<lparr>gw_running := b\<rparr>, True)
                          else worker_loop err_text cfg ws (s\<lparr>gw_running := b\<rparr>)))))"

declare worker_loop.simps [simp del]

text \<open>
  Up to ten attempts to connect, and the exception of the last one; an attempt beyond the list
  of outcomes fails.
\<close>

fun connect_attempts :: "nat \<Rightarrow> unit res list \<Rightarrow> unit res" where
  "connect_attempts n [] = Inl OSError"
| "connect_attempts 0 (r # rs) = r"
| "connect_attempts (Suc n) (r # rs) = (case r of Inr _ \<Rightarrow> r | Inl _ \<Rightarrow> connect_attempts n rs)"

definition connect_to_broker :: "unit res list \<Rightarrow> unit res" where
  "connect_to_broker outcomes = connect_attempts 9 outcomes"

definition worker_run ::
  "(pyerr \<Rightarrow> string) \<Rightarrow> 'w worker_cfg \<Rightarrow> unit res list \<Rightarrow> wakeup list \<Rightarrow> 'w gworker \<Rightarrow> ('w gworker \<times> bool) res" where
  "worker_run err_text cfg attempts ws s =
     rmap (\<lambda>_. worker_loop err_text cfg ws (s\<lparr>gw_running := True\<rparr>)) (connect_to_broker attempts)"

section \<open>The GPU and the CPU worker\<close>

definition pure_handler :: "(pyobj \<Rightarrow> pyobj res) \<Rightarrow> pyobj \<Rightarrow> ('w, pyobj) act" where
  "pure_handler h m = slift (h m)"

definition gpu_worker :: "(pyobj \<Rightarrow> exaid) \<Rightarrow> int \<Rightarrow> 'w worker_cfg" where
  "gpu_worker env gpu_id =
     \<lparr>wc_id = ''gpu-'' @ show_int gpu_id, wc_queue = ''gpu_queue'',
      wc_handlers =
        [(''tune_kernel'', pure_handler tune_kernel_handle),
         (''preprocess'', pure_handler (preprocess_handle env)),
         (''probe'', pure_handler (probe_handle env)),
         (''tune_hsaco'', pure_handler (tune_handle TuneHsaco env)),
         (''tune_backend'', pure_handler (tune_handle TuneBackend env))],
      wc_mark_failed = None\<rparr>"

definition cpu_worker :: "'db db_ops \<Rightarrow> string \<Rightarrow> 'db world worker_cfg" where
  "cpu_worker ops wid =
     \<lparr>wc_id = wid, wc_queue = ''cpu_queue'',
      wc_handlers =
        [(''hsaco_result'', write_hsaco_handle ops),
         (''backend_result'', write_backend_handle ops),
         (''postprocess'', postprocess_handle ops),
         (''graceful_cancel_running_task'', graceful_cancel_handle ops),
         (''mark_task_failed'', mark_task_failed_handle ops)],
      wc_mark_failed = Some (\<lambda>task_id arch err. on_db (mark_failed ops task_id arch (OStr err)))\<rparr>"

section \<open>What a worker does with a task\<close>

lemma sfor_sends:
  "gw_fate s = [] \<Longrightarrow>
     sfor rs (\<lambda>r. if obj_true r then gw_send (forward_msg r) else sret ()) s
       = (s\<lparr>gw_sent := gw_sent s @ map forward_msg (filter obj_true rs)\<rparr>, Inr ())"
  by (induction rs arbitrary: s) (auto simp: gw_send_def sbind_def)

lemma forward_results_sent:
  "gw_fate s = [] \<Longrightarrow>
     forward_results result s = (s\<lparr>gw_sent := gw_sent s @ map forward_msg (forwarded result)\<rparr>, Inr ())"
  by (cases result) (auto simp: forward_results_def forwarded_def sfor_sends gw_send_def)

lemma handle_failure_ok: "\<exists>s'. handle_failure err_text cfg c (ODict d) e s = (s', Inr ())"
  by (auto simp: handle_failure_def sbind_def split: option.splits)

lemma handle_task_ok:
  assumes "dget d (KStr ''class'') = Some (OStr c)"
  shows "\<exists>s'. handle_task err_text cfg (ODict d) s = (s', Inr ())"
proof (cases "dget (registry cfg) c")
  case None
  with assms show ?thesis by (simp add: handle_task_def)
next
  case (Some h)
  obtain s1 r where "sbind (slift (obj_get_or (ODict d) ''task_id'' ONone)) (\<lambda>_.
      sbind (on_world (h (ODict d))) forward_results) s = (s1, r)" by fastforce
  with assms Some handle_failure_ok show ?thesis
    by (cases r) (auto simp: handle_task_def)
qed

lemma react_task:
  assumes "dget d (KStr ''class'') = Some (OStr c)"
  shows "react err_text cfg (Inr (task_reply (ODict d))) s
           = sbind (handle_task err_text cfg (ODict d)) (\<lambda>_. sret False) s"
  using assms by (simp add: react_def task_reply_def mk_dict_distinct)

text \<open>
  C18: No task stops a worker. Whatever the handler of a task does, return or raise, and whether or
  not the connection and the database survive it: a reply with a message of any class is dealt
  with without an exception and the worker goes on to its next request.
\<close>

theorem worker_survives:
  "snd (react err_text cfg (Inr (task_reply (ODict (dset d (KStr ''class'') (OStr c))))) s) = Inr False"
proof -
  have c: "dget (dset d (KStr ''class'') (OStr c)) (KStr ''class'') = Some (OStr c)" by simp
  from handle_task_ok [OF c] obtain s' where
    "handle_task err_text cfg (ODict (dset d (KStr ''class'') (OStr c))) s = (s', Inr ())" by blast
  then show ?thesis by (simp only: react_task [OF c] sbind_Inr act_simps snd_conv)
qed

text \<open>
  What comes of a task. The messages the handler returned are forwarded, in order and without
  the empty ones; if it raised, nothing is forwarded, and only a worker with a database marks a
  task that was being started as failed. For a worker without one the task just disappears.
\<close>

theorem task_outcome:
  assumes "dget d (KStr ''class'') = Some (OStr c)" "dget (registry cfg) c = Some h" "gw_fate s = []"
  shows "fst (react err_text cfg (Inr (task_reply (ODict d))) s) =
    (let (w, r) = h (ODict d) (gw_world s); s = s\<lparr>gw_world := w\<rparr>;
         task_id = (case dget d (KStr ''task_id'') of None \<Rightarrow> ONone | Some t \<Rightarrow> t)
     in case r of
          Inr result \<Rightarrow> s\<lparr>gw_sent := gw_sent s @ map forward_msg (forwarded result)\<rparr>
        | Inl e \<Rightarrow>
            (case wc_mark_failed cfg of
               None \<Rightarrow> s
             | Some mark \<Rightarrow>
                 if c \<in> {''tune_kernel'', ''preprocess'', ''probe''} \<and> obj_true task_id
                 then (case rbind (obj_get_or (ODict d) ''task_config'' (ODict [])) (\<lambda>tc. obj_get_or tc ''arch'' ONone) of
                         Inl _ \<Rightarrow> s
                       | Inr arch \<Rightarrow> s\<lparr>gw_world := fst (mark task_id arch (c @ '' failed: '' @ err_text e) w)\<rparr>)
                 else s))"
proof -
  obtain w r where h: "h (ODict d) (gw_world s) = (w, r)" by fastforce
  have start: "starts_task (OStr c) \<longleftrightarrow> c \<in> {''tune_kernel'', ''preprocess'', ''probe''}"
    by (simp add: starts_task_def)
  show ?thesis
  proof (cases r)
    case (Inr result)
    with assms h show ?thesis
      unfolding react_task [OF assms(1)]
      by (simp add: handle_task_def sbind_def on_world_def forward_results_sent)
  next
    case (Inl e)
    let ?s = "s\<lparr>gw_world := w\<rparr>"
    obtain s1 where s1: "handle_failure err_text cfg (OStr c) (ODict d) e ?s = (s1, Inr ())"
      using handle_failure_ok by blast
    with Inl assms h have s1': "fst (react err_text cfg (Inr (task_reply (ODict d))) s) = s1"
      unfolding react_task [OF assms(1)] by (simp add: handle_task_def sbind_def on_world_def)
    show ?thesis
    proof (cases "wc_mark_failed cfg")
      case None
      with s1 s1' Inl h show ?thesis by (simp add: handle_failure_def Let_def)
    next
      case (Some mark)
      define task_id where "task_id = (case dget d (KStr ''task_id'') of None \<Rightarrow> ONone | Some t \<Rightarrow> t)"
      let ?arch = "rbind (obj_get_or (ODict d) ''task_config'' (ODict [])) (\<lambda>tc. obj_get_or tc ''arch'' ONone)"
      from s1 Some have "s1 = (if starts_task (OStr c) \<and> obj_true task_id
          then fst (sbind (slift ?arch) (\<lambda>arch. on_world (mark task_id arch (c @ '' failed: '' @ err_text e))) ?s)
          else ?s)"
        by (auto simp: handle_failure_def task_id_def split: if_splits)
      also have "fst (sbind (slift ?arch) (\<lambda>arch. on_world (mark task_id arch (c @ '' failed: '' @ err_text e))) ?s)
          = (case ?arch of Inl _ \<Rightarrow> ?s
             | Inr arch \<Rightarrow> ?s\<lparr>gw_world := fst (mark task_id arch (c @ '' failed: '' @ err_text e) w)\<rparr>)"
        by (cases ?arch) (simp_all add: on_world_def split_beta)
      finally show ?thesis
        unfolding s1' h Inl Some start task_id_def [symmetric]
        by (simp only: Let_def prod.case sum.case option.case)
    qed
  qed
qed

definition ex_tune_kernel :: pyobj where
  "ex_tune_kernel = ODict [(KStr ''class'', OStr ''tune_kernel''), (KStr ''task_id'', OInt 7),
                           (KStr ''task_config'', ODict [])]"

definition ex_worker :: "unit gworker" where
  "ex_worker = \<lparr>gw_running = True, gw_sent = [], gw_fate = [], gw_world = ()\<rparr>"

theorem task_outcome_witness:
  "gw_sent (fst (react (\<lambda>_. []) (gpu_worker (\<lambda>_. undefined) 0) (Inr (task_reply ex_tune_kernel)) ex_worker))
     = [forward_msg (mk_dict [(''class'', OStr ''preprocess''), (''target_queue'', OStr ''gpu_queue''),
                              (''task_id'', OInt 7), (''task_config'', ODict [])])]"
proof -
  have "dget (registry (gpu_worker (\<lambda>_. undefined) 0 :: unit worker_cfg)) ''tune_kernel''
      = Some (pure_handler tune_kernel_handle)"
    by (simp add: registry_def gpu_worker_def dict_of_def)
  from task_outcome [OF _ this, of "[(KStr ''class'', OStr ''tune_kernel''), (KStr ''task_id'', OInt 7),
      (KStr ''task_config'', ODict [])]" ex_worker "\<lambda>_. []"]
  show ?thesis
    by (simp add: ex_tune_kernel_def ex_worker_def pure_handler_def tune_kernel_handle_def forwarded_def
        mk_dict_distinct)
qed

section \<open>Every message finds a handler\<close>

text \<open>
  A message a handler hands to the broker either has the class of the acknowledgements, which the
  broker consumes, or goes to the queue of the worker that has a handler for its class.
\<close>

definition gpu_classes :: "string list" where
  "gpu_classes = map fst (wc_handlers (gpu_worker (\<lambda>_. undefined) 0 :: unit worker_cfg))"

definition cpu_classes :: "string list" where
  "cpu_classes = map fst (wc_handlers (cpu_worker undefined [] :: unit world worker_cfg))"

definition routed :: "pyobj \<Rightarrow> bool" where
  "routed m \<longleftrightarrow>
     (case (obj_get m ''class'', obj_get m ''target_queue'') of
        (Inr (OStr c), Inr (OStr q)) \<Rightarrow>
          (q = ''gpu_queue'' \<and> c \<in> set gpu_classes) \<or> (q = ''cpu_queue'' \<and> c \<in> set cpu_classes)
      | (Inr (OStr c), _) \<Rightarrow> c = ''tune_kernel_ack''
      | _ \<Rightarrow> False)"

definition routes :: "(pyobj \<Rightarrow> ('w, pyobj) act) \<Rightarrow> bool" where
  "routes h \<longleftrightarrow> (\<forall>m w. case snd (h m w) of Inl _ \<Rightarrow> True | Inr r \<Rightarrow> list_all routed (forwarded r))"

lemma gpu_classes: "gpu_classes = [''tune_kernel'', ''preprocess'', ''probe'', ''tune_hsaco'', ''tune_backend'']"
  by (simp add: gpu_classes_def gpu_worker_def)

lemma cpu_classes: "cpu_classes = [''hsaco_result'', ''backend_result'', ''postprocess'',
    ''graceful_cancel_running_task'', ''mark_task_failed'']"
  by (simp add: cpu_classes_def cpu_worker_def)

definition res_all :: "('a \<Rightarrow> bool) \<Rightarrow> 'a res \<Rightarrow> bool" where
  "res_all Q r \<longleftrightarrow> (case r of Inl _ \<Rightarrow> True | Inr x \<Rightarrow> Q x)"

lemma res_all_simps [simp]: "res_all Q (Inl e)" "res_all Q (Inr x) = Q x"
  by (simp_all add: res_all_def)

lemma res_all_rbind: "(\<And>x. m = Inr x \<Longrightarrow> res_all Q (f x)) \<Longrightarrow> res_all Q (rbind m f)"
  by (cases m) auto

lemma res_all_rmap: "(\<And>x. m = Inr x \<Longrightarrow> Q (f x)) \<Longrightarrow> res_all Q (rmap f m)"
  by (cases m) auto

definition act_all :: "('a \<Rightarrow> bool) \<Rightarrow> ('s, 'a) act \<Rightarrow> bool" where
  "act_all Q m \<longleftrightarrow> (\<forall>s. res_all Q (snd (m s)))"

lemma act_all_sbind: "(\<And>x. act_all Q (f x)) \<Longrightarrow> act_all Q (sbind m f)"
  unfolding act_all_def sbind_def by (auto split: prod.splits sum.splits)

lemma act_all_sret: "Q x \<Longrightarrow> act_all Q (sret x)"
  by (simp add: act_all_def)

lemma routes_iff: "routes h \<longleftrightarrow> (\<forall>m. act_all (\<lambda>r. list_all routed (forwarded r)) (h m))"
  by (auto simp: routes_def act_all_def res_all_def split: sum.splits)

lemma routes_pure:
  "(\<And>m. res_all (\<lambda>r. list_all routed (forwarded r)) (h m)) \<Longrightarrow> routes (pure_handler h)"
  by (simp add: routes_iff act_all_def pure_handler_def)

lemma forwarded_dict: "forwarded (ODict d) = (if d = [] then [] else [ODict d])"
  by (simp add: forwarded_def)

lemma forwarded_None [simp]: "forwarded ONone = []"
  by (simp add: forwarded_def)

lemmas routed_simps = forwarded_dict mk_dict_distinct routed_def gpu_classes cpu_classes

lemma routed_mark_failed: "list_all routed (forwarded (mark_task_failed_msg t a e d))"
  by (simp add: mark_task_failed_msg_def routed_simps)

lemma routed_tune: "cls \<in> {''tune_hsaco'', ''tune_backend''} \<Longrightarrow> nk \<notin> {''class'', ''target_queue''} \<Longrightarrow>
    ik \<notin> {''class'', ''target_queue''} \<Longrightarrow> routed (tune_msg cls t tc nk ik i)"
  unfolding tune_msg_def routed_def mk_dict_def by (auto simp: dget_dict_of gpu_classes)

lemma routed_postprocess: "routed (postprocess_msg t tc rc nk ik ts)"
  by (simp add: postprocess_msg_def routed_simps)

lemma routes_tune_kernel: "routes (pure_handler tune_kernel_handle)"
  unfolding tune_kernel_handle_def by (intro routes_pure res_all_rbind) (simp add: routed_simps)

lemma routes_preprocess: "routes (pure_handler (preprocess_handle env))"
  unfolding preprocess_handle_def
  by (intro routes_pure res_all_rbind)
    (auto split: sum.splits exa_error.splits intro!: res_all_rbind routed_mark_failed simp: routed_simps)

lemma routed_fanout:
  "res_all (list_all routed) (build_fanout_kernel i t tc)" "res_all (list_all routed) (build_fanout_op i t tc)"
  unfolding build_fanout_kernel_def build_fanout_op_def
  by (intro res_all_rmap; simp add: list_all_iff routed_tune routed_postprocess)+

lemma routes_probe: "routes (pure_handler (probe_handle env))"
proof -
  have list: "res_all (list_all routed) x \<Longrightarrow> res_all (\<lambda>r. list_all routed (forwarded r)) (rmap OList x)" for x
    by (cases x) (auto simp: forwarded_def list_all_iff)
  show ?thesis
    unfolding probe_handle_def
    by (intro routes_pure res_all_rbind)
      (auto split: sum.splits exa_error.splits intro!: res_all_rbind routed_mark_failed list routed_fanout)
qed

lemma routes_tune: "k = TuneHsaco \<or> k = TuneBackend \<Longrightarrow> routes (pure_handler (tune_handle k env))"
  unfolding tune_handle_def
  by (intro routes_pure res_all_rbind) (auto simp: routed_simps TuneHsaco_def TuneBackend_def)

lemma routes_cpu:
  "routes (write_hsaco_handle ops)" "routes (write_backend_handle ops)" "routes (postprocess_handle ops)"
  "routes (graceful_cancel_handle ops)" "routes (mark_task_failed_handle ops)"
  unfolding routes_iff write_hsaco_handle_def write_backend_handle_def postprocess_handle_def
    graceful_cancel_handle_def mark_task_failed_handle_def
  by (intro allI act_all_sbind act_all_sret; simp add: routed_simps)+

text \<open>
  C17: The message classes are closed under handling: every message that a handler of the GPU or
  the CPU worker returns is either an acknowledgement or goes to a queue whose worker has a
  handler for its class, whatever the message, the tuner and the database do.
\<close>

theorem routing_closed:
  "list_all (\<lambda>(c, h). routes h) (wc_handlers (gpu_worker env gpu_id))
   \<and> list_all (\<lambda>(c, h). routes h) (wc_handlers (cpu_worker ops wid))"
  by (simp add: gpu_worker_def cpu_worker_def routes_tune_kernel routes_preprocess routes_probe
      routes_tune routes_cpu)

section \<open>The PG reader\<close>

text \<open>
  The reader claims a task from the database, announces it to the broker and waits for the
  acknowledgement. The database is two arguments: the claim of at most one pending task and the
  extra inputs of a task. \<open>rd_trace\<close> records which tasks were claimed and acknowledged, and which
  were claimed and lost by an exception before they were announced.
\<close>

record claimed =
  ct_id :: pyobj
  ct_config :: pyobj

datatype reader_action = Claimed pyobj | Acked pyobj | Lost pyobj

record 'w reader =
  rd_running :: bool
  rd_sent :: "pyobj list"
  rd_fate :: "bool list"
  rd_world :: 'w
  rd_trace :: "reader_action list"

record 'w reader_cfg =
  rc_id :: string
  rc_fetch :: "('w, claimed list) act"
  rc_extra_uts :: "pyobj \<Rightarrow> ('w, pyobj list) act"

definition rd_send :: "pyobj \<Rightarrow> ('w reader, unit) act" where
  "rd_send m s =
     (case rd_fate s of
        [] \<Rightarrow> (s\<lparr>rd_sent := rd_sent s @ [m]\<rparr>, Inr ())
      | ok # fate \<Rightarrow>
          (if ok then (s\<lparr>rd_fate := fate, rd_sent := rd_sent s @ [m]\<rparr>, Inr ())
           else (s\<lparr>rd_fate := fate\<rparr>, Inl OSError)))"

text \<open>
  \<open>_fetch_pg_task\<close>: every exception is logged and means that there is no task, also one after the
  claim, which is committed by then. The function returns None in both cases.
\<close>

datatype fetched = NoTask | LostTask pyobj | Fetched pyobj pyobj

definition fetch_pg_task :: "'w reader_cfg \<Rightarrow> 'w \<Rightarrow> 'w \<times> fetched" where
  "fetch_pg_task cfg w =
     (case rc_fetch cfg w of
        (w, Inl _) \<Rightarrow> (w, NoTask)
      | (w, Inr []) \<Rightarrow> (w, NoTask)
      | (w, Inr (task # _)) \<Rightarrow>
          (let (w, r) = sbind (rc_extra_uts cfg (ct_id task)) (\<lambda>extra_im_texts.
                 slift (if extra_im_texts = [] then Inr (ct_config task)
                        else obj_set (ct_config task) ''extra_im_texts'' (OList extra_im_texts))) w
           in (w, case r of Inl _ \<Rightarrow> LostTask (ct_id task) | Inr task_config \<Rightarrow> Fetched (ct_id task) task_config)))"

definition register_ack_msg :: "string \<Rightarrow> pyobj \<Rightarrow> pyobj" where
  "register_ack_msg wid task_id =
     mk_dict [(''type'', OStr ''register_ack''), (''task_id'', task_id), (''worker_id'', OStr wid)]"

definition tune_kernel_msg :: "pyobj \<Rightarrow> pyobj \<Rightarrow> pyobj" where
  "tune_kernel_msg task_id task_config =
     mk_dict [(''class'', OStr ''tune_kernel''), (''target_queue'', OStr ''gpu_queue''),
              (''task_id'', task_id), (''task_config'', task_config)]"

text \<open>
  The wait for the acknowledgement: it came, the reader was stopped, \<open>run\<close> returns (without its
  cleanup), it still waits, or an exception.
  The \<open>negative\<close> flag only changes the log line.
\<close>

datatype ack_outcome = GotAck | Stopped | Returned | Waiting | Raised pyerr

definition is_ack :: "pyobj \<Rightarrow> pyobj \<Rightarrow> bool res" where
  "is_ack task_id response =
     rbind (obj_get response ''type'') (\<lambda>t.
       if obj_eq t (OStr ''ack'')
       then rbind (obj_get response ''task_id'') (\<lambda>i.
              if obj_eq i task_id then rmap (\<lambda>_. True) (obj_get_or response ''negative'' (OBool False))
              else Inr False)
       else Inr False)"

fun await_ack :: "pyobj \<Rightarrow> wakeup list \<Rightarrow> wakeup list \<times> bool \<times> ack_outcome" where
  "await_ack task_id [] = ([], True, Waiting)"
| "await_ack task_id (Signal b # ws) = (if b then await_ack task_id ws else (ws, False, Returned))"
| "await_ack task_id (Reply received b # ws) =
     (case received of
        Inl e \<Rightarrow> (ws, b, Raised e)
      | Inr response \<Rightarrow>
          (if response = ONone then (ws, b, Returned)
           else case is_ack task_id response of
                  Inl e \<Rightarrow> (ws, b, Raised e)
                | Inr True \<Rightarrow> (ws, b, GotAck)
                | Inr False \<Rightarrow> if b then await_ack task_id ws else (ws, b, Stopped)))"

lemma await_ack_shorter: "await_ack task_id ws = (ws', b, r) \<Longrightarrow> length ws' \<le> length ws \<and> (r = GotAck \<or> (\<exists>e. r = Raised e) \<longrightarrow> length ws' < length ws)"
  by (induction task_id ws rule: await_ack.induct)
    (fastforce split: if_splits sum.splits bool.splits)+

text \<open>
  The loop of \<open>run\<close>, over whether the reader still runs after each of its sleeps and over the
  wake-ups while it waits; it consumes one of these in each turn. True if it has ended.
\<close>

function reader_loop ::
  "'w reader_cfg \<Rightarrow> bool list \<Rightarrow> wakeup list \<Rightarrow> 'w reader \<Rightarrow> 'w reader \<times> bool" where
  "reader_loop cfg sleeps ws s =
     (if \<not> rd_running s then (s, True)
      else let (w, fetched) = fetch_pg_task cfg (rd_world s); s = s\<lparr>rd_world := w\<rparr>
           in case fetched of
                NoTask \<Rightarrow>
                  (case sleeps of
                     [] \<Rightarrow> (s, False)
                   | b # sleeps \<Rightarrow> reader_loop cfg sleeps ws (s\<lparr>rd_running := b\<rparr>))
              | LostTask task_id \<Rightarrow>
                  (let s = s\<lparr>rd_trace := rd_trace s @ [Claimed task_id, Lost task_id]\<rparr>
                   in case sleeps of
                        [] \<Rightarrow> (s, False)
                      | b # sleeps \<Rightarrow> reader_loop cfg sleeps ws (s\<lparr>rd_running := b\<rparr>))
              | Fetched task_id task_config \<Rightarrow>
                  (case sbind (rd_send (register_ack_msg (rc_id cfg) task_id)) (\<lambda>_.
                          rd_send (forward_msg (tune_kernel_msg task_id task_config)))
                          (s\<lparr>rd_trace := rd_trace s @ [Claimed task_id]\<rparr>) of
                     (s, Inl _) \<Rightarrow> (s, True)
                   | (s, Inr _) \<Rightarrow>
                       (case await_ack task_id ws of
                          (ws', b, outcome) \<Rightarrow>
                            (case outcome of
                               GotAck \<Rightarrow>
                                 reader_loop cfg sleeps ws'
                                   (s\<lparr>rd_running := b, rd_trace := rd_trace s @ [Acked task_id]\<rparr>)
                             | Waiting \<Rightarrow> (s\<lparr>rd_running := b\<rparr>, False)
                             | Raised e \<Rightarrow>
                                 (if is_os_error e then (s\<lparr>rd_running := b\<rparr>, True)
                                  else case sleeps of
                                         [] \<Rightarrow> (s\<lparr>rd_running := b\<rparr>, False)
                                       | b' # sleeps \<Rightarrow> reader_loop cfg sleeps ws' (s\<lparr>rd_running := b \<and> b'\<rparr>))
                             | _ \<Rightarrow> (s\<lparr>rd_running := b\<rparr>, True)))))"
  by pat_completeness auto
termination
  by (relation "measure (\<lambda>(_, sleeps, ws, _). length sleeps + length ws)")
    (auto dest: await_ack_shorter [OF sym])

declare reader_loop.simps [simp del]

definition reader_run ::
  "'w reader_cfg \<Rightarrow> unit res list \<Rightarrow> bool list \<Rightarrow> wakeup list \<Rightarrow> 'w reader \<Rightarrow> ('w reader \<times> bool) res" where
  "reader_run cfg attempts sleeps ws s =
     rmap (\<lambda>_. reader_loop cfg sleeps ws (s\<lparr>rd_running := True\<rparr>)) (connect_to_broker attempts)"

text \<open>A claim is followed by its own acknowledgement, or by its loss, before the next claim.\<close>

fun throttled :: "reader_action list \<Rightarrow> bool" where
  "throttled [] = True"
| "throttled [Claimed t] = True"
| "throttled (Claimed t # Acked u # tr) = (t = u \<and> throttled tr)"
| "throttled (Claimed t # Lost u # tr) = (t = u \<and> throttled tr)"
| "throttled _ = False"

definition settled :: "reader_action list \<Rightarrow> bool" where
  "settled tr \<longleftrightarrow> (\<exists>ts. tr = concat (map (\<lambda>(t, lost). [Claimed t, if lost then Lost t else Acked t]) ts))"

lemma settled_throttled:
  "settled tr \<Longrightarrow> throttled tr \<and> throttled (tr @ [Claimed t]) \<and> settled (tr @ [Claimed t, Acked t])
     \<and> settled (tr @ [Claimed t, Lost t])"
proof -
  assume "settled tr"
  then obtain ts where tr: "tr = concat (map (\<lambda>(t, lost). [Claimed t, if lost then Lost t else Acked t]) ts)"
    by (auto simp: settled_def)
  have "throttled (concat (map (\<lambda>(t, lost). [Claimed t, if lost then Lost t else Acked t]) ts) @ r) = throttled r" for r
  proof (induction ts)
    case (Cons p ts)
    then show ?case by (cases p; cases "snd p") simp_all
  qed simp
  from this [of "[]"] this [of "[Claimed t]"] tr
  have "throttled tr" "throttled (tr @ [Claimed t])" by simp_all
  moreover have "settled (tr @ [Claimed t, Acked t])"
    unfolding settled_def tr by (rule exI [of _ "ts @ [(t, False)]"]) simp
  moreover have "settled (tr @ [Claimed t, Lost t])"
    unfolding settled_def tr by (rule exI [of _ "ts @ [(t, True)]"]) simp
  ultimately show ?thesis by blast
qed

text \<open>
  Nothing is lost where the extra inputs of a task can always be read and its configuration is a
  dictionary.
\<close>

definition extra_uts_readable :: "'w reader_cfg \<Rightarrow> bool" where
  "extra_uts_readable cfg \<longleftrightarrow>
     (\<forall>t w. is_ok (snd (rc_extra_uts cfg t w)))
     \<and> (\<forall>w. case snd (rc_fetch cfg w) of
              Inl _ \<Rightarrow> True | Inr ts \<Rightarrow> list_all (\<lambda>t. \<exists>d. ct_config t = ODict d) ts)"

definition lost_tasks :: "reader_action list \<Rightarrow> pyobj list" where
  "lost_tasks tr = List.map_filter (\<lambda>a. case a of Lost t \<Rightarrow> Some t | _ \<Rightarrow> None) tr"

lemma lost_tasks_simps [simp]:
  "lost_tasks (tr @ tr') = lost_tasks tr @ lost_tasks tr'" "lost_tasks [] = []"
  "lost_tasks (a # tr) = (case a of Lost t \<Rightarrow> [t] | _ \<Rightarrow> []) @ lost_tasks tr"
  by (simp_all add: lost_tasks_def map_filter_def split: reader_action.split)

lemma readable_not_lost:
  assumes "extra_uts_readable cfg" shows "fetch_pg_task cfg w \<noteq> (w', LostTask t)"
proof
  assume l: "fetch_pg_task cfg w = (w', LostTask t)"
  obtain w1 r where f: "rc_fetch cfg w = (w1, r)" by fastforce
  with l obtain task rest where r: "r = Inr (task # rest)"
    by (auto simp: fetch_pg_task_def split: sum.splits list.splits)
  have "\<forall>w. case snd (rc_fetch cfg w) of Inl _ \<Rightarrow> True | Inr ts \<Rightarrow> list_all (\<lambda>t. \<exists>d. ct_config t = ODict d) ts"
    using assms by (simp add: extra_uts_readable_def)
  from this [rule_format, of w] f r obtain d where "ct_config task = ODict d" by auto
  moreover obtain w2 im where "rc_extra_uts cfg (ct_id task) w1 = (w2, Inr im)"
    using assms unfolding extra_uts_readable_def is_ok_iff by (metis prod.collapse)
  ultimately show False using l f r by (auto simp: fetch_pg_task_def sbind_def split: if_splits)
qed

text \<open>Replies as the broker sends them: a connection error, or a dictionary with the two fields.\<close>

definition reply_ok :: "wakeup \<Rightarrow> bool" where
  "reply_ok w \<longleftrightarrow>
     (case w of
        Signal _ \<Rightarrow> True
      | Reply (Inl e) _ \<Rightarrow> is_os_error e
      | Reply (Inr r) _ \<Rightarrow> r = ONone \<or> (is_ok (obj_get r ''type'') \<and> is_ok (obj_get r ''task_id'')))"

lemma is_ack_ok:
  assumes "is_ok (obj_get r ''type'')" "is_ok (obj_get r ''task_id'')"
  shows "\<exists>b. is_ack t r = Inr b"
proof -
  from assms obtain d where "r = ODict d" by (cases r) (auto simp: is_ok_iff)
  with assms show ?thesis by (auto simp: is_ack_def is_ok_iff)
qed

lemma await_ack_ok:
  "await_ack t ws = (ws', b, r) \<Longrightarrow> list_all reply_ok ws \<Longrightarrow>
     list_all reply_ok ws' \<and> (\<forall>e. r = Raised e \<longrightarrow> is_os_error e)"
proof (induction t ws rule: await_ack.induct)
  case (3 t received b0 ws)
  show ?case
  proof (cases received)
    case (Inl e)
    with 3(2,3) show ?thesis by (auto simp: reply_ok_def)
  next
    case (Inr response)
    show ?thesis
    proof (cases "response = ONone")
      case True
      with Inr 3(2,3) show ?thesis by auto
    next
      case False
      with Inr 3(3) is_ack_ok obtain a where "is_ack t response = Inr a"
        unfolding reply_ok_def by fastforce
      with Inr False 3 show ?thesis by (cases a) (auto split: if_splits)
    qed
  qed
qed (auto split: if_splits)

lemma rd_send_trace: "rd_send m s = (s', r) \<Longrightarrow> rd_trace s' = rd_trace s"
  by (auto simp: rd_send_def split: list.splits if_splits)

lemma send_trace:
  "sbind (rd_send m) (\<lambda>_. rd_send m') (s\<lparr>rd_trace := tr\<rparr>) = (s', r) \<Longrightarrow> rd_trace s' = tr"
  by (auto simp: sbind_def split: prod.splits sum.splits dest!: rd_send_trace)

lemma reader_lost_turn:
  assumes f: "fetch_pg_task cfg (rd_world s) = (w, LostTask t)" and running: "rd_running s" and st: "settled (rd_trace s)"
    and rest: "\<And>b sleeps'. sleeps = b # sleeps' \<Longrightarrow> throttled (rd_trace (fst (reader_loop cfg sleeps' ws
      (s\<lparr>rd_world := w, rd_trace := rd_trace s @ [Claimed t, Lost t], rd_running := b\<rparr>))))"
  shows "throttled (rd_trace (fst (reader_loop cfg sleeps ws s)))" and "\<not> extra_uts_readable cfg"
proof -
  show "\<not> extra_uts_readable cfg" using readable_not_lost [of cfg "rd_world s" w t] f by auto
  have "settled (rd_trace s @ [Claimed t, Lost t])" using settled_throttled [OF st] by blast
  then show "throttled (rd_trace (fst (reader_loop cfg sleeps ws s)))"
    using f running rest by (cases sleeps) (simp_all add: reader_loop.simps [of cfg _ ws s] settled_throttled)
qed

text \<open>
  C16: The reader is throttled. Whatever the database offers and however sends fail and signals
  come, as long as the replies are ones a broker sends: every claimed task but the last has been
  acknowledged, each before the next is claimed, so at most one announced task of a reader is in
  flight. The exception are tasks that were claimed and then lost, for the extra inputs could not
  be read: these are neither announced nor acknowledged. Where they can be read none is lost.
\<close>

theorem reader_throttled:
  assumes "list_all reply_ok ws" "settled (rd_trace s)"
  shows "throttled (rd_trace (fst (reader_loop cfg sleeps ws s)))
    \<and> (extra_uts_readable cfg \<longrightarrow> lost_tasks (rd_trace (fst (reader_loop cfg sleeps ws s))) = lost_tasks (rd_trace s))"
  using assms
proof (induction "length sleeps + length ws" arbitrary: sleeps ws s rule: less_induct)
  case less
  obtain w fetched where f: "fetch_pg_task cfg (rd_world s) = (w, fetched)" by fastforce
  let ?s = "s\<lparr>rd_world := w\<rparr>"
  show ?case
  proof (cases "rd_running s")
    case False
    with less.prems show ?thesis by (simp add: reader_loop.simps settled_throttled)
  next
    case running: True
    show ?thesis
    proof (cases fetched)
      case NoTask
      with less running f show ?thesis
        by (cases sleeps) (simp_all add: reader_loop.simps [of cfg _ ws s] settled_throttled)
    next
      case (LostTask t)
      have "settled (rd_trace s @ [Claimed t, Lost t])" using settled_throttled [OF less.prems(2)] by blast
      then have "throttled (rd_trace (fst (reader_loop cfg sleeps' ws
          (s\<lparr>rd_world := w, rd_trace := rd_trace s @ [Claimed t, Lost t], rd_running := b\<rparr>))))" if "sleeps = b # sleeps'" for b sleeps'
        using less.hyps [of sleeps' ws] less.prems that by simp
      from reader_lost_turn [OF _ running less.prems(2) this] f LostTask show ?thesis by auto
    next
      case (Fetched tid tc)
      obtain s1 r where send: "sbind (rd_send (register_ack_msg (rc_id cfg) tid)) (\<lambda>_.
          rd_send (forward_msg (tune_kernel_msg tid tc))) (?s\<lparr>rd_trace := rd_trace s @ [Claimed tid]\<rparr>) = (s1, r)"
        by fastforce
      have tr: "rd_trace s1 = rd_trace s @ [Claimed tid]"
        using send by (rule send_trace)
      obtain ws' b out where wait: "await_ack tid ws = (ws', b, out)" by (metis prod_cases3)
      note ok = await_ack_ok [OF wait less.prems(1)] and shorter = await_ack_shorter [OF wait]
      note settled = settled_throttled [OF less.prems(2), of tid]
      show ?thesis
      proof (cases "\<exists>u. r = Inr u \<and> out = GotAck")
        case True
        let ?t = "s1\<lparr>rd_running := b, rd_trace := rd_trace s1 @ [Acked tid]\<rparr>"
        have "throttled (rd_trace (fst (reader_loop cfg sleeps ws' ?t)))
          \<and> (extra_uts_readable cfg \<longrightarrow> lost_tasks (rd_trace (fst (reader_loop cfg sleeps ws' ?t))) = lost_tasks (rd_trace ?t))"
          by (rule less.hyps) (use shorter ok settled True tr in auto)
        with True running f Fetched send wait tr show ?thesis
          by (auto simp: reader_loop.simps [of cfg sleeps ws s])
      next
        case False
        with ok settled tr running f Fetched send wait show ?thesis
          by (auto simp: reader_loop.simps [of cfg sleeps ws s] split: sum.splits ack_outcome.splits)
      qed
    qed
  qed
qed

text \<open>The broker's reply is an acknowledgement to the reader that waits for it.\<close>

lemma await_broker_ack:
  "await_ack (OInt i) (Reply (Inr (ack_reply (OInt i))) b # ws) = (ws, b, GotAck)"
  by (simp add: ack_reply_def is_ack_def mk_dict_distinct)

definition ex_reader_cfg :: "int list reader_cfg" where
  "ex_reader_cfg =
     \<lparr>rc_id = ''reader'',
      rc_fetch = (\<lambda>w. (tl w, Inr (case w of [] \<Rightarrow> [] | i # _ \<Rightarrow> [\<lparr>ct_id = OInt i, ct_config = ODict []\<rparr>]))),
      rc_extra_uts = (\<lambda>_ w. (w, Inr []))\<rparr>"

definition ex_rd :: "int list reader" where
  "ex_rd = \<lparr>rd_running = True, rd_sent = [], rd_fate = [], rd_world = [1, 2], rd_trace = []\<rparr>"

definition ex_wakeups :: "wakeup list" where
  "ex_wakeups = [Signal True, Reply (Inr (ack_reply (OInt 5))) True, Reply (Inr (ack_reply (OInt 1))) True]"

theorem reader_throttled_witness:
  "throttled (rd_trace (fst (reader_loop ex_reader_cfg [] ex_wakeups ex_rd)))
   \<and> lost_tasks (rd_trace (fst (reader_loop ex_reader_cfg [] ex_wakeups ex_rd))) = []
   \<and> rd_trace (fst (reader_loop ex_reader_cfg [] ex_wakeups ex_rd)) = [Claimed (OInt 1), Acked (OInt 1), Claimed (OInt 2)]"
proof (intro conjI)
  have "list_all reply_ok ex_wakeups" by (simp add: ex_wakeups_def reply_ok_def ack_reply_def mk_dict_distinct)
  moreover have "settled (rd_trace ex_rd)" by (auto simp: ex_rd_def settled_def intro: exI [of _ "[]"])
  ultimately have both: "throttled (rd_trace (fst (reader_loop ex_reader_cfg [] ex_wakeups ex_rd)))
    \<and> (extra_uts_readable ex_reader_cfg
       \<longrightarrow> lost_tasks (rd_trace (fst (reader_loop ex_reader_cfg [] ex_wakeups ex_rd))) = lost_tasks (rd_trace ex_rd))"
    by (rule reader_throttled)
  then show "throttled (rd_trace (fst (reader_loop ex_reader_cfg [] ex_wakeups ex_rd)))" by blast
  have "extra_uts_readable ex_reader_cfg"
    by (auto simp: extra_uts_readable_def ex_reader_cfg_def split: list.split)
  with both show "lost_tasks (rd_trace (fst (reader_loop ex_reader_cfg [] ex_wakeups ex_rd))) = []"
    by (simp add: ex_rd_def)
  show "rd_trace (fst (reader_loop ex_reader_cfg [] ex_wakeups ex_rd)) = [Claimed (OInt 1), Acked (OInt 1), Claimed (OInt 2)]"
    by code_simp
qed

text \<open>
  A task whose extra inputs cannot be read stays claimed in the database without being announced,
  and after a sleep the reader claims the next one.
\<close>

lemma lost_claim:
  "rd_trace (fst (reader_loop (ex_reader_cfg\<lparr>rc_extra_uts := \<lambda>t w. (w, if t = OInt 1 then Inl DatabaseError else Inr [])\<rparr>)
      [True] [] ex_rd)) = [Claimed (OInt 1), Lost (OInt 1), Claimed (OInt 2)]"
  by code_simp

end
