(* ===== verification/TaskQueue.thy ===== *)
theory TaskQueue
  imports Handlers "HOL-Library.Product_Lexorder"
begin

text \<open>
  \<open>v3python/tune/pq/queue.py\<close>, \<open>dispatcher.py\<close>, \<open>extra_uts.py\<close> and \<open>results.py\<close>: the task queue in
  the database. A statement is the change of the tables its text says, done at once or not at
  all; the tables are those of \<open>schema.sql\<close>. The clock, the rows that other transactions have
  locked and the partitions that exist are arguments or state; a statement on a partition that
  does not exist raises a DatabaseError.
\<close>

section \<open>Tables\<close>

record task_row =
  t_id :: int
  t_arch :: string
  t_module :: string
  t_config :: pyobj
  t_status :: string
  t_priority :: int
  t_worker :: "string option"
  t_node :: "string option"
  t_created :: int
  t_started :: "int option"
  t_completed :: "int option"
  t_error :: "pyobj option"
  t_retry :: int

record result_rec =
  r_id :: int
  r_task :: int
  r_name :: pyobj
  r_index :: pyobj
  r_result :: pyobj
  r_data :: "pyobj option"
  r_error :: "pyobj option"
  r_gpu :: pyobj
  r_created :: int

record tuner_db =
  task_rows :: "task_row list"
  next_id :: int
  partitions :: "string list"
  extra_uts :: "(int \<times> string, bool) dict"
  tuning_results :: "result_rec list"
  optune_results :: "result_rec list"

definition empty_db :: tuner_db where
  "empty_db = \<lparr>task_rows = [], next_id = 1, partitions = [], extra_uts = [], tuning_results = [],
               optune_results = []\<rparr>"

definition sql_update ::
  "(task_row \<Rightarrow> bool) \<Rightarrow> (task_row \<Rightarrow> task_row) \<Rightarrow> tuner_db \<Rightarrow> tuner_db" where
  "sql_update p f db = db\<lparr>task_rows := map (\<lambda>t. if p t then f t else t) (task_rows db)\<rparr>"

definition on_partition :: "string \<Rightarrow> (tuner_db, 'a) act \<Rightarrow> (tuner_db, 'a) act" where
  "on_partition arch m db = (if arch \<in> set (partitions db) then m db else (db, Inl DatabaseError))"

text \<open>The operator LIKE: a percent sign stands for any text, an underscore for any character.\<close>

fun like :: "string \<Rightarrow> string \<Rightarrow> bool" where
  "like [] s = (s = [])"
| "like (p # ps) s =
     (if p = CHR ''%'' then list_ex (\<lambda>n. like ps (drop n s)) [0..<Suc (length s)]
      else (case s of [] \<Rightarrow> False | c # cs \<Rightarrow> (p = CHR ''_'' \<or> p = c) \<and> like ps cs))"

section \<open>TaskQueue\<close>

definition wanted_module :: "string \<Rightarrow> string \<Rightarrow> bool" where
  "wanted_module tuning_mode m = (if tuning_mode = ''op'' then like ''%_op'' m else \<not> like ''%_op'' m)"

text \<open>The subquery of the claim: the pending tasks nobody has locked, in the order of the claim.\<close>

definition claimable :: "string \<Rightarrow> string \<Rightarrow> (int \<Rightarrow> bool) \<Rightarrow> tuner_db \<Rightarrow> task_row list" where
  "claimable arch tuning_mode locked db =
     sort_key (\<lambda>t. (- t_priority t, t_id t))
       (filter (\<lambda>t. t_arch t = arch \<and> t_status t = ''pending'' \<and> wanted_module tuning_mode (t_module t)
                    \<and> \<not> locked (t_id t)) (task_rows db))"

definition claim :: "string \<Rightarrow> string \<Rightarrow> int \<Rightarrow> task_row \<Rightarrow> task_row" where
  "claim wid node now t =
     t\<lparr>t_status := ''running'', t_worker := Some wid, t_node := Some node, t_started := Some now\<rparr>"

definition fetch_tasks ::
  "string \<Rightarrow> string \<Rightarrow> int \<Rightarrow> (int \<Rightarrow> bool) \<Rightarrow> string \<Rightarrow> nat \<Rightarrow> string \<Rightarrow> (tuner_db, task_row list) act" where
  "fetch_tasks wid node now locked arch batch_size tuning_mode =
     on_partition arch (\<lambda>db.
       (let ids = map t_id (take batch_size (claimable arch tuning_mode locked db));
            hit = (\<lambda>t. t_arch t = arch \<and> t_id t \<in> set ids);
            db = sql_update hit (claim wid node now) db
        in (db, Inr (filter hit (task_rows db)))))"

definition tq_mark_completed :: "int \<Rightarrow> int \<Rightarrow> string \<Rightarrow> (tuner_db, unit) act" where
  "tq_mark_completed now task_id arch =
     on_partition arch (supd (sql_update (\<lambda>t. t_arch t = arch \<and> t_id t = task_id)
       (\<lambda>t. t\<lparr>t_status := ''completed'', t_completed := Some now\<rparr>)))"

definition failed_row :: "int \<Rightarrow> pyobj \<Rightarrow> task_row \<Rightarrow> task_row" where
  "failed_row now msg t = t\<lparr>t_status := ''failed'', t_completed := Some now, t_error := Some msg\<rparr>"

definition tq_mark_failed :: "int \<Rightarrow> int \<Rightarrow> string option \<Rightarrow> pyobj \<Rightarrow> (tuner_db, unit) act" where
  "tq_mark_failed now task_id arch error_message =
     (case arch of
        Some a \<Rightarrow>
          (if a \<noteq> [] then
             on_partition a (supd (sql_update (\<lambda>t. t_arch t = a \<and> t_id t = task_id) (failed_row now error_message)))
           else supd (sql_update (\<lambda>t. t_id t = task_id) (failed_row now error_message)))
      | None \<Rightarrow> supd (sql_update (\<lambda>t. t_id t = task_id) (failed_row now error_message)))"

definition tq_mark_pending :: "int \<Rightarrow> string \<Rightarrow> (tuner_db, unit) act" where
  "tq_mark_pending task_id arch =
     on_partition arch (supd (sql_update (\<lambda>t. t_arch t = arch \<and> t_id t = task_id)
       (\<lambda>t. t\<lparr>t_status := ''pending'', t_worker := None, t_node := None, t_started := None,
              t_completed := None, t_error := None\<rparr>)))"

definition retry_task :: "int \<Rightarrow> string \<Rightarrow> int \<Rightarrow> (tuner_db, bool) act" where
  "retry_task task_id arch max_retries =
     on_partition arch (\<lambda>db.
       (let hit = (\<lambda>t. t_arch t = arch \<and> t_id t = task_id \<and> t_retry t < max_retries)
        in (sql_update hit (\<lambda>t. t\<lparr>t_status := ''pending'', t_retry := t_retry t + 1, t_worker := None,
                                   t_node := None, t_started := None, t_completed := None,
                                   t_error := None\<rparr>) db,
            Inr (list_ex hit (task_rows db)))))"

definition count_status :: "string \<Rightarrow> task_row list \<Rightarrow> nat" where
  "count_status st ts = length (filter (\<lambda>t. t_status t = st) ts)"

definition queue_stats :: "task_row list \<Rightarrow> (string, nat) dict" where
  "queue_stats ts = map (\<lambda>st. (st, count_status st ts)) [''pending'', ''running'', ''completed'', ''failed'']"

definition get_queue_stats :: "string option \<Rightarrow> (tuner_db, (string, nat) dict) act" where
  "get_queue_stats arch =
     (case arch of
        Some a \<Rightarrow>
          (if a \<noteq> [] then on_partition a (sget (\<lambda>db. queue_stats (filter (\<lambda>t. t_arch t = a) (task_rows db))))
           else sget (\<lambda>db. queue_stats (task_rows db)))
      | None \<Rightarrow> sget (\<lambda>db. queue_stats (task_rows db)))"

text \<open>A comparison with a null start time is not true.\<close>

definition is_stale :: "int \<Rightarrow> int \<Rightarrow> task_row \<Rightarrow> bool" where
  "is_stale now timeout_seconds t \<longleftrightarrow>
     t_status t = ''running''
     \<and> (case t_started t of None \<Rightarrow> False | Some s \<Rightarrow> now - s > timeout_seconds)"

definition detect_stale_tasks :: "int \<Rightarrow> int \<Rightarrow> (tuner_db, task_row list) act" where
  "detect_stale_tasks now timeout_seconds =
     sget (\<lambda>db. sort_key (\<lambda>t. case t_started t of None \<Rightarrow> 0 | Some s \<Rightarrow> s)
                  (filter (is_stale now timeout_seconds) (task_rows db)))"

definition reset_stale_tasks :: "int \<Rightarrow> int \<Rightarrow> (tuner_db, nat) act" where
  "reset_stale_tasks now timeout_seconds db =
     (sql_update (is_stale now timeout_seconds)
        (\<lambda>t. t\<lparr>t_status := ''pending'', t_worker := None, t_node := None, t_started := None,
               t_retry := t_retry t + 1\<rparr>) db,
      Inr (length (filter (is_stale now timeout_seconds) (task_rows db))))"

section \<open>TaskDispatcher\<close>

definition insert_task :: "int \<Rightarrow> string \<Rightarrow> string \<Rightarrow> pyobj \<Rightarrow> int \<Rightarrow> (tuner_db, int) act" where
  "insert_task now arch module task_config priority =
     on_partition arch (\<lambda>db.
       (db\<lparr>next_id := next_id db + 1,
           task_rows := task_rows db @
             [\<lparr>t_id = next_id db, t_arch = arch, t_module = module, t_config = task_config,
               t_status = ''pending'', t_priority = priority, t_worker = None, t_node = None,
               t_created = now, t_started = None, t_completed = None, t_error = None, t_retry = 0\<rparr>]\<rparr>,
        Inr (next_id db)))"

text \<open>A connection's block commits or rolls back as a whole; ids that were drawn stay used.\<close>

definition transaction :: "(tuner_db, 'a) act \<Rightarrow> (tuner_db, 'a) act" where
  "transaction m db =
     (case m db of
        (db', Inr x) \<Rightarrow> (db', Inr x)
      | (db', Inl e) \<Rightarrow> (db\<lparr>next_id := next_id db'\<rparr>, Inl e))"

definition dispatch_single :: "int \<Rightarrow> string \<Rightarrow> string \<Rightarrow> pyobj \<Rightarrow> int \<Rightarrow> (tuner_db, int) act" where
  "dispatch_single now arch module task_config priority =
     transaction (insert_task now arch module task_config priority)"

record new_task =
  nt_arch :: string
  nt_module :: string
  nt_config :: pyobj
  nt_priority :: "int option"

definition insert_batch :: "int \<Rightarrow> new_task list \<Rightarrow> (tuner_db, unit) act" where
  "insert_batch now batch =
     sfor batch (\<lambda>t. sbind (insert_task now (nt_arch t) (nt_module t) (nt_config t)
       (case nt_priority t of None \<Rightarrow> 5 | Some p \<Rightarrow> p)) (\<lambda>_. sret ()))"

fun dispatch_loop :: "int \<Rightarrow> nat \<Rightarrow> new_task list \<Rightarrow> new_task list \<Rightarrow> nat \<Rightarrow> (tuner_db, nat) act" where
  "dispatch_loop now batch_size [] batch dispatched =
     (if batch = [] then sret dispatched
      else sbind (insert_batch now batch) (\<lambda>_. sret (dispatched + length batch)))"
| "dispatch_loop now batch_size (t # ts) batch dispatched =
     (let batch = batch @ [t]
      in if length batch \<ge> batch_size
         then sbind (insert_batch now batch) (\<lambda>_. dispatch_loop now batch_size ts [] (dispatched + length batch))
         else dispatch_loop now batch_size ts batch dispatched)"

definition dispatch_bulk :: "int \<Rightarrow> nat \<Rightarrow> new_task list \<Rightarrow> (tuner_db, nat) act" where
  "dispatch_bulk now batch_size tasks = transaction (dispatch_loop now batch_size tasks [] 0)"

definition ensure_partition :: "string \<Rightarrow> tuner_db \<Rightarrow> tuner_db" where
  "ensure_partition arch db =
     (if arch \<in> set (partitions db) then db else db\<lparr>partitions := partitions db @ [arch]\<rparr>)"

section \<open>Extra inputs\<close>

text \<open>The table refuses texts with a space.\<close>

definition insert_extra_uts :: "int \<Rightarrow> string list \<Rightarrow> (tuner_db, unit) act" where
  "insert_extra_uts task_id im_texts db =
     (if list_ex (like ''% %'') im_texts then (db, Inl DatabaseError)
      else (db\<lparr>extra_uts := fold (\<lambda>t d. dset d (task_id, t) True) im_texts (extra_uts db)\<rparr>, Inr ()))"

definition get_extra_uts :: "int \<Rightarrow> tuner_db \<Rightarrow> string list" where
  "get_extra_uts task_id db =
     map (snd \<circ> fst) (filter (\<lambda>((i, t), active). i = task_id \<and> active) (extra_uts db))"

definition delete_extra_uts :: "int list \<Rightarrow> tuner_db \<Rightarrow> tuner_db" where
  "delete_extra_uts task_ids db =
     db\<lparr>extra_uts := filter (\<lambda>((i, t), active). i \<notin> set task_ids) (extra_uts db)\<rparr>"

section \<open>Results\<close>

definition or_null :: "pyobj \<Rightarrow> pyobj option" where
  "or_null x = (if obj_true x then Some x else None)"

definition report_row ::
  "int \<Rightarrow> int \<Rightarrow> string \<Rightarrow> string \<Rightarrow> int \<Rightarrow> pyobj \<Rightarrow> result_rec res" where
  "report_row now new_id name_field index_field task_id report =
     rbind (obj_get report name_field) (\<lambda>name.
     rbind (obj_get report index_field) (\<lambda>index.
     rbind (obj_get report ''result'') (\<lambda>result.
     rbind (obj_get_or report ''result_data'' ONone) (\<lambda>result_data.
     rbind (obj_get_or report ''error'' ONone) (\<lambda>err.
     rbind (obj_get_or report ''complete_on_gpu'' ONone) (\<lambda>gpu_id.
     Inr \<lparr>r_id = new_id, r_task = task_id, r_name = name, r_index = index, r_result = result,
          r_data = or_null result_data, r_error = or_null err, r_gpu = gpu_id, r_created = now\<rparr>))))))"

text \<open>The columns of the name, the index and the result must not be null.\<close>

definition not_null :: "result_rec \<Rightarrow> bool" where
  "not_null r \<longleftrightarrow> r_name r \<noteq> ONone \<and> r_index r \<noteq> ONone \<and> r_result r \<noteq> ONone"

definition tq_save_tuning_result :: "int \<Rightarrow> int \<Rightarrow> pyobj \<Rightarrow> (tuner_db, unit) act" where
  "tq_save_tuning_result now task_id report db =
     (case report_row now (int (length (tuning_results db)) + 1) ''kernel_name'' ''hsaco_index'' task_id report of
        Inl e \<Rightarrow> (db, Inl e)
      | Inr r \<Rightarrow> (if not_null r then (db\<lparr>tuning_results := tuning_results db @ [r]\<rparr>, Inr ())
                  else (db, Inl DatabaseError)))"

definition tq_save_optune_result :: "int \<Rightarrow> int \<Rightarrow> pyobj \<Rightarrow> (tuner_db, unit) act" where
  "tq_save_optune_result now task_id report db =
     (case report_row now (int (length (optune_results db)) + 1) ''op_name'' ''backend_index'' task_id report of
        Inl e \<Rightarrow> (db, Inl e)
      | Inr r \<Rightarrow> (if not_null r then (db\<lparr>optune_results := optune_results db @ [r]\<rparr>, Inr ())
                  else (db, Inl DatabaseError)))"

text \<open>Keys are ordered by kind, then by value, so that the columns of a result can be sorted by.\<close>

fun pkey_rank :: "pkey \<Rightarrow> nat \<times> int \<times> string" where
  "pkey_rank KNone = (0, 0, [])"
| "pkey_rank (KInt i) = (1, i, [])"
| "pkey_rank (KFloat f) = (2, 0, f)"
| "pkey_rank (KStr s) = (3, 0, s)"

lemma pkey_rank_inj: "pkey_rank x = pkey_rank y \<Longrightarrow> x = y"
  by (cases x; cases y) simp_all

instantiation pkey :: linorder
begin

definition less_eq_pkey :: "pkey \<Rightarrow> pkey \<Rightarrow> bool" where
  "less_eq_pkey x y \<longleftrightarrow> pkey_rank x \<le> pkey_rank y"

definition less_pkey :: "pkey \<Rightarrow> pkey \<Rightarrow> bool" where
  "less_pkey x y \<longleftrightarrow> pkey_rank x < pkey_rank y"

instance
  by standard (auto simp: less_eq_pkey_def less_pkey_def dest: pkey_rank_inj)

end

definition column_key :: "pyobj \<Rightarrow> pkey" where
  "column_key x = (case key_of x of Inl _ \<Rightarrow> KNone | Inr k \<Rightarrow> k)"

definition get_task_results :: "int \<Rightarrow> tuner_db \<Rightarrow> result_rec list" where
  "get_task_results task_id db =
     sort_key (\<lambda>r. (column_key (r_name r), column_key (r_index r)))
       (filter (\<lambda>r. r_task r = task_id) (tuning_results db))"

section \<open>The database of the handlers\<close>

text \<open>
  The handlers pass on what the messages hold: a task id that is not a number is not one of the
  table, and an architecture that is not a text names no partition.
\<close>

definition with_id :: "pyobj \<Rightarrow> (int \<Rightarrow> (tuner_db, 'a) act) \<Rightarrow> (tuner_db, 'a) act" where
  "with_id task_id f = (case task_id of OInt i \<Rightarrow> f i | _ \<Rightarrow> slift (Inl DatabaseError))"

definition with_arch :: "pyobj \<Rightarrow> (string \<Rightarrow> (tuner_db, 'a) act) \<Rightarrow> (tuner_db, 'a) act" where
  "with_arch arch f = (case arch of OStr a \<Rightarrow> f a | _ \<Rightarrow> slift (Inl DatabaseError))"

definition tuner_ops :: "int \<Rightarrow> tuner_db db_ops" where
  "tuner_ops now =
     \<lparr>save_tuning_result = (\<lambda>t report. with_id t (\<lambda>i. tq_save_tuning_result now i report)),
      save_optune_result = (\<lambda>t report. with_id t (\<lambda>i. tq_save_optune_result now i report)),
      mark_completed = (\<lambda>t arch. with_arch arch (\<lambda>a. with_id t (\<lambda>i. tq_mark_completed now i a))),
      mark_pending = (\<lambda>t arch. with_arch arch (\<lambda>a. with_id t (\<lambda>i. tq_mark_pending i a))),
      mark_failed = (\<lambda>t arch msg.
        if obj_true arch then with_arch arch (\<lambda>a. with_id t (\<lambda>i. tq_mark_failed now i (Some a) msg))
        else with_id t (\<lambda>i. tq_mark_failed now i None msg))\<rparr>"

section \<open>The life of a task\<close>

text \<open>
  The rows of the queue at all times: ids are drawn in order and never twice, a row is in an
  existing partition, a pending task belongs to nobody, a running one to a worker since a
  time, and retries are counted up from zero.
\<close>

definition row_ok :: "task_row \<Rightarrow> bool" where
  "row_ok t \<longleftrightarrow>
     t_status t \<in> {''pending'', ''running'', ''completed'', ''failed''}
     \<and> (t_status t = ''pending'' \<longrightarrow> t_worker t = None \<and> t_node t = None \<and> t_started t = None)
     \<and> (t_status t = ''running'' \<longrightarrow> t_worker t \<noteq> None \<and> t_node t \<noteq> None \<and> t_started t \<noteq> None)
     \<and> 0 \<le> t_retry t"

definition tq_inv :: "tuner_db \<Rightarrow> bool" where
  "tq_inv db \<longleftrightarrow>
     sorted_wrt (<) (map t_id (task_rows db))
     \<and> list_all (\<lambda>t. row_ok t \<and> t_id t < next_id db \<and> t_arch t \<in> set (partitions db)) (task_rows db)"

datatype tq_op =
    Fetch string string int "int \<Rightarrow> bool" string nat string
  | Complete int int string
  | Fail int int "string option" pyobj
  | Pend int string
  | Retry int string int
  | ResetStale int int
  | Dispatch int nat "new_task list"
  | DispatchOne int string string pyobj int
  | Partition string
  | ExtraUts int "string list"
  | Save int int pyobj

fun apply_op :: "tq_op \<Rightarrow> tuner_db \<Rightarrow> tuner_db" where
  "apply_op (Fetch wid node now locked arch n mode) db = fst (fetch_tasks wid node now locked arch n mode db)"
| "apply_op (Complete now i arch) db = fst (tq_mark_completed now i arch db)"
| "apply_op (Fail now i arch msg) db = fst (tq_mark_failed now i arch msg db)"
| "apply_op (Pend i arch) db = fst (tq_mark_pending i arch db)"
| "apply_op (Retry i arch n) db = fst (retry_task i arch n db)"
| "apply_op (ResetStale now timeout) db = fst (reset_stale_tasks now timeout db)"
| "apply_op (Dispatch now n ts) db = fst (dispatch_bulk now n ts db)"
| "apply_op (DispatchOne now arch m c p) db = fst (dispatch_single now arch m c p db)"
| "apply_op (Partition arch) db = ensure_partition arch db"
| "apply_op (ExtraUts i ts) db = fst (insert_extra_uts i ts db)"
| "apply_op (Save now i r) db = fst (tq_save_tuning_result now i r db)"

text \<open>A change of rows that keeps their identity.\<close>

definition row_change :: "(task_row \<Rightarrow> bool) \<Rightarrow> (task_row \<Rightarrow> task_row) \<Rightarrow> bool" where
  "row_change p f \<longleftrightarrow> (\<forall>t. t_id (f t) = t_id t \<and> t_arch (f t) = t_arch t \<and> (p t \<longrightarrow> row_ok t \<longrightarrow> row_ok (f t)))"

lemma sql_update_inv: "row_change p f \<Longrightarrow> tq_inv db \<Longrightarrow> tq_inv (sql_update p f db)"
proof -
  assume f: "row_change p f" and I: "tq_inv db"
  have "map t_id (task_rows (sql_update p f db)) = map t_id (task_rows db)"
    using f by (simp add: sql_update_def row_change_def)
  moreover have "list_all (\<lambda>t. row_ok t \<and> t_id t < next_id db \<and> t_arch t \<in> set (partitions db))
      (task_rows (sql_update p f db))"
    using f I by (auto simp: tq_inv_def list_all_iff sql_update_def row_change_def)
  moreover have "next_id (sql_update p f db) = next_id db" "partitions (sql_update p f db) = partitions db"
    by (simp_all add: sql_update_def)
  ultimately show ?thesis using I by (simp only: tq_inv_def)
qed

lemma on_partition_inv: "preserves tq_inv m \<Longrightarrow> preserves tq_inv (on_partition arch m)"
  by (auto simp: yields_def on_partition_def)

lemma update_inv: "row_change p f \<Longrightarrow> preserves tq_inv (supd (sql_update p f))"
  by (rule preserves_supd) (rule sql_update_inv)

lemma insert_task_inv: "preserves tq_inv (insert_task now arch m c p)"
  unfolding insert_task_def on_partition_def
  by (auto simp: yields_def tq_inv_def list_all_iff row_ok_def sorted_wrt_append Let_def)

lemma insert_batch_inv: "preserves tq_inv (insert_batch now batch)"
  unfolding insert_batch_def
  by (intro preserves_sfor yields_sbind [OF insert_task_inv] yields_sret TrueI)

lemma dispatch_loop_inv: "preserves tq_inv (dispatch_loop now n ts batch k)"
  by (induction now n ts batch k rule: dispatch_loop.induct)
    (auto simp: Let_def intro!: yields_sret yields_sbind [OF insert_batch_inv])

lemma dispatch_next_id: "preserves (\<lambda>db. n \<le> next_id db) (dispatch_loop now k ts batch d)"
proof -
  have one: "preserves (\<lambda>db. n \<le> next_id db) (insert_task now arch m c p)" for now arch m c p
    by (auto simp: yields_def insert_task_def on_partition_def)
  have batch: "preserves (\<lambda>db. n \<le> next_id db) (insert_batch now b)" for now b
    unfolding insert_batch_def by (intro preserves_sfor yields_sbind [OF one] yields_sret TrueI)
  show ?thesis
    by (induction now k ts batch d rule: dispatch_loop.induct)
      (auto simp: Let_def intro!: yields_sret yields_sbind [OF batch])
qed

text \<open>A rollback keeps the invariant, for the ids that were drawn are larger.\<close>

lemma transaction_inv:
  assumes "preserves tq_inv m" "\<And>n. preserves (\<lambda>db. n \<le> next_id db) m"
  shows "preserves tq_inv (transaction m)"
proof (rule yieldsI)
  fix db assume I: "tq_inv db"
  obtain db' r where m: "m db = (db', r)" by fastforce
  have "next_id db \<le> next_id db'" using yieldsD [OF assms(2) _ m, of "next_id db"] by simp
  with I have "tq_inv (db\<lparr>next_id := next_id db'\<rparr>)" by (fastforce simp: tq_inv_def list_all_iff)
  with yieldsD [OF assms(1) I m] m show "tq_inv (fst (transaction m db))"
    by (cases r) (simp_all add: transaction_def)
qed

lemma failed_row_change: "row_change p (failed_row now msg)"
  by (auto simp: row_change_def row_ok_def failed_row_def)

lemma fetch_tasks_inv: "preserves tq_inv (fetch_tasks wid node now locked arch n mode)"
proof -
  have "row_change p (claim wid node now)" for p by (auto simp: row_change_def row_ok_def claim_def)
  from sql_update_inv [OF this] show ?thesis
    unfolding fetch_tasks_def by (intro on_partition_inv yieldsI) (simp add: Let_def)
qed

lemma reset_inv: "preserves tq_inv (retry_task i arch n)" "preserves tq_inv (reset_stale_tasks now timeout)"
proof -
  have retry: "row_change p (\<lambda>t. t\<lparr>t_status := ''pending'', t_retry := t_retry t + 1, t_worker := None,
      t_node := None, t_started := None, t_completed := None, t_error := None\<rparr>)" for p
    by (auto simp: row_change_def row_ok_def)
  have stale: "row_change p (\<lambda>t. t\<lparr>t_status := ''pending'', t_worker := None, t_node := None,
      t_started := None, t_retry := t_retry t + 1\<rparr>)" for p
    by (auto simp: row_change_def row_ok_def)
  show "preserves tq_inv (retry_task i arch n)"
    unfolding retry_task_def by (intro on_partition_inv yieldsI) (simp add: Let_def sql_update_inv [OF retry])
  show "preserves tq_inv (reset_stale_tasks now timeout)"
    by (rule yieldsI) (simp add: reset_stale_tasks_def sql_update_inv [OF stale])
qed

lemma status_inv:
  "preserves tq_inv (tq_mark_completed now i arch)" "preserves tq_inv (tq_mark_failed now i a msg)"
  "preserves tq_inv (tq_mark_pending i arch)"
proof -
  show "preserves tq_inv (tq_mark_completed now i arch)"
    unfolding tq_mark_completed_def by (intro on_partition_inv update_inv) (auto simp: row_change_def row_ok_def)
  show "preserves tq_inv (tq_mark_pending i arch)"
    unfolding tq_mark_pending_def by (intro on_partition_inv update_inv) (auto simp: row_change_def row_ok_def)
  show "preserves tq_inv (tq_mark_failed now i a msg)"
    by (auto simp: tq_mark_failed_def split: option.splits intro!: on_partition_inv update_inv failed_row_change)
qed

lemma insert_task_next_id: "preserves (\<lambda>db. n \<le> next_id db) (insert_task now arch m c p)"
  by (auto simp: yields_def insert_task_def on_partition_def)

lemma apply_op_inv: "tq_inv db \<Longrightarrow> tq_inv (apply_op op db)"
proof (cases op)
  case (Dispatch now n ts)
  then show "tq_inv db \<Longrightarrow> ?thesis"
    using transaction_inv [OF dispatch_loop_inv dispatch_next_id] by (simp add: dispatch_bulk_def yields_def)
next
  case (DispatchOne now arch m c p)
  then show "tq_inv db \<Longrightarrow> ?thesis"
    using transaction_inv [OF insert_task_inv insert_task_next_id] by (simp add: dispatch_single_def yields_def)
next
  case (Partition arch)
  then show "tq_inv db \<Longrightarrow> ?thesis" by (auto simp: ensure_partition_def tq_inv_def list_all_iff)
next
  case (ExtraUts i ts)
  then show "tq_inv db \<Longrightarrow> ?thesis" by (simp add: insert_extra_uts_def tq_inv_def)
next
  case (Save now i r)
  then show "tq_inv db \<Longrightarrow> ?thesis" by (auto simp: tq_save_tuning_result_def tq_inv_def split: sum.splits)
qed (use fetch_tasks_inv status_inv reset_inv in \<open>simp_all add: yields_def\<close>)

lemma fold_apply_op_inv: "tq_inv db \<Longrightarrow> tq_inv (fold apply_op ops db)"
  by (induction ops arbitrary: db) (simp_all add: apply_op_inv)

lemma task_queue_inv: "tq_inv (fold apply_op ops empty_db)"
  by (rule fold_apply_op_inv) (simp add: tq_inv_def empty_db_def)

text \<open>
  C13: The life of a task. Whatever sequence of dispatches, claims, status changes, retries, stale
  resets and result writes has been done to an empty database, and whichever of them failed or
  were rolled back: ids are unique and ascending, pending tasks have no owner, running tasks have
  one and a start time, and retry counts are not negative.
\<close>

theorem task_queue_invariant: "tq_inv (fold apply_op ops empty_db)"
  by (rule task_queue_inv)

section \<open>What a claim returns\<close>

lemma tq_inv_distinct: "tq_inv db \<Longrightarrow> distinct (map t_id (task_rows db))"
  by (auto simp: tq_inv_def strict_sorted_iff)

lemma fetch_tasks_rows:
  assumes "tq_inv db" "arch \<in> set (partitions db)"
    and "fetch_tasks wid node now locked arch n mode db = (db', Inr ts)"
  shows "ts = map (claim wid node now)
           (filter (\<lambda>t. t \<in> set (take n (claimable arch mode locked db))) (task_rows db))"
    and "task_rows db' = map (\<lambda>t. if t \<in> set (take n (claimable arch mode locked db))
                                 then claim wid node now t else t) (task_rows db)"
    and "next_id db' = next_id db" "partitions db' = partitions db"
proof -
  let ?C = "take n (claimable arch mode locked db)"
  define hit where "hit = (\<lambda>t::task_row. t_arch t = arch \<and> t_id t \<in> set (map t_id ?C))"
  define g where "g = (\<lambda>t. if t \<in> set ?C then claim wid node now t else t)"
  have C: "set ?C \<subseteq> set (task_rows db)" "\<And>t. t \<in> set ?C \<Longrightarrow> t_arch t = arch"
    by (auto simp: claimable_def dest: in_set_takeD)
  have hit: "hit t \<longleftrightarrow> t \<in> set ?C" if "t \<in> set (task_rows db)" for t
    using that C tq_inv_distinct [OF assms(1)] by (auto simp: hit_def distinct_map dest: inj_onD)
  have hit_g: "hit (g t) = hit t" for t by (simp add: hit_def g_def claim_def)
  from assms(2,3) have db': "db' = sql_update hit (claim wid node now) db"
    and ts: "ts = filter hit (task_rows db')"
    by (auto simp: fetch_tasks_def on_partition_def Let_def hit_def)
  have rows: "task_rows db' = map g (task_rows db)"
    using hit by (auto simp: db' sql_update_def g_def)
  have "filter hit (map g (task_rows db)) = map g (filter hit (task_rows db))"
    by (simp add: filter_map comp_def hit_g)
  also have "filter hit (task_rows db) = filter (\<lambda>t. t \<in> set ?C) (task_rows db)"
    by (rule filter_cong) (simp_all add: hit)
  also have "map g \<dots> = map (claim wid node now) \<dots>" by (simp add: g_def)
  finally show "ts = map (claim wid node now) (filter (\<lambda>t. t \<in> set ?C) (task_rows db))"
    using rows ts by simp
  show "task_rows db' = map (\<lambda>t. if t \<in> set ?C then claim wid node now t else t) (task_rows db)"
    using rows by (simp add: g_def)
  show "next_id db' = next_id db" "partitions db' = partitions db"
    by (simp_all add: db' sql_update_def)
qed

lemma sorted_claims:
  "distinct (map t_id ts) \<Longrightarrow> sorted_wrt (\<lambda>t u. (- t_priority t, t_id t) \<le> (- t_priority u, t_id u)) ts \<Longrightarrow>
     sorted_wrt (\<lambda>t u. t_priority t > t_priority u \<or> t_priority t = t_priority u \<and> t_id t < t_id u) ts"
  by (induction ts) (force simp: less_eq_prod_def less_prod_def)+

lemma claimable_sorted:
  assumes "tq_inv db"
  shows "sorted_wrt (\<lambda>t u. t_priority t > t_priority u \<or> t_priority t = t_priority u \<and> t_id t < t_id u)
           (claimable arch mode locked db)"
proof -
  let ?C = "claimable arch mode locked db"
  have "distinct (map t_id ?C)"
    using tq_inv_distinct [OF assms] by (simp add: claimable_def distinct_map) (auto intro: inj_on_subset)
  moreover have "sorted_wrt (\<lambda>t u. (- t_priority t, t_id t) \<le> (- t_priority u, t_id u)) ?C"
    using sorted_sort_key [of "\<lambda>t. (- t_priority t, t_id t)"] by (simp add: claimable_def sorted_wrt_map)
  ultimately show ?thesis by (rule sorted_claims)
qed

text \<open>
  The specification of a claim, row by row: which rows may be claimed at all, and which row comes
  before which. A module of the operators ends in op after some character.
\<close>

definition may_claim :: "string \<Rightarrow> string \<Rightarrow> (int \<Rightarrow> bool) \<Rightarrow> task_row \<Rightarrow> bool" where
  "may_claim arch tuning_mode locked t \<longleftrightarrow>
     t_status t = ''pending'' \<and> t_arch t = arch \<and> \<not> locked (t_id t)
     \<and> (tuning_mode = ''op'') = (length (t_module t) \<ge> 3 \<and> drop (length (t_module t) - 2) (t_module t) = ''op'')"

definition earlier :: "task_row \<Rightarrow> task_row \<Rightarrow> bool" where
  "earlier t u \<longleftrightarrow> t_priority t > t_priority u \<or> t_priority t = t_priority u \<and> t_id t < t_id u"

lemma like_op: "like ''_op'' s \<longleftrightarrow> length s = 3 \<and> drop (length s - 2) s = ''op''"
proof (cases "length s = 3")
  case True
  then obtain a b c where "s = [a, b, c]" by (auto simp: numeral_3_eq_3 length_Suc_conv)
  then show ?thesis by auto
next
  case False
  then show ?thesis by (auto split: list.splits)
qed

lemma like_percent_op: "like ''%_op'' s \<longleftrightarrow> length s \<ge> 3 \<and> drop (length s - 2) s = ''op''"
proof -
  have "like ''%_op'' s \<longleftrightarrow> (\<exists>n\<le>length s. like ''_op'' (drop n s))"
    by (subst like.simps(2)) (simp only: list_ex_iff set_upt atLeastLessThan_iff less_Suc_eq_le Bex_def if_True simp_thms le0)
  also have "\<dots> \<longleftrightarrow> (\<exists>n\<le>length s. length s - n = 3 \<and> drop (length s - n - 2 + n) s = ''op'')"
    unfolding like_op by simp
  also have "\<dots> \<longleftrightarrow> length s \<ge> 3 \<and> drop (length s - 2) s = ''op''"
    by (auto intro!: exI [of _ "length s - 3"])
  finally show ?thesis .
qed

lemma may_claim_eq:
  "may_claim arch mode locked t \<longleftrightarrow>
     t_arch t = arch \<and> t_status t = ''pending'' \<and> wanted_module mode (t_module t) \<and> \<not> locked (t_id t)"
  unfolding may_claim_def wanted_module_def like_percent_op by auto

text \<open>In a list sorted by a strict order an element is among the first \<open>n\<close> if fewer than \<open>n\<close> come before it.\<close>

lemma filter_before:
  assumes "sorted_wrt R xs" "\<And>x y. R x y \<Longrightarrow> \<not> R y x" "i < length xs"
  shows "filter (\<lambda>u. R u (xs ! i)) xs = take i xs"
proof -
  have xs: "xs = take i xs @ xs ! i # drop (Suc i) xs" using assms(3) by (rule id_take_nth_drop)
  with assms(1) have "sorted_wrt R (take i xs @ xs ! i # drop (Suc i) xs)" by simp
  then have before: "\<forall>u\<in>set (take i xs). R u (xs ! i)" and after: "\<forall>u\<in>set (drop (Suc i) xs). R (xs ! i) u"
    by (simp_all add: sorted_wrt_append)
  have "filter (\<lambda>u. R u (xs ! i)) (take i xs) = take i xs" using before by (simp add: filter_id_conv)
  moreover have "filter (\<lambda>u. R u (xs ! i)) (drop (Suc i) xs) = []" using after assms(2) by (auto simp: filter_empty_conv)
  moreover have "\<not> R (xs ! i) (xs ! i)" using assms(2) by blast
  ultimately show ?thesis using xs by (metis append.right_neutral filter.simps(2) filter_append)
qed

lemma in_take_before:
  assumes "sorted_wrt R xs" "\<And>x y. R x y \<Longrightarrow> \<not> R y x"
  shows "x \<in> set (take n xs) \<longleftrightarrow> x \<in> set xs \<and> length (filter (\<lambda>u. R u x) xs) < n"
proof
  assume "x \<in> set (take n xs)"
  then obtain i where i: "i < n" "i < length xs" "x = xs ! i" by (auto simp: in_set_conv_nth)
  then show "x \<in> set xs \<and> length (filter (\<lambda>u. R u x) xs) < n" using filter_before [OF assms i(2)] by simp
next
  assume x: "x \<in> set xs \<and> length (filter (\<lambda>u. R u x) xs) < n"
  then obtain i where i: "i < length xs" "x = xs ! i" by (auto simp: in_set_conv_nth)
  then have "i < n" using x filter_before [OF assms i(1)] by simp
  then show "x \<in> set (take n xs)" using i by (auto simp: in_set_conv_nth)
qed

lemma claimed_iff:
  assumes "tq_inv db" "t \<in> set (task_rows db)"
  shows "t \<in> set (take n (claimable arch mode locked db)) \<longleftrightarrow>
    may_claim arch mode locked t
    \<and> length (filter (\<lambda>u. may_claim arch mode locked u \<and> earlier u t) (task_rows db)) < n"
proof -
  let ?C = "claimable arch mode locked db"
  have sorted: "sorted_wrt earlier ?C" using claimable_sorted [OF assms(1)] by (simp add: earlier_def [abs_def])
  have C: "mset ?C = mset (filter (may_claim arch mode locked) (task_rows db))"
    by (simp add: claimable_def may_claim_eq [abs_def])
  have "length (filter (\<lambda>u. earlier u t) ?C) = size (filter_mset (\<lambda>u. earlier u t) (mset ?C))" by (metis mset_filter size_mset)
  also have "\<dots> = length (filter (\<lambda>u. earlier u t) (filter (may_claim arch mode locked) (task_rows db)))"
    unfolding C by (metis mset_filter size_mset)
  also have "\<dots> = length (filter (\<lambda>u. may_claim arch mode locked u \<and> earlier u t) (task_rows db))"
    by (simp add: conj_commute)
  finally have len: "length (filter (\<lambda>u. earlier u t) ?C)
    = length (filter (\<lambda>u. may_claim arch mode locked u \<and> earlier u t) (task_rows db))" .
  have mem: "t \<in> set ?C \<longleftrightarrow> may_claim arch mode locked t" using assms(2) by (simp add: claimable_def may_claim_eq)
  have "t \<in> set (take n ?C) \<longleftrightarrow> t \<in> set ?C \<and> length (filter (\<lambda>u. earlier u t) ?C) < n"
    using sorted by (rule in_take_before) (auto simp: earlier_def)
  then show ?thesis unfolding mem len .
qed

text \<open>
  C15: A claim takes the first tasks of its order and nothing else. A row is taken exactly if it is
  pending, of the architecture, of the wanted kind of module and not locked by another
  transaction, and fewer than the batch size of such rows come before it, that is have a higher
  priority or the same one and a smaller id. The rows taken are returned; each now runs for this
  worker on this node since this time, and no other row and nothing else of a row has changed.
\<close>

theorem fetch_takes_first:
  assumes "tq_inv db" "arch \<in> set (partitions db)"
    and "fetch_tasks wid node now locked arch n mode db = (db', Inr ts)"
  defines "taken \<equiv> \<lambda>t. may_claim arch mode locked t
    \<and> length (filter (\<lambda>u. may_claim arch mode locked u \<and> earlier u t) (task_rows db)) < n"
    and "mine \<equiv> \<lambda>t. t\<lparr>t_status := ''running'', t_worker := Some wid, t_node := Some node, t_started := Some now\<rparr>"
  shows "ts = map mine (filter taken (task_rows db))
    \<and> task_rows db' = map (\<lambda>t. if taken t then mine t else t) (task_rows db)
    \<and> next_id db' = next_id db \<and> partitions db' = partitions db"
proof -
  let ?C = "take n (claimable arch mode locked db)"
  have mine: "claim wid node now = mine" by (simp add: fun_eq_iff claim_def mine_def)
  have taken: "t \<in> set ?C \<longleftrightarrow> taken t" if "t \<in> set (task_rows db)" for t
    unfolding taken_def using assms(1) that by (rule claimed_iff)
  have "filter (\<lambda>t. t \<in> set ?C) (task_rows db) = filter taken (task_rows db)"
    "map (\<lambda>t. if t \<in> set ?C then mine t else t) (task_rows db) = map (\<lambda>t. if taken t then mine t else t) (task_rows db)"
    using taken by (auto intro: filter_cong)
  then show ?thesis using fetch_tasks_rows [OF assms(1-3)] unfolding mine by simp
qed

definition ex_queue_ops :: "tq_op list" where
  "ex_queue_ops =
     [Partition ''gfx942'', DispatchOne 0 ''gfx942'' ''flash'' ONone 5, DispatchOne 1 ''gfx942'' ''flash'' ONone 9,
      DispatchOne 2 ''gfx942'' ''flash_op'' ONone 9, DispatchOne 3 ''gfx90a'' ''flash'' ONone 9]"

definition ex_db :: tuner_db where
  "ex_db = fold apply_op ex_queue_ops empty_db"

lemma ex_db_ok: "tq_inv ex_db" "''gfx942'' \<in> set (partitions ex_db)"
  unfolding ex_db_def by (rule task_queue_inv, code_simp)

theorem fetch_takes_first_witness:
  "\<exists>db' t. fetch_tasks ''w'' ''n'' 9 (\<lambda>_. False) ''gfx942'' 1 ''kernel'' ex_db = (db', Inr [t])
     \<and> t_id t = 2 \<and> t_status t = ''running'' \<and> map t_status (task_rows db') = [''pending'', ''running'', ''pending'']"
proof -
  let ?T = "\<lambda>t. may_claim ''gfx942'' ''kernel'' (\<lambda>_. False) t
    \<and> length (filter (\<lambda>u. may_claim ''gfx942'' ''kernel'' (\<lambda>_. False) u \<and> earlier u t) (task_rows ex_db)) < 1"
  obtain db' ts where f: "fetch_tasks ''w'' ''n'' 9 (\<lambda>_. False) ''gfx942'' 1 ''kernel'' ex_db = (db', Inr ts)"
    using ex_db_ok(2) by (auto simp: fetch_tasks_def on_partition_def Let_def)
  let ?M = "\<lambda>t. t\<lparr>t_status := ''running'', t_worker := Some ''w'', t_node := Some ''n'', t_started := Some 9\<rparr>"
  have "map (\<lambda>t. (t_id t, t_status t)) (map ?M (filter ?T (task_rows ex_db))) = [(2, ''running'')]"
    "map t_status (map (\<lambda>t. if ?T t then ?M t else t) (task_rows ex_db)) = [''pending'', ''running'', ''pending'']" by code_simp+
  moreover have "ts = map ?M (filter ?T (task_rows ex_db))"
    "task_rows db' = map (\<lambda>t. if ?T t then ?M t else t) (task_rows ex_db)"
    using fetch_takes_first [OF ex_db_ok f] by blast+
  ultimately have r: "map (\<lambda>t. (t_id t, t_status t)) ts = [(2, ''running'')]"
    "map t_status (task_rows db') = [''pending'', ''running'', ''pending'']" by (simp_all only:)
  from r(1) obtain t where t: "ts = [t]" "t_id t = 2" "t_status t = ''running''" by auto
  show ?thesis using f r(2) unfolding t(1) by (intro exI conjI) (assumption | rule t)+
qed

section \<open>A task is claimed once\<close>

definition non_reset :: "tq_op \<Rightarrow> bool" where
  "non_reset op = (case op of Pend _ _ \<Rightarrow> False | Retry _ _ _ \<Rightarrow> False | ResetStale _ _ \<Rightarrow> False | _ \<Rightarrow> True)"

text \<open>A task that exists and is not pending stays so, unless it is reset.\<close>

definition taken :: "int \<Rightarrow> tuner_db \<Rightarrow> bool" where
  "taken i db \<longleftrightarrow> i < next_id db \<and> list_all (\<lambda>t. t_id t = i \<longrightarrow> t_status t \<noteq> ''pending'') (task_rows db)"

lemma taken_update:
  "(\<And>t. t_id (f t) = t_id t \<and> t_status (f t) \<noteq> ''pending'') \<Longrightarrow> taken i db \<Longrightarrow> taken i (sql_update p f db)"
  by (auto simp: taken_def sql_update_def list_all_iff)

lemma taken_supd:
  "(\<And>t. t_id (f t) = t_id t \<and> t_status (f t) \<noteq> ''pending'') \<Longrightarrow> preserves (taken i) (supd (sql_update p f))"
  by (rule preserves_supd) (rule taken_update)

lemma taken_partition: "preserves (taken i) m \<Longrightarrow> preserves (taken i) (on_partition arch m)"
  by (auto simp: yields_def on_partition_def)

lemma taken_fetch: "preserves (taken i) (fetch_tasks wid node now locked arch n mode)"
  unfolding fetch_tasks_def
  by (intro taken_partition yieldsI) (simp add: Let_def taken_update claim_def)

lemma taken_insert: "preserves (taken i) (insert_task now arch m c p)"
  unfolding insert_task_def by (intro taken_partition yieldsI) (auto simp: taken_def list_all_iff)

lemma taken_dispatch: "preserves (taken i) (dispatch_loop now k ts batch d)"
proof -
  have batch: "preserves (taken i) (insert_batch now b)" for now b
    unfolding insert_batch_def by (intro preserves_sfor yields_sbind [OF taken_insert] yields_sret TrueI)
  show ?thesis
    by (induction now k ts batch d rule: dispatch_loop.induct)
      (auto simp: Let_def intro!: yields_sret yields_sbind [OF batch])
qed

lemma taken_transaction:
  assumes "preserves (taken i) m" "\<And>n. preserves (\<lambda>db. n \<le> next_id db) m"
  shows "preserves (taken i) (transaction m)"
proof (rule yieldsI)
  fix db assume t: "taken i db"
  obtain db' r where m: "m db = (db', r)" by fastforce
  have "next_id db \<le> next_id db'" using yieldsD [OF assms(2) _ m, of "next_id db"] by simp
  with t have "taken i (db\<lparr>next_id := next_id db'\<rparr>)" by (simp add: taken_def)
  with yieldsD [OF assms(1) t m] m show "taken i (fst (transaction m db))"
    by (cases r) (simp_all add: transaction_def)
qed

lemma taken_apply: "non_reset op \<Longrightarrow> taken i db \<Longrightarrow> taken i (apply_op op db)"
proof (induction op)
  case (Dispatch now n ts)
  then show ?case
    using taken_transaction [OF taken_dispatch dispatch_next_id] by (simp add: dispatch_bulk_def yields_def)
next
  case (DispatchOne now arch m c p)
  then show ?case
    using taken_transaction [OF taken_insert insert_task_next_id] by (simp add: dispatch_single_def yields_def)
next
  case (Complete now j arch)
  have "preserves (taken i) (tq_mark_completed now j arch)"
    unfolding tq_mark_completed_def by (intro taken_partition taken_supd) simp
  with Complete show ?case by (simp add: yields_def)
next
  case (Fail now j a msg)
  have "preserves (taken i) (tq_mark_failed now j a msg)"
    by (auto simp: tq_mark_failed_def failed_row_def split: option.splits intro!: taken_partition taken_supd)
  with Fail show ?case by (simp add: yields_def)
next
  case (Partition arch)
  then show ?case by (simp add: ensure_partition_def taken_def)
next
  case (ExtraUts j ts)
  then show ?case by (simp add: insert_extra_uts_def taken_def)
next
  case (Save now j r)
  then show ?case by (auto simp: tq_save_tuning_result_def taken_def split: sum.splits)
qed (use taken_fetch in \<open>simp_all add: non_reset_def yields_def\<close>)

lemma fetch_tasks_fails: "fetch_tasks wid node now locked arch n mode db = (db', Inr ts) \<Longrightarrow> arch \<in> set (partitions db)"
  by (simp add: fetch_tasks_def on_partition_def split: if_splits)

lemma fetched_taken:
  assumes "tq_inv db" "fetch_tasks wid node now locked arch n mode db = (db', Inr ts)" "t \<in> set ts"
  shows "taken (t_id t) db'"
proof -
  note rows = fetch_tasks_rows [OF assms(1) fetch_tasks_fails [OF assms(2)] assms(2)]
  let ?C = "set (take n (claimable arch mode locked db))"
  from assms(3) obtain c where c: "c \<in> ?C" "c \<in> set (task_rows db)" "t = claim wid node now c"
    unfolding rows(1) by auto
  have "u = c" if "u \<in> set (task_rows db)" "t_id u = t_id c" for u
    using that c(2) tq_inv_distinct [OF assms(1)] by (auto simp: distinct_map dest: inj_onD)
  with c have "list_all (\<lambda>u. t_id u = t_id t \<longrightarrow> t_status u \<noteq> ''pending'') (task_rows db')"
    unfolding rows(2) by (auto simp: list_all_iff claim_def split: if_splits)
  moreover have "t_id t < next_id db'"
    using c assms(1) rows(3) by (auto simp: tq_inv_def list_all_iff claim_def)
  ultimately show ?thesis by (simp add: taken_def)
qed

text \<open>
  C14: A task is claimed once. After a worker has claimed tasks, no other claim, by whomever, for
  any architecture and kind of module, returns one of them, whatever happened in between short
  of setting tasks back to pending.
\<close>

theorem claims_disjoint:
  assumes "tq_inv db" "fetch_tasks wid node now locked arch n mode db = (db1, Inr ts)"
    and "list_all non_reset ops"
    and "fetch_tasks wid' node' now' locked' arch' n' mode' (fold apply_op ops db1) = (db3, Inr us)"
  shows "set (map t_id ts) \<inter> set (map t_id us) = {}"
proof -
  have "taken i db1 \<Longrightarrow> taken i (fold apply_op ops db1)" for i
    using assms(3) by (induction ops arbitrary: db1) (simp_all add: taken_apply)
  then have taken: "taken (t_id t) (fold apply_op ops db1)" if "t \<in> set ts" for t
    using fetched_taken [OF assms(1,2) that] by blast
  have "tq_inv db1" using fetch_tasks_inv assms(1,2) by (metis yieldsD)
  then have "tq_inv (fold apply_op ops db1)" by (rule fold_apply_op_inv)
  from fetch_tasks_rows(1) [OF this fetch_tasks_fails [OF assms(4)] assms(4)]
  have "\<exists>c \<in> set (task_rows (fold apply_op ops db1)). t_id c = t_id u \<and> t_status c = ''pending''"
    if "u \<in> set us" for u
    using that by (fastforce simp: claimable_def claim_def dest: in_set_takeD)
  with taken show ?thesis by (fastforce simp: taken_def list_all_iff)
qed

theorem claims_disjoint_witness:
  "\<exists>db1 ts db3 us.
     fetch_tasks ''w'' ''n'' 9 (\<lambda>_. False) ''gfx942'' 1 ''kernel'' ex_db = (db1, Inr ts)
     \<and> fetch_tasks ''v'' ''n'' 20 (\<lambda>_. False) ''gfx942'' 5 ''kernel'' (fold apply_op [Complete 15 2 ''gfx942''] db1)
         = (db3, Inr us)
     \<and> set (map t_id ts) \<inter> set (map t_id us) = {} \<and> length ts = 1"
proof -
  obtain db1 ts where f: "fetch_tasks ''w'' ''n'' 9 (\<lambda>_. False) ''gfx942'' 1 ''kernel'' ex_db = (db1, Inr ts)"
    using ex_db_ok(2) by (auto simp: fetch_tasks_def on_partition_def Let_def)
  let ?db2 = "fold apply_op [Complete 15 2 ''gfx942''] db1"
  have "partitions db1 = partitions ex_db" by (rule fetch_tasks_rows(4) [OF ex_db_ok f])
  then have "''gfx942'' \<in> set (partitions ?db2)"
    using ex_db_ok(2) by (simp add: tq_mark_completed_def on_partition_def sql_update_def)
  then obtain db3 us where g: "fetch_tasks ''v'' ''n'' 20 (\<lambda>_. False) ''gfx942'' 5 ''kernel'' ?db2 = (db3, Inr us)"
    by (auto simp: fetch_tasks_def on_partition_def Let_def)
  have "length (projr (snd (fetch_tasks ''w'' ''n'' 9 (\<lambda>_. False) ''gfx942'' 1 ''kernel'' ex_db))) = 1"
    by code_simp
  with f have "length ts = 1" by simp
  moreover have "list_all non_reset [Complete 15 2 ''gfx942'']" by (simp add: non_reset_def)
  ultimately show ?thesis using f g claims_disjoint [OF ex_db_ok(1) f _ g] by blast
qed

text \<open>
  The statistics account for every task: after any sequence of operations the four counts of
  \<open>get_queue_stats\<close> add up to the number of tasks, for the whole queue as for a partition.
\<close>

lemma stats_complete:
  "sum_list (map snd (queue_stats (filter p (task_rows (fold apply_op ops empty_db)))))
     = length (filter p (task_rows (fold apply_op ops empty_db)))"
proof -
  have "list_all row_ok ts \<Longrightarrow> sum_list (map snd (queue_stats (filter p ts))) = length (filter p ts)" for ts
    by (induction ts) (auto simp: queue_stats_def count_status_def row_ok_def)
  moreover have "list_all row_ok (task_rows (fold apply_op ops empty_db))"
    using task_queue_inv [of ops] by (auto simp: tq_inv_def list_all_iff)
  ultimately show ?thesis by blast
qed

end
