(* ===== verification/Registry.thy ===== *)
theory Registry
  imports Prelude
begin

text \<open>
  \<open>v3python/utils/registry.py\<close>: the registries in which the code generators collect what the
  generated sources share. A registry object keeps one dictionary or list; a registration
  returns the new state and what the method returns. The repository at the end creates a
  registry when its name is first asked for.
\<close>

section \<open>StringRegistry\<close>

text \<open>
  The dictionary from strings to offsets; the key \<open>None\<close> holds the size of the packed string
  and is the first entry from the start.
\<close>

type_synonym string_registry = "(string option, nat) dict"

definition string_registry_init :: string_registry where
  "string_registry_init = [(None, 0)]"

definition sr_register :: "string_registry \<Rightarrow> string option \<Rightarrow> (string_registry \<times> nat) res" where
  "sr_register d s =
     (case s of
        None \<Rightarrow> Inl AssertionError
      | Some t \<Rightarrow>
          (case dget d (Some t) of
             Some offset \<Rightarrow> Inr (d, offset)
           | None \<Rightarrow>
               rmap (\<lambda>offset. (dset (dset d (Some t) offset) None (offset + length t + 1), offset))
                 (of_option KeyError (dget d None))))"

text \<open>The C string literal of one entry: quote, the string, backslash, zero, quote.\<close>

definition c_literal :: "string \<Rightarrow> string" where
  "c_literal s = ''\"'' @ s @ [CHR 0x5C, CHR ''0'', CHR 0x22]"

definition sr_get_data :: "string_registry \<Rightarrow> string" where
  "sr_get_data d = join [CHR 0x0A] (map (c_literal \<circ> the) (filter (\<lambda>k. k \<noteq> None) (dkeys d)))"

text \<open>A sequence of registrations, with the offsets they return.\<close>

fun sr_register_all :: "string_registry \<Rightarrow> string list \<Rightarrow> (string_registry \<times> nat list) res" where
  "sr_register_all d [] = Inr (d, [])"
| "sr_register_all d (s # ss) =
     rbind (sr_register d (Some s)) (\<lambda>(d', off).
     rmap (\<lambda>(d'', offs). (d'', off # offs)) (sr_register_all d' ss))"

section \<open>FunctionRegistry and SignaturedFunctionRegistry\<close>

record function_item =
  fi_ret :: string
  fi_name :: string
  fi_params :: string

type_synonym function_registry = "(string, function_item) dict"

definition fr_register ::
  "function_registry \<Rightarrow> string \<Rightarrow> string \<Rightarrow> string \<Rightarrow> string \<Rightarrow> function_registry \<times> string" where
  "fr_register d fsrc fret fname_pfx fparams =
     (case dget d fsrc of
        Some item \<Rightarrow> (d, fi_name item)
      | None \<Rightarrow>
          let findex = length d; fname = fname_pfx @ ''__'' @ show_nat findex
          in (dset d fsrc \<lparr>fi_ret = fret, fi_name = fname, fi_params = fparams\<rparr>, fname))"

type_synonym ('k, 'v) signatured_registry = "('k, nat \<times> 'v) dict"

definition sfr_register ::
  "('k, 'v) signatured_registry \<Rightarrow> 'k \<Rightarrow> 'v \<Rightarrow> ('k, 'v) signatured_registry \<times> nat" where
  "sfr_register d fsig fsrc =
     (case dget d fsig of
        Some (i, _) \<Rightarrow> (d, i)
      | None \<Rightarrow> let findex = length d in (dset d fsig (findex, fsrc), findex))"

definition sfr_contains :: "('k, 'v) signatured_registry \<Rightarrow> 'k \<Rightarrow> bool \<times> nat option" where
  "sfr_contains d fsig =
     (case dget d fsig of Some (i, _) \<Rightarrow> (True, Some i) | None \<Rightarrow> (False, None))"

section \<open>The remaining registries and the repository\<close>

text \<open>
  The values registered in the last three kinds are the generators' own objects, of one type
  \<open>'o\<close>. \<open>HsacoRegistry.register\<close> appends to the list under a key (made empty by the
  defaultdict) or replaces the list.
\<close>

definition hr_append :: "('o, 'o list) dict \<Rightarrow> 'o \<Rightarrow> 'o \<Rightarrow> ('o, 'o list) dict" where
  "hr_append d functional signature =
     dset d functional ((case dget d functional of None \<Rightarrow> [] | Some l \<Rightarrow> l) @ [signature])"

definition hr_replace :: "('o, 'o list) dict \<Rightarrow> 'o \<Rightarrow> 'o list \<Rightarrow> ('o, 'o list) dict" where
  "hr_replace d functional signatures = dset d functional signatures"

definition lr_register :: "'o list \<Rightarrow> 'o \<Rightarrow> 'o list" where
  "lr_register l elem = l @ [elem]"

definition dr_register :: "('o, 'o) dict \<Rightarrow> 'o \<Rightarrow> 'o \<Rightarrow> ('o, 'o) dict" where
  "dr_register d key v = dset d key v"

datatype 'o reg_object =
    StringReg string_registry
  | FunctionReg function_registry
  | SignaturedReg "('o, 'o) signatured_registry"
  | HsacoReg "('o, 'o list) dict"
  | ListReg "'o list"
  | DictReg "('o, 'o) dict"

datatype factory = StringFactory | FunctionFactory | SignaturedFactory | HsacoFactory
  | ListFactory | DictFactory

fun make_registry :: "factory \<Rightarrow> 'o reg_object" where
  "make_registry StringFactory = StringReg string_registry_init"
| "make_registry FunctionFactory = FunctionReg []"
| "make_registry SignaturedFactory = SignaturedReg []"
| "make_registry HsacoFactory = HsacoReg []"
| "make_registry ListFactory = ListReg []"
| "make_registry DictFactory = DictReg []"

type_synonym 'o repository = "(string, 'o reg_object) dict"

text \<open>
  The six getters differ in the factory only. A name that exists is returned as it is, whatever
  class it has.
\<close>

definition get_registry_with_factory ::
  "'o repository \<Rightarrow> string \<Rightarrow> factory \<Rightarrow> 'o repository \<times> 'o reg_object" where
  "get_registry_with_factory repo name factory =
     (let repo' = (if dhas repo name then repo else dset repo name (make_registry factory))
      in (repo', the (dget repo' name)))"

text \<open>\<open>get_data\<close>: the C code for a string registry, the dictionary or list for the others.\<close>

datatype 'o registry_data = Packed string | Contents "'o reg_object"

fun registry_get_data :: "'o reg_object \<Rightarrow> 'o registry_data" where
  "registry_get_data (StringReg d) = Packed (sr_get_data d)"
| "registry_get_data r = Contents r"

definition repo_get_data :: "'o repository \<Rightarrow> string \<Rightarrow> bool \<Rightarrow> 'o registry_data option res" where
  "repo_get_data repo name return_none =
     (case dget repo name of
        Some r \<Rightarrow> Inr (Some (registry_get_data r))
      | None \<Rightarrow> if return_none then Inr None else Inl KeyError)"

section \<open>What the C compiler makes of the packed string\<close>

text \<open>
  Adjacent string literals are concatenated. The reader is outside of a literal or inside of
  one; the only escape it accepts is an octal zero, which must not be followed by another digit.
\<close>

fun c_read :: "bool \<Rightarrow> string \<Rightarrow> string option" where
  "c_read False [] = Some []"
| "c_read True [] = None"
| "c_read False (c # cs) =
     (if c = CHR 0x22 then c_read True cs
      else if c = CHR 0x0A \<or> c = CHR '' '' then c_read False cs
      else None)"
| "c_read True (c # cs) =
     (if c = CHR 0x22 then c_read False cs
      else if c = CHR 0x0A then None
      else if c = CHR 0x5C then
        (case cs of
           z # cs' \<Rightarrow> if z = CHR ''0'' \<and> \<not> list_ex is_digit (take 1 cs')
                      then map_option ((#) (CHR 0x00)) (c_read True cs') else None
         | [] \<Rightarrow> None)
      else map_option ((#) c) (c_read True cs))"

text \<open>Strings that a C literal holds verbatim, one byte for each character.\<close>

definition c_plain :: "string \<Rightarrow> bool" where
  "c_plain s = list_all (\<lambda>c. c \<notin> {CHR 0x22, CHR 0x5C, CHR 0x0A} \<and> (of_char c :: nat) < 128) s"

definition c_packed :: "string list \<Rightarrow> string" where
  "c_packed ts = concat (map (\<lambda>t. t @ [CHR 0x00]) ts)"

lemma c_packed_simps [simp]:
  "c_packed [] = []" "c_packed (t # ts) = t @ CHR 0x00 # c_packed ts" "c_packed (ts @ us) = c_packed ts @ c_packed us"
  by (simp_all add: c_packed_def)

lemma c_read_inside:
  "c_plain s \<Longrightarrow> c_read True (s @ CHR 0x5C # CHR ''0'' # CHR 0x22 # rest)
     = map_option (\<lambda>r. s @ CHR 0x00 # r) (c_read False rest)"
proof (induction s)
  case Nil
  have "\<not> is_digit (CHR 0x22)" by (simp add: is_digit_def)
  then show ?case by simp
next
  case (Cons c s)
  then show ?case by (auto simp: c_plain_def option.map_comp comp_def)
qed

lemma c_read_literal:
  "c_plain s \<Longrightarrow> c_read False (c_literal s @ rest) = map_option (\<lambda>r. s @ CHR 0x00 # r) (c_read False rest)"
  using c_read_inside [of s rest] by (simp add: c_literal_def)

lemma c_read_packed:
  "list_all c_plain ts \<Longrightarrow> c_read False (join [CHR 0x0A] (map c_literal ts)) = Some (c_packed ts)"
proof (induction ts rule: induct_list012)
  case (2 t)
  then show ?case using c_read_literal [of t "[]"] by simp
next
  case (3 t u ts)
  then show ?case using c_read_literal [of t "CHR 0x0A # join [CHR 0x0A] (map c_literal (u # ts))"]
    by simp
qed simp

section \<open>The string registry\<close>

text \<open>What a string registry holds after the strings \<open>ts\<close> were registered for the first time.\<close>

definition sr_holds :: "string_registry \<Rightarrow> string list \<Rightarrow> bool" where
  "sr_holds d ts \<longleftrightarrow>
     distinct ts \<and> dkeys d = None # map Some ts \<and> dget d None = Some (length (c_packed ts))
     \<and> (\<forall>i<length ts. dget d (Some (ts ! i)) = Some (length (c_packed (take i ts))))"

lemma sr_holds_init: "sr_holds string_registry_init []"
  by (simp add: sr_holds_def string_registry_init_def dkeys_def)

lemma sr_register_step:
  assumes "sr_holds d ts"
  shows "\<exists>d' ts' i. sr_register d (Some s) = Inr (d', length (c_packed (take i ts'))) \<and> sr_holds d' ts'
           \<and> i < length ts' \<and> ts' ! i = s \<and> (\<exists>us. ts' = ts @ us) \<and> set ts' = insert s (set ts)"
proof (cases "s \<in> set ts")
  case True
  then obtain i where i: "i < length ts" "ts ! i = s" by (auto simp: in_set_conv_nth)
  then have "sr_register d (Some s) = Inr (d, length (c_packed (take i ts)))"
    using assms by (auto simp: sr_register_def sr_holds_def)
  then show ?thesis using assms i True by (intro exI [of _ d] exI [of _ ts] exI [of _ i]) auto
next
  case False
  have keys: "dkeys d = None # map Some ts" using assms by (simp add: sr_holds_def)
  have fresh: "\<not> dhas d (Some s)" "dhas d None" using False by (auto simp: dhas_iff keys)
  let ?n = "length (c_packed ts)"
  let ?d = "dset (dset d (Some s) ?n) None (?n + length s + 1)"
  have "sr_register d (Some s) = Inr (?d, length (c_packed (take (length ts) (ts @ [s]))))"
    using assms fresh by (simp add: sr_register_def sr_holds_def dhas_def)
  moreover have "sr_holds ?d (ts @ [s])"
    using assms False fresh by (auto simp: sr_holds_def dkeys_dset keys nth_append less_Suc_eq)
  ultimately show ?thesis
    by (intro exI [of _ ?d] exI [of _ "ts @ [s]"] exI [of _ "length ts"]) auto
qed

lemma drop_c_packed:
  "i < length ts \<Longrightarrow> take (length (ts ! i) + 1) (drop (length (c_packed (take i ts))) (c_packed (ts @ us)))
     = ts ! i @ [CHR 0x00]"
proof -
  assume "i < length ts"
  then have "ts @ us = take i ts @ ts ! i # drop (Suc i) ts @ us" by (simp add: id_take_nth_drop)
  then have "c_packed (ts @ us) = c_packed (take i ts @ ts ! i # drop (Suc i) ts @ us)" by (rule arg_cong)
  then show ?thesis by simp
qed

lemma sr_register_all_holds:
  assumes "sr_holds d ts"
  shows "\<exists>d' us offs. sr_register_all d ss = Inr (d', offs) \<and> sr_holds d' (ts @ us)
           \<and> set (ts @ us) = set ts \<union> set ss
           \<and> list_all2 (\<lambda>s off. take (length s + 1) (drop off (c_packed (ts @ us))) = s @ [CHR 0x00]) ss offs"
  using assms
proof (induction ss arbitrary: d ts)
  case Nil
  then show ?case by (intro exI [of _ d] exI [of _ "[]"]) simp
next
  case (Cons s ss)
  obtain d1 us1 i where reg: "sr_register d (Some s) = Inr (d1, length (c_packed (take i (ts @ us1))))"
    and h1: "sr_holds d1 (ts @ us1)" and i: "i < length (ts @ us1)" "(ts @ us1) ! i = s"
    and set1: "set (ts @ us1) = insert s (set ts)"
    using sr_register_step [OF Cons.prems, of s] by blast
  obtain d' us offs where all: "sr_register_all d1 ss = Inr (d', offs)" and h: "sr_holds d' ((ts @ us1) @ us)"
    and st: "set ((ts @ us1) @ us) = set (ts @ us1) \<union> set ss"
    and offs: "list_all2 (\<lambda>s off. take (length s + 1) (drop off (c_packed ((ts @ us1) @ us)))
                                  = s @ [CHR 0x00]) ss offs"
    using Cons.IH [OF h1] by blast
  have "take (length s + 1) (drop (length (c_packed (take i (ts @ us1)))) (c_packed ((ts @ us1) @ us)))
          = s @ [CHR 0x00]"
    using drop_c_packed [OF i(1), of us] i(2) by simp
  with reg all h st set1 offs show ?case
    by (intro exI [of _ d'] exI [of _ "us1 @ us"] exI [of _ "length (c_packed (take i (ts @ us1))) # offs"])
      (auto simp del: c_packed_simps)
qed

text \<open>
  C27: register strings of plain ASCII characters (no double quote, no backslash, no line feed),
  in any order and with repetitions. The text that \<open>StringRegistry.get_data\<close> emits is, for the C
  compiler, an array in which every registered string stands, NUL-terminated, at the offset its
  registration returned, and the recorded size is the length of that array. The restriction is
  needed, \<open>get_data\<close> escapes nothing.
\<close>

theorem string_offsets_valid:
  assumes "list_all c_plain ss"
  shows "\<exists>d offs arr. sr_register_all string_registry_init ss = Inr (d, offs)
           \<and> c_read False (sr_get_data d) = Some arr \<and> dget d None = Some (length arr)
           \<and> list_all2 (\<lambda>s off. take (length s + 1) (drop off arr) = s @ [CHR 0x00]) ss offs"
proof -
  obtain d ts offs where reg: "sr_register_all string_registry_init ss = Inr (d, offs)"
    and h: "sr_holds d ts" and st: "set ts = set ss"
    and offs: "list_all2 (\<lambda>s off. take (length s + 1) (drop off (c_packed ts)) = s @ [CHR 0x00]) ss offs"
    using sr_register_all_holds [OF sr_holds_init, of ss] by auto
  have "sr_get_data d = join [CHR 0x0A] (map c_literal ts)"
    using h by (simp add: sr_get_data_def sr_holds_def filter_map comp_def)
  moreover have "list_all c_plain ts" using assms st by (simp add: list_all_iff)
  ultimately have "c_read False (sr_get_data d) = Some (c_packed ts)" by (simp add: c_read_packed)
  then show ?thesis using reg h offs by (auto simp: sr_holds_def)
qed

theorem string_offsets_valid_witness:
  "\<exists>d offs arr. sr_register_all string_registry_init [''BLOCK_M=64'', ''num_warps=4'', ''BLOCK_M=64''] = Inr (d, offs)
     \<and> c_read False (sr_get_data d) = Some arr \<and> dget d None = Some (length arr)
     \<and> list_all2 (\<lambda>s off. take (length s + 1) (drop off arr) = s @ [CHR 0x00])
         [''BLOCK_M=64'', ''num_warps=4'', ''BLOCK_M=64''] offs"
  by (rule string_offsets_valid) (simp add: c_plain_def)

text \<open>
  Without the restriction it fails: a quote ends the literal early and the text is no
  sequence of string literals any more; an escape sequence is longer in the registry than in
  the array, so the offsets of the strings after it are wrong.
\<close>

lemma quote_breaks_packed_string:
  "case sr_register_all string_registry_init [[CHR ''a'', CHR 0x22, CHR ''b'']] of
     Inr (d, _) \<Rightarrow> c_read False (sr_get_data d) = None
   | Inl _ \<Rightarrow> False"
  by code_simp

lemma backslash_shifts_offsets:
  "case sr_register_all string_registry_init [[CHR 0x5C, CHR ''0''], ''x''] of
     Inr (d, offs) \<Rightarrow> offs = [0, 3] \<and> c_read False (sr_get_data d) = Some [CHR 0x00, CHR 0x00, CHR ''x'', CHR 0x00]
   | Inl _ \<Rightarrow> False"
  by code_simp

section \<open>Interning\<close>

text \<open>
  The interface the generators rely on: registering hands out a handle for a key, an equal key
  gets the same handle, handles of different keys differ, and a handle stays valid whatever is
  registered later.
\<close>

fun register_all :: "('s \<Rightarrow> 'q \<Rightarrow> 's \<times> 'h) \<Rightarrow> 's \<Rightarrow> 'q list \<Rightarrow> 's \<times> 'h list" where
  "register_all reg s [] = (s, [])"
| "register_all reg s (q # qs) =
     (let (s', h) = reg s q; (s'', hs) = register_all reg s' qs in (s'', h # hs))"

locale interning =
  fixes reg :: "'s \<Rightarrow> 'q \<Rightarrow> 's \<times> 'h"
    and key :: "'q \<Rightarrow> 'k"
    and handle :: "'s \<Rightarrow> 'k \<Rightarrow> 'h option"
    and invar :: "'s \<Rightarrow> bool"
  assumes reg_invar: "invar s \<Longrightarrow> invar (fst (reg s q))"
    and reg_handle: "invar s \<Longrightarrow> handle (fst (reg s q)) (key q) = Some (snd (reg s q))"
    and reg_stable: "invar s \<Longrightarrow> handle s k = Some h \<Longrightarrow> handle (fst (reg s q)) k = Some h"
    and handle_inj: "invar s \<Longrightarrow> handle s k = Some h \<Longrightarrow> handle s k' = Some h \<Longrightarrow> k = k'"
begin

lemma all_handles:
  assumes "invar s"
  shows "invar (fst (register_all reg s qs))"
    and "handle s k = Some h \<Longrightarrow> handle (fst (register_all reg s qs)) k = Some h"
    and "list_all2 (\<lambda>q h. handle (fst (register_all reg s qs)) (key q) = Some h) qs (snd (register_all reg s qs))"
  using assms
proof (induction qs arbitrary: s k h)
  case (Cons q qs)
  { case 1 then show ?case using Cons.IH(1) reg_invar by (simp add: case_prod_unfold Let_def)
  next case 2 then show ?case using Cons.IH(2) reg_invar reg_stable by (simp add: case_prod_unfold Let_def)
  next case 3 then show ?case
      using Cons.IH(2,3) [of "fst (reg s q)"] reg_invar reg_handle by (simp add: case_prod_unfold Let_def) }
qed simp_all

lemma handles_agree:
  assumes "invar s"
  shows "list_all2 (\<lambda>q h. list_all2 (\<lambda>q' h'. (h = h') = (key q = key q')) qs (snd (register_all reg s qs)))
           qs (snd (register_all reg s qs))"
proof -
  let ?s = "fst (register_all reg s qs)"
  note handles = all_handles(3) [OF assms, of qs]
  have uniq: "(h = h') = (key q = key q')" if "handle ?s (key q) = Some h" "handle ?s (key q') = Some h'" for q q' h h'
    using handle_inj [OF all_handles(1) [OF assms]] that by (metis option.inject)
  have "list_all2 (\<lambda>q' h'. (h = h') = (key q = key q')) qs (snd (register_all reg s qs))"
    if "handle ?s (key q) = Some h" for q h
    by (rule list_all2_mono [OF handles]) (rule uniq [OF that])
  then show ?thesis by (rule list_all2_mono [OF handles])
qed

end

section \<open>The function registries\<close>

text \<open>The name of the entry at position \<open>i\<close> ends in two underscores and \<open>i\<close>.\<close>

definition numbered_names :: "string list \<Rightarrow> bool" where
  "numbered_names ns \<longleftrightarrow> (\<forall>i<length ns. \<exists>pfx. ns ! i = pfx @ ''__'' @ show_nat i)"

lemma name_suffix_inj:
  assumes "p @ ''__'' @ show_nat i = q @ ''__'' @ show_nat j"
  shows "i = j"
proof -
  have "takeWhile is_digit (rev (p @ ''__'' @ show_nat n)) = rev (show_nat n)" for p n
    using show_nat_digits [of n] by (simp add: takeWhile_append is_digit_def)
  then have "rev (show_nat i) = rev (show_nat j)" using assms by metis
  then show ?thesis by (simp add: show_nat_inj)
qed

lemma numbered_names_inj:
  "numbered_names ns \<Longrightarrow> i < length ns \<Longrightarrow> j < length ns \<Longrightarrow> ns ! i = ns ! j \<Longrightarrow> i = j"
  by (metis numbered_names_def name_suffix_inj)

text \<open>The entries of a registry, in order: sources without repetition, numbered names.\<close>

definition fr_wf :: "function_registry \<Rightarrow> bool" where
  "fr_wf d \<longleftrightarrow> distinct (dkeys d) \<and> numbered_names (map (fi_name \<circ> snd) d)"

lemma fr_register_step:
  assumes "fr_wf d"
  shows "\<exists>d' n. fr_register d s r p a = (d', n) \<and> fr_wf d' \<and> (\<exists>e. d' = d @ e)
           \<and> map_option fi_name (dget d' s) = Some n"
proof (cases "dget d s")
  case None
  let ?it = "\<lparr>fi_ret = r, fi_name = p @ ''__'' @ show_nat (length d), fi_params = a\<rparr>"
  have eq: "dset d s ?it = d @ [(s, ?it)]" using None by (simp add: dset_fresh dhas_def)
  have "fr_wf (d @ [(s, ?it)])"
    using assms None
    by (auto simp: fr_wf_def numbered_names_def dkeys_def map_of_eq_None_iff nth_append less_Suc_eq)
  then show ?thesis using None eq dget_dset [of s ?it d s] by (auto simp: fr_register_def Let_def)
next
  case (Some it)
  then show ?thesis using assms by (auto simp: fr_register_def)
qed

lemma fr_names_inj:
  assumes "fr_wf d" "map_option fi_name (dget d s) = Some n" "map_option fi_name (dget d t) = Some n"
  shows "s = t"
proof -
  have mem: "(x, the (dget d x)) \<in> set d" if "map_option fi_name (dget d x) = Some n" for x
    using that by (auto dest: map_of_SomeD)
  obtain i where i: "i < length d" "d ! i = (s, the (dget d s))"
    using mem [OF assms(2)] by (auto simp: in_set_conv_nth)
  obtain j where j: "j < length d" "d ! j = (t, the (dget d t))"
    using mem [OF assms(3)] by (auto simp: in_set_conv_nth)
  have "map (fi_name \<circ> snd) d ! i = n" "map (fi_name \<circ> snd) d ! j = n"
    using assms(2,3) i j by auto
  then have "i = j" using numbered_names_inj [of "map (fi_name \<circ> snd) d" i j] assms(1) i j
    by (simp add: fr_wf_def)
  then show ?thesis using i j by simp
qed

text \<open>A registration of a function: source, return type, name prefix and parameters.\<close>

definition fr_reg :: "function_registry \<Rightarrow> string \<times> string \<times> string \<times> string \<Rightarrow> function_registry \<times> string" where
  "fr_reg d = (\<lambda>(fsrc, fret, pfx, params). fr_register d fsrc fret pfx params)"

interpretation fr: interning fr_reg fst "\<lambda>d s. map_option fi_name (dget d s)" fr_wf
proof unfold_locales
  fix d :: function_registry and q :: "string \<times> string \<times> string \<times> string" and k h
  assume w: "fr_wf d"
  obtain s r p a where q: "q = (s, r, p, a)" by (cases q)
  obtain d' n e where step: "fr_register d s r p a = (d', n)" "fr_wf d'" "d' = d @ e"
    "map_option fi_name (dget d' s) = Some n"
    using fr_register_step [OF w, of s r p a] by blast
  then show "fr_wf (fst (fr_reg d q))"
    and "map_option fi_name (dget (fst (fr_reg d q)) (fst q)) = Some (snd (fr_reg d q))"
    by (simp_all add: fr_reg_def q)
  show "map_option fi_name (dget (fst (fr_reg d q)) k) = Some h" if "map_option fi_name (dget d k) = Some h"
    using step that by (auto simp: fr_reg_def q map_add_def split: option.splits)
qed (rule fr_names_inj)

text \<open>
  the generated functions are deduplicated exactly: two registrations, with whatever
  prefixes, return the same function name if and only if they registered the same source.
\<close>

lemma function_names_deduplicate:
  "list_all2 (\<lambda>q n. list_all2 (\<lambda>q' n'. (n = n') = (fst q = fst q')) rs (snd (register_all fr_reg [] rs)))
     rs (snd (register_all fr_reg [] rs))"
  by (rule fr.handles_agree) (simp add: fr_wf_def numbered_names_def dkeys_def)

text \<open>The signatured registry numbers its keys in the order of registration.\<close>

definition sfr_wf :: "('k, 'v) signatured_registry \<Rightarrow> bool" where
  "sfr_wf d \<longleftrightarrow> distinct (dkeys d) \<and> map (fst \<circ> snd) d = [0..<length d]"

definition sfr_reg :: "('k, 'v) signatured_registry \<Rightarrow> 'k \<times> 'v \<Rightarrow> ('k, 'v) signatured_registry \<times> nat" where
  "sfr_reg d = (\<lambda>(fsig, fsrc). sfr_register d fsig fsrc)"

interpretation sfr: interning sfr_reg fst "\<lambda>d k. map_option fst (dget d k)" sfr_wf
proof unfold_locales
  fix d :: "('k, 'v) signatured_registry" and q :: "'k \<times> 'v" and k h
  assume w: "sfr_wf d"
  obtain s v where q: "q = (s, v)" by (cases q)
  have step: "sfr_wf (fst (sfr_register d s v)) \<and> (\<exists>e. fst (sfr_register d s v) = d @ e)
      \<and> map_option fst (dget (fst (sfr_register d s v)) s) = Some (snd (sfr_register d s v))"
  proof (cases "dget d s")
    case None
    then have eq: "sfr_register d s v = (d @ [(s, length d, v)], length d)"
      by (simp add: sfr_register_def Let_def dset_fresh dhas_def)
    have "s \<notin> fst ` set d" using None by (simp add: map_of_eq_None_iff)
    then show ?thesis using w None unfolding eq by (auto simp: sfr_wf_def dkeys_def map_add_def)
  next
    case (Some x)
    then show ?thesis using w by (cases x) (auto simp: sfr_register_def)
  qed
  then show "sfr_wf (fst (sfr_reg d q))"
    and "map_option fst (dget (fst (sfr_reg d q)) (fst q)) = Some (snd (sfr_reg d q))"
    by (simp_all add: sfr_reg_def q)
  show "map_option fst (dget (fst (sfr_reg d q)) k) = Some h" if "map_option fst (dget d k) = Some h"
    using step that by (auto simp: sfr_reg_def q map_add_def split: option.splits)
next
  fix d :: "('k, 'v) signatured_registry" and k k' h assume w: "sfr_wf d"
  have at: "h < length d \<and> fst (d ! h) = k" if "map_option fst (dget d k) = Some h" for k
  proof -
    from that obtain v where "dget d k = Some (h, v)" by auto
    then have "(k, h, v) \<in> set d" by (rule map_of_SomeD)
    then obtain i where i: "i < length d" "d ! i = (k, h, v)" by (auto simp: in_set_conv_nth)
    have "map (fst \<circ> snd) d ! i = [0..<length d] ! i" using w unfolding sfr_wf_def by (rule conjE) (rule arg_cong)
    then have "h = i" using i by simp
    then show ?thesis using i by simp
  qed
  assume "map_option fst (dget d k) = Some h" "map_option fst (dget d k') = Some h"
  then show "k = k'" using at by blast
qed

end
