(* ===== verification/KernelDesc.thy ===== *)
theory KernelDesc
  imports Functional PyObj
begin

text \<open>
  \<open>v3python/kernel/ksignature.py\<close> and the part of \<open>kernel/kdesc.py\<close> that does not deal with
  tuning tables (the theory TuneTable has those), with the small modules they use:
  \<open>autotune/config.py\<close>, \<open>codegen/common.py\<close> and the names an interface gives to the
  generated classes (\<open>base/interface.py\<close>, \<open>op/operator.py\<close>, \<open>op/metro.py\<close>,
  \<open>op/conditional.py\<close>).
\<close>

section \<open>Names of the generated classes\<close>

fun py_capitalize :: "string \<Rightarrow> string" where
  "py_capitalize [] = []"
| "py_capitalize (c # cs) = ascii_upper c # py_lower cs"

definition class_name_base :: "string \<Rightarrow> string" where
  "class_name_base NAME = concat (map py_capitalize (split_on CHR ''_'' (py_lower NAME)))"

definition param_class_name :: "string option \<Rightarrow> string \<Rightarrow> string" where
  "param_class_name SHARED_IFACE NAME =
     (case SHARED_IFACE of None \<Rightarrow> class_name_base NAME | Some s \<Rightarrow> class_name_base s) @ ''Params''"

definition context_class_name :: "string \<Rightarrow> string" where
  "context_class_name NAME = class_name_base NAME @ ''Context''"

definition metadata_class_name :: "string \<Rightarrow> string" where
  "metadata_class_name NAME = class_name_base NAME @ ''Metadata''"

definition kernel_enum_name :: "string \<Rightarrow> string" where
  "kernel_enum_name NAME = ''kShim_'' @ class_name_base NAME"

definition operator_enum_name :: "string \<Rightarrow> string" where
  "operator_enum_name NAME = ''kOp_'' @ class_name_base NAME"

definition metro_enum_name :: "string \<Rightarrow> string" where
  "metro_enum_name NAME = ''kMetro_'' @ class_name_base NAME"

definition conditional_name :: "string \<Rightarrow> string option \<Rightarrow> string" where
  "conditional_name if_kernel else_kernel =
     (case else_kernel of
        None \<Rightarrow> ''if_'' @ if_kernel
      | Some e \<Rightarrow> ''if_'' @ if_kernel @ ''_else_'' @ e)"

definition conditional_enum_name :: "string \<Rightarrow> string option \<Rightarrow> string" where
  "conditional_enum_name if_kernel else_kernel =
     ''kConditional_'' @ class_name_base (conditional_name if_kernel else_kernel)"

section \<open>KernelSignature\<close>

definition COMPACT_COMPILER_OPTIONS :: "(string, string) dict" where
  "COMPACT_COMPILER_OPTIONS =
     [(''waves_per_eu'', ''wave''), (''num_warps'', ''warp''), (''num_stages'', ''stg'')]"

definition COMPILER_OPTIONS :: "string list" where
  "COMPILER_OPTIONS = [''waves_per_eu'', ''num_warps'', ''num_stages'']"

definition DEFAULT_COPT :: "int list" where
  "DEFAULT_COPT = [2, 4, 1]"

record ksig =
  ks_functional :: functional
  ks_perfs :: "bind list"
  ks_copts :: "int list"

definition mk_ksig :: "functional \<Rightarrow> bind list \<Rightarrow> int list \<Rightarrow> ksig res" where
  "mk_ksig f perf_values copt_values =
     rmap (\<lambda>perfs. \<lparr>ks_functional = f, ks_perfs = perfs, ks_copts = copt_values\<rparr>)
       (rtraverse (settle_unresolved (build_tc_dict (f_binds f))) perf_values)"

text \<open>Iterating over a bind gives every argument name with its typed value.\<close>

definition bind_items :: "(string \<Rightarrow> tparam option) \<Rightarrow> bind \<Rightarrow> (string \<times> stc) list res" where
  "bind_items tp_dict b =
     rtraverse (\<lambda>aname. rmap (\<lambda>c. (aname, c)) (get_typed_value tp_dict b aname)) (tp_names (b_klass b))"

definition perf_items :: "(string \<Rightarrow> tparam option) \<Rightarrow> ksig \<Rightarrow> (string \<times> stc) list res" where
  "perf_items tp_dict k = rmap concat (rtraverse (bind_items tp_dict) (ks_perfs k))"

definition perf_cdict :: "(string \<Rightarrow> tparam option) \<Rightarrow> ksig \<Rightarrow> (string, pyval) dict res" where
  "perf_cdict tp_dict k =
     rbind (perf_items tp_dict k) (\<lambda>items.
     rmap dict_of (rtraverse (\<lambda>(aname, c). rmap (\<lambda>v. (aname, v)) (stc_json_value c)) items))"

definition perf_compact_dict :: "(string \<Rightarrow> tparam option) \<Rightarrow> ksig \<Rightarrow> (string, stc) dict res" where
  "perf_compact_dict tp_dict k =
     rmap dict_of
       (rtraverse (\<lambda>b. rmap (\<lambda>c. (b_name b, c)) (get_typed_value tp_dict b (b_name b))) (ks_perfs k))"

definition perf_signature :: "ksig \<Rightarrow> string res" where
  "perf_signature k = rmap (join ''_'') (rtraverse (\<lambda>p. tc_str (b_value p)) (ks_perfs k))"

definition copt_dict :: "ksig \<Rightarrow> (string, int) dict" where
  "copt_dict k = dict_of (zip COMPILER_OPTIONS (ks_copts k))"

definition copt_signature :: "ksig \<Rightarrow> string res" where
  "copt_signature k =
     rmap (join ''_'')
       (rtraverse (\<lambda>(oname, v). rmap (\<lambda>c. c @ show_int v) (of_option KeyError (dget COMPACT_COMPILER_OPTIONS oname)))
         (copt_dict k))"

definition perf_part :: "bind \<Rightarrow> string res" where
  "perf_part b =
     (case b_value b of
        Settled c \<Rightarrow> Inr (b_name b @ ''='' @ testrun_entry_signature c)
      | _ \<Rightarrow> Inl TypeError)"

definition perf_section :: "ksig \<Rightarrow> string res" where
  "perf_section k = rmap (join '';'') (rtraverse perf_part (ks_perfs k))"

definition copt_section :: "ksig \<Rightarrow> string" where
  "copt_section k = join '';'' (map (\<lambda>(k, v). k @ ''='' @ show_int v) (copt_dict k))"

definition hsaco_entry_name :: "ksig \<Rightarrow> string res" where
  "hsaco_entry_name k =
     rbind (unified_signature (ks_functional k)) (\<lambda>u.
     rmap (\<lambda>p. '';;#F;'' @ u @ '';;#P;'' @ p @ '';;#CO;'' @ copt_section k
               @ '';;arch='' @ f_arch (ks_functional k))
       (perf_section k))"

definition both_signature :: "ksig \<Rightarrow> string res" where
  "both_signature k =
     rbind (perf_signature k) (\<lambda>perf.
     rmap (\<lambda>copt. ''__P__'' @ perf @ ''__CO__'' @ copt) (copt_signature k))"

definition full_compact_signature :: "ksig \<Rightarrow> string res" where
  "full_compact_signature k =
     rbind (compact_signature_noarch (ks_functional k)) (\<lambda>n.
     rmap (\<lambda>b. n @ b @ ''--Arch_'' @ f_arch (ks_functional k)) (both_signature k))"

text \<open>\<open>blake2b\<close> stands for hashlib's 16 hex digits of an 8 byte digest.\<close>

definition blake2b_hash :: "(string \<Rightarrow> string) \<Rightarrow> string \<Rightarrow> ksig \<Rightarrow> (string \<times> string) res" where
  "blake2b_hash blake2b package_path k =
     rmap (\<lambda>entry. let raw = package_path @ entry in (blake2b raw, raw)) (hsaco_entry_name k)"

definition num_warps :: "ksig \<Rightarrow> int res" where
  "num_warps k = py_nth (ks_copts k) 1"

definition num_stages :: "ksig \<Rightarrow> int res" where
  "num_stages k = py_nth (ks_copts k) 2"

definition waves_per_eu :: "ksig \<Rightarrow> int res" where
  "waves_per_eu k = py_nth (ks_copts k) 0"

definition triton_signature_string ::
  "(string \<Rightarrow> tparam option) \<Rightarrow> string list \<Rightarrow> ksig \<Rightarrow> string res" where
  "triton_signature_string tp_dict ARGUMENTS k =
     rbind (build_complete_tc_dict tp_dict (ks_functional k)) (\<lambda>complete_dict.
     rbind (perf_items tp_dict k) (\<lambda>items.
       let d = fold (\<lambda>(a, c) d. dset d a c) items complete_dict in
       rmap (join '', '')
         (rtraverse (\<lambda>aname. rmap (\<lambda>c. py_str (stc_signature c)) (of_option KeyError (dget d aname)))
           ARGUMENTS)))"

text \<open>\<open>codegen/common.py\<close>; \<open>sha256\<close> is hashlib's hex digest.\<close>

definition hsaco_ondisk_name :: "(string \<Rightarrow> string) \<Rightarrow> string \<Rightarrow> ksig \<Rightarrow> string res" where
  "hsaco_ondisk_name sha256 kname k =
     rmap (\<lambda>e. kname @ ''-'' @ sha256 e @ ''.hsaco'') (hsaco_entry_name k)"

definition hsaco_inaks2_name :: "ksig \<Rightarrow> string res" where
  "hsaco_inaks2_name k = hsaco_entry_name k"

definition tunecc_ondisk_name :: "(string \<Rightarrow> string) \<Rightarrow> functional \<Rightarrow> string res" where
  "tunecc_ondisk_name sha256 f =
     rmap (\<lambda>e. f_name f @ ''-'' @ sha256 e @ ''.cc'') (tunecc_signature f)"

text \<open>\<open>max\<close> of no fields is a ValueError.\<close>

definition codegen_struct_cfields :: "nat \<Rightarrow> cfield list \<Rightarrow> string res" where
  "codegen_struct_cfields nalign cfields =
     (if cfields = [] then Inl ValueError
      else let max_len = Max (set (map (length \<circ> cf_ctype) cfields)) + 1;
               rows = map (\<lambda>cf. cf_ctype cf @ replicate (max_len - length (cf_ctype cf)) CHR '' ''
                                @ cf_aname cf) cfields
           in Inr (join (CHR '';'' # CHR 0x0A # replicate nalign CHR '' '') rows))"

section \<open>KernelDescription\<close>

text \<open>\<open>select_pattern\<close>; a slice bound may be absent or negative.\<close>

definition slice_bound :: "nat \<Rightarrow> nat \<Rightarrow> int option \<Rightarrow> nat" where
  "slice_bound n dflt b =
     (case b of
        None \<Rightarrow> dflt
      | Some i \<Rightarrow> if i < 0 then nat (max 0 (int n + i)) else min n (nat i))"

definition py_slice :: "'a list \<Rightarrow> int option \<Rightarrow> int option \<Rightarrow> 'a list" where
  "py_slice xs l r =
     (let n = length xs; a = slice_bound n 0 l; b = slice_bound n n r in drop a (take b xs))"

definition select_pattern ::
  "string list \<Rightarrow> string \<Rightarrow> int option \<Rightarrow> int option \<Rightarrow> 'd \<Rightarrow> (string list \<times> 'd) res" where
  "select_pattern arguments prefix trim_left trim_right delete_when =
     (if list_ex (\<lambda>s. s \<noteq> [] \<and> (is_space (hd s) \<or> is_space (last s))) arguments then Inl AssertionError
      else Inr (py_slice (filter (\<lambda>s. startswith s prefix) arguments) trim_left trim_right, delete_when))"

text \<open>\<open>join_dicts\<close> and \<open>get_possible_choices\<close>: the tables that are set, in this order.\<close>

definition join_dicts :: "('k, 'v) dict list \<Rightarrow> ('k, 'v) dict" where
  "join_dicts dicts = dict_of (concat dicts)"

definition get_possible_choices :: "(string list \<times> 'v) list list \<Rightarrow> string \<Rightarrow> 'v res" where
  "get_possible_choices tables arg_name =
     (case find (\<lambda>(k, v). arg_name \<in> set k) (concat tables) of
        None \<Rightarrow> Inl AssertionError
      | Some (k, v) \<Rightarrow> Inr v)"

text \<open>The tuning configurations of \<open>autotune/config.py\<close>; the unused attributes are left out.\<close>

record config =
  cfg_kwargs :: "(string, pyval) dict"
  cfg_num_warps :: int
  cfg_num_stages :: int
  cfg_waves_per_eu :: pyval

definition mk_config :: "(string, pyval) dict \<Rightarrow> int \<Rightarrow> int \<Rightarrow> config" where
  "mk_config kwargs nwarps nstages =
     \<lparr>cfg_kwargs = kwargs, cfg_num_warps = nwarps, cfg_num_stages = nstages,
      cfg_waves_per_eu = (case dget kwargs ''waves_per_eu'' of None \<Rightarrow> PInt 0 | Some v \<Rightarrow> v)\<rparr>"

text \<open>
  A kernel description after its constructor. \<open>kd_autotune_keys\<close> is \<open>AUTOTUNE_KEYS_VALIDATED\<close>;
  all rules bin with \<open>BinningLessOrEqual\<close>, so only the names are kept.
  \<open>kd_gen_configs\<close> is None for a kernel without \<open>gen_autotune_configs\<close>; the programmatic
  parameters are functions of the functional.
\<close>

record kdesc =
  kd_iface :: iface
  kd_autotune_keys :: "string list"
  kd_programmatic :: "(string \<times> (functional \<Rightarrow> int)) list"
  kd_gen_configs :: "(functional \<Rightarrow> config list) option"
  kd_perf_cfields :: "cfield list"

definition kernel_data_arguments :: "iface_class \<Rightarrow> string list" where
  "kernel_data_arguments ic =
     (case ic_type_choices ic of
        None \<Rightarrow> []
      | Some types \<Rightarrow> filter (\<lambda>a. list_ex (\<lambda>(k, v). a \<in> set k) types) (ic_arguments ic))"

definition autotune_keys_init :: "iface_class \<Rightarrow> string list \<Rightarrow> string list res" where
  "autotune_keys_init ic AUTOTUNE_KEYS =
     (let validated = filter (\<lambda>key. key \<in> set AUTOTUNE_KEYS) (kernel_data_arguments ic)
      in if list_all (\<lambda>key. key \<in> set (ic_arguments ic)) AUTOTUNE_KEYS then Inr validated
         else Inl AssertionError)"

text \<open>\<open>KernelDescription.__init__\<close>: the fields of the tuned parameters are sorted by size, largest first.\<close>

definition kdesc_init ::
  "iface_class option \<Rightarrow> iface_class \<Rightarrow> (string list \<times> choices_lit) list \<Rightarrow> string list
   \<Rightarrow> (string \<times> (functional \<Rightarrow> int)) list \<Rightarrow> (functional \<Rightarrow> config list) option \<Rightarrow> kdesc res" where
  "kdesc_init shared ic PERF_CHOICES AUTOTUNE_KEYS programs gen_configs =
     rbind (iface_init shared ic) (\<lambda>(ic, func_params).
     rbind (rtraverse (\<lambda>(k, v). mk_tparam k v) PERF_CHOICES) (\<lambda>perf_params.
     rbind (iface_late_init ic func_params perf_params) (\<lambda>i.
     rbind (autotune_keys_init ic AUTOTUNE_KEYS) (\<lambda>keys.
     rmap (\<lambda>cfs. \<lparr>kd_iface = i, kd_autotune_keys = keys, kd_programmatic = programs,
                  kd_gen_configs = gen_configs,
                  kd_perf_cfields = sort_key (\<lambda>p. - int (cf_nbits p)) (concat cfs)\<rparr>)
       (rtraverse (get_cfields (if_tp_dict i)) (if_perf_params i))))))"

definition kd_perf_params :: "kdesc \<Rightarrow> tparam list" where
  "kd_perf_params kd = if_perf_params (kd_iface kd)"

definition is_tunable :: "kdesc \<Rightarrow> bool" where
  "is_tunable kd \<longleftrightarrow> kd_gen_configs kd \<noteq> None"

definition update_programmatic_perfs ::
  "(string \<times> (functional \<Rightarrow> int)) list \<Rightarrow> functional \<Rightarrow> (string, pyval) dict \<Rightarrow> (string, pyval) dict" where
  "update_programmatic_perfs programs f kw =
     fold (\<lambda>(perf_name, program) kw. dset kw perf_name (PInt (program f))) programs kw"

text \<open>\<open>perf_bind\<close>: the values of one row of the database, in the order of the parameters.\<close>

definition perf_bind ::
  "(string \<Rightarrow> tparam option) \<Rightarrow> tparam list \<Rightarrow> pyval list \<Rightarrow> bind list res" where
  "perf_bind tp_dict perf_params nprow =
     rtraverse (\<lambda>(meta, value). create_direct tp_dict meta value) (zip perf_params nprow)"

text \<open>\<open>gen_signatures_for_tuning\<close>: one signature per tuning configuration.\<close>

definition gen_perfs :: "kdesc \<Rightarrow> config \<Rightarrow> bind list res" where
  "gen_perfs kd cfg =
     rtraverse (\<lambda>meta.
       rbind (repr_name meta) (\<lambda>n.
       rbind (of_option KeyError (dget (cfg_kwargs cfg) n)) (\<lambda>value.
       create_direct (if_tp_dict (kd_iface kd)) meta value)))
       (kd_perf_params kd)"

definition gen_copts :: "config \<Rightarrow> int list res" where
  "gen_copts cfg =
     rmap (\<lambda>waves. [waves, cfg_num_warps cfg, cfg_num_stages cfg]) (py_int (cfg_waves_per_eu cfg))"

definition gen_signatures_for_tuning :: "kdesc \<Rightarrow> functional \<Rightarrow> ksig list res" where
  "gen_signatures_for_tuning kd f =
     rbind (of_option AttributeError (kd_gen_configs kd)) (\<lambda>gen.
     rtraverse (\<lambda>cfg.
       rbind (gen_perfs kd cfg) (\<lambda>perfs.
       rbind (gen_copts cfg) (\<lambda>copts. mk_ksig f perfs copts)))
       (gen f))"

section \<open>Entry names identify compiled kernels\<close>

lemma is_digit_minus [simp]: "\<not> is_digit (CHR ''-'')"
  by (simp add: is_digit_def)

lemma show_int_inj: "show_int i = show_int j \<Longrightarrow> i = j"
proof -
  have "is_digit (hd (show_nat n))" for n
    using show_nat_digits [of n] hd_in_set [OF show_nat_nonempty, of n] by blast
  then have "hd (show_nat n) \<noteq> CHR ''-''" for n by (metis is_digit_minus)
  then have "show_nat n \<noteq> CHR ''-'' # s" for n s by (metis list.sel(1))
  moreover assume "show_int i = show_int j"
  ultimately show ?thesis by (auto simp: show_int_def dest: show_nat_inj split: if_splits) metis
qed

lemma show_int_chars: "c \<in> set (show_int i) \<Longrightarrow> c = CHR ''-'' \<or> is_digit c"
  using show_nat_digits by (auto simp: show_int_def split: if_splits)

text \<open>Text without a semicolon can be recovered from a list joined with semicolons.\<close>

definition part_ok :: "string \<Rightarrow> bool" where
  "part_ok p \<longleftrightarrow> p \<noteq> [] \<and> CHR '';'' \<notin> set p"

lemma semi_split:
  "c \<notin> set p \<Longrightarrow> c \<notin> set q \<Longrightarrow> p @ c # r = q @ c # r' \<Longrightarrow> p = q \<and> r = r'"
proof (induction p arbitrary: q)
  case Nil
  then show ?case by (cases q) auto
next
  case (Cons x p)
  then show ?case by (cases q) auto
qed

lemma join_not_semi: "part_ok p \<Longrightarrow> join '';'' (p # ps) @ s \<noteq> CHR '';'' # t"
  by (cases ps; cases p) (auto simp: part_ok_def)

lemma join_semi_inj:
  assumes "list_all part_ok ps" "list_all part_ok qs"
    and "join '';'' ps @ '';;'' @ x = join '';'' qs @ '';;'' @ y"
  shows "ps = qs \<and> x = y"
  using assms
proof (induction ps arbitrary: qs)
  case Nil
  then show ?case using join_not_semi by (cases qs) (auto, metis)
next
  case (Cons p ps)
  obtain q qs' where qs: "qs = q # qs'"
    using Cons.prems join_not_semi [of p ps "'';;'' @ x"] by (cases qs) auto
  have ok: "part_ok p" "part_ok q" using Cons.prems qs by auto
  have sp: "p = q \<and> r = r'" if "p @ CHR '';'' # r = q @ CHR '';'' # r'" for r r'
    using semi_split [OF _ _ that] ok by (simp add: part_ok_def)
  show ?case
  proof (cases ps)
    case Nil
    show ?thesis
    proof (cases qs')
      case Nil
      then show ?thesis using Cons.prems(3) \<open>ps = []\<close> sp by (auto simp: qs)
    next
      case (Cons q2 qs2)
      then have "join '';'' (q2 # qs2) @ '';;'' @ y = CHR '';'' # x"
        using Cons.prems(3) \<open>ps = []\<close> sp [of "CHR '';'' # x"] by (simp add: qs)
      then show ?thesis using join_not_semi [of q2 qs2] Cons Cons.prems(2) by (auto simp: qs)
    qed
  next
    case (Cons p2 ps2)
    show ?thesis
    proof (cases qs')
      case Nil
      then have "join '';'' (p2 # ps2) @ '';;'' @ x = CHR '';'' # y"
        using Cons.prems(3) Cons sp by (simp add: qs)
      then show ?thesis using join_not_semi [of p2 ps2] Cons Cons.prems(1) by auto
    next
      case (Cons q2 qs2)
      then have "p = q \<and> join '';'' ps @ '';;'' @ x = join '';'' qs' @ '';;'' @ y"
        using Cons.prems(3) \<open>ps = p2 # ps2\<close> sp by (simp add: qs)
      then show ?thesis using Cons.IH [of qs'] Cons.prems by (simp add: qs)
    qed
  qed
qed

text \<open>The text of a constant expression determines it, among those of one parameter.\<close>

lemma mk_constexpr_text:
  "mk_constexpr t v = Inr c \<Longrightarrow> mk_constexpr t v' = Inr c' \<Longrightarrow>
   testrun_entry_signature c = testrun_entry_signature c' \<Longrightarrow> c = c'"
  by (auto simp: mk_constexpr_def testrun_entry_signature_def res_iffs dest: show_int_inj
      split: cxty.splits if_splits)

lemma mk_constexpr_chars:
  "mk_constexpr t v = Inr c \<Longrightarrow> CHR '';'' \<notin> set (testrun_entry_signature c)"
  by (auto simp: mk_constexpr_def testrun_entry_signature_def res_iffs is_digit_def
      dest!: show_int_chars split: cxty.splits if_splits)

lemma create_constexpr_factory:
  "(\<exists>e. \<forall>v. create_constexpr n tp_dict t v = Inl e) \<or> (\<exists>cx. \<forall>v. create_constexpr n tp_dict t v = mk_constexpr cx v)"
proof -
  have base: "(\<exists>e. \<forall>v. stc_create_constexpr c v = Inl e)
              \<or> (\<exists>cx. \<forall>v. stc_create_constexpr c v = mk_constexpr cx v)" for c
    by (cases c) auto
  show ?thesis
  proof (induction n arbitrary: t)
    case 0
    then show ?case using base by (cases t) auto
  next
    case (Suc n)
    show ?case
    proof (cases t)
      case (ConditionalDeferredConstexpr feat c th el)
      show ?thesis
      proof (cases "tp_dict th")
        case (Some tp)
        then show ?thesis using Suc.IH ConditionalDeferredConstexpr by (cases "repr_choice tp") auto
      qed (simp add: ConditionalDeferredConstexpr)
    qed (use base in auto)
  qed
qed

lemma create_direct_value:
  assumes "create_direct tp_dict tp v = Inr b"
  shows "\<exists>cx c. (\<forall>v'. create_direct tp_dict tp v' = rmap (\<lambda>c. mk_bind tp (Settled c) None) (mk_constexpr cx v'))
           \<and> b = mk_bind tp (Settled c) None \<and> mk_constexpr cx v = Inr c"
proof -
  obtain t where t: "repr_choice tp = Inr t" using assms by (auto simp: create_direct_def res_iffs)
  then show ?thesis
    using assms create_constexpr_factory [of recursion_limit tp_dict t]
    by (auto simp: create_direct_def res_iffs)
qed

lemma mk_bind_simps [simp]:
  "b_value (mk_bind tp c k) = c" "b_klass (mk_bind tp c k) = tp"
  "is_unresolved (mk_bind tp c k) = is_conditional_choice c"
  by (simp_all add: mk_bind_def is_unresolved_def)

lemma settle_direct: "settle_unresolved d (mk_bind tp (Settled c) k) = Inr (mk_bind tp (Settled c) k)"
  by (simp add: settle_unresolved_def)

lemma direct_bind_part:
  assumes "create_direct tp_dict tp v = Inr b" and "CHR '';'' \<notin> set (b_name b)"
  shows "\<exists>t. perf_part b = Inr t \<and> part_ok t" and "settle_unresolved d b = Inr b"
  using create_direct_value [OF assms(1)] assms(2)
  by (auto simp: perf_part_def part_ok_def settle_direct dest: mk_constexpr_chars)

lemma direct_bind_inj:
  assumes "create_direct tp_dict tp v = Inr b" "create_direct tp_dict tp v' = Inr b'"
    and "perf_part b = perf_part b'"
  shows "b = b'"
proof -
  obtain cx c where c: "mk_constexpr cx v = Inr c" "b = mk_bind tp (Settled c) None"
    and all: "\<And>v'. create_direct tp_dict tp v' = rmap (\<lambda>c. mk_bind tp (Settled c) None) (mk_constexpr cx v')"
    using create_direct_value [OF assms(1)] by blast
  obtain c' where c': "mk_constexpr cx v' = Inr c'" "b' = mk_bind tp (Settled c') None"
    using assms(2) all by (auto simp: res_iffs)
  have "b_name b = b_name b'" using c c' by (simp add: b_name_def)
  then have "testrun_entry_signature c = testrun_entry_signature c'"
    using assms(3) c c' by (simp add: perf_part_def)
  then show ?thesis using mk_constexpr_text [OF c(1) c'(1)] c c' by simp
qed

lemma perf_bind_nth:
  assumes "perf_bind td ps vs = Inr bs" and "length ps \<le> length vs"
  shows "length bs = length ps" and "\<And>i. i < length ps \<Longrightarrow> create_direct td (ps ! i) (vs ! i) = Inr (bs ! i)"
  using assms by (auto simp: perf_bind_def rtraverse_Inr_iff list_all2_conv_all_nth)

lemma semi_free_names:
  assumes "list_all (\<lambda>p. list_all (\<lambda>n. CHR '';'' \<notin> set n) (tp_names p)) ps" "i < length ps"
    and "create_direct td (ps ! i) v = Inr b"
  shows "CHR '';'' \<notin> set (b_name b)"
proof -
  have "b_klass b = ps ! i" using create_direct_value [OF assms(3)] by auto
  moreover have "list_all (\<lambda>n. CHR '';'' \<notin> set n) (tp_names (ps ! i))"
    using assms(1,2) by (simp add: list_all_length)
  ultimately show ?thesis by (cases "tp_names (ps ! i)") (auto simp: b_name_def)
qed

lemma perf_bind_parts:
  assumes "perf_bind td ps vs = Inr bs" "length ps \<le> length vs"
    and "list_all (\<lambda>p. list_all (\<lambda>n. CHR '';'' \<notin> set n) (tp_names p)) ps"
  shows "\<exists>ts. rtraverse perf_part bs = Inr ts \<and> list_all part_ok ts \<and> length ts = length ps"
    and "rtraverse (settle_unresolved d) bs = Inr bs"
proof -
  note nth = perf_bind_nth [OF assms(1,2)]
  have each: "\<exists>t. perf_part (bs ! i) = Inr t \<and> part_ok t" "settle_unresolved d (bs ! i) = Inr (bs ! i)"
    if "i < length ps" for i
    using direct_bind_part [OF nth(2) [OF that] semi_free_names [OF assms(3) that nth(2) [OF that]]] by auto
  let ?ts = "map (\<lambda>b. projr (perf_part b)) bs"
  have "rtraverse perf_part bs = Inr ?ts"
    by (rule rtraverse_map_Inr) (use each(1) nth(1) in \<open>force simp: in_set_conv_nth\<close>)
  moreover have "list_all part_ok ?ts" using each(1) nth(1) by (fastforce simp: list_all_length)
  ultimately show "\<exists>ts. rtraverse perf_part bs = Inr ts \<and> list_all part_ok ts \<and> length ts = length ps"
    using nth(1) by auto
  have "rtraverse (settle_unresolved d) bs = Inr (map (\<lambda>b. b) bs)"
    by (rule rtraverse_map_Inr) (use each(2) nth(1) in \<open>auto simp: in_set_conv_nth\<close>)
  then show "rtraverse (settle_unresolved d) bs = Inr bs" by simp
qed

lemma copt_section_inj:
  assumes "length (ks_copts k) = 3" "length (ks_copts k') = 3"
    and "copt_section k @ '';;'' @ x = copt_section k' @ '';;'' @ y"
  shows "ks_copts k = ks_copts k'"
proof -
  define parts where "parts = (\<lambda>k :: ksig. map (\<lambda>(n, v). n @ ''='' @ show_int v) (zip COMPILER_OPTIONS (ks_copts k)))"
  have sec: "copt_section k = join '';'' (parts k)" if "length (ks_copts k) = 3" for k
    using that by (simp add: copt_section_def copt_dict_def parts_def dict_of_distinct COMPILER_OPTIONS_def)
  have ok: "list_all part_ok (parts k)" for k
    by (auto simp: parts_def list_all_iff part_ok_def COMPILER_OPTIONS_def is_digit_def
        dest!: set_zip_leftD show_int_chars)
  have "parts k = parts k'" using assms sec join_semi_inj [OF ok ok, of k x k' y] by simp
  moreover obtain a b c a' b' c' where "ks_copts k = [a, b, c]" "ks_copts k' = [a', b', c']"
    using assms(1,2) by (auto simp: length_Suc_conv numeral_3_eq_3)
  ultimately show ?thesis by (auto simp: parts_def COMPILER_OPTIONS_def dest: show_int_inj)
qed

text \<open>
  C25: the entry name under which a compiled kernel is stored and looked up identifies it:
  two signatures of one functional, built from tuned values and three compiler options each,
  that have the same entry name are the same signature.
\<close>

theorem hsaco_entry_name_injective:
  assumes "perf_bind td ps vs = Inr bs" "perf_bind td ps vs' = Inr bs'"
    and "length ps \<le> length vs" "length ps \<le> length vs'"
    and names: "list_all (\<lambda>p. list_all (\<lambda>n. CHR '';'' \<notin> set n) (tp_names p)) ps"
    and "mk_ksig f bs co = Inr k" "mk_ksig f bs' co' = Inr k'" and "length co = 3" "length co' = 3"
    and "hsaco_entry_name k = Inr n" "hsaco_entry_name k' = Inr n"
  shows "k = k'"
proof -
  have k: "k = \<lparr>ks_functional = f, ks_perfs = bs, ks_copts = co\<rparr>"
    and k': "k' = \<lparr>ks_functional = f, ks_perfs = bs', ks_copts = co'\<rparr>"
    using assms perf_bind_parts(2) [OF assms(1,3) names] perf_bind_parts(2) [OF assms(2,4) names]
    by (auto simp: mk_ksig_def)
  obtain ts where ts: "rtraverse perf_part bs = Inr ts" "list_all part_ok ts"
    using perf_bind_parts(1) [OF assms(1,3) names] by blast
  obtain ts' where ts': "rtraverse perf_part bs' = Inr ts'" "list_all part_ok ts'"
    using perf_bind_parts(1) [OF assms(2,4) names] by blast
  obtain u where "unified_signature f = Inr u" using assms(10) by (auto simp: hsaco_entry_name_def k res_iffs)
  with assms(10,11) ts ts' have "join '';'' ts @ '';;'' @ ''#CO;'' @ copt_section k @ '';;'' @ ''arch='' @ f_arch f
                       = join '';'' ts' @ '';;'' @ ''#CO;'' @ copt_section k' @ '';;'' @ ''arch='' @ f_arch f"
    by (auto simp: hsaco_entry_name_def perf_section_def k k' simp del: append_same_eq)
  from join_semi_inj [OF ts(2) ts'(2) this]
  have "ts = ts'" and "copt_section k @ '';;'' @ ''arch='' @ f_arch f = copt_section k' @ '';;'' @ ''arch='' @ f_arch f"
    by auto
  then have co: "co = co'" using copt_section_inj [of k k'] assms(8,9) by (simp add: k k')
  have "bs ! i = bs' ! i" if "i < length ps" for i
  proof (rule direct_bind_inj [OF perf_bind_nth(2) [OF assms(1,3) that] perf_bind_nth(2) [OF assms(2,4) that]])
    show "perf_part (bs ! i) = perf_part (bs' ! i)"
      using ts(1) ts'(1) \<open>ts = ts'\<close> that perf_bind_nth(1) [OF assms(1,3)] perf_bind_nth(1) [OF assms(2,4)]
      by (auto simp: rtraverse_Inr_iff list_all2_conv_all_nth)
  qed
  then have "bs = bs'" using perf_bind_nth(1) [OF assms(1,3)] perf_bind_nth(1) [OF assms(2,4)]
    by (simp add: list_eq_iff_nth_eq)
  then show ?thesis using co k k' by simp
qed

text \<open>A flag stored as 1 in the database and given as True by a configuration: the same kernel.\<close>

definition ex_functional :: functional where
  "ex_functional =
     \<lparr>f_family = ''flash'', f_name = ''attn_fwd'', f_arch = ''gfx942'', f_arch_number = 0, f_binds = [],
      f_optimized_for = [''gfx942_mod0''], f_database_gpus = [''gfx942_mod0''], f_compact_dict = []\<rparr>"

definition ex_flag :: tparam where
  "ex_flag =
     \<lparr>tp_names = [''PRE_LOAD_V''], tp_choices = [Settled (Constexpr CxBool (PBool False))],
      tp_maybe_conditional = False, tp_first = 0, tp_ordered = [(''PRE_LOAD_V'', 0)], tp_godel = 1\<rparr>"

lemma ex_flag_bind:
  "perf_bind (\<lambda>_. None) [ex_flag] [v] = Inr [mk_bind ex_flag (Settled (Constexpr CxBool (PBool (py_bool v)))) None]"
  by (simp add: perf_bind_def create_direct_def repr_choice_def py_nth_def ex_flag_def mk_constexpr_def)

theorem hsaco_entry_name_injective_witness:
  "projr (rbind (perf_bind (\<lambda>_. None) [ex_flag] [PInt 1]) (\<lambda>bs. mk_ksig ex_functional bs [2, 4, 1]))
     = projr (rbind (perf_bind (\<lambda>_. None) [ex_flag] [PBool True]) (\<lambda>bs. mk_ksig ex_functional bs [2, 4, 1]))"
  by (rule hsaco_entry_name_injective
      [of "\<lambda>_. None" "[ex_flag]" "[PInt 1]" _ "[PBool True]" _ ex_functional "[2, 4, 1]" _ "[2, 4, 1]" _
          "'';;#F;;;#P;PRE_LOAD_V=True;;#CO;waves_per_eu=2;num_warps=4;num_stages=1;;arch=gfx942''",
       OF ex_flag_bind ex_flag_bind])
    (simp_all add: ex_flag_bind mk_ksig_def settle_direct, simp_all add: ex_flag_def ex_functional_def
      hsaco_entry_name_def unified_signature_def perf_section_def perf_part_def b_name_def
      testrun_entry_signature_def copt_section_def copt_dict_def COMPILER_OPTIONS_def dict_of_def
      show_int_def show_nat.simps digit_char_def, code_simp+)

end
