(* ===== verification/TuneTable.thy ===== *)
theory TuneTable
  imports KernelDesc Registry
begin

text \<open>
  The tuning tables: \<open>autotune/binning.py\<close>, the translation of the tuning database into a
  lookup table (\<open>kernel/kdesc.py\<close>, \<open>op/operator.py\<close>) and the C++ code generated from it
  (\<open>codegen/basetune.py\<close>, \<open>codegen/optune.py\<close>). The generated statements are values here; their
  text is what the generator prints, and their execution is what the C++ program does.
\<close>

section \<open>Binning\<close>

text \<open>\<open>BinningLessOrEqual\<close> is its sorted list of representatives.\<close>

definition binning_init :: "int list \<Rightarrow> int list" where
  "binning_init bin_representatives = sort bin_representatives"

definition nvalues :: "int list \<Rightarrow> nat" where
  "nvalues reps = length reps"

text \<open>The body of the generated lambda: one conditional return per representative, then a return.\<close>

datatype bin_stmt = IfLe int nat | Ret int

definition binning_stmts :: "int list \<Rightarrow> bin_stmt list" where
  "binning_stmts reps =
     map (\<lambda>(index, rep). IfLe rep index) (enumerate 0 reps) @ [Ret (int (length reps) - 1)]"

fun render_stmt :: "bin_stmt \<Rightarrow> string" where
  "render_stmt (IfLe rep index) =
     ''    if (x <= '' @ show_int rep @ '') return '' @ show_nat index @ '';''"
| "render_stmt (Ret i) = ''    return '' @ show_int i @ '';''"

definition codegen_binning_lambda :: "string \<Rightarrow> string \<Rightarrow> int list \<Rightarrow> string list" where
  "codegen_binning_lambda key out_suffix reps =
     [''auto '' @ key @ out_suffix @ '' = [] (int x) {'']
     @ map render_stmt (binning_stmts reps)
     @ [''}(params.'' @ key @ '');'']"

fun run_bin :: "bin_stmt list \<Rightarrow> int \<Rightarrow> int option" where
  "run_bin [] x = None"
| "run_bin (IfLe rep index # ss) x = (if x \<le> rep then Some (int index) else run_bin ss x)"
| "run_bin (Ret i # ss) x = Some i"

section \<open>The rows of the tuning database\<close>

text \<open>
  A row of the dataframe: the GPU it was measured on and its integer columns. A column that
  does not exist is a KeyError.
\<close>

record tune_row =
  tr_gpu :: string
  tr_cols :: "(string, int) dict"

definition col_value :: "tune_row \<Rightarrow> string \<Rightarrow> int res" where
  "col_value r key = of_option KeyError (dget (tr_cols r) key)"

definition row_values :: "string list \<Rightarrow> tune_row \<Rightarrow> int list res" where
  "row_values keys r = rtraverse (col_value r) keys"

definition sparse_key :: "string \<Rightarrow> string" where
  "sparse_key key = ''inputs$'' @ key"

text \<open>\<open>np.unique\<close>: sorted, without repetitions; the rows of a matrix in lexicographic order.\<close>

definition np_unique :: "'a :: linorder list \<Rightarrow> 'a list" where
  "np_unique xs = sort (remdups xs)"

definition sorted_unique_key :: "tune_row list \<Rightarrow> string \<Rightarrow> int list res" where
  "sorted_unique_key df key = rmap np_unique (rtraverse (\<lambda>r. col_value r key) df)"

definition set_programmatic_columns ::
  "(string \<times> (functional \<Rightarrow> int)) list \<Rightarrow> functional \<Rightarrow> tune_row \<Rightarrow> tune_row" where
  "set_programmatic_columns programs f r =
     r\<lparr>tr_cols := fold (\<lambda>(perf_name, program) d.
          dset d (''tuned_kernel$'' @ perf_name) (program f)) programs (tr_cols r)\<rparr>"

text \<open>\<open>discretization\<close>: the position of the row's value among the values of the column.\<close>

definition row_indices :: "int list list \<Rightarrow> int list \<Rightarrow> nat list res" where
  "row_indices buckets values = rtraverse (\<lambda>(bucket, v). py_index bucket v) (zip buckets values)"

section \<open>The lookup table\<close>

text \<open>
  A tensor whose first axis are the GPUs: each GPU has one flat list of cells, the last axis
  varying fastest. \<open>lut_bits\<close> is the width of the element type.
\<close>

record lut =
  lut_bits :: nat
  lut_shape :: "nat list"
  lut_rows :: "int list list"

fun flat_index :: "nat list \<Rightarrow> nat list \<Rightarrow> nat" where
  "flat_index (n # ns) (i # is) = i * prod_list ns + flat_index ns is"
| "flat_index ns is = 0"

definition wrap_bits :: "nat \<Rightarrow> int \<Rightarrow> int" where
  "wrap_bits b x = (x + 2 ^ (b - 1)) mod 2 ^ b - 2 ^ (b - 1)"

definition int_max :: "nat \<Rightarrow> int" where
  "int_max b = 2 ^ (b - 1) - 1"

text \<open>
  \<open>lut_tensor[i][inds] = values\<close>: assigned in order, so that the last record of a cell stays.
  Without a key \<open>lut_tensor[i]\<close> is a number of numpy, which cannot be assigned to.
\<close>

definition assign_cells :: "nat list \<Rightarrow> int list \<Rightarrow> (nat list \<times> int) list \<Rightarrow> int list res" where
  "assign_cells shape row recs =
     (if shape = [] then Inl TypeError
      else Inr (fold (\<lambda>(inds, v) row. row[flat_index shape inds := wrap_bits 32 v]) recs row))"

text \<open>
  The loop over the GPUs: the first starts from a tensor of -1, every other one from a copy of
  the first one's result.
\<close>

definition gpu_records :: "(string \<times> nat list \<times> int) list \<Rightarrow> string \<Rightarrow> (nat list \<times> int) list" where
  "gpu_records recs gpu = map snd (filter (\<lambda>r. fst r = gpu) recs)"

definition fill_lut ::
  "nat list \<Rightarrow> string list \<Rightarrow> (string \<times> nat list \<times> int) list \<Rightarrow> int list list res" where
  "fill_lut shape gpus recs =
     (case gpus of
        [] \<Rightarrow> Inr []
      | g # gs \<Rightarrow>
          rbind (assign_cells shape (replicate (prod_list shape) (-1)) (gpu_records recs g)) (\<lambda>row0.
          rmap ((#) row0) (rtraverse (\<lambda>gpu. assign_cells shape row0 (gpu_records recs gpu)) gs)))"

text \<open>The first of the types whose maximum is above the number, or the last one.\<close>

fun pick_bits :: "int \<Rightarrow> nat list \<Rightarrow> nat" where
  "pick_bits n [] = 0"
| "pick_bits n [b] = b"
| "pick_bits n (b # b' # bs) = (if n < int_max b then b else pick_bits n (b' # bs))"

text \<open>The binning of every key, in the order of the keys.\<close>

type_synonym binning_dict = "(string, int list) dict"

text \<open>\<open>KernelDescription.translate_dataframe\<close>.\<close>

definition perf_keys :: "kdesc \<Rightarrow> string list res" where
  "perf_keys kd = rtraverse (\<lambda>meta. rmap (\<lambda>n. ''tuned_kernel$'' @ n) (repr_name meta)) (kd_perf_params kd)"

definition copt_keys :: "string list" where
  "copt_keys = map (\<lambda>key. ''compiler_options$'' @ key) COMPILER_OPTIONS"

definition create_sig :: "kdesc \<Rightarrow> functional \<Rightarrow> int list \<Rightarrow> ksig res" where
  "create_sig kd f nprow =
     (let perf_params = kd_perf_params kd in
      rbind (perf_bind (if_tp_dict (kd_iface kd)) perf_params (map PInt nprow)) (\<lambda>perfs.
      mk_ksig f perfs (drop (length perf_params) nprow)))"

definition bucket_records ::
  "string list \<Rightarrow> int list list \<Rightarrow> tune_row list \<Rightarrow> int list \<Rightarrow> (string \<times> nat list \<times> int) list res" where
  "bucket_records keys buckets df values =
     rtraverse (\<lambda>(r, v).
       rbind (row_values keys r) (\<lambda>xs.
       rmap (\<lambda>inds. (tr_gpu r, inds, v)) (row_indices buckets xs)))
       (zip df values)"

definition kd_translate_dataframe ::
  "kdesc \<Rightarrow> functional \<Rightarrow> tune_row list \<Rightarrow> (lut \<times> ksig list \<times> binning_dict) res" where
  "kd_translate_dataframe kd f df0 =
     (let keys = map sparse_key (kd_autotune_keys kd) in
      rbind (rtraverse (sorted_unique_key df0) keys) (\<lambda>buckets.
      let df = map (set_programmatic_columns (kd_programmatic kd) f) df0;
          binning = dict_of (zip (kd_autotune_keys kd) (map binning_init buckets));
          shape = map length buckets in
      rbind (perf_keys kd) (\<lambda>pkeys.
      rbind (rtraverse (row_values (pkeys @ copt_keys)) df) (\<lambda>sigrows.
      let np_sigs = np_unique sigrows;
          sig_nums = map (\<lambda>row. int (the (find_index row np_sigs))) sigrows in
      rbind (rtraverse (create_sig kd f) np_sigs) (\<lambda>sigs.
      rbind (bucket_records keys buckets df sig_nums) (\<lambda>recs.
      rmap (\<lambda>rows.
          let bits = pick_bits (int (length sigs)) [8, 16, 32] in
          (\<lparr>lut_bits = bits, lut_shape = shape, lut_rows = map (map (wrap_bits bits)) rows\<rparr>,
           sigs, binning))
        (fill_lut shape (f_database_gpus f) recs)))))))"

definition kd_translate_empty_dataframe ::
  "kdesc \<Rightarrow> functional \<Rightarrow> (lut \<times> ksig list \<times> binning_dict option) res" where
  "kd_translate_empty_dataframe kd f =
     rbind (rtraverse (\<lambda>meta. create_nth meta 0) (kd_perf_params kd)) (\<lambda>defaults.
     rmap (\<lambda>k. (\<lparr>lut_bits = 8, lut_shape = [1], lut_rows = replicate (noptimized_for f) [0]\<rparr>, [k], None))
       (mk_ksig f defaults DEFAULT_COPT))"

text \<open>\<open>Operator.translate_dataframe\<close>; the backends are given by their enum names.\<close>

definition op_translate_dataframe ::
  "string list \<Rightarrow> string list \<Rightarrow> functional \<Rightarrow> tune_row list \<Rightarrow> (lut \<times> string list \<times> binning_dict) res" where
  "op_translate_dataframe optune_keys backends f df =
     (let keys = map sparse_key optune_keys in
      rbind (rtraverse (sorted_unique_key df) keys) (\<lambda>buckets.
      let binning = dict_of (zip optune_keys (map binning_init buckets));
          shape = map length buckets in
      rbind (rtraverse (\<lambda>r. col_value r ''op$backend'') df) (\<lambda>values.
      rbind (bucket_records keys buckets df values) (\<lambda>recs.
      rbind (fill_lut shape (f_database_gpus f) recs) (\<lambda>rows.
      rmap (\<lambda>names. (\<lparr>lut_bits = 32, lut_shape = shape, lut_rows = rows\<rparr>, names, binning))
        (rtraverse (py_nth backends) (np_unique (concat rows))))))))"

definition op_translate_empty_dataframe ::
  "string list \<Rightarrow> functional \<Rightarrow> (lut \<times> string list \<times> binning_dict option) res" where
  "op_translate_empty_dataframe backends f =
     rmap (\<lambda>fallback.
         (\<lparr>lut_bits = 8, lut_shape = [1], lut_rows = replicate (noptimized_for f) [0]\<rparr>, [fallback], None))
       (py_nth backends 0)"

section \<open>The generated lookup function\<close>

definition BIN_INDEX_SUFFIX :: string where
  "BIN_INDEX_SUFFIX = ''_binned_index''"

definition codegen_binning_code :: "binning_dict option \<Rightarrow> string" where
  "codegen_binning_code binning =
     (case binning of
        None \<Rightarrow> []
      | Some d \<Rightarrow> join (CHR 0x0A # ''    '')
          (concat (map (\<lambda>(key, reps). codegen_binning_lambda key BIN_INDEX_SUFFIX reps) d)))"

definition codegen_binned_indices :: "binning_dict option \<Rightarrow> string" where
  "codegen_binned_indices binning =
     (case binning of
        None \<Rightarrow> ''[0]''
      | Some d \<Rightarrow> concat (map (\<lambda>(key, reps). ''['' @ key @ BIN_INDEX_SUFFIX @ '']'') d))"

definition codegen_deduplicated_lut_function ::
  "function_registry \<Rightarrow> string \<Rightarrow> string \<Rightarrow> string \<Rightarrow> string \<Rightarrow> binning_dict option
   \<Rightarrow> function_registry \<times> string" where
  "codegen_deduplicated_lut_function lut_registry NAME param_class lut_ctype lut_cshape binning =
     (let lut_params = ''(const '' @ param_class @ ''& params, int mod_number, '' @ lut_ctype @ '' lut''
                       @ lut_cshape @ '')'';
          lambda_src = join [CHR 0x0A]
            [lut_params @ '' {'', ''    '' @ codegen_binning_code binning,
             ''    return lut[mod_number]'' @ codegen_binned_indices binning @ '';'', ''}'']
      in fr_register lut_registry lambda_src ''int'' (NAME @ ''__lut_lambda'') lut_params)"

text \<open>
  \<open>codegen_format_lut\<close>. \<open>array2string\<close> stands for numpy's printing of the cells of one GPU with
  a comma as the separator; \<open>np.max\<close> of an empty tensor is a ValueError.
\<close>

definition format_bits :: "lut \<Rightarrow> nat res" where
  "format_bits t =
     (if concat (lut_rows t) = [] then Inl ValueError
      else Inr (pick_bits (Max (set (concat (lut_rows t)))) [8, 16, 32, 64]))"

definition codegen_format_lut ::
  "(nat list \<Rightarrow> int list \<Rightarrow> string) \<Rightarrow> functional \<Rightarrow> lut \<Rightarrow> (string \<times> string \<times> string) res" where
  "codegen_format_lut array2string f t =
     rbind (format_bits t) (\<lambda>bits.
     let ctype = ''int'' @ show_nat bits @ ''_t'';
         cshape = concat (map (\<lambda>s. ''['' @ show_nat s @ '']'') (length (lut_rows t) # lut_shape t));
         fmt = (\<lambda>row. py_replace '']'' ''}'' (py_replace ''['' ''{'' (array2string (lut_shape t) row)));
         nl = [CHR 0x0A] in
     rmap (\<lambda>texts. (ctype, cshape, ''{'' @ join (nl @ '','' @ nl) texts @ ''}''))
       (rtraverse (\<lambda>(i, gpu). rmap (\<lambda>row.
            nl @ ''// GPU '' @ gpu @ nl @ fmt row @ nl @ ''// End of GPU '' @ gpu @ nl)
          (py_nth (lut_rows t) (int i)))
        (enumerate 0 (f_optimized_for f))))"

text \<open>
  \<open>OptuneCodeGenerator\<close>: how often each value occurs in the table; a table with at most one
  backend is trivial, and only the backend's name is recorded for its functional.
\<close>

definition lut_stats :: "lut \<Rightarrow> (int \<times> nat) list" where
  "lut_stats t = map (\<lambda>v. (v, count_list (concat (lut_rows t)) v)) (np_unique (concat (lut_rows t)))"

definition optune_is_trivial :: "string list \<Rightarrow> bool" where
  "optune_is_trivial backend_names \<longleftrightarrow> length backend_names \<le> 1"

definition generate_trivial ::
  "(nat \<times> int, string) dict \<Rightarrow> functional \<Rightarrow> string list \<Rightarrow> (nat \<times> int, string) dict res" where
  "generate_trivial trivial_tunes f backend_names =
     rbind (py_nth backend_names 0) (\<lambda>mono_backend.
     rmap (\<lambda>g. dset trivial_tunes (f_arch_number f, g) mono_backend) (godel_number f))"

text \<open>
  What the generated function returns for the parameters of a launch. None: an index outside of
  the array.
\<close>

definition bin_indices :: "binning_dict option \<Rightarrow> (string \<Rightarrow> int) \<Rightarrow> int list option" where
  "bin_indices binning params =
     (case binning of
        None \<Rightarrow> Some [0]
      | Some d \<Rightarrow> those (map (\<lambda>(key, reps). run_bin (binning_stmts reps) (params key)) d))"

definition lut_lookup :: "lut \<Rightarrow> binning_dict option \<Rightarrow> nat \<Rightarrow> (string \<Rightarrow> int) \<Rightarrow> int option" where
  "lut_lookup t binning mod_number params =
     (case bin_indices binning params of
        None \<Rightarrow> None
      | Some is \<Rightarrow>
          if mod_number < length (lut_rows t) \<and> list_all2 (\<lambda>i n. 0 \<le> i \<and> i < int n) is (lut_shape t)
          then Some (lut_rows t ! mod_number ! flat_index (lut_shape t) (map nat is)) else None)"

section \<open>Binning and index lemmas\<close>

text \<open>The recorded value a parameter is rounded to: the least one that is not below it, or the largest.\<close>

definition bin_value :: "int set \<Rightarrow> int \<Rightarrow> int" where
  "bin_value S x = (if \<exists>r\<in>S. x \<le> r then Min {r \<in> S. x \<le> r} else Max S)"

lemma bin_value_mem: "finite S \<Longrightarrow> S \<noteq> {} \<Longrightarrow> bin_value S x \<in> S"
  using Min_in [of "{r \<in> S. x \<le> r}"] by (auto simp: bin_value_def)

lemma run_bin_enumerate:
  "sorted reps \<Longrightarrow> distinct reps \<Longrightarrow>
   run_bin (map (\<lambda>(index, rep). IfLe rep index) (enumerate k reps) @ [Ret e]) x
     = (if \<exists>r\<in>set reps. x \<le> r
        then Some (int (k + the (find_index (Min {r \<in> set reps. x \<le> r}) reps))) else Some e)"
proof (induction reps arbitrary: k)
  case Nil
  then show ?case by simp
next
  case (Cons a reps)
  show ?case
  proof (cases "x \<le> a")
    case True
    then have "{r \<in> set (a # reps). x \<le> r} = set (a # reps)" using Cons.prems by force
    moreover have "Min (set (a # reps)) = a" using Cons.prems by (intro Min_eqI) auto
    moreover have "\<exists>r\<in>set (a # reps). x \<le> r" using True by simp
    ultimately show ?thesis using True by (simp del: set_simps)
  next
    case False
    then have eq: "{r \<in> set (a # reps). x \<le> r} = {r \<in> set reps. x \<le> r}" by auto
    show ?thesis
    proof (cases "\<exists>r\<in>set reps. x \<le> r")
      case True
      let ?m = "Min {r \<in> set reps. x \<le> r}"
      have "?m \<in> {r \<in> set reps. x \<le> r}" using True by (intro Min_in) auto
      then obtain j where "find_index ?m reps = Some j" "?m \<noteq> a"
        using False find_index_None_iff [of ?m reps] by (cases "find_index ?m reps") auto
      then show ?thesis using Cons False True unfolding eq by auto
    next
      case False
      then show ?thesis using Cons \<open>\<not> x \<le> a\<close> by simp
    qed
  qed
qed

lemma run_bin_value:
  assumes "sorted reps" "distinct reps" "reps \<noteq> []"
  shows "\<exists>i<length reps. run_bin (binning_stmts reps) x = Some (int i) \<and> reps ! i = bin_value (set reps) x"
proof (cases "\<exists>r\<in>set reps. x \<le> r")
  case True
  then have "bin_value (set reps) x \<in> set reps" using assms bin_value_mem by auto
  then obtain i where i: "find_index (bin_value (set reps) x) reps = Some i"
    using find_index_None_iff by fastforce
  then show ?thesis
    using run_bin_enumerate [OF assms(1,2), of 0 _ x] True find_index_SomeD [OF i]
    by (intro exI [of _ i]) (auto simp: binning_stmts_def bin_value_def)
next
  case False
  have "reps ! (length reps - 1) = Max (set reps)"
  proof (rule Max_eqI [symmetric])
    fix y assume "y \<in> set reps"
    then show "y \<le> reps ! (length reps - 1)"
      using assms by (auto simp: in_set_conv_nth intro!: sorted_nth_mono)
  qed (use assms in auto)
  then show ?thesis
    using run_bin_enumerate [OF assms(1,2), of 0 _ x] False assms
    by (intro exI [of _ "length reps - 1"]) (auto simp: binning_stmts_def bin_value_def of_nat_diff Suc_leI)
qed

lemma flat_index_less: "list_all2 (<) is shape \<Longrightarrow> flat_index shape is < prod_list shape"
proof (induction "is" shape rule: list_all2_induct)
  case (Cons i "is" n ns)
  then have "i * prod_list ns + flat_index ns is < Suc i * prod_list ns" by simp
  also have "\<dots> \<le> n * prod_list ns" using Cons by (intro mult_le_mono1) simp
  finally show ?case by simp
qed simp

lemma flat_index_inj:
  "list_all2 (<) is shape \<Longrightarrow> list_all2 (<) js shape \<Longrightarrow> flat_index shape is = flat_index shape js \<Longrightarrow> is = js"
proof (induction "is" shape arbitrary: js rule: list_all2_induct)
  case (Cons i "is" n ns)
  then obtain j js' where js: "js = j # js'" "list_all2 (<) js' ns" by (cases js) auto
  let ?p = "prod_list ns"
  have lt: "flat_index ns is < ?p" "flat_index ns js' < ?p" using flat_index_less Cons js by auto
  have eq: "i * ?p + flat_index ns is = j * ?p + flat_index ns js'" using Cons.prems js by simp
  have "i = j" using arg_cong [OF eq, of "\<lambda>x. x div ?p"] lt by simp
  then show ?case using eq Cons.IH [OF js(2)] js by simp
qed simp

section \<open>Cells\<close>

text \<open>The record that decides a cell: the last one with its indices.\<close>

definition last_cell :: "nat list \<Rightarrow> (nat list \<times> 'v) list \<Rightarrow> 'v option" where
  "last_cell is recs = map_option snd (find (\<lambda>r. fst r = is) (rev recs))"

lemma last_cell_snoc:
  "last_cell is (recs @ [(js, v)]) = (if js = is then Some v else last_cell is recs)"
  by (simp add: last_cell_def)

definition recs_in :: "nat list \<Rightarrow> (nat list \<times> int) list \<Rightarrow> bool" where
  "recs_in shape recs \<longleftrightarrow> list_all (\<lambda>(is, v). list_all2 (<) is shape \<and> - 1 \<le> v \<and> v < 2 ^ 31) recs"

lemma wrap_bits_id: "1 \<le> b \<Longrightarrow> - (2 ^ (b - 1)) \<le> x \<Longrightarrow> x < 2 ^ (b - 1) \<Longrightarrow> wrap_bits b x = x"
proof -
  assume "1 \<le> b" and lo: "- (2 ^ (b - 1)) \<le> x" and hi: "x < 2 ^ (b - 1)"
  then have "(2::int) ^ b = 2 ^ (b - 1) + 2 ^ (b - 1)"
    by (metis Suc_diff_1 less_one mult_2 not_less power_Suc le_less_trans)
  then have "(x + 2 ^ (b - 1)) mod 2 ^ b = x + 2 ^ (b - 1)" using lo hi by (intro mod_pos_pos_trivial) linarith+
  then show ?thesis by (simp add: wrap_bits_def)
qed

lemma fold_cells:
  assumes "recs_in shape recs" "list_all2 (<) is shape" "length row = prod_list shape"
  shows "length (fold (\<lambda>(inds, v) row. row[flat_index shape inds := wrap_bits 32 v]) recs row) = prod_list shape
         \<and> fold (\<lambda>(inds, v) row. row[flat_index shape inds := wrap_bits 32 v]) recs row ! flat_index shape is
             = (case last_cell is recs of None \<Rightarrow> row ! flat_index shape is | Some v \<Rightarrow> v)"
  using assms(1)
proof (induction recs rule: rev_induct)
  case Nil
  then show ?case using assms by (simp add: last_cell_def)
next
  case (snoc r recs)
  obtain js v where r: "r = (js, v)" by (cases r)
  have js: "list_all2 (<) js shape" and "wrap_bits 32 v = v"
    using snoc.prems by (auto simp: recs_in_def r intro!: wrap_bits_id)
  have "flat_index shape js = flat_index shape is \<longleftrightarrow> js = is"
    using flat_index_inj [OF js assms(2)] by auto
  then show ?case
    using snoc flat_index_less [OF assms(2)] \<open>wrap_bits 32 v = v\<close>
    by (auto simp: r last_cell_snoc recs_in_def nth_list_update)
qed

lemma assign_cells_value:
  assumes "assign_cells shape row recs = Inr row'" and "recs_in shape recs" "list_all2 (<) is shape"
    and "length row = prod_list shape"
  shows "length row' = prod_list shape"
    and "row' ! flat_index shape is = (case last_cell is recs of None \<Rightarrow> row ! flat_index shape is | Some v \<Rightarrow> v)"
  using fold_cells [OF assms(2-4)] assms(1) by (auto simp: assign_cells_def split: if_splits)

text \<open>What \<open>fill_lut\<close> puts into the cell of a GPU.\<close>

definition cell_spec :: "(string \<times> nat list \<times> int) list \<Rightarrow> string list \<Rightarrow> nat \<Rightarrow> nat list \<Rightarrow> int option" where
  "cell_spec recs gpus i is =
     (case last_cell is (gpu_records recs (gpus ! i)) of
        Some v \<Rightarrow> Some v
      | None \<Rightarrow> last_cell is (gpu_records recs (gpus ! 0)))"

lemma fill_lut_value:
  assumes "fill_lut shape gpus recs = Inr rows" and "\<And>g. recs_in shape (gpu_records recs g)"
    and "i < length gpus" "list_all2 (<) is shape"
  shows "length rows = length gpus" and "length (rows ! i) = prod_list shape"
    and "rows ! i ! flat_index shape is = (case cell_spec recs gpus i is of None \<Rightarrow> - 1 | Some v \<Rightarrow> v)"
proof -
  obtain g gs where gpus: "gpus = g # gs" using assms(3) by (cases gpus) auto
  obtain row0 rest where row0: "assign_cells shape (replicate (prod_list shape) (-1)) (gpu_records recs g) = Inr row0"
    and rest: "rtraverse (\<lambda>gpu. assign_cells shape row0 (gpu_records recs gpu)) gs = Inr rest"
    and rows: "rows = row0 # rest"
    using assms(1) by (auto simp: fill_lut_def gpus res_iffs)
  note v0 = assign_cells_value [OF row0 assms(2,4)]
  have len0: "length row0 = prod_list shape" using v0 by simp
  have cell0: "row0 ! flat_index shape is = (case last_cell is (gpu_records recs g) of None \<Rightarrow> -1 | Some v \<Rightarrow> v)"
    using v0 flat_index_less [OF assms(4)] by (auto split: option.splits)
  show "length rows = length gpus"
    using rest rows by (auto simp: rtraverse_Inr_iff gpus dest: list_all2_lengthD)
  show "length (rows ! i) = prod_list shape"
    and "rows ! i ! flat_index shape is = (case cell_spec recs gpus i is of None \<Rightarrow> - 1 | Some v \<Rightarrow> v)"
  proof (atomize (full), cases i)
    case 0
    then show "length (rows ! i) = prod_list shape
        \<and> rows ! i ! flat_index shape is = (case cell_spec recs gpus i is of None \<Rightarrow> - 1 | Some v \<Rightarrow> v)"
      using len0 cell0 rows gpus by (auto simp: cell_spec_def split: option.splits)
  next
    case (Suc j)
    then have "assign_cells shape row0 (gpu_records recs (gs ! j)) = Inr (rest ! j)"
      using rest assms(3) gpus by (auto simp: rtraverse_Inr_iff list_all2_conv_all_nth)
    from assign_cells_value [OF this assms(2,4) len0] cell0
    show "length (rows ! i) = prod_list shape
        \<and> rows ! i ! flat_index shape is = (case cell_spec recs gpus i is of None \<Rightarrow> - 1 | Some v \<Rightarrow> v)"
      using rows gpus Suc by (auto simp: cell_spec_def split: option.splits)
  qed
qed

section \<open>The table of a dataframe\<close>

text \<open>
  The specification: the value of a key column in a row; the record of a GPU that a launch is
  tuned by, where every key is rounded to a recorded value and the last record counts; and the
  fallback to the first GPU.
\<close>

definition key_value :: "string \<Rightarrow> tune_row \<Rightarrow> int" where
  "key_value key r = the (dget (tr_cols r) (sparse_key key))"

definition db_lookup :: "string list \<Rightarrow> tune_row list \<Rightarrow> string \<Rightarrow> (string \<Rightarrow> int) \<Rightarrow> tune_row option" where
  "db_lookup keys df gpu params =
     find (\<lambda>r. tr_gpu r = gpu
              \<and> list_all (\<lambda>k. key_value k r = bin_value (set (map (key_value k) df)) (params k)) keys)
       (rev df)"

definition tuned_record ::
  "string list \<Rightarrow> tune_row list \<Rightarrow> string list \<Rightarrow> nat \<Rightarrow> (string \<Rightarrow> int) \<Rightarrow> tune_row option" where
  "tuned_record keys df gpus i params =
     (case db_lookup keys df (gpus ! i) params of
        Some r \<Rightarrow> Some r
      | None \<Rightarrow> db_lookup keys df (gpus ! 0) params)"

definition bucket_of :: "tune_row list \<Rightarrow> string \<Rightarrow> int list" where
  "bucket_of df k = np_unique (map (key_value k) df)"

lemma np_unique_props [simp]:
  "sorted (np_unique xs)" "distinct (np_unique xs)" "set (np_unique xs) = set xs"
  "np_unique xs = [] \<longleftrightarrow> xs = []"
proof -
  show "set (np_unique xs) = set xs" by (simp add: np_unique_def)
  then show "np_unique xs = [] \<longleftrightarrow> xs = []" by (metis set_empty)
qed (simp_all add: np_unique_def)

lemma find_index_iff: "distinct b \<Longrightarrow> j < length b \<Longrightarrow> v \<in> set b \<Longrightarrow> the (find_index v b) = j \<longleftrightarrow> v = b ! j"
  by (metis find_index_SomeD find_index_nth find_index_None_iff option.exhaust_sel option.sel)

lemma find_index_less: "v \<in> set b \<Longrightarrow> the (find_index v b) < length b"
  by (cases "find_index v b") (auto simp: find_index_None_iff dest: find_index_SomeD)

definition bin_index :: "int list \<Rightarrow> int \<Rightarrow> nat" where
  "bin_index b x = the (find_index (bin_value (set b) x) b)"

lemma bin_index_props:
  assumes "sorted b" "distinct b" "b \<noteq> []"
  shows "run_bin (binning_stmts b) x = Some (int (bin_index b x))" "bin_index b x < length b"
    and "b ! bin_index b x = bin_value (set b) x"
proof -
  obtain i where i: "i < length b" "run_bin (binning_stmts b) x = Some (int i)" "b ! i = bin_value (set b) x"
    using run_bin_value [OF assms] by blast
  then have "bin_index b x = i" using find_index_nth [OF assms(2) i(1)] by (simp add: bin_index_def)
  with i show "run_bin (binning_stmts b) x = Some (int (bin_index b x))" "bin_index b x < length b"
    "b ! bin_index b x = bin_value (set b) x" by auto
qed

lemma those_map_Some: "(\<And>x. x \<in> set xs \<Longrightarrow> f x = Some (g x)) \<Longrightarrow> those (map f xs) = Some (map g xs)"
  by (induction xs) auto

lemma rtraverse_map: "rtraverse f (map g xs) = rtraverse (f \<circ> g) xs"
  by (induction xs) auto

lemma rtraverse_cong_Inr:
  "rtraverse f xs = Inr ys \<Longrightarrow> ys = map (\<lambda>x. projr (f x)) xs \<and> (\<forall>x\<in>set xs. f x = Inr (projr (f x)))"
  by (induction xs arbitrary: ys) (auto simp: res_iffs)

lemma find_map: "find P (map f xs) = map_option f (find (\<lambda>x. P (f x)) xs)"
  by (induction xs) auto

lemma find_filter: "find P (filter Q xs) = find (\<lambda>x. Q x \<and> P x) xs"
  by (induction xs) auto

lemma last_cell_gpu:
  "last_cell is (gpu_records (map (\<lambda>r. (gpu r, inds r, val r)) df) g)
     = map_option val (find (\<lambda>r. gpu r = g \<and> inds r = is) (rev df))"
  by (simp add: last_cell_def gpu_records_def filter_map rev_map find_map option.map_comp comp_def)
    (simp add: rev_filter find_filter)

lemma find_cong_set: "(\<And>x. x \<in> set xs \<Longrightarrow> P x = Q x) \<Longrightarrow> find P xs = find Q xs"
  by (induction xs) auto

lemma unique_keys_buckets:
  assumes "rtraverse (sorted_unique_key df) (map sparse_key ks) = Inr buckets"
  shows "buckets = map (bucket_of df) ks"
    and "\<And>r k. r \<in> set df \<Longrightarrow> k \<in> set ks \<Longrightarrow> dget (tr_cols r) (sparse_key k) = Some (key_value k r)"
proof -
  have cell: "col_value r (sparse_key k) = Inr (key_value k r)"
    if "rtraverse (\<lambda>r. col_value r (sparse_key k)) df = Inr vs" "r \<in> set df" for r k vs
    using rtraverse_cong_Inr [OF that(1)] that(2)
    by (auto simp: col_value_def key_value_def of_option_def split: option.splits)
  have unique: "sorted_unique_key df (sparse_key k) = Inr (bucket_of df k)"
    and get: "r \<in> set df \<Longrightarrow> dget (tr_cols r) (sparse_key k) = Some (key_value k r)" if "k \<in> set ks" for k r
  proof -
    have "is_ok (sorted_unique_key df (sparse_key k))"
      using rtraverse_cong_Inr [OF assms] that unfolding is_ok_iff by auto
    then obtain vs where vs: "rtraverse (\<lambda>r. col_value r (sparse_key k)) df = Inr vs"
      by (auto simp: is_ok_iff sorted_unique_key_def res_iffs)
    then show "sorted_unique_key df (sparse_key k) = Inr (bucket_of df k)"
      using rtraverse_map_Inr [of df "\<lambda>r. col_value r (sparse_key k)" "key_value k"] cell [OF vs]
      by (simp add: sorted_unique_key_def bucket_of_def)
    show "r \<in> set df \<Longrightarrow> dget (tr_cols r) (sparse_key k) = Some (key_value k r)"
      using cell [OF vs] by (auto simp: col_value_def res_iffs)
  qed
  show "buckets = map (bucket_of df) ks"
    using assms rtraverse_map_Inr [of ks "sorted_unique_key df \<circ> sparse_key" "bucket_of df"] unique
    by (simp add: rtraverse_map)
  show "\<And>r k. r \<in> set df \<Longrightarrow> k \<in> set ks \<Longrightarrow> dget (tr_cols r) (sparse_key k) = Some (key_value k r)"
    by (rule get)
qed

lemma bucket_of_props:
  assumes "df \<noteq> []"
  shows "sorted (bucket_of df k)" "distinct (bucket_of df k)" "bucket_of df k \<noteq> []"
    and "set (bucket_of df k) = set (map (key_value k) df)"
  using assms by (simp_all add: bucket_of_def)

lemma in_range_map: "list_all2 (<) (map f ks) (map g ks) \<longleftrightarrow> list_all (\<lambda>k. f k < g k) ks"
  by (simp add: list_all2_conv_all_nth list_all_length)

text \<open>
  The records after bucketing: every row of the dataframe with its indices. \<open>prog\<close> is what was
  done to the rows in between; it leaves the key columns alone.
\<close>

lemma bucket_records_eq:
  assumes keys: "\<And>r k. r \<in> set df \<Longrightarrow> k \<in> set ks \<Longrightarrow> dget (tr_cols r) (sparse_key k) = Some (key_value k r)"
    and prog: "\<And>r. tr_gpu (prog r) = tr_gpu r" "\<And>r k. dget (tr_cols (prog r)) (sparse_key k) = dget (tr_cols r) (sparse_key k)"
  shows "bucket_records (map sparse_key ks) (map (bucket_of df) ks) (map prog df) (map val df)
           = Inr (map (\<lambda>r. (tr_gpu r, map (\<lambda>k. the (find_index (key_value k r) (bucket_of df k))) ks, val r)) df)"
proof -
  have "row_values (map sparse_key ks) (prog r) = Inr (map (\<lambda>k. key_value k r) ks)" if "r \<in> set df" for r
    unfolding row_values_def rtraverse_map using keys [OF that] prog
    by (intro rtraverse_map_Inr) (simp add: col_value_def)
  moreover have "row_indices (map (bucket_of df) ks) (map (\<lambda>k. key_value k r) ks)
      = Inr (map (\<lambda>k. the (find_index (key_value k r) (bucket_of df k))) ks)" if "r \<in> set df" for r
  proof -
    have "zip (map (bucket_of df) ks) (map (\<lambda>k. key_value k r) ks) = map (\<lambda>k. (bucket_of df k, key_value k r)) ks"
      by (simp add: zip_map_map zip_same_conv_map)
    moreover have "key_value k r \<in> set (bucket_of df k)" for k
      using that by (simp add: bucket_of_def)
    ultimately show ?thesis
      unfolding row_indices_def by (simp add: rtraverse_map) (intro rtraverse_map_Inr, simp add: py_index_member)
  qed
  moreover have "zip (map prog df) (map val df) = map (\<lambda>r. (prog r, val r)) df"
    by (simp add: zip_map_map zip_same_conv_map)
  ultimately show ?thesis
    unfolding bucket_records_def by (simp add: rtraverse_map) (intro rtraverse_map_Inr, simp add: prog)
qed

text \<open>The index that the generated code computes and the value of the cell it reads.\<close>

definition cell_index :: "string list \<Rightarrow> tune_row list \<Rightarrow> (string \<Rightarrow> int) \<Rightarrow> nat list" where
  "cell_index ks df params = map (\<lambda>k. bin_index (bucket_of df k) (params k)) ks"

lemma table_value:
  fixes params :: "string \<Rightarrow> int"
  assumes buckets: "rtraverse (sorted_unique_key df) (map sparse_key ks) = Inr buckets"
    and recs: "bucket_records (map sparse_key ks) buckets (map prog df) (map val df) = Inr recs"
    and fill: "fill_lut (map length buckets) gpus recs = Inr rows"
    and prog: "\<And>r. tr_gpu (prog r) = tr_gpu r" "\<And>r k. dget (tr_cols (prog r)) (sparse_key k) = dget (tr_cols r) (sparse_key k)"
    and val: "\<And>r. r \<in> set df \<Longrightarrow> - 1 \<le> val r \<and> val r < 2 ^ 31"
    and "df \<noteq> []" "distinct ks" "i < length gpus"
  defines "is \<equiv> cell_index ks df params"
  shows "bin_indices (Some (dict_of (zip ks (map binning_init buckets)))) params = Some (map int is)
           \<and> list_all2 (<) is (map length buckets) \<and> length rows = length gpus
           \<and> length (rows ! i) = prod_list (map length buckets)
           \<and> rows ! i ! flat_index (map length buckets) is
               = (case tuned_record ks df gpus i params of None \<Rightarrow> - 1 | Some r \<Rightarrow> val r)"
proof -
  let ?b = "bucket_of df"
  note bs = unique_keys_buckets [OF buckets]
  note bp = bucket_of_props [OF \<open>df \<noteq> []\<close>]
  let ?is = "map (\<lambda>k. bin_index (?b k) (params k)) ks"
  have is_eq: "is = ?is" by (simp add: is_def cell_index_def)
  let ?inds = "\<lambda>r. map (\<lambda>k. the (find_index (key_value k r) (?b k))) ks"
  have recs_eq: "recs = map (\<lambda>r. (tr_gpu r, ?inds r, val r)) df"
    using recs bucket_records_eq [OF bs(2) prog, where df = df and ks = ks and val = val] by (simp add: bs(1))
  have "dict_of (zip ks (map binning_init buckets)) = map (\<lambda>k. (k, ?b k)) ks"
    using \<open>distinct ks\<close> bp(1)
    by (simp add: bs(1) dict_of_distinct binning_init_def zip_map2 zip_same_conv_map sorted_sort_id comp_def)
  then have bin: "bin_indices (Some (dict_of (zip ks (map binning_init buckets)))) params = Some (map int ?is)"
    using bin_index_props(1) [OF bp(1-3)]
    by (simp add: bin_indices_def those_map_Some [where g = "\<lambda>k. int (bin_index (?b k) (params k))"] comp_def)
  have inr: "list_all2 (<) ?is (map length buckets)"
    using bin_index_props(2) [OF bp(1-3)] by (simp add: bs(1) in_range_map list_all_iff comp_def)
  have mem: "key_value k r \<in> set (?b k)" if "r \<in> set df" for r k using that by (simp add: bucket_of_def)
  have range: "recs_in (map length buckets) (gpu_records recs g)" for g
    using mem val by (auto simp: recs_in_def recs_eq gpu_records_def bs(1) in_range_map list_all_iff find_index_less)
  have cell: "last_cell ?is (gpu_records recs g) = map_option val (db_lookup ks df g params)" for g
  proof -
    have "the (find_index (key_value k r) (?b k)) = bin_index (?b k) (params k)
            \<longleftrightarrow> key_value k r = bin_value (set (map (key_value k) df)) (params k)" if "r \<in> set df" for r k
      using find_index_iff [OF bp(2) bin_index_props(2) [OF bp(1-3)] mem [OF that]]
        bin_index_props(3) [OF bp(1-3)] bp(4) by simp
    then have "find (\<lambda>r. tr_gpu r = g \<and> ?inds r = ?is) (rev df)
                 = find (\<lambda>r. tr_gpu r = g \<and> list_all (\<lambda>k. key_value k r
                       = bin_value (set (map (key_value k) df)) (params k)) ks) (rev df)"
      by (intro find_cong_set) (auto simp: list_all_iff)
    then show ?thesis by (simp add: recs_eq last_cell_gpu db_lookup_def)
  qed
  have "cell_spec recs gpus i ?is = map_option val (tuned_record ks df gpus i params)"
    by (simp add: cell_spec_def cell tuned_record_def split: option.splits)
  then have "rows ! i ! flat_index (map length buckets) ?is
               = (case tuned_record ks df gpus i params of None \<Rightarrow> - 1 | Some r \<Rightarrow> val r)"
    using fill_lut_value(3) [OF fill range \<open>i < length gpus\<close> inr] by (simp split: option.splits)
  then show ?thesis using bin inr fill_lut_value(1,2) [OF fill range \<open>i < length gpus\<close> inr] unfolding is_eq by blast
qed

section \<open>The kernel table\<close>

text \<open>The kernel signature a record of the database stands for.\<close>

definition record_sig :: "kdesc \<Rightarrow> functional \<Rightarrow> tune_row \<Rightarrow> ksig res" where
  "record_sig kd f r =
     rbind (perf_keys kd) (\<lambda>pkeys.
     rbind (row_values (pkeys @ copt_keys) (set_programmatic_columns (kd_programmatic kd) f r)) (create_sig kd f))"

lemma pick_bits_id:
  assumes "- 1 \<le> v" "v < n" "n < 2 ^ 31"
  shows "wrap_bits (pick_bits n [8, 16, 32]) v = v"
  using assms by (auto simp: int_max_def intro!: wrap_bits_id)

lemma programmatic_columns:
  "tr_gpu (set_programmatic_columns programs f r) = tr_gpu r"
  "dget (tr_cols (set_programmatic_columns programs f r)) (sparse_key k) = dget (tr_cols r) (sparse_key k)"
proof -
  have "dget (fold (\<lambda>(perf_name, program) d. dset d (''tuned_kernel$'' @ perf_name) (program f)) programs d)
          (sparse_key k) = dget d (sparse_key k)" for d
    by (induction programs arbitrary: d) (auto simp: sparse_key_def)
  then show "dget (tr_cols (set_programmatic_columns programs f r)) (sparse_key k) = dget (tr_cols r) (sparse_key k)"
    by (simp add: set_programmatic_columns_def)
qed (simp add: set_programmatic_columns_def)

lemma tuned_record_mem:
  assumes "tuned_record ks df gpus i params = Some r" shows "r \<in> set df"
proof -
  have "r \<in> set df" if "db_lookup ks df g params = Some r" for g
    using that by (auto simp: db_lookup_def find_Some_iff) (metis nth_mem set_rev length_rev)
  then show ?thesis using assms by (auto simp: tuned_record_def split: option.splits)
qed

lemma kernel_table:
  fixes params :: "string \<Rightarrow> int"
  assumes trans: "kd_translate_dataframe kd f df = Inr (t, sigs, binning)"
    and df: "df \<noteq> []" "int (length df) < 2 ^ 31"
    and "distinct (kd_autotune_keys kd)" "i < length (f_database_gpus f)"
  defines "v \<equiv> lut_rows t ! i ! flat_index (lut_shape t) (cell_index (kd_autotune_keys kd) df params)"
  shows "lut_shape t = map (\<lambda>k. length (bucket_of df k)) (kd_autotune_keys kd)"
    and "length (lut_rows t) = length (f_database_gpus f)" "length (lut_rows t ! i) = prod_list (lut_shape t)"
    and "lut_lookup t (Some binning) i params = Some v"
    and "case tuned_record (kd_autotune_keys kd) df (f_database_gpus f) i params of
           None \<Rightarrow> v = - 1
         | Some r \<Rightarrow> 0 \<le> v \<and> nat v < length sigs \<and> record_sig kd f r = Inr (sigs ! nat v)"
proof -
  let ?ks = "kd_autotune_keys kd" and ?prog = "set_programmatic_columns (kd_programmatic kd) f"
  obtain buckets pkeys sigrows recs rows where
    buckets: "rtraverse (sorted_unique_key df) (map sparse_key ?ks) = Inr buckets"
    and pkeys: "perf_keys kd = Inr pkeys"
    and sigrows: "rtraverse (row_values (pkeys @ copt_keys)) (map ?prog df) = Inr sigrows"
    and sigs: "rtraverse (create_sig kd f) (np_unique sigrows) = Inr sigs"
    and recs: "bucket_records (map sparse_key ?ks) buckets (map ?prog df)
                 (map (\<lambda>row. int (the (find_index row (np_unique sigrows)))) sigrows) = Inr recs"
    and fill: "fill_lut (map length buckets) (f_database_gpus f) recs = Inr rows"
    and t: "t = \<lparr>lut_bits = pick_bits (int (length sigs)) [8, 16, 32], lut_shape = map length buckets,
                 lut_rows = map (map (wrap_bits (pick_bits (int (length sigs)) [8, 16, 32]))) rows\<rparr>"
    and binning: "binning = dict_of (zip ?ks (map binning_init buckets))"
    using trans by (auto simp: kd_translate_dataframe_def res_iffs Let_def)
  define row where "row r = projr (row_values (pkeys @ copt_keys) (?prog r))" for r
  have sigrows_eq: "sigrows = map row df" and rows_ok: "\<And>r. r \<in> set df \<Longrightarrow> row_values (pkeys @ copt_keys) (?prog r) = Inr (row r)"
    using rtraverse_cong_Inr [OF sigrows] by (auto simp: row_def)
  define val where "val r = int (the (find_index (row r) (np_unique sigrows)))" for r
  have len: "length sigs = length (np_unique sigrows)" "length (np_unique sigrows) \<le> length df"
    using sigs by (auto simp: rtraverse_Inr_iff sigrows_eq np_unique_def intro: le_trans [OF length_remdups_leq]
        dest: list_all2_lengthD)
  have mem: "row r \<in> set (np_unique sigrows)" if "r \<in> set df" for r using that by (simp add: sigrows_eq)
  have val: "0 \<le> val r \<and> nat (val r) < length sigs \<and> record_sig kd f r = Inr (sigs ! nat (val r))" if "r \<in> set df" for r
  proof -
    let ?n = "the (find_index (row r) (np_unique sigrows))"
    have "?n < length sigs" using find_index_less [OF mem [OF that]] len by simp
    moreover have "np_unique sigrows ! ?n = row r"
      using find_index_iff [OF np_unique_props(2), of ?n sigrows "row r"] find_index_less [OF mem [OF that]]
        mem [OF that] by auto
    ultimately show ?thesis
      using sigs rows_ok [OF that] pkeys len
      by (auto simp: val_def record_sig_def rtraverse_Inr_iff list_all2_conv_all_nth)
  qed
  have val_range: "- 1 \<le> val r \<and> val r < int (length sigs)" if "r \<in> set df" for r using val [OF that] by linarith
  have recs': "bucket_records (map sparse_key ?ks) buckets (map ?prog df) (map val df) = Inr recs"
  proof -
    have "map (\<lambda>row. int (the (find_index row (np_unique sigrows)))) sigrows = map val df"
      unfolding val_def by (subst (2) sigrows_eq) simp
    with recs show ?thesis by simp
  qed
  have sigs_lt: "int (length sigs) < 2 ^ 31" using len df by linarith
  have "\<And>r. r \<in> set df \<Longrightarrow> - 1 \<le> val r \<and> val r < 2 ^ 31" using val_range sigs_lt by fastforce
  note tv = table_value [OF buckets recs' fill programmatic_columns this df(1) assms(4,5), of params, folded binning]
  let ?is = "cell_index ?ks df params" and ?shape = "map length buckets"
  have rows: "length rows = length (f_database_gpus f)" "length (rows ! i) = prod_list ?shape"
    and idx: "bin_indices (Some binning) params = Some (map int ?is)" "list_all2 (<) ?is ?shape"
    and cell: "rows ! i ! flat_index ?shape ?is
               = (case tuned_record ?ks df (f_database_gpus f) i params of None \<Rightarrow> - 1 | Some r \<Rightarrow> val r)"
    using tv by simp_all
  let ?v = "rows ! i ! flat_index ?shape ?is"
  have "sigs \<noteq> []" using df(1) len by (auto simp: sigrows_eq)
  then have "wrap_bits (pick_bits (int (length sigs)) [8, 16, 32]) ?v = ?v"
    using cell val_range tuned_record_mem sigs_lt
    by (intro pick_bits_id) (fastforce split: option.splits)+
  then have v: "v = ?v"
    using rows assms(5) flat_index_less [OF idx(2)] by (simp add: v_def t)
  show shape: "lut_shape t = map (\<lambda>k. length (bucket_of df k)) ?ks"
    using unique_keys_buckets(1) [OF buckets] by (simp add: t comp_def)
  show len_rows: "length (lut_rows t) = length (f_database_gpus f)" "length (lut_rows t ! i) = prod_list (lut_shape t)"
    using rows assms(5) by (simp_all add: t)
  have "list_all2 (\<lambda>j n. 0 \<le> j \<and> j < int n) (map int ?is) (lut_shape t)"
    using idx(2) by (simp add: t list_all2_map1)
  then show "lut_lookup t (Some binning) i params = Some v"
    using idx(1) len_rows(1) assms(5) by (simp add: lut_lookup_def v_def comp_def)
  show "case tuned_record ?ks df (f_database_gpus f) i params of
           None \<Rightarrow> v = - 1
         | Some r \<Rightarrow> 0 \<le> v \<and> nat v < length sigs \<and> record_sig kd f r = Inr (sigs ! nat v)"
    using cell val tuned_record_mem v by (auto split: option.splits)
qed

text \<open>
  C24: the generated lookup implements the tuning database. For every GPU of the functional and
  every launch, the table built by \<open>translate_dataframe\<close> and read by the generated C++ function
  yields the signature of the record that the database has for the launch (every key rounded up
  to a recorded value, or to the largest one; the last of several records counts; the first
  GPU's record where the GPU has none), and -1 where there is no record at all. No access is
  out of bounds, and narrowing the element type loses no value.
\<close>

theorem tuned_lookup:
  assumes trans: "kd_translate_dataframe kd f df = Inr (t, sigs, binning)"
    and df: "df \<noteq> []" "int (length df) < 2 ^ 31"
    and "distinct (kd_autotune_keys kd)" "i < length (f_database_gpus f)"
  shows "\<exists>v. lut_lookup t (Some binning) i params = Some v
           \<and> (case tuned_record (kd_autotune_keys kd) df (f_database_gpus f) i params of
                None \<Rightarrow> v = - 1
              | Some r \<Rightarrow> 0 \<le> v \<and> nat v < length sigs \<and> record_sig kd f r = Inr (sigs ! nat v))"
  by (rule exI, rule conjI [OF kernel_table(4) [OF assms] kernel_table(5) [OF assms]])

text \<open>A kernel with one key and one tuned parameter, two GPUs and three records.\<close>

definition ex_block :: tparam where
  "ex_block =
     \<lparr>tp_names = [''BLOCK_M''], tp_choices = [Settled (Constexpr CxInt16 (PInt 16))],
      tp_maybe_conditional = False, tp_first = 0, tp_ordered = [(''BLOCK_M'', 0)], tp_godel = 1\<rparr>"

definition ex_kernel_iface :: iface where
  "ex_kernel_iface =
     \<lparr>if_class = \<lparr>ic_family = ''flash'', ic_name = ''attn_fwd'', ic_arguments = [''BLOCK_M''],
         ic_type_choices = None, ic_feat_choices = None, ic_tensor_ranks = None,
         ic_tensor_stride_inputs = None, ic_choice_filters = None\<rparr>,
      if_func_params = [], if_perf_params = [ex_block], if_godel = 1, if_func_cfields = []\<rparr>"

definition ex_kdesc :: kdesc where
  "ex_kdesc =
     \<lparr>kd_iface = ex_kernel_iface, kd_autotune_keys = [''Max_seqlen_q''], kd_programmatic = [],
      kd_gen_configs = None, kd_perf_cfields = []\<rparr>"

definition ex_two_gpus :: functional where
  "ex_two_gpus = ex_functional\<lparr>f_database_gpus := [''gfx942_mod0'', ''gfx942_mod1'']\<rparr>"

definition ex_record :: "string \<Rightarrow> int \<Rightarrow> int \<Rightarrow> tune_row" where
  "ex_record gpu seqlen block =
     \<lparr>tr_gpu = gpu, tr_cols = [(''inputs$Max_seqlen_q'', seqlen), (''tuned_kernel$BLOCK_M'', block),
        (''compiler_options$waves_per_eu'', 2), (''compiler_options$num_warps'', 4),
        (''compiler_options$num_stages'', 1)]\<rparr>"

definition ex_df :: "tune_row list" where
  "ex_df = [ex_record ''gfx942_mod0'' 64 128, ex_record ''gfx942_mod0'' 16 32, ex_record ''gfx942_mod1'' 16 64]"

lemmas ex_defs = ex_block_def ex_kernel_iface_def ex_kdesc_def ex_two_gpus_def ex_functional_def ex_record_def ex_df_def

lemma ex_translates: "is_ok (kd_translate_dataframe ex_kdesc ex_two_gpus ex_df)"
  by code_simp

lemma ex_tuned_record:
  "tuned_record (kd_autotune_keys ex_kdesc) ex_df (f_database_gpus ex_two_gpus) 1 (\<lambda>_. 20)
     = Some (ex_record ''gfx942_mod0'' 64 128)"
  by code_simp

theorem tuned_lookup_witness:
  "\<exists>t sigs binning v. kd_translate_dataframe ex_kdesc ex_two_gpus ex_df = Inr (t, sigs, binning)
     \<and> lut_lookup t (Some binning) 1 (\<lambda>_. 20) = Some v \<and> nat v < length sigs
     \<and> record_sig ex_kdesc ex_two_gpus (ex_record ''gfx942_mod0'' 64 128) = Inr (sigs ! nat v)"
proof -
  obtain t sigs binning where tr: "kd_translate_dataframe ex_kdesc ex_two_gpus ex_df = Inr (t, sigs, binning)"
    using ex_translates by (auto simp: is_ok_iff)
  have "ex_df \<noteq> []" "int (length ex_df) < 2 ^ 31" "distinct (kd_autotune_keys ex_kdesc)"
    "1 < length (f_database_gpus ex_two_gpus)"
    by (simp_all add: ex_defs)
  from tuned_lookup [OF tr this, of "\<lambda>_. 20"] show ?thesis using tr unfolding ex_tuned_record by auto
qed

section \<open>The operator table\<close>

definition op_backend :: "tune_row \<Rightarrow> int" where
  "op_backend r = the (dget (tr_cols r) ''op$backend'')"

text \<open>The table of an operator yields the backend of the record; a corollary of the general lemma.\<close>

lemma op_table:
  assumes trans: "op_translate_dataframe ks backends f df = Inr (t, names, binning)"
    and df: "df \<noteq> []" "list_all (\<lambda>r. 0 \<le> op_backend r \<and> op_backend r < 2 ^ 31) df"
    and "distinct ks" "i < length (f_database_gpus f)"
  shows "\<exists>v. lut_lookup t (Some binning) i params = Some v \<and> v \<in> set (concat (lut_rows t))
           \<and> v = (case tuned_record ks df (f_database_gpus f) i params of None \<Rightarrow> - 1 | Some r \<Rightarrow> op_backend r)"
    and "rtraverse (py_nth backends) (np_unique (concat (lut_rows t))) = Inr names"
proof -
  obtain buckets vs recs rows where
    buckets: "rtraverse (sorted_unique_key df) (map sparse_key ks) = Inr buckets"
    and vals: "rtraverse (\<lambda>r. col_value r ''op$backend'') df = Inr vs"
    and recs: "bucket_records (map sparse_key ks) buckets df vs = Inr recs"
    and fill: "fill_lut (map length buckets) (f_database_gpus f) recs = Inr rows"
    and names: "rtraverse (py_nth backends) (np_unique (concat rows)) = Inr names"
    and t: "t = \<lparr>lut_bits = 32, lut_shape = map length buckets, lut_rows = rows\<rparr>"
    and binning: "binning = dict_of (zip ks (map binning_init buckets))"
    using trans by (auto simp: op_translate_dataframe_def res_iffs Let_def)
  show "rtraverse (py_nth backends) (np_unique (concat (lut_rows t))) = Inr names" using names t by simp
  have "projr (col_value r ''op$backend'') = op_backend r" if "r \<in> set df" for r
    using rtraverse_cong_Inr [OF vals] that
    by (auto simp: col_value_def op_backend_def of_option_def split: option.splits)
  then have "vs = map op_backend df" using rtraverse_cong_Inr [OF vals] by simp
  then have recs': "bucket_records (map sparse_key ks) buckets (map (\<lambda>r. r) df) (map op_backend df) = Inr recs"
    using recs by simp
  have "\<And>r. r \<in> set df \<Longrightarrow> - 1 \<le> op_backend r \<and> op_backend r < 2 ^ 31" using df(2) by (fastforce simp: list_all_iff)
  from table_value [OF buckets recs' fill refl refl this df(1) assms(4,5), of params]
  obtain "is" where idx: "bin_indices (Some binning) params = Some (map int is)" "list_all2 (<) is (map length buckets)"
    and rows: "length rows = length (f_database_gpus f)" "length (rows ! i) = prod_list (map length buckets)"
    and cell: "rows ! i ! flat_index (map length buckets) is
               = (case tuned_record ks df (f_database_gpus f) i params of None \<Rightarrow> - 1 | Some r \<Rightarrow> op_backend r)"
    unfolding binning by blast
  have "lut_lookup t (Some binning) i params = Some (rows ! i ! flat_index (map length buckets) is)"
    using idx rows assms(5) by (auto simp: lut_lookup_def t list_all2_conv_all_nth comp_def)
  moreover have "rows ! i ! flat_index (map length buckets) is \<in> set (concat (lut_rows t))"
    using rows assms(5) flat_index_less [OF idx(2)] by (auto simp: t intro!: bexI [of _ "rows ! i"])
  ultimately show "\<exists>v. lut_lookup t (Some binning) i params = Some v \<and> v \<in> set (concat (lut_rows t))
           \<and> v = (case tuned_record ks df (f_database_gpus f) i params of None \<Rightarrow> - 1 | Some r \<Rightarrow> op_backend r)"
    using cell by blast
qed

lemma tuned_record_own:
  assumes "r \<in> set df" "gpus ! i = tr_gpu r"
  shows "tuned_record ks df gpus i (\<lambda>k. key_value k r) \<noteq> None"
proof -
  have "bin_value (set (map (key_value k) df)) (key_value k r) = key_value k r" for k
    using assms(1) by (auto simp: bin_value_def intro!: Min_eqI)
  then have "db_lookup ks df (gpus ! i) (\<lambda>k. key_value k r) \<noteq> None"
    using assms by (auto simp: db_lookup_def find_None_iff list_all_iff)
  then show ?thesis by (auto simp: tuned_record_def split: option.splits)
qed

text \<open>
  C26: leaving out the table of a trivial operator is sound: when \<open>is_trivial\<close> holds, the table
  that is not generated would answer every launch on every GPU with the one backend that is
  recorded in its place (every record of the view belongs to one of the functional's GPUs).
\<close>

theorem trivial_tune_equivalence:
  assumes trans: "op_translate_dataframe ks backends f df = Inr (t, names, binning)"
    and "optune_is_trivial names"
    and df: "df \<noteq> []" "list_all (\<lambda>r. 0 \<le> op_backend r \<and> op_backend r < 2 ^ 31) df"
    and gpus: "list_all (\<lambda>r. tr_gpu r \<in> set (f_database_gpus f)) df"
    and "distinct ks" "i < length (f_database_gpus f)"
  shows "\<exists>v. lut_lookup t (Some binning) i params = Some v \<and> 0 \<le> v \<and> py_nth backends v = py_nth names 0"
proof -
  note table = op_table [OF trans df assms(6)]
  obtain r j where r: "r \<in> set df" "j < length (f_database_gpus f)" "f_database_gpus f ! j = tr_gpu r"
    using df(1) gpus by (cases df) (auto simp: in_set_conv_nth)
  obtain r' where r': "tuned_record ks df (f_database_gpus f) j (\<lambda>k. key_value k r) = Some r'"
    using tuned_record_own [of r df "f_database_gpus f" j ks, OF r(1,3)] by blast
  then have cell: "op_backend r' \<in> set (concat (lut_rows t))" "0 \<le> op_backend r'"
    using table(1) [OF r(2), of "\<lambda>k. key_value k r"] df(2) tuned_record_mem [OF r']
    by (auto simp: list_all_iff)
  have "list_all2 (\<lambda>v n. py_nth backends v = Inr n) (np_unique (concat (lut_rows t))) names"
    using table(2) [OF r(2)] by (simp add: rtraverse_Inr_iff)
  moreover obtain v where v: "lut_lookup t (Some binning) i params = Some v" "v \<in> set (concat (lut_rows t))"
    using table(1) [OF assms(7)] by blast
  ultimately have "length (np_unique (concat (lut_rows t))) \<le> 1" "v \<in> set (np_unique (concat (lut_rows t)))"
    "op_backend r' \<in> set (np_unique (concat (lut_rows t)))"
    using assms(2) cell by (auto simp: optune_is_trivial_def dest: list_all2_lengthD)
  then have "np_unique (concat (lut_rows t)) = [v]" "v = op_backend r'"
    by (cases "np_unique (concat (lut_rows t))"; auto)+
  with \<open>list_all2 _ _ names\<close> have "\<exists>n. names = [n] \<and> py_nth backends v = Inr n"
    by (auto simp: list_all2_Cons1)
  then show ?thesis using v cell \<open>v = op_backend r'\<close> by (auto simp: py_nth_def)
qed

definition ex_op_df :: "tune_row list" where
  "ex_op_df =
     [\<lparr>tr_gpu = ''gfx942_mod0'', tr_cols = [(''inputs$Max_seqlen_q'', 64), (''op$backend'', 1)]\<rparr>,
      \<lparr>tr_gpu = ''gfx942_mod0'', tr_cols = [(''inputs$Max_seqlen_q'', 16), (''op$backend'', 1)]\<rparr>]"

theorem trivial_tune_equivalence_witness:
  "\<exists>t binning v. op_translate_dataframe [''Max_seqlen_q''] [''kMetro_Triton'', ''kShim_BwdKernelFuse''] ex_two_gpus ex_op_df
        = Inr (t, [''kShim_BwdKernelFuse''], binning)
     \<and> lut_lookup t (Some binning) 1 (\<lambda>_. 100) = Some v \<and> 0 \<le> v
     \<and> py_nth [''kMetro_Triton'', ''kShim_BwdKernelFuse''] v = py_nth [''kShim_BwdKernelFuse''] 0"
proof -
  let ?tr = "op_translate_dataframe [''Max_seqlen_q''] [''kMetro_Triton'', ''kShim_BwdKernelFuse''] ex_two_gpus ex_op_df"
  have "rmap (fst \<circ> snd) ?tr = Inr [''kShim_BwdKernelFuse'']" by code_simp
  then obtain t binning where tr: "?tr = Inr (t, [''kShim_BwdKernelFuse''], binning)"
    by (cases ?tr) auto
  have "optune_is_trivial [''kShim_BwdKernelFuse'']" by (simp add: optune_is_trivial_def)
  moreover have "ex_op_df \<noteq> []" "list_all (\<lambda>r. 0 \<le> op_backend r \<and> op_backend r < 2 ^ 31) ex_op_df"
    "list_all (\<lambda>r. tr_gpu r \<in> set (f_database_gpus ex_two_gpus)) ex_op_df"
    by (simp_all add: ex_op_df_def op_backend_def ex_defs)
  moreover have "distinct [''Max_seqlen_q'']" "1 < length (f_database_gpus ex_two_gpus)"
    by (simp_all add: ex_defs)
  ultimately show ?thesis using trivial_tune_equivalence [OF tr, of 1 "\<lambda>_. 100"] tr by blast
qed

end
