(* ===== verification/Dispatch.thy ===== *)
theory Dispatch
  imports KernelDesc
begin

text \<open>
  \<open>v3python/codegen/interface.py\<close> with the overriding method of \<open>codegen/operator.py\<close>: the C++
  code that takes a launch to the tuning function of its functional. The generated statements
  are values, rendered to the text the generator prints and executed as the C++ program does;
  \<open>lookup_tune\<close> is the part of \<open>codegen/template/shim.cc\<close> that puts them together.
\<close>

section \<open>Goedel numbers\<close>

text \<open>
  The block printed for one parameter: a comparison per choice, the value shown in the message
  when none of them holds, and the weight of the parameter.
\<close>

record godel_block =
  gb_aname :: string
  gb_cases :: "(string \<times> string \<times> nat) list"
  gb_vgetter :: string
  gb_stride :: int

text \<open>A tensor is compared by its element type, everything else by its value.\<close>

fun choice_getter :: "string \<Rightarrow> stc \<Rightarrow> (string \<times> string \<times> string) res" where
  "choice_getter var (Tensor lz e r sp) =
     rmap (\<lambda>t. let getter = var @ ''->dtype()'' in (getter, t, getter)) (sc_type_enum e)"
| "choice_getter var (Constexpr t v) =
     Inr (var, py_lower (stc_str (Constexpr t v)), if t = CxBool then var else CHR ''+'' # var)"
| "choice_getter var (Scalar s) = Inr (var, py_lower (stc_str (Scalar s)), var)"

definition choice_case :: "string \<Rightarrow> tc \<Rightarrow> (string \<times> string \<times> string) res" where
  "choice_case var t = (case t of Settled c \<Rightarrow> choice_getter var c | _ \<Rightarrow> Inl AssertionError)"

definition codegen_godel_number_calculation :: "string \<Rightarrow> tparam \<Rightarrow> godel_block option res" where
  "codegen_godel_number_calculation anamespace tp =
     (if nchoices tp \<le> 1 then Inr None
      else rbind (repr_name tp) (\<lambda>aname.
        rmap (\<lambda>cs. Some \<lparr>gb_aname = aname,
                 gb_cases = map (\<lambda>(number, getter, v, _). (getter, v, number)) (enumerate 0 cs),
                 gb_vgetter = snd (snd (last cs)), gb_stride = tp_godel tp\<rparr>)
          (rtraverse (choice_case (anamespace @ aname)) (tp_choices tp))))"

definition codegen_godel_number_body :: "tparam list \<Rightarrow> godel_block list res" where
  "codegen_godel_number_body ps =
     rmap (\<lambda>bs. map the (filter (\<lambda>b. b \<noteq> None) bs))
       (rtraverse (codegen_godel_number_calculation ''args.'') ps)"

definition nl :: string where
  "nl = [CHR 0x0A]"

definition indent :: "nat \<Rightarrow> string" where
  "indent n = replicate (4 * n) CHR '' ''"

definition quoted :: "string \<Rightarrow> string" where
  "quoted s = CHR 0x22 # s @ [CHR 0x22]"

definition render_godel_block :: "godel_block \<Rightarrow> string" where
  "render_godel_block b =
     concat (map (\<lambda>l. l @ nl)
       ([indent 1 @ ''{'', indent 2 @ ''int64_t number = -1;'']
        @ map (\<lambda>(getter, v, number). indent 2 @ ''if ('' @ getter @ '' == '' @ v @ '') number = ''
                                     @ show_nat number @ '' ;'') (gb_cases b)
        @ [indent 2 @ ''if (number < 0) {'', ''#ifndef NDEBUG'',
           indent 3 @ ''std::cerr << __FILE__ << '' @ quoted '':'' @ '' << __LINE__ << ''
             @ quoted ('': Unsupported '' @ gb_aname b @ '', value: '') @ '' << '' @ gb_vgetter b
             @ '' << std::endl;'',
           ''#endif'', indent 3 @ ''return -1;'', indent 2 @ ''}'',
           indent 2 @ ''sum += number * '' @ show_int (gb_stride b) @ '';'', indent 1 @ ''}'']))"

text \<open>
  Execution. \<open>env\<close> gives the text of the value of every getter expression for one launch; a
  later comparison that holds overrides an earlier one.
\<close>

definition run_cases :: "(string \<Rightarrow> string) \<Rightarrow> (string \<times> string \<times> nat) list \<Rightarrow> int" where
  "run_cases env cs = fold (\<lambda>(getter, v, number) n. if env getter = v then int number else n) cs (-1)"

fun run_godel_body :: "(string \<Rightarrow> string) \<Rightarrow> godel_block list \<Rightarrow> int \<Rightarrow> int" where
  "run_godel_body env [] acc = acc"
| "run_godel_body env (b # bs) acc =
     (let number = run_cases env (gb_cases b) in
      if number < 0 then - 1 else run_godel_body env bs (acc + number * gb_stride b))"

section \<open>Architectures and GPUs\<close>

definition py_upper :: "string \<Rightarrow> string" where
  "py_upper s = map ascii_upper s"

definition gpu_enum :: "string \<Rightarrow> string" where
  "gpu_enum gpu = py_upper (''GPU_AMD_ARCH_'' @ gpu)"

definition codegen_archmod_number_body ::
  "(string, string list) dict \<Rightarrow> (string \<times> nat \<times> nat) list" where
  "codegen_archmod_number_body target_arch =
     concat (map (\<lambda>(i, arch, gpus). map (\<lambda>(j, gpu). (gpu_enum gpu, i, j)) (enumerate 0 gpus))
       (enumerate 0 target_arch))"

definition render_archmod :: "(string \<times> nat \<times> nat) list \<Rightarrow> string" where
  "render_archmod lets =
     join (CHR '';'' # nl @ indent 1)
       (map (\<lambda>(e, i, j). ''if (gpu == '' @ e @ '') return { '' @ show_nat i @ '', '' @ show_nat j @ '' }'') lets)"

fun run_archmod :: "(string \<times> nat \<times> nat) list \<Rightarrow> string \<Rightarrow> int \<times> int" where
  "run_archmod [] gpu = (- 1, 0)"
| "run_archmod ((e, i, j) # lets) gpu = (if gpu = e then (int i, int j) else run_archmod lets gpu)"

section \<open>The table of tuning functions\<close>

text \<open>A struct name comes with \<open>is_extern\<close>: whether another file defines the function.\<close>

definition codegen_tune_struct_name :: "string \<Rightarrow> string \<Rightarrow> nat \<Rightarrow> int \<Rightarrow> string \<times> bool" where
  "codegen_tune_struct_name TUNE_NAME NAME arch_number godel =
     (py_capitalize TUNE_NAME @ ''_'' @ NAME @ ''__A'' @ show_nat arch_number @ ''__F'' @ show_int godel, True)"

definition op_codegen_tune_struct_name ::
  "(nat \<times> int, string) dict \<Rightarrow> string \<Rightarrow> string \<Rightarrow> nat \<Rightarrow> int \<Rightarrow> string \<times> bool" where
  "op_codegen_tune_struct_name tt_dict TUNE_NAME NAME arch_number godel =
     (case dget tt_dict (arch_number, godel) of
        None \<Rightarrow> codegen_tune_struct_name TUNE_NAME NAME arch_number godel
      | Some trivial_enum \<Rightarrow> (TUNE_NAME @ ''_'' @ NAME @ ''__Trivial_'' @ trivial_enum, False))"

definition arch_godel_numbers :: "functional list \<Rightarrow> string \<Rightarrow> int list res" where
  "arch_godel_numbers functionals target_arch =
     rmap (\<lambda>gs. sort (remdups gs)) (rtraverse godel_number (filter (\<lambda>f. f_arch f = target_arch) functionals))"

text \<open>One row per architecture, one entry per Goedel number; None is a null pointer.\<close>

type_synonym tune_table = "(string \<times> bool) option list list"

definition codegen_tune_table_entries ::
  "(nat \<Rightarrow> int \<Rightarrow> string \<times> bool) \<Rightarrow> int \<Rightarrow> string list \<Rightarrow> functional list \<Rightarrow> tune_table res" where
  "codegen_tune_table_entries struct_name ngodel archs functionals =
     rtraverse (\<lambda>(arch_number, arch).
       rmap (\<lambda>godel_numbers. map (\<lambda>g. if g \<in> set godel_numbers then Some (struct_name arch_number g) else None)
               [0..ngodel - 1])
         (arch_godel_numbers functionals arch))
       (enumerate 0 archs)"

definition render_table :: "string \<Rightarrow> tune_table \<Rightarrow> string" where
  "render_table TUNE_NAME table =
     join nl (concat (map (\<lambda>row. [indent 1 @ ''{'']
       @ map (\<lambda>e. indent 2 @ (case e of
                    None \<Rightarrow> ''nullptr,''
                  | Some (s, is_extern) \<Rightarrow> (if is_extern then ''&'' @ TUNE_NAME @ ''::'' @ s @ '',''
                                           else ''&'' @ s @ '',''))) row
       @ [indent 1 @ ''},'']) table))"

definition codegen_tune_table_entry_declares ::
  "(nat \<Rightarrow> int \<Rightarrow> string \<times> bool) \<Rightarrow> string \<Rightarrow> string list \<Rightarrow> functional list \<Rightarrow> string res" where
  "codegen_tune_table_entry_declares struct_name context_class archs functionals =
     rmap (\<lambda>ls. join nl (concat ls))
       (rtraverse (\<lambda>(arch_number, arch).
          rmap (\<lambda>gs. map (\<lambda>g. ''void '' @ fst (struct_name arch_number g) @ ''('' @ context_class
                              @ ''& params, int mod_number);'')
                       (filter (\<lambda>g. snd (struct_name arch_number g)) gs))
            (arch_godel_numbers functionals arch))
          (enumerate 0 archs))"

section \<open>Looking a launch up\<close>

datatype hip_error = NoBinaryForGpu | NotSupported | ProfilerNotInitialized

text \<open>
  \<open>lookup_optimal\<close> up to the call of the tuning function: the function's name and the number of
  the GPU it is called with, or None for the success it returns at once when the kernel was
  disabled by the condition given to its constructor. The block that only a build for tuning has
  is left out. An access outside of the table is no case of the C++ code; here it
  would be a null pointer.
\<close>

definition table_at :: "tune_table \<Rightarrow> int \<Rightarrow> int \<Rightarrow> (string \<times> bool) option" where
  "table_at table a g =
     (if 0 \<le> a \<and> nat a < length table \<and> 0 \<le> g \<and> nat g < length (table ! nat a)
      then table ! nat a ! nat g else None)"

definition lookup_tune ::
  "bool \<Rightarrow> (string \<times> nat \<times> nat) list \<Rightarrow> godel_block list \<Rightarrow> tune_table \<Rightarrow> string \<Rightarrow> (string \<Rightarrow> string)
   \<Rightarrow> hip_error + (string \<times> int) option" where
  "lookup_tune launch_condition archmod body table gpu env =
     (let (arch_number, mod_number) = run_archmod archmod gpu in
      if \<not> launch_condition then Inr None
      else if arch_number < 0 then Inl NoBinaryForGpu
      else let number = run_godel_body env body 0 in
        if number < 0 then Inl NotSupported
        else (case table_at table arch_number number of
                None \<Rightarrow> Inl ProfilerNotInitialized
              | Some (s, _) \<Rightarrow> Inr (Some (s, mod_number))))"

section \<open>Lemmas\<close>

text \<open>
  A launch agrees with a functional if every parameter with a choice has the value that the
  functional selected; a parameter is decidable if its comparisons test one expression for
  different values.
\<close>

definition param_matches :: "(string \<Rightarrow> string) \<Rightarrow> tparam \<Rightarrow> nat \<Rightarrow> bool" where
  "param_matches env tp k \<longleftrightarrow>
     (case codegen_godel_number_calculation ''args.'' tp of
        Inr None \<Rightarrow> True
      | Inr (Some b) \<Rightarrow> (case gb_cases b ! k of (getter, v, _) \<Rightarrow> env getter = v)
      | Inl _ \<Rightarrow> False)"

definition param_decidable :: "tparam \<Rightarrow> bool" where
  "param_decidable tp \<longleftrightarrow>
     (case codegen_godel_number_calculation ''args.'' tp of
        Inr (Some b) \<Rightarrow>
          list_all (\<lambda>c. fst c = fst (hd (gb_cases b))) (gb_cases b)
          \<and> distinct (map (fst \<circ> snd) (gb_cases b))
      | _ \<Rightarrow> True)"

definition launch_matches :: "(string \<Rightarrow> string) \<Rightarrow> functional \<Rightarrow> bool" where
  "launch_matches env f = list_all (\<lambda>b. param_matches env (b_klass b) (nat (the (b_nth b)))) (f_binds f)"

lemma fold_no_case:
  "\<forall>c\<in>set cs. env (fst c) \<noteq> fst (snd c) \<Longrightarrow>
   fold (\<lambda>(getter, v, number) n. if env getter = v then int number else n) cs n = n"
  by (induction cs arbitrary: n) auto

lemma run_cases_unique:
  assumes "k < length cs" "env (fst (cs ! k)) = fst (snd (cs ! k))"
    and getters: "list_all (\<lambda>c. fst c = fst (hd cs)) cs" and "distinct (map (fst \<circ> snd) cs)"
  shows "run_cases env cs = int (snd (snd (cs ! k)))"
proof -
  have split: "cs = take k cs @ cs ! k # drop (Suc k) cs" using assms(1) by (rule id_take_nth_drop)
  have same: "env (fst c) = fst (snd (cs ! k))" if "c \<in> set cs" for c
  proof -
    have "fst (cs ! k) = fst (hd cs)" using getters assms(1) by (simp add: list_all_length)
    then show ?thesis using getters that assms(2) by (simp add: list_all_iff)
  qed
  have no: "\<forall>c\<in>set (drop (Suc k) cs). env (fst c) \<noteq> fst (snd c)"
  proof
    fix c assume "c \<in> set (drop (Suc k) cs)"
    then obtain j where "j < length cs - Suc k" "c = cs ! (Suc k + j)" by (auto simp: in_set_conv_nth)
    then have j: "Suc k + j < length cs" "c = cs ! (Suc k + j)" by simp_all
    then have "map (fst \<circ> snd) cs ! (Suc k + j) \<noteq> map (fst \<circ> snd) cs ! k"
      using assms(1,4) by (subst nth_eq_iff_index_eq) auto
    moreover have "c \<in> set cs" using j by simp
    ultimately show "env (fst c) \<noteq> fst (snd c)" using same [of c] j assms(1) by simp
  qed
  have "run_cases env cs = fold (\<lambda>(getter, v, number) n. if env getter = v then int number else n)
          (drop (Suc k) cs) (int (snd (snd (cs ! k))))"
    unfolding run_cases_def using assms(2) by (subst split) (simp add: case_prod_unfold)
  then show ?thesis using fold_no_case [OF no] by simp
qed

lemma calculation_cases:
  assumes "codegen_godel_number_calculation an tp = Inr (Some b)"
  shows "length (gb_cases b) = nchoices tp" and "k < nchoices tp \<Longrightarrow> snd (snd (gb_cases b ! k)) = k"
    and "gb_stride b = tp_godel tp"
  using assms
  by (auto simp: codegen_godel_number_calculation_def res_iffs rtraverse_Inr_iff nchoices_def
      nth_enumerate_eq case_prod_unfold split: if_splits dest: list_all2_lengthD)

lemma run_godel_body_weigh:
  assumes "list_all2 (\<lambda>k p. k < nchoices p \<and> param_matches env p k \<and> param_decidable p) sel ps"
    and "codegen_godel_number_body ps = Inr bs"
  shows "run_godel_body env bs acc = acc + weigh (map tp_godel ps) sel"
  using assms
proof (induction sel ps arbitrary: bs acc rule: list_all2_induct)
  case Nil
  then show ?case by (simp add: codegen_godel_number_body_def weigh_def)
next
  case (Cons k ks p ps)
  obtain ob bs' where ob: "codegen_godel_number_calculation ''args.'' p = Inr ob"
    and bs': "codegen_godel_number_body ps = Inr bs'"
    and bs: "bs = (case ob of None \<Rightarrow> bs' | Some b \<Rightarrow> b # bs')"
    using Cons.prems by (auto simp: codegen_godel_number_body_def res_iffs split: option.splits)
  note IH = Cons.IH [OF bs']
  show ?case
  proof (cases ob)
    case None
    then have "k = 0" using ob Cons.hyps(1)
      by (auto simp: codegen_godel_number_calculation_def res_iffs split: if_splits)
    then show ?thesis using IH None bs by simp
  next
    case (Some b)
    note cs = calculation_cases [OF ob [unfolded Some]]
    have "run_cases env (gb_cases b) = int k"
      using run_cases_unique [of k "gb_cases b" env] cs Cons.hyps(1) ob Some
      by (auto simp: param_matches_def param_decidable_def case_prod_unfold)
    then show ?thesis using IH Some bs cs(3) by (simp add: Let_def)
  qed
qed

lemma run_archmod_mem:
  "distinct (map fst lets) \<Longrightarrow> (e, i, j) \<in> set lets \<Longrightarrow> run_archmod lets e = (int i, int j)"
  by (induction lets e rule: run_archmod.induct) force+

lemma run_archmod_unknown: "e \<notin> set (map fst lets) \<Longrightarrow> run_archmod lets e = (- 1, 0)"
  by (induction lets e rule: run_archmod.induct) auto

lemma archmod_enums:
  "map fst (codegen_archmod_number_body target_arch) = map gpu_enum (concat (map snd target_arch))"
proof -
  have "map fst (concat (map (\<lambda>(i, arch, gpus). map (\<lambda>(j, gpu). (gpu_enum gpu, i, j)) (enumerate m gpus)) (enumerate n ta)))
          = map gpu_enum (concat (map snd ta))" for m n and ta :: "(string, string list) dict"
  proof (induction ta arbitrary: n)
    case (Cons x ta)
    have "map (fst \<circ> (\<lambda>(j, gpu). (gpu_enum gpu, n, j))) (enumerate m (snd x)) = map gpu_enum (snd x)"
      by (simp add: case_prod_unfold comp_def flip: map_map [of gpu_enum snd, unfolded comp_def])
    then show ?case using Cons by (simp add: case_prod_unfold)
  qed simp
  then show ?thesis by (simp add: codegen_archmod_number_body_def)
qed

lemma archmod_mem:
  assumes "(k, arch, gpus) \<in> set (enumerate 0 target_arch)" "j < length gpus"
  shows "(gpu_enum (gpus ! j), k, j) \<in> set (codegen_archmod_number_body target_arch)"
proof -
  have "(j, gpus ! j) \<in> set (enumerate 0 gpus)" using assms(2) by (simp add: in_set_enumerate_eq)
  then show ?thesis using assms(1) by (force simp: codegen_archmod_number_body_def)
qed

lemma mk_functional_gpus:
  "mk_functional fam name arch k bs gpus = Some (Inr f) \<Longrightarrow> f_optimized_for f = gpus"
  by (auto simp: mk_functional_def rmap_Inr_iff)

text \<open>What \<open>gen_functionals\<close> fixes in a functional.\<close>

lemma generated_functional:
  assumes num: "numbered (if_func_params i)"
    and gen: "gen_functionals i target_arch = map (\<lambda>f. Some (Inr f)) fs" and f: "f \<in> set fs"
  shows "\<exists>k arch sel. (k, arch, f_optimized_for f) \<in> set (enumerate 0 target_arch)
           \<and> f_arch f = arch \<and> f_arch_number f = k
           \<and> sel \<in> set (product_lists (map (\<lambda>p. [0..<nchoices p]) (if_func_params i)))
           \<and> map b_klass (f_binds f) = if_func_params i \<and> map b_nth (f_binds f) = map (\<lambda>k. Some (int k)) sel
           \<and> godel_number f = Inr (weigh (map tp_godel (if_func_params i)) sel)"
proof -
  have "Some (Inr f) \<in> set (gen_functionals i target_arch)" using f gen by simp
  then obtain k arch gpus sel where k: "(k, arch, gpus) \<in> set (enumerate 0 target_arch)"
    and sel: "sel \<in> set (product_lists (map (\<lambda>p. [0..<nchoices p]) (if_func_params i)))"
    and one: "gen_one i k arch gpus sel = Some (Inr f)"
    by (fastforce simp: gen_functionals_def)
  from create_binds_Inr [OF product_list_all2 [OF sel]] obtain bs
    where bs: "create_binds_from_nths (if_func_params i) sel = Inr bs"
      "map b_klass bs = if_func_params i" "map b_nth bs = map (\<lambda>k. Some (int k)) sel"
    by blast
  have mk: "mk_functional (ic_family (if_class i)) (ic_name (if_class i)) arch k bs gpus = Some (Inr f)"
    using one bs(1) by (simp add: gen_one_def)
  have "strides (map int (map nchoices (if_func_params i))) = map tp_godel (if_func_params i)"
    using num by (simp add: numbered_def)
  then show ?thesis
    using k sel gen_one_godel [OF num sel one] mk_functional_frame [OF mk] mk_functional_gpus [OF mk] bs(2,3)
    by auto
qed

lemma table_at_entry:
  assumes "codegen_tune_table_entries sn n archs used = Inr table" and "k < length archs" "0 \<le> g" "g < n"
  shows "\<exists>gs. arch_godel_numbers used (archs ! k) = Inr gs
           \<and> table_at table (int k) g = (if g \<in> set gs then Some (sn k g) else None)"
proof -
  have len: "length table = length archs"
    using assms(1) by (auto simp: codegen_tune_table_entries_def rtraverse_Inr_iff dest: list_all2_lengthD)
  obtain gs where gs: "arch_godel_numbers used (archs ! k) = Inr gs"
    and row: "table ! k = map (\<lambda>g. if g \<in> set gs then Some (sn k g) else None) [0..n - 1]"
    using assms(1,2) by (fastforce simp: codegen_tune_table_entries_def rtraverse_Inr_iff list_all2_conv_all_nth
        nth_enumerate_eq res_iffs)
  then have "table_at table (int k) g = (if g \<in> set gs then Some (sn k g) else None)"
    using assms(2-4) len by (simp add: table_at_def)
  with gs show ?thesis by blast
qed

lemma arch_godel_mem:
  assumes "arch_godel_numbers used arch = Inr gs"
  shows "g \<in> set gs \<longleftrightarrow> (\<exists>f\<in>set used. f_arch f = arch \<and> godel_number f = Inr g)"
proof -
  obtain l where l: "rtraverse godel_number (filter (\<lambda>f. f_arch f = arch) used) = Inr l" and gs: "set gs = set l"
    using assms by (auto simp: arch_godel_numbers_def res_iffs)
  then have "list_all2 (\<lambda>f g. godel_number f = Inr g) (filter (\<lambda>f. f_arch f = arch) used) l"
    by (simp add: rtraverse_Inr_iff)
  then have "Inr ` set l = godel_number ` set (filter (\<lambda>f. f_arch f = arch) used)"
    by (induction rule: list_all2_induct) auto
  then have "g \<in> set l \<longleftrightarrow> Inr g \<in> godel_number ` set (filter (\<lambda>f. f_arch f = arch) used)"
    by (metis image_iff sum.inject(2))
  then show ?thesis unfolding gs by (auto simp: image_iff eq_commute)
qed

lemma weigh_numbered:
  assumes "numbered ps"
  shows "map (weigh (map tp_godel ps)) (product_lists (map (\<lambda>p. [0..<nchoices p]) ps))
           = map int [0..<prod_list (map nchoices ps)]"
proof -
  have "strides (map int (map nchoices ps)) = map tp_godel ps" using assms by (simp add: numbered_def)
  then show ?thesis using weigh_product [of "map nchoices ps"] by (simp add: comp_def)
qed

text \<open>A functional is determined by its architecture and its Goedel number.\<close>

lemma functional_unique:
  assumes num: "numbered (if_func_params i)" and dist: "distinct (dkeys target_arch)"
    and gen: "gen_functionals i target_arch = map (\<lambda>f. Some (Inr f)) fs"
    and f: "f \<in> set fs" "f' \<in> set fs" "f_arch f = f_arch f'" "godel_number f = godel_number f'"
  shows "f = f'"
proof -
  let ?ps = "if_func_params i"
  let ?P = "product_lists (map (\<lambda>p. [0..<nchoices p]) ?ps)"
  have job: "\<exists>k gpus sel. (k, f_arch f, gpus) \<in> set (enumerate 0 target_arch) \<and> sel \<in> set ?P
      \<and> gen_one i k (f_arch f) gpus sel = Some (Inr f) \<and> godel_number f = Inr (weigh (map tp_godel ?ps) sel)"
    if "f \<in> set fs" for f
  proof -
    have "Some (Inr f) \<in> set (gen_functionals i target_arch)" using that gen by simp
    then obtain k arch gpus sel where k: "(k, arch, gpus) \<in> set (enumerate 0 target_arch)"
      and sel: "sel \<in> set ?P" and one: "gen_one i k arch gpus sel = Some (Inr f)"
      by (fastforce simp: gen_functionals_def)
    have "strides (map int (map nchoices ?ps)) = map tp_godel ?ps" using num by (simp add: numbered_def)
    then show ?thesis using k sel one gen_one_godel [OF num sel one] by auto
  qed
  obtain k gpus sel where j: "(k, f_arch f, gpus) \<in> set (enumerate 0 target_arch)" "sel \<in> set ?P"
    "gen_one i k (f_arch f) gpus sel = Some (Inr f)" "godel_number f = Inr (weigh (map tp_godel ?ps) sel)"
    using job [OF f(1)] by blast
  obtain k' gpus' sel' where j': "(k', f_arch f', gpus') \<in> set (enumerate 0 target_arch)" "sel' \<in> set ?P"
    "gen_one i k' (f_arch f') gpus' sel' = Some (Inr f')" "godel_number f' = Inr (weigh (map tp_godel ?ps) sel')"
    using job [OF f(2)] by blast
  have "k = k'" "gpus = gpus'"
    using j(1) j'(1) f(3) dist nth_eq_iff_index_eq [of "dkeys target_arch" k k']
    by (auto simp: in_set_enumerate_eq dkeys_def)
  moreover have "sel = sel'"
  proof -
    have "distinct (map (weigh (map tp_godel ?ps)) ?P)"
      unfolding weigh_numbered [OF num] by (simp add: distinct_map)
    then have "inj_on (weigh (map tp_godel ?ps)) (set ?P)" by (simp add: distinct_map)
    moreover have "weigh (map tp_godel ?ps) sel = weigh (map tp_godel ?ps) sel'" using j(4) j'(4) f(4) by simp
    ultimately show ?thesis using j(2) j'(2) by (meson inj_onD)
  qed
  ultimately have "gen_one i k (f_arch f) gpus sel = Some (Inr f')" using j'(3) f(3) by simp
  with j(3) have "Some (Inr f) = (Some (Inr f') :: functional res option)" by (rule trans [OF sym])
  then show ?thesis by (simp only: option.inject sum.inject)
qed

text \<open>
  C28: the generated dispatch code takes every launch to the right tuning function. For a GPU the
  library is built for and arguments that agree with a functional of its architecture, it finds
  the functional's own architecture and Goedel numbers and calls the functional's tuning
  function, with the position of the GPU among those the functional is optimised for, if the
  functional was generated; otherwise, and only then, it reports that there is no function. A
  kernel that its constructor's condition disables is not looked up.
\<close>

theorem dispatch_correct:
  assumes "iface_late_init ic fps pps = Inr i"
    and "\<forall>p\<in>set fps. 0 < nchoices p" and "int (prod_list (map nchoices fps)) < 2 ^ 63"
    and gen: "gen_functionals i target_arch = map (\<lambda>f. Some (Inr f)) fs"
    and dist: "distinct (dkeys target_arch)" "distinct (map gpu_enum (concat (map snd target_arch)))"
    and dec: "list_all param_decidable (if_func_params i)"
    and body: "codegen_godel_number_body (if_func_params i) = Inr body"
    and table: "codegen_tune_table_entries struct_name (if_godel i) (dkeys target_arch) used = Inr table"
    and used: "set used \<subseteq> set fs" and f: "f \<in> set fs"
    and j: "j < length (f_optimized_for f)" and env: "launch_matches env f"
  shows "lookup_tune launch_condition (codegen_archmod_number_body target_arch) body table
             (gpu_enum (f_optimized_for f ! j)) env
           = (if \<not> launch_condition then Inr None
              else if f \<in> set used
              then Inr (Some (fst (struct_name (f_arch_number f) (projr (godel_number f))), int j))
              else Inl ProfilerNotInitialized)"
proof -
  let ?ps = "if_func_params i"
  have num: "numbered ?ps" and ngodel: "if_godel i = int (prod_list (map nchoices ?ps))"
    using late_init_numbered [OF assms(1-3)] by auto
  obtain k sel where k: "(k, f_arch f, f_optimized_for f) \<in> set (enumerate 0 target_arch)" "f_arch_number f = k"
    and sel: "sel \<in> set (product_lists (map (\<lambda>p. [0..<nchoices p]) ?ps))"
    and binds: "map b_klass (f_binds f) = ?ps" "map b_nth (f_binds f) = map (\<lambda>k. Some (int k)) sel"
    and g: "godel_number f = Inr (weigh (map tp_godel ?ps) sel)"
    using generated_functional [OF num gen f] by blast
  let ?g = "weigh (map tp_godel ?ps) sel"
  have "list_all2 (\<lambda>k p. k < nchoices p \<and> param_matches env p k \<and> param_decidable p) sel ?ps"
  proof -
    have "b_klass (f_binds f ! n) = ?ps ! n" "b_nth (f_binds f ! n) = Some (int (sel ! n))" if "n < length ?ps" for n
      using that binds by (metis length_map nth_map)+
    then show ?thesis
      using product_list_all2 [OF sel] env dec arg_cong [OF binds(1), of length]
      by (auto simp: list_all2_conv_all_nth launch_matches_def list_all_length)
  qed
  from run_godel_body_weigh [OF this body, of 0] have run: "run_godel_body env body 0 = ?g" by simp
  have "?g \<in> set (map int [0..<prod_list (map nchoices ?ps)])"
    unfolding weigh_numbered [OF num, symmetric] using sel by simp
  then have range: "0 \<le> ?g" "?g < if_godel i" using ngodel by auto
  have arch: "run_archmod (codegen_archmod_number_body target_arch) (gpu_enum (f_optimized_for f ! j)) = (int k, int j)"
    using run_archmod_mem [OF _ archmod_mem [OF k(1) j]] dist(2) by (simp add: archmod_enums)
  have kth: "k < length (dkeys target_arch)" "dkeys target_arch ! k = f_arch f"
    using k(1) by (auto simp: in_set_enumerate_eq dkeys_def)
  obtain gs where gs: "arch_godel_numbers used (f_arch f) = Inr gs"
    and entry: "table_at table (int k) ?g = (if ?g \<in> set gs then Some (struct_name k ?g) else None)"
    using table_at_entry [OF table kth(1) range] kth(2) by auto
  have uniq: "f' = f" if "f' \<in> set used" "f_arch f' = f_arch f" "godel_number f' = Inr ?g" for f'
    using functional_unique [OF num dist(1) gen _ f, of f'] that used g by auto
  then have "?g \<in> set gs \<longleftrightarrow> f \<in> set used"
    using arch_godel_mem [OF gs, of ?g] g by auto
  then show ?thesis
    using run range arch entry k(2) g by (simp add: lookup_tune_def Let_def case_prod_unfold split: option.splits)
qed

text \<open>The small interface of the theory Functional, with one of its eight functionals generated.\<close>

definition ex_fs :: "functional list" where
  "ex_fs = map (projr \<circ> the) (gen_functionals ex_iface ex_archs)"

definition ex_launch :: "string \<Rightarrow> string" where
  "ex_launch getter = (if getter = ''args.Q->dtype()'' then ''DType::kBFloat16'' else ''1'')"

definition ex_body :: "godel_block list" where
  "ex_body = projr (codegen_godel_number_body (if_func_params ex_iface))"

definition ex_table :: tune_table where
  "ex_table = projr (codegen_tune_table_entries (codegen_tune_struct_name ''autotune'' ''demo'')
     (if_godel ex_iface) (dkeys ex_archs) [ex_fs ! 7])"

lemma ex_generated:
  "is_ok (codegen_godel_number_body (if_func_params ex_iface))"
  "is_ok (codegen_tune_table_entries (codegen_tune_struct_name ''autotune'' ''demo'')
     (if_godel ex_iface) (dkeys ex_archs) [ex_fs ! 7])"
  by code_simp+

lemma ex_dispatch_facts:
  "length ex_fs = 8" "f_optimized_for (ex_fs ! 7) = [''gfx90a_mod0'']" "launch_matches ex_launch (ex_fs ! 7)"
  "list_all param_decidable (if_func_params ex_iface)" "distinct (dkeys ex_archs)"
  "distinct (map gpu_enum (concat (map snd ex_archs)))" "gpu_enum ''gfx90a_mod0'' = ''GPU_AMD_ARCH_GFX90A_MOD0''"
  "fst (codegen_tune_struct_name ''autotune'' ''demo'' (f_arch_number (ex_fs ! 7)) (projr (godel_number (ex_fs ! 7))))
     = ''Autotune_demo__A1__F3''"
  by code_simp+

theorem dispatch_correct_witness:
  "lookup_tune True (codegen_archmod_number_body ex_archs) ex_body ex_table ''GPU_AMD_ARCH_GFX90A_MOD0'' ex_launch
     = Inr (Some (''Autotune_demo__A1__F3'', 0))"
proof -
  have init: "iface_late_init ex_class ex_params [] = Inr ex_iface"
    using is_ok_projr [OF ex_iface_ok] by (simp add: ex_iface_def)
  have pos: "\<forall>p\<in>set ex_params. 0 < nchoices p" using ex_params_ok by (simp add: nchoices_pos_map)
  have lt: "int (prod_list (map nchoices ex_params)) < 2 ^ 63" by (simp add: ex_params_ok)
  have gen: "gen_functionals ex_iface ex_archs = map (\<lambda>f. Some (Inr f)) ex_fs"
    unfolding ex_fs_def by (rule all_settled_map [OF ex_functionals_ok])
  have body: "codegen_godel_number_body (if_func_params ex_iface) = Inr ex_body"
    using is_ok_projr [OF ex_generated(1)] by (simp add: ex_body_def)
  have table: "codegen_tune_table_entries (codegen_tune_struct_name ''autotune'' ''demo'')
     (if_godel ex_iface) (dkeys ex_archs) [ex_fs ! 7] = Inr ex_table"
    using is_ok_projr [OF ex_generated(2)] by (simp add: ex_table_def)
  have "ex_fs ! 7 \<in> set ex_fs" using ex_dispatch_facts(1) by (intro nth_mem) simp
  then show ?thesis
    using dispatch_correct [OF init pos lt gen ex_dispatch_facts(5,6,4) body table, of "ex_fs ! 7" 0 ex_launch True]
    by (simp add: ex_dispatch_facts)
qed

end
