(* ===== verification/FlashRules.thy ===== *)
theory FlashRules
  imports TuneTable
begin

text \<open>
  \<open>v3python/rules/flash\<close>: which functionals of the attention kernels are disabled, the check of
  a tuning table for completeness with the list of missing entries, and the configurations the
  four tuned kernels are built with (\<open>_common.py\<close>, \<open>attn_fwd.py\<close>, \<open>bwd_kernel_dk_dv.py\<close>,
  \<open>bwd_kernel_dq.py\<close>, \<open>bwd_kernel_fuse.py\<close>).
\<close>

section \<open>Values of a functional\<close>

definition LUT_FULL_SEQLEN_Q :: "int list" where
  "LUT_FULL_SEQLEN_Q = [16, 32, 64, 128, 256, 512, 1024, 2048, 4096, 8192]"

definition LUT_FULL_SEQLEN_K :: "int list" where
  "LUT_FULL_SEQLEN_K = [16, 32, 64, 128, 256, 512, 1024, 2048, 4096, 8192]"

definition LUT_FULL_SEQLEN_NAVI :: "int list" where
  "LUT_FULL_SEQLEN_NAVI = [16, 32, 64, 128, 256, 512, 1024, 2048]"

definition flash_programmatic :: "(string \<times> (functional \<Rightarrow> int)) list" where
  "flash_programmatic = [(''NUM_XCDS'', \<lambda>f. if f_arch f \<in> {''gfx942'', ''gfx950''} then 8 else 1)]"

text \<open>\<open>check_value\<close>: the first of the names that has more than one choice.\<close>

fun check_value :: "functional \<Rightarrow> string list \<Rightarrow> pyval res" where
  "check_value f [] = Inl AssertionError"
| "check_value f (aname # names) =
     (case dget (f_compact_dict f) aname of
        Some c \<Rightarrow> tc_signature c
      | None \<Rightarrow> check_value f names)"

text \<open>Comparisons of a value with a number; a string has no order with a number.\<close>

definition pv_gt :: "pyval \<Rightarrow> int \<Rightarrow> bool res" where
  "pv_gt v n = rmap (\<lambda>i. i > n) (of_option TypeError (pv_num v))"

definition pv_in :: "pyval \<Rightarrow> int list \<Rightarrow> bool" where
  "pv_in v ns = list_ex (\<lambda>n. pv_eq v (PInt n)) ns"

section \<open>Disabled functionals\<close>

text \<open>\<open>tunable\<close>: whether the kernel has \<open>gen_autotune_configs\<close>.\<close>

definition flash_disabled :: "bool \<Rightarrow> functional \<Rightarrow> bool res" where
  "flash_disabled tunable f =
     (if \<not> tunable then Inr False
      else rbind (check_value f [''CAUSAL'', ''CAUSAL_TYPE'']) (\<lambda>is_causal.
        rbind (check_value f [''BIAS_TYPE'']) (\<lambda>bias_type.
        if py_bool is_causal \<and> \<not> pv_eq bias_type (PInt 0) then Inr True
        else if startswith (f_arch f) ''gfx11'' then
          rbind (check_value f [''BLOCK_DMODEL'']) (\<lambda>hdim. pv_gt hdim 256)
        else Inr False)))"

text \<open>The overriding methods first exclude head dimensions that one compiler miscompiles.\<close>

definition disabled_for_gfx950 :: "int list \<Rightarrow> functional \<Rightarrow> bool res" where
  "disabled_for_gfx950 hdims f =
     (if f_arch f = ''gfx950''
      then rbind (check_value f [''BLOCK_DMODEL'']) (\<lambda>hdim.
             if pv_in hdim hdims then Inr True else flash_disabled True f)
      else flash_disabled True f)"

definition bwd_disabled :: "functional \<Rightarrow> bool res" where
  "bwd_disabled f = disabled_for_gfx950 [48, 80] f"

definition attn_fwd_disabled :: "functional \<Rightarrow> bool res" where
  "attn_fwd_disabled f = disabled_for_gfx950 [16] f"

section \<open>Checking a table\<close>

text \<open>
  An entry of the tuning database as \<open>_gen_missing_entries\<close> builds it, printed by
  \<open>FlashEntry.as_text\<close>. The dropout probability is one half or zero.
\<close>

record flash_entry =
  fe_dtype :: string
  fe_hdim :: pyval
  fe_seqlen_q :: int
  fe_seqlen_k :: int
  fe_causal :: bool
  fe_dropout :: bool
  fe_bias_type :: pyval

definition as_text :: "flash_entry \<Rightarrow> string" where
  "as_text e =
     join '';''
       [''dtype='' @ py_repr (PStr (fe_dtype e)), ''hdim='' @ py_repr (fe_hdim e),
        ''seqlen_q='' @ show_int (fe_seqlen_q e), ''seqlen_k='' @ show_int (fe_seqlen_k e),
        ''causal='' @ py_str (PBool (fe_causal e)),
        ''dropout_p='' @ (if fe_dropout e then ''0.5'' else ''0.0''),
        ''bias_type='' @ py_repr (fe_bias_type e)]"

definition entry_for :: "functional \<Rightarrow> int \<Rightarrow> int \<Rightarrow> flash_entry res" where
  "entry_for f seqlen_q seqlen_k =
     rbind (check_value f [''CAUSAL_TYPE'']) (\<lambda>causal_raw.
     rbind (check_value f [''BLOCK_DMODEL'']) (\<lambda>hdim.
     rbind (check_value f [''ENABLE_DROPOUT'']) (\<lambda>dropout.
     rbind (check_value f [''Q'']) (\<lambda>q.
     rbind (case q of PStr s \<Rightarrow> Inr s | _ \<Rightarrow> Inl AttributeError) (\<lambda>q_ptr.
     rmap (\<lambda>bias_type.
         \<lparr>fe_dtype = (if startswith q_ptr ''*fp16'' then ''float16''
                      else if startswith q_ptr ''*bf16'' then ''bfloat16'' else ''float32''),
          fe_hdim = hdim, fe_seqlen_q = seqlen_q, fe_seqlen_k = seqlen_k,
          fe_causal = py_bool causal_raw, fe_dropout = py_bool dropout, fe_bias_type = bias_type\<rparr>)
       (check_value f [''BIAS_TYPE'']))))))"

definition make_entry :: "functional \<Rightarrow> int \<Rightarrow> int \<Rightarrow> string res" where
  "make_entry f seqlen_q seqlen_k =
     rmap (\<lambda>e. ''arch='' @ f_arch f @ '' '' @ as_text e) (entry_for f seqlen_q seqlen_k)"

text \<open>
  The cells that are negative, as pairs of row and column, one GPU after the other
  (\<open>np.where\<close> on the whole tensor drops the GPU).
\<close>

definition negative_cells :: "lut \<Rightarrow> nat \<Rightarrow> (nat \<times> nat) list" where
  "negative_cells t ncols =
     concat (map (\<lambda>row. map (\<lambda>(n, v). (n div ncols, n mod ncols))
                          (filter (\<lambda>(n, v). v < 0) (enumerate 0 row))) (lut_rows t))"

definition gen_missing_entries ::
  "functional \<Rightarrow> lut \<Rightarrow> int list \<Rightarrow> int list \<Rightarrow> string list res" where
  "gen_missing_entries f t seqlens_q seqlens_k =
     (let nq = length seqlens_q; nk = length seqlens_k;
          all_cells = List.product [0..<nq] [0..<nk];
          cells = (if length (concat (lut_rows t)) = 1 then all_cells
                   else if lut_shape t = [nq, nk] then negative_cells t nk
                   else all_cells)
      in rtraverse (\<lambda>(m, n). make_entry f (seqlens_q ! m) (seqlens_k ! n)) cells)"

definition tuple_repr :: "nat list \<Rightarrow> string" where
  "tuple_repr ns =
     (case ns of
        [n] \<Rightarrow> ''('' @ show_nat n @ '',)''
      | _ \<Rightarrow> ''('' @ join '', '' (map show_nat ns) @ '')'')"

text \<open>
  \<open>sancheck_lut_tensor\<close>: the verdict, the error texts and the missing entries, which are a
  generator and only computed (and only fail) when they are iterated over.
\<close>

definition LUT_TENSOR_SIZE :: "nat list" where
  "LUT_TENSOR_SIZE = [length LUT_FULL_SEQLEN_Q, length LUT_FULL_SEQLEN_K]"

definition LUT_TENSOR_SIZE_NAVI :: "nat list" where
  "LUT_TENSOR_SIZE_NAVI = [length LUT_FULL_SEQLEN_NAVI, length LUT_FULL_SEQLEN_NAVI]"

definition sancheck_errors :: "bool \<Rightarrow> bool \<Rightarrow> bool \<Rightarrow> nat list \<Rightarrow> string list" where
  "sancheck_errors all_pos shape_match navi shape =
     (if all_pos then [] else [''certain entries are empty (-1)''])
     @ (if shape_match then []
        else [''Unexpected shape='' @ tuple_repr shape @ '', Expecting '' @ tuple_repr LUT_TENSOR_SIZE
              @ (if navi then '' or '' @ tuple_repr LUT_TENSOR_SIZE_NAVI else [])])"

definition sancheck_lut_tensor ::
  "bool \<Rightarrow> (functional \<Rightarrow> bool res) \<Rightarrow> functional \<Rightarrow> lut \<Rightarrow> (bool \<times> string list \<times> string list res) res" where
  "sancheck_lut_tensor tunable disabled f t =
     (if \<not> tunable then Inr (True, [], Inr [])
      else rbind (disabled f) (\<lambda>d.
        if d then Inr (True, [], Inr [])
        else rbind (of_option KeyError (dget AOTRITON_ARCH_WARPSIZE (f_arch f))) (\<lambda>warp.
          let MI = (warp = 64); Navi = (warp = 32);
              all_pos = list_all (list_all (\<lambda>v. 0 \<le> v)) (lut_rows t); shape = lut_shape t in
          if \<not> MI \<and> \<not> Navi then Inl AssertionError
          else
            let shape_match = (shape = LUT_TENSOR_SIZE \<or> Navi \<and> shape = LUT_TENSOR_SIZE_NAVI);
                ok = (all_pos \<and> shape_match) in
            if ok then Inr (ok, [], Inr [])
            else Inr (ok, sancheck_errors all_pos shape_match Navi shape,
                      if Navi \<and> shape = LUT_TENSOR_SIZE_NAVI
                      then gen_missing_entries f t LUT_FULL_SEQLEN_NAVI LUT_FULL_SEQLEN_NAVI
                      else gen_missing_entries f t LUT_FULL_SEQLEN_Q LUT_FULL_SEQLEN_K))))"

section \<open>Tuning configurations\<close>

text \<open>The wavefront sizes; an architecture that is not in the table is a KeyError.\<close>

definition wavefront :: "functional \<Rightarrow> nat res" where
  "wavefront f = of_option KeyError (dget AOTRITON_ARCH_WARPSIZE (f_arch f))"

definition block_config ::
  "(string \<times> (functional \<Rightarrow> int)) list \<Rightarrow> functional \<Rightarrow> (string, pyval) dict \<Rightarrow> int \<Rightarrow> int \<Rightarrow> config" where
  "block_config programs f kw warps stages =
     mk_config (update_programmatic_perfs programs f kw) warps stages"

text \<open>The three backward kernels differ in the guard that skips a combination.\<close>

definition bwd_combinations :: "nat \<Rightarrow> pyval \<Rightarrow> (int \<times> int \<times> int \<times> int) list" where
  "bwd_combinations wave dtype =
     (let BLOCK_SIZES = (if pv_eq dtype (PStr ''*fp32:16'') then [16, 32] else [16, 32, 64]);
          NUM_WARPS = (if wave = 32 then [4, 8] else [2, 4]) in
      concat (map (\<lambda>M. concat (map (\<lambda>N. concat (map (\<lambda>waves. map (\<lambda>warps. (M, N, waves, warps)) NUM_WARPS)
        [1, 2, 3, 4])) BLOCK_SIZES)) BLOCK_SIZES))"

definition bwd_configs ::
  "string list \<Rightarrow> (nat \<Rightarrow> int \<Rightarrow> int \<Rightarrow> int \<Rightarrow> bool) \<Rightarrow> (string \<times> (functional \<Rightarrow> int)) list
   \<Rightarrow> functional \<Rightarrow> config list res" where
  "bwd_configs also_read skip programs f =
     rbind (check_value f [''Q'']) (\<lambda>dtype.
     rbind (rtraverse (\<lambda>n. check_value f [n]) also_read) (\<lambda>_.
     rmap (\<lambda>wave. map (\<lambda>(M, N, waves, warps).
             block_config programs f
               [(''BLOCK_M'', PInt M), (''BLOCK_N'', PInt N), (''waves_per_eu'', PInt waves)] warps 1)
           (filter (\<lambda>(M, N, waves, warps). \<not> (M < N \<or> skip wave M N warps)) (bwd_combinations wave dtype)))
       (wavefront f)))"

definition dk_dv_skip :: "nat \<Rightarrow> int \<Rightarrow> int \<Rightarrow> int \<Rightarrow> bool" where
  "dk_dv_skip wave M N warps \<longleftrightarrow>
     wave = 64 \<and> M = 64 \<and> N = 64 \<and> warps = 4
     \<or> wave = 32 \<and> M * N \<ge> 32 * 32 \<and> warps < 4
     \<or> wave = 32 \<and> M * N \<ge> 32 * 16 \<and> warps < 2"

definition fuse_skip :: "nat \<Rightarrow> int \<Rightarrow> int \<Rightarrow> int \<Rightarrow> bool" where
  "fuse_skip wave M N warps \<longleftrightarrow>
     wave = 64 \<and> M = 64 \<and> N = 64 \<and> warps = 4 \<or> wave = 32 \<and> M = 32 \<and> N = 32 \<and> warps \<noteq> 4"

text \<open>\<open>dk_dv\<close> and \<open>fuse\<close> also read the head dimension, which they do not use.\<close>

definition dk_dv_configs :: "functional \<Rightarrow> config list res" where
  "dk_dv_configs f =
     bwd_configs [''BLOCK_DMODEL''] dk_dv_skip flash_programmatic f"

definition dq_configs :: "functional \<Rightarrow> config list res" where
  "dq_configs f = bwd_configs [] (\<lambda>_ _ _ _. False) flash_programmatic f"

definition fuse_configs :: "functional \<Rightarrow> config list res" where
  "fuse_configs f =
     bwd_configs [''BLOCK_DMODEL''] fuse_skip flash_programmatic f"

text \<open>\<open>attn_fwd\<close>; \<open>PRE_LOAD_OPTIONS\<close> comes from the environment.\<close>

definition fwd_kw :: "functional \<Rightarrow> pyval \<Rightarrow> int \<Rightarrow> int \<Rightarrow> int \<Rightarrow> bool \<Rightarrow> (string, pyval) dict" where
  "fwd_kw f CAUSAL_TYPE M N waves pre =
     [(''PERSISTENT_TYPE'', PInt (if pv_eq CAUSAL_TYPE (PInt 0) then 0 else 2)), (''GRID_CU_MULTIP'', PInt 2),
      (''BLOCK_M'', PInt M), (''BLOCK_N'', PInt N), (''waves_per_eu'', PInt waves), (''PRE_LOAD_V'', PBool pre)]"

definition fwd_block_sizes :: "nat \<Rightarrow> string \<Rightarrow> (int \<times> int) list" where
  "fwd_block_sizes wave dtype =
     (if wave = 64 then [(32, 16), (128, 64), (64, 64), (64, 32), (128, 128)]
      else [(64, 32), (32, 32), (32, 16)] @ (if substring ''*fp32'' dtype then [] else [(16, 16)]))"

text \<open>A loop variable may be halved for one data type; the guards see it before and after that.\<close>

definition fwd_configs :: "bool list \<Rightarrow> functional \<Rightarrow> config list res" where
  "fwd_configs PRE_LOAD_OPTIONS f =
     rbind (check_value f [''Q'']) (\<lambda>q.
     rbind (check_value f [''BLOCK_DMODEL'']) (\<lambda>HEAD_DIM.
     rbind (check_value f [''CAUSAL_TYPE'']) (\<lambda>CAUSAL_TYPE.
     rbind (wavefront f) (\<lambda>wave.
     rbind (case q of PStr s \<Rightarrow> Inr s | _ \<Rightarrow> Inl TypeError) (\<lambda>dtype.
     rmap (\<lambda>large.
       (if f_arch f = ''gfx950''
        then concat (map (\<lambda>waves. map (\<lambda>pre.
               block_config flash_programmatic f (fwd_kw f CAUSAL_TYPE 256 64 waves pre) 8 4)
               PRE_LOAD_OPTIONS) [1, 2, 3, 4])
        else [])
       @ concat (map (\<lambda>(M, N). concat (map (\<lambda>waves. concat (map (\<lambda>warps. concat (map (\<lambda>pre.
            if large \<and> M = 128 \<and> N = 128 \<and> warps = 2 then []
            else let M' = (if dtype = ''*fp32:16'' then M div 2 else M) in
              if M' < N then []
              else [block_config flash_programmatic f (fwd_kw f CAUSAL_TYPE M' N waves pre) warps 1])
            PRE_LOAD_OPTIONS)) (if wave = 64 then [2, 4] else [4, 8]))) [1, 2, 3, 4]))
          (fwd_block_sizes wave dtype)))
       (pv_gt HEAD_DIM 511))))))"

section \<open>What the check means\<close>

lemma bin_index_nth:
  assumes "df \<noteq> []" "j < length (bucket_of df k)"
  shows "bin_index (bucket_of df k) (bucket_of df k ! j) = j"
proof -
  let ?b = "bucket_of df k"
  note bp = bucket_of_props [OF assms(1), of k]
  have mem: "?b ! j \<in> set ?b" using assms(2) by simp
  then have "Min {r \<in> set ?b. ?b ! j \<le> r} = ?b ! j" by (intro Min_eqI) auto
  then have "bin_value (set ?b) (?b ! j) = ?b ! j" using mem by (auto simp: bin_value_def)
  then show ?thesis using find_index_iff [OF bp(2) assms(2) mem] by (simp add: bin_index_def)
qed

text \<open>A launch with the given sequence lengths.\<close>

definition at_seqlens :: "string \<Rightarrow> int \<Rightarrow> int \<Rightarrow> string \<Rightarrow> int" where
  "at_seqlens kq sq sk k = (if k = kq then sq else sk)"

definition served :: "string list \<Rightarrow> tune_row list \<Rightarrow> functional \<Rightarrow> (string \<Rightarrow> int) \<Rightarrow> bool" where
  "served ks df f params \<longleftrightarrow>
     list_all (\<lambda>i. tuned_record ks df (f_database_gpus f) i params \<noteq> None) [0..<length (f_database_gpus f)]"

lemma served_iff:
  "served ks df f params \<longleftrightarrow> (\<forall>i<length (f_database_gpus f). tuned_record ks df (f_database_gpus f) i params \<noteq> None)"
  by (auto simp: served_def list_all_iff)

definition shape_accepted :: "functional \<Rightarrow> nat list \<Rightarrow> bool" where
  "shape_accepted f shape \<longleftrightarrow>
     shape = LUT_TENSOR_SIZE \<or> dget AOTRITON_ARCH_WARPSIZE (f_arch f) = Some 32 \<and> shape = LUT_TENSOR_SIZE_NAVI"

text \<open>The grid of sequence lengths that a table of an accepted shape is expected to have.\<close>

definition expected_grid :: "functional \<Rightarrow> int list \<Rightarrow> int list \<Rightarrow> bool" where
  "expected_grid f qs ks \<longleftrightarrow>
     qs = LUT_FULL_SEQLEN_Q \<and> ks = LUT_FULL_SEQLEN_K
     \<or> dget AOTRITON_ARCH_WARPSIZE (f_arch f) = Some 32 \<and> qs = LUT_FULL_SEQLEN_NAVI \<and> ks = LUT_FULL_SEQLEN_NAVI"

lemma mem_negative_cells:
  assumes "list_all (\<lambda>row. length row = nq * nk) (lut_rows t)"
  shows "(m, n) \<in> set (negative_cells t nk)
           \<longleftrightarrow> m < nq \<and> n < nk \<and> (\<exists>row\<in>set (lut_rows t). row ! (m * nk + n) < 0)"
proof
  assume "(m, n) \<in> set (negative_cells t nk)"
  then obtain row j where row: "row \<in> set (lut_rows t)" and j: "j < length row" "row ! j < 0" "m = j div nk" "n = j mod nk"
    by (auto simp: negative_cells_def in_set_enumerate_eq)
  then have "j < nq * nk" using assms by (simp add: list_all_iff)
  then have "m < nq \<and> n < nk" using j(3,4) by (cases "nk = 0") (simp_all add: less_mult_imp_div_less)
  moreover have "m * nk + n = j" using j(3,4) by simp
  ultimately show "m < nq \<and> n < nk \<and> (\<exists>row\<in>set (lut_rows t). row ! (m * nk + n) < 0)"
    using row j(2) by auto
next
  assume r: "m < nq \<and> n < nk \<and> (\<exists>row\<in>set (lut_rows t). row ! (m * nk + n) < 0)"
  then obtain row where row: "row \<in> set (lut_rows t)" "row ! (m * nk + n) < 0" by blast
  have "Suc m * nk \<le> nq * nk" using r by (intro mult_le_mono1) simp
  then have "m * nk + n < nq * nk" using r by simp
  then have "(m * nk + n, row ! (m * nk + n)) \<in> set (enumerate 0 row)"
    using row(1) assms by (simp add: in_set_enumerate_eq list_all_iff)
  then show "(m, n) \<in> set (negative_cells t nk)"
    using row r by (force simp: negative_cells_def)
qed

lemma table_cells:
  assumes trans: "kd_translate_dataframe kd f df = Inr (t, sigs, binning)"
    and df: "df \<noteq> []" "int (length df) < 2 ^ 31" and gpus: "f_database_gpus f \<noteq> []"
    and keys: "kd_autotune_keys kd = [kq, kk]" "kq \<noteq> kk"
  defines "bq \<equiv> bucket_of df kq" and "bk \<equiv> bucket_of df kk"
  shows "lut_shape t = [length bq, length bk]" and "length (lut_rows t) = length (f_database_gpus f)"
    and "list_all (\<lambda>row. length row = length bq * length bk) (lut_rows t)"
    and "m < length bq \<Longrightarrow> n < length bk \<Longrightarrow>
         (\<exists>row\<in>set (lut_rows t). row ! (m * length bk + n) < 0)
         \<longleftrightarrow> \<not> served [kq, kk] df f (at_seqlens kq (bq ! m) (bk ! n))"
    and "list_all (list_all (\<lambda>v. 0 \<le> v)) (lut_rows t) \<longleftrightarrow> (\<forall>params. served [kq, kk] df f params)"
proof -
  let ?gs = "f_database_gpus f"
  have dist: "distinct (kd_autotune_keys kd)" and "0 < length ?gs" using keys gpus by simp_all
  note kt = kernel_table [OF trans df dist, unfolded keys(1)]
  show shape: "lut_shape t = [length bq, length bk]" and len: "length (lut_rows t) = length ?gs"
    using kt(1,2) [OF \<open>0 < length ?gs\<close>] by (simp_all add: bq_def bk_def)
  show rows: "list_all (\<lambda>row. length row = length bq * length bk) (lut_rows t)"
    using kt(3) len shape by (simp add: list_all_length)
  have val: "lut_rows t ! i ! (bin_index bq (params kq) * length bk + bin_index bk (params kk)) < 0
                 \<longleftrightarrow> tuned_record [kq, kk] df ?gs i params = None" if "i < length ?gs" for i params
    using kt(5) [OF that, of params] shape
    by (auto simp: cell_index_def bq_def bk_def split: option.splits)
  show cell: "(\<exists>row\<in>set (lut_rows t). row ! (m * length bk + n) < 0)
         \<longleftrightarrow> \<not> served [kq, kk] df f (at_seqlens kq (bq ! m) (bk ! n))"
    if "m < length bq" "n < length bk" for m n
  proof -
    have "bin_index bq (bq ! m) = m" "bin_index bk (bk ! n) = n"
      using bin_index_nth [OF df(1)] that by (simp_all add: bq_def bk_def)
    then have "lut_rows t ! i ! (m * length bk + n) < 0
        \<longleftrightarrow> tuned_record [kq, kk] df ?gs i (at_seqlens kq (bq ! m) (bk ! n)) = None" if "i < length ?gs" for i
      using val [OF that, of "at_seqlens kq (bq ! m) (bk ! n)"] keys(2) by (simp add: at_seqlens_def)
    then show ?thesis using len by (metis in_set_conv_nth served_iff)
  qed
  show "list_all (list_all (\<lambda>v. 0 \<le> v)) (lut_rows t) \<longleftrightarrow> (\<forall>params. served [kq, kk] df f params)"
  proof
    assume pos: "list_all (list_all (\<lambda>v. 0 \<le> v)) (lut_rows t)"
    have "tuned_record [kq, kk] df ?gs i params \<noteq> None" if i: "i < length ?gs" for i params
    proof -
      have "bin_index bq (params kq) < length bq" "bin_index bk (params kk) < length bk"
        using bin_index_props(2) bucket_of_props(1-3) [OF df(1)] by (simp_all add: bq_def bk_def)
      then have "\<exists>row\<in>set (lut_rows t). row ! (bin_index bq (params kq) * length bk + bin_index bk (params kk)) < 0
          \<Longrightarrow> (bin_index bq (params kq), bin_index bk (params kk)) \<in> set (negative_cells t (length bk))"
        using mem_negative_cells [OF rows] by blast
      moreover have "negative_cells t (length bk) = []"
        using pos by (auto simp: negative_cells_def list_all_iff filter_empty_conv in_set_enumerate_eq)
          (metis linorder_not_less nth_mem)
      ultimately show ?thesis using val [OF i, of params] i len by (metis empty_iff list.set(1) nth_mem)
    qed
    then show "\<forall>params. served [kq, kk] df f params" by (simp add: served_iff)
  next
    assume all: "\<forall>params. served [kq, kk] df f params"
    have "0 \<le> row ! j" if row: "row \<in> set (lut_rows t)" and j: "j < length row" for row j
    proof (rule ccontr)
      assume "\<not> 0 \<le> row ! j"
      then have "(j div length bk, j mod length bk) \<in> set (negative_cells t (length bk))"
        using row j by (force simp: negative_cells_def in_set_enumerate_eq)
      then show False using mem_negative_cells [OF rows] cell all by blast
    qed
    then show "list_all (list_all (\<lambda>v. 0 \<le> v)) (lut_rows t)" unfolding list_all_iff by (metis in_set_conv_nth)
  qed
qed

text \<open>The cells listed, as pairs of sequence lengths.\<close>

lemma missing_cells:
  assumes "lut_shape t = [length qs, length ks]" "1 < length qs * length ks" "lut_rows t \<noteq> []"
    and rows: "list_all (\<lambda>row. length row = length qs * length ks) (lut_rows t)"
  shows "gen_missing_entries f t qs ks
           = rtraverse (\<lambda>(sq, sk). make_entry f sq sk) (map (\<lambda>(m, n). (qs ! m, ks ! n)) (negative_cells t (length ks)))"
proof -
  obtain r rs where r: "lut_rows t = r # rs" using assms(3) by (cases "lut_rows t") auto
  then have "length (concat (lut_rows t)) \<noteq> 1" using rows assms(2) by simp
  then show ?thesis
    using assms(1) by (simp add: gen_missing_entries_def Let_def rtraverse_map comp_def case_prod_unfold)
qed

text \<open>
  C29: the check of a tuning table is exact. For the table that a database of recorded runs
  translates to, the check of a tunable kernel that is not disabled succeeds if and only if the
  table has an accepted shape and every launch on every GPU is served by some record. If it fails
  although the recorded sequence lengths are the expected ones, the missing entries it lists are
  the entries of exactly those sequence lengths that some GPU has no record for.
\<close>

theorem sancheck_exact:
  assumes trans: "kd_translate_dataframe kd f df = Inr (t, sigs, binning)"
    and df: "df \<noteq> []" "int (length df) < 2 ^ 31" and gpus: "f_database_gpus f \<noteq> []"
    and keys: "kd_autotune_keys kd = [kq, kk]" "kq \<noteq> kk"
    and enabled: "disabled f = Inr False"
    and check: "sancheck_lut_tensor True disabled f t = Inr (ok, errs, missing)"
  shows "(ok \<longleftrightarrow> shape_accepted f (lut_shape t) \<and> (\<forall>params. served [kq, kk] df f params))
         \<and> (\<not> ok \<and> expected_grid f (bucket_of df kq) (bucket_of df kk) \<longrightarrow>
            (\<exists>cells. missing = rtraverse (\<lambda>(sq, sk). make_entry f sq sk) cells
               \<and> set cells = {(sq, sk). sq \<in> set (bucket_of df kq) \<and> sk \<in> set (bucket_of df kk)
                                \<and> \<not> served [kq, kk] df f (at_seqlens kq sq sk)}))"
proof -
  note tc = table_cells [OF trans df gpus keys]
  have warp: "dget AOTRITON_ARCH_WARPSIZE (f_arch f) \<in> {Some 32, Some 64}"
    using check enabled
    by (auto simp: sancheck_lut_tensor_def res_iffs Let_def of_option_def split: option.splits if_splits)
  have ok: "ok \<longleftrightarrow> list_all (list_all (\<lambda>v. 0 \<le> v)) (lut_rows t) \<and> shape_accepted f (lut_shape t)"
    using check enabled warp
    by (auto simp: sancheck_lut_tensor_def res_iffs Let_def of_option_def shape_accepted_def split: if_splits)
  have "\<exists>cells. missing = rtraverse (\<lambda>(sq, sk). make_entry f sq sk) cells
               \<and> set cells = {(sq, sk). sq \<in> set (bucket_of df kq) \<and> sk \<in> set (bucket_of df kk)
                                \<and> \<not> served [kq, kk] df f (at_seqlens kq sq sk)}"
    if "\<not> ok" and grid: "expected_grid f (bucket_of df kq) (bucket_of df kk)"
  proof -
    let ?bq = "bucket_of df kq" and ?bk = "bucket_of df kk"
    let ?cells = "map (\<lambda>(m, n). (?bq ! m, ?bk ! n)) (negative_cells t (length ?bk))"
    have "missing = gen_missing_entries f t ?bq ?bk"
      using check enabled warp \<open>\<not> ok\<close> grid tc(1)
      by (auto simp: sancheck_lut_tensor_def res_iffs Let_def of_option_def expected_grid_def
          LUT_TENSOR_SIZE_NAVI_def LUT_FULL_SEQLEN_NAVI_def LUT_FULL_SEQLEN_Q_def split: if_splits)
    also have "\<dots> = rtraverse (\<lambda>(sq, sk). make_entry f sq sk) ?cells"
      using gpus tc(2) grid
      by (intro missing_cells tc(1,3))
        (auto simp: expected_grid_def LUT_FULL_SEQLEN_Q_def LUT_FULL_SEQLEN_K_def LUT_FULL_SEQLEN_NAVI_def)
    finally have missing: "missing = rtraverse (\<lambda>(sq, sk). make_entry f sq sk) ?cells" .
    have "(m, n) \<in> set (negative_cells t (length ?bk))
            \<longleftrightarrow> m < length ?bq \<and> n < length ?bk \<and> \<not> served [kq, kk] df f (at_seqlens kq (?bq ! m) (?bk ! n))" for m n
      using mem_negative_cells [OF tc(3)] tc(4) by blast
    then have "set ?cells = {(sq, sk). sq \<in> set ?bq \<and> sk \<in> set ?bk \<and> \<not> served [kq, kk] df f (at_seqlens kq sq sk)}"
      by (force simp: in_set_conv_nth)
    with missing show ?thesis by blast
  qed
  then show ?thesis using ok tc(5) by blast
qed

text \<open>A table of an 8 by 8 grid with one cell left out.\<close>

definition ex_navi :: functional where
  "ex_navi = ex_functional\<lparr>f_arch := ''gfx1100'', f_database_gpus := [''gfx1100_mod0''],
     f_compact_dict :=
       [(''Q'', Settled (Tensor False Fp16_t None [])), (''CAUSAL_TYPE'', Settled (Constexpr CxInt8 (PInt 0))),
        (''BLOCK_DMODEL'', Settled (Constexpr CxInt16 (PInt 64))), (''ENABLE_DROPOUT'', Settled (Constexpr CxBool (PBool True))),
        (''BIAS_TYPE'', Settled (Constexpr CxInt8 (PInt 1)))]\<rparr>"
definition ex_two_keys :: kdesc where
  "ex_two_keys = ex_kdesc\<lparr>kd_autotune_keys := [''Max_seqlen_q'', ''Max_seqlen_k'']\<rparr>"
definition ex_cell :: "int \<times> int \<Rightarrow> tune_row" where
  "ex_cell c = \<lparr>tr_gpu = ''gfx1100_mod0'',
     tr_cols = [(''inputs$Max_seqlen_q'', fst c), (''inputs$Max_seqlen_k'', snd c), (''tuned_kernel$BLOCK_M'', 16),
        (''compiler_options$waves_per_eu'', 2), (''compiler_options$num_warps'', 4),
        (''compiler_options$num_stages'', 1)]\<rparr>"
definition ex_grid_df :: "tune_row list" where
  "ex_grid_df = map ex_cell (butlast (List.product LUT_FULL_SEQLEN_NAVI LUT_FULL_SEQLEN_NAVI))"


definition ex_check :: "(bool \<times> string list \<times> string list res) res" where
  "ex_check = rbind (kd_translate_dataframe ex_two_keys ex_navi ex_grid_df) (\<lambda>(t, _, _). sancheck_lut_tensor True attn_fwd_disabled ex_navi t)"
lemma ex_check_result: "ex_check = Inr (False, [''certain entries are empty (-1)''],
   Inr [''arch=gfx1100 dtype='' @ py_repr (PStr ''float16'') @ '';hdim=64;seqlen_q=2048;seqlen_k=2048;causal=False;dropout_p=0.5;bias_type=1''])"
  by code_simp

lemma ex_grid: "expected_grid ex_navi (bucket_of ex_grid_df ''Max_seqlen_q'') (bucket_of ex_grid_df ''Max_seqlen_k'')"
  by code_simp

theorem sancheck_exact_witness:
  "\<exists>c. {(sq, sk). sq \<in> set (bucket_of ex_grid_df ''Max_seqlen_q'') \<and> sk \<in> set (bucket_of ex_grid_df ''Max_seqlen_k'')
           \<and> \<not> served [''Max_seqlen_q'', ''Max_seqlen_k''] ex_grid_df ex_navi (at_seqlens ''Max_seqlen_q'' sq sk)} = {c}"
proof -
  obtain t sigs binning errs missing where
    tr: "kd_translate_dataframe ex_two_keys ex_navi ex_grid_df = Inr (t, sigs, binning)"
    and check: "sancheck_lut_tensor True attn_fwd_disabled ex_navi t = Inr (False, errs, missing)"
    and missing: "\<exists>l. missing = Inr l \<and> length l = 1"
    using ex_check_result by (auto simp: ex_check_def res_iffs)
  have "ex_grid_df \<noteq> []" "int (length ex_grid_df) < 2 ^ 31" "f_database_gpus ex_navi \<noteq> []"
    "kd_autotune_keys ex_two_keys = [''Max_seqlen_q'', ''Max_seqlen_k'']" "''Max_seqlen_q'' \<noteq> ''Max_seqlen_k''"
    "attn_fwd_disabled ex_navi = Inr False"
    by (simp_all add: ex_grid_df_def LUT_FULL_SEQLEN_NAVI_def ex_navi_def ex_two_keys_def) code_simp
  from sancheck_exact [OF tr this check] ex_grid obtain cells where
    "missing = rtraverse (\<lambda>(sq, sk). make_entry ex_navi sq sk) cells"
    and set: "set cells = {(sq, sk). sq \<in> set (bucket_of ex_grid_df ''Max_seqlen_q'') \<and> sk \<in> set (bucket_of ex_grid_df ''Max_seqlen_k'')
           \<and> \<not> served [''Max_seqlen_q'', ''Max_seqlen_k''] ex_grid_df ex_navi (at_seqlens ''Max_seqlen_q'' sq sk)}"
    by blast
  then have "length cells = 1" using missing by (metis rtraverse_Inr_iff list_all2_lengthD)
  then show ?thesis unfolding set [symmetric] by (cases cells) auto
qed

end
