(* ===== verification/WorkersDb.thy ===== *)
theory WorkersDb
  imports TypedChoice PyObj
begin

text \<open>
  The SQLite database \<open>workers.db\<close> of the web interface (\<open>.tune/webui/tasks.py\<close>): the registered
  workers, their roles, and the table \<open>config\<close> with schedules, GPU selections, cached states and
  settings. Every operation is one transaction; the tables exist from the start, timestamps are
  left out, and of the errors of SQLite only violated constraints are modelled.
\<close>

section \<open>The tables\<close>

record worker_row =
  wk_id :: int
  wk_hostname :: string
  wk_arch :: string
  wk_override :: "string option"

record workers_db =
  w_rows :: "worker_row list"
  w_next_id :: int
  w_config :: "(string, string) dict"
  w_roles :: "(string \<times> string) list"

definition init_workers_db :: workers_db where
  "init_workers_db = \<lparr>w_rows = [], w_next_id = 1, w_config = [], w_roles = []\<rparr>"

text \<open>The dictionaries the functions return: success with a message, or failure with an error.\<close>

datatype reply = Success string | Failure string

definition apos :: "string \<Rightarrow> string" where
  "apos s = CHR 0x27 # s @ [CHR 0x27]"

text \<open>LIKE of SQLite, which ignores the case of letters.\<close>

fun sqlite_like :: "string \<Rightarrow> string \<Rightarrow> bool" where
  "sqlite_like [] s = (s = [])"
| "sqlite_like (p # ps) s =
     (if p = CHR ''%'' then list_ex (\<lambda>n. sqlite_like ps (drop n s)) [0..<Suc (length s)]
      else (case s of
              [] \<Rightarrow> False
            | c # cs \<Rightarrow> (p = CHR ''_'' \<or> ascii_lower p = ascii_lower c) \<and> sqlite_like ps cs))"

text \<open>\<open>key.split('::')\<close>.\<close>

fun split_colons :: "string \<Rightarrow> string list" where
  "split_colons [] = [[]]"
| "split_colons [c] = [[c]]"
| "split_colons (c # d # s) =
     (if c = CHR '':'' \<and> d = CHR '':'' then [] # split_colons s
      else (case split_colons (d # s) of [] \<Rightarrow> [[c]] | w # ws \<Rightarrow> (c # w) # ws))"

section \<open>Workers\<close>

definition TUNING_ARCHITECTURES :: "string list" where
  "TUNING_ARCHITECTURES =
     [''gfx90a'', ''gfx942'', ''gfx950'', ''gfx1100'', ''gfx1201'', ''gfx1250'', ''gfx1151'']"

definition worker_tuple :: "worker_row \<Rightarrow> string \<times> string \<times> string" where
  "worker_tuple r = (wk_hostname r, wk_arch r, case wk_override r of None \<Rightarrow> [] | Some s \<Rightarrow> s)"

definition get_workers :: "workers_db \<Rightarrow> (string \<times> string \<times> string) list" where
  "get_workers db = map worker_tuple (sort_key wk_hostname (w_rows db))"

definition get_worker_by_hostname :: "string \<Rightarrow> workers_db \<Rightarrow> (string \<times> string \<times> string) option" where
  "get_worker_by_hostname hostname db = map_option worker_tuple (find (\<lambda>r. wk_hostname r = hostname) (w_rows db))"

definition get_architectures :: "workers_db \<Rightarrow> string list" where
  "get_architectures db = sort (remdups (map wk_arch (w_rows db)))"

definition get_hostnames :: "workers_db \<Rightarrow> string list" where
  "get_hostnames db = sort (remdups (map wk_hostname (w_rows db)))"

text \<open>An empty override is stored as NULL.\<close>

definition text_or_null :: "string option \<Rightarrow> string option" where
  "text_or_null s = (case s of Some t \<Rightarrow> if t = [] then None else Some t | None \<Rightarrow> None)"

definition add_worker :: "string \<Rightarrow> string \<Rightarrow> string option \<Rightarrow> workers_db \<Rightarrow> workers_db \<times> reply" where
  "add_worker hostname arch override db =
     (if arch \<notin> set TUNING_ARCHITECTURES
      then (db, Failure (''Unsupported architecture '' @ apos arch @ ''. Supported: '' @ join '', '' TUNING_ARCHITECTURES))
      else if list_ex (\<lambda>r. wk_hostname r = hostname) (w_rows db)
      then (db, Failure (''Worker '' @ apos hostname @ '' already exists''))
      else (db\<lparr>w_rows := w_rows db @ [\<lparr>wk_id = w_next_id db, wk_hostname = hostname, wk_arch = arch,
                                         wk_override = text_or_null override\<rparr>],
               w_next_id := w_next_id db + 1\<rparr>,
            Success (''Worker '' @ apos hostname @ '' added successfully'')))"

definition wdb_remove_worker :: "string \<Rightarrow> workers_db \<Rightarrow> workers_db \<times> reply" where
  "wdb_remove_worker hostname db =
     (if list_ex (\<lambda>r. wk_hostname r = hostname) (w_rows db)
      then (db\<lparr>w_rows := filter (\<lambda>r. wk_hostname r \<noteq> hostname) (w_rows db)\<rparr>,
            Success (''Worker '' @ apos hostname @ '' removed successfully''))
      else (db, Failure (''Worker '' @ apos hostname @ '' not found'')))"

definition update_worker_workdir :: "string \<Rightarrow> string option \<Rightarrow> workers_db \<Rightarrow> workers_db \<times> reply" where
  "update_worker_workdir hostname override db =
     (if list_ex (\<lambda>r. wk_hostname r = hostname) (w_rows db)
      then (db\<lparr>w_rows := map (\<lambda>r. if wk_hostname r = hostname then r\<lparr>wk_override := text_or_null override\<rparr> else r)
                          (w_rows db)\<rparr>,
            Success (''Worker '' @ apos hostname @ '' workdir updated successfully''))
      else (db, Failure (''Worker '' @ apos hostname @ '' not found'')))"

subsection \<open>Roles\<close>

definition get_worker_role :: "string \<Rightarrow> string \<Rightarrow> workers_db \<Rightarrow> bool" where
  "get_worker_role hostname role db \<longleftrightarrow> (hostname, role) \<in> set (w_roles db)"

definition set_worker_role :: "string \<Rightarrow> string \<Rightarrow> bool \<Rightarrow> workers_db \<Rightarrow> workers_db" where
  "set_worker_role hostname role enabled db =
     (if enabled
      then if (hostname, role) \<in> set (w_roles db) then db else db\<lparr>w_roles := w_roles db @ [(hostname, role)]\<rparr>
      else db\<lparr>w_roles := filter (\<lambda>r. r \<noteq> (hostname, role)) (w_roles db)\<rparr>)"

definition hostnames_with_role :: "string \<Rightarrow> workers_db \<Rightarrow> string list" where
  "hostnames_with_role role db = sort (map fst (filter (\<lambda>r. snd r = role) (w_roles db)))"

definition get_tuner_hostnames :: "workers_db \<Rightarrow> string list" where
  "get_tuner_hostnames = hostnames_with_role ''Tuner''"

definition get_tester_hostnames :: "workers_db \<Rightarrow> string list" where
  "get_tester_hostnames = hostnames_with_role ''Tester''"

definition get_workers_for_testing :: "workers_db \<Rightarrow> ((string \<times> string \<times> string) \<times> bool) list" where
  "get_workers_for_testing db = map (\<lambda>w. (w, fst w \<in> set (get_tester_hostnames db))) (get_workers db)"

section \<open>Settings\<close>

definition config_upsert :: "string \<Rightarrow> string \<Rightarrow> workers_db \<Rightarrow> workers_db" where
  "config_upsert key v db = db\<lparr>w_config := dset (w_config db) key v\<rparr>"

definition config_like :: "string \<Rightarrow> workers_db \<Rightarrow> (string \<times> string) list" where
  "config_like pat db = filter (\<lambda>(k, _). sqlite_like pat k) (w_config db)"

definition get_default_workdir :: "workers_db \<Rightarrow> string option" where
  "get_default_workdir db = dget (w_config db) ''default_workdir''"

definition set_default_workdir :: "string \<Rightarrow> workers_db \<Rightarrow> workers_db \<times> reply" where
  "set_default_workdir path db =
     (config_upsert ''default_workdir'' path db, Success (''Default working directory set to: '' @ path))"

definition get_build_node_config :: "workers_db \<Rightarrow> string \<times> string \<times> bool" where
  "get_build_node_config db =
     (let rows = config_like ''buildnode::%'' db;
          get = (\<lambda>k dflt. case dget rows k of None \<Rightarrow> dflt | Some v \<Rightarrow> v) in
      (get ''buildnode::hostname'' [], get ''buildnode::workdir_override'' [], get ''buildnode::enable'' ''0'' = ''1''))"

definition set_build_node_config :: "string \<Rightarrow> string \<Rightarrow> bool \<Rightarrow> workers_db \<Rightarrow> workers_db \<times> reply" where
  "set_build_node_config hostname override enabled db =
     (config_upsert ''buildnode::enable'' (if enabled then ''1'' else ''0'')
        (config_upsert ''buildnode::workdir_override'' override
          (config_upsert ''buildnode::hostname'' hostname db)),
      Success ''Build node configuration saved'')"

definition get_test_build_use_installed_db :: "workers_db \<Rightarrow> bool" where
  "get_test_build_use_installed_db db =
     (case dget (w_config db) ''webui::test_build_use_installed_db'' of None \<Rightarrow> True | Some v \<Rightarrow> v \<noteq> ''0'')"

definition set_test_build_use_installed_db :: "bool \<Rightarrow> workers_db \<Rightarrow> workers_db \<times> reply" where
  "set_test_build_use_installed_db enabled db =
     (config_upsert ''webui::test_build_use_installed_db'' (if enabled then ''1'' else ''0'') db,
      Success (''Test build use installed db set to: '' @ py_str (PBool enabled)))"

definition get_tuning_mode :: "workers_db \<Rightarrow> string" where
  "get_tuning_mode db = (case dget (w_config db) ''webui::tuning_mode'' of None \<Rightarrow> ''kernel'' | Some v \<Rightarrow> v)"

definition set_tuning_mode :: "string \<Rightarrow> workers_db \<Rightarrow> workers_db \<times> reply" where
  "set_tuning_mode mode db =
     (if mode \<notin> {''kernel'', ''op''} then (db, Failure (''Invalid tuning mode: '' @ py_repr (PStr mode)))
      else (config_upsert ''webui::tuning_mode'' mode db, Success (''Tuning mode set to: '' @ mode)))"

section \<open>GPU selection and cached state\<close>

definition save_worker_gpu_selection :: "string \<Rightarrow> int list \<Rightarrow> workers_db \<Rightarrow> workers_db \<times> reply" where
  "save_worker_gpu_selection hostname gpu_ids db =
     (config_upsert (hostname @ ''::gpu_selection'')
        (if gpu_ids = [- 1] then ''-1'' else join '','' (map show_int gpu_ids)) db,
      Success (''GPU selection saved for '' @ hostname))"

definition parse_selection :: "string \<Rightarrow> int list res" where
  "parse_selection v = (if v = ''-1'' then Inr [- 1] else rtraverse parse_int (split_on (CHR '','') v))"

text \<open>A text that is no list of numbers is an exception, for which the answer is None.\<close>

definition get_worker_gpu_selection :: "string \<Rightarrow> workers_db \<Rightarrow> int list option" where
  "get_worker_gpu_selection hostname db =
     (case dget (w_config db) (hostname @ ''::gpu_selection'') of
        None \<Rightarrow> None
      | Some v \<Rightarrow> (case parse_selection v of Inr ids \<Rightarrow> Some ids | Inl _ \<Rightarrow> None))"

definition status_dict :: "string \<Rightarrow> string \<Rightarrow> pyobj" where
  "status_dict st display = mk_dict [(''status'', OStr st), (''display'', OStr display)]"

text \<open>\<open>run\<close> is the outcome of the status script: its exit code and its stripped output.\<close>

definition get_worker_status_single :: "int \<times> string \<Rightarrow> pyobj" where
  "get_worker_status_single run =
     (let (returncode, display) = run in
      if returncode \<noteq> 0 then status_dict ''error'' ''Error''
      else if display = ''Stopped'' then status_dict ''stopped'' ''Stopped''
      else if startswith display ''pod:'' then status_dict ''running'' display
      else status_dict ''unknown'' (if display = [] then ''Unknown'' else display))"

definition save_worker_status :: "string \<Rightarrow> pyobj \<Rightarrow> workers_db \<Rightarrow> workers_db" where
  "save_worker_status hostname status_data db = config_upsert (hostname @ ''::status'') (dumps status_data) db"

definition get_cached_worker_status :: "string \<Rightarrow> workers_db \<Rightarrow> pyobj option" where
  "get_cached_worker_status hostname db =
     (case dget (w_config db) (hostname @ ''::status'') of
        None \<Rightarrow> None
      | Some v \<Rightarrow> (case loads v of Inr x \<Rightarrow> Some x | Inl _ \<Rightarrow> None))"

definition probe_worker_status :: "(string \<Rightarrow> int \<times> string) \<Rightarrow> string \<Rightarrow> workers_db \<Rightarrow> workers_db \<times> pyobj" where
  "probe_worker_status script hostname db =
     (let status_data = get_worker_status_single (script hostname) in
      (save_worker_status hostname status_data db, status_data))"

text \<open>Every worker in turn; the model's script never raises, so that every probe succeeds.\<close>

definition probe_all_workers_status ::
  "(string \<Rightarrow> int \<times> string) \<Rightarrow> workers_db \<Rightarrow> workers_db \<times> (string \<times> pyobj) list" where
  "probe_all_workers_status script db =
     fold (\<lambda>(hostname, _) (db, results).
         let (db, status_data) = probe_worker_status script hostname db in (db, results @ [(hostname, status_data)]))
       (get_workers db) (db, [])"

text \<open>What \<open>.tune/single/detect_gpu.sh\<close> writes to the table after it has asked a host for its GPUs.\<close>

definition store_gpu_info :: "string \<Rightarrow> string \<Rightarrow> string \<Rightarrow> string \<Rightarrow> workers_db \<Rightarrow> workers_db" where
  "store_gpu_info hostname arch pciid number db =
     config_upsert (hostname @ ''::gpu::number'') number
       (config_upsert (hostname @ ''::gpu::pciid'') pciid
         (config_upsert (hostname @ ''::gpu::arch'') arch db))"

text \<open>
  \<open>get_workers_by_architecture\<close>: the selections, states and detected properties of the GPUs by
  host, and the workers by architecture. Here a text that is no list of numbers is not caught.
\<close>

record gpu_info =
  gi_selection :: "int list option"
  gi_status :: "pyobj option"
  gi_fields :: "(string, string) dict"

definition no_gpu_info :: gpu_info where
  "no_gpu_info = \<lparr>gi_selection = None, gi_status = None, gi_fields = []\<rparr>"

definition info_of :: "(string, gpu_info) dict \<Rightarrow> string \<Rightarrow> gpu_info" where
  "info_of m hostname = (case dget m hostname of None \<Rightarrow> no_gpu_info | Some i \<Rightarrow> i)"

definition gpu_info_step :: "string \<times> string \<Rightarrow> (string, gpu_info) dict \<Rightarrow> (string, gpu_info) dict res" where
  "gpu_info_step kv m =
     (let (key, v) = kv in
      if substring ''::gpu_selection'' key then
        let h = py_replace ''::gpu_selection'' [] key in
        rmap (\<lambda>ids. dset m h ((info_of m h)\<lparr>gi_selection := Some ids\<rparr>)) (parse_selection v)
      else if substring ''::status'' key then
        let h = py_replace ''::status'' [] key;
            st = (case loads v of Inr x \<Rightarrow> x | Inl _ \<Rightarrow> status_dict ''unknown'' ''Unknown'') in
        Inr (dset m h ((info_of m h)\<lparr>gi_status := Some st\<rparr>))
      else
        (case split_colons key of
           [h, _, field] \<Rightarrow> Inr (dset m h ((info_of m h)\<lparr>gi_fields := dset (gi_fields (info_of m h)) field v\<rparr>))
         | _ \<Rightarrow> Inr m))"

fun gpu_info_map :: "(string \<times> string) list \<Rightarrow> (string, gpu_info) dict \<Rightarrow> (string, gpu_info) dict res" where
  "gpu_info_map [] m = Inr m"
| "gpu_info_map (kv # kvs) m = rbind (gpu_info_step kv m) (gpu_info_map kvs)"

record worker_card =
  wc_worker :: "string \<times> string \<times> string"
  wc_gpu_arch :: string
  wc_gpu_pciid :: string
  wc_gpu_number :: string
  wc_selection :: "int list option"
  wc_display :: pyobj
  wc_is_tuner :: bool

definition worker_card :: "workers_db \<Rightarrow> gpu_info \<Rightarrow> string \<times> string \<times> string \<Rightarrow> worker_card res" where
  "worker_card db info w =
     (let get = (\<lambda>k. case dget (gi_fields info) k of None \<Rightarrow> [] | Some v \<Rightarrow> v);
          status = (case gi_status info of None \<Rightarrow> status_dict ''unknown'' ''Unknown'' | Some st \<Rightarrow> st) in
      rmap (\<lambda>display. \<lparr>wc_worker = w, wc_gpu_arch = get ''arch'', wc_gpu_pciid = get ''pciid'',
                         wc_gpu_number = get ''number'', wc_selection = gi_selection info,
                         wc_display = display, wc_is_tuner = fst w \<in> set (get_tuner_hostnames db)\<rparr>)
        (obj_get_or status ''display'' (OStr ''Unknown'')))"

definition get_workers_by_architecture :: "workers_db \<Rightarrow> (string, worker_card list) dict res" where
  "get_workers_by_architecture db =
     rbind (gpu_info_map (filter (\<lambda>(k, _). sqlite_like ''%::gpu::%'' k \<or> sqlite_like ''%::gpu_selection'' k
                                             \<or> sqlite_like ''%::status'' k) (w_config db)) []) (\<lambda>infos.
     rtraverse (\<lambda>arch. rmap (Pair arch)
         (rtraverse (\<lambda>w. worker_card db (info_of infos (fst w)) w)
           (filter (\<lambda>w. fst (snd w) = arch) (get_workers db))))
       TUNING_ARCHITECTURES)"

section \<open>Schedules\<close>

definition schedule_key :: "string \<Rightarrow> string \<Rightarrow> string" where
  "schedule_key hostname field = hostname @ ''::schedule::'' @ field"

definition default_key :: "string \<Rightarrow> string" where
  "default_key field = ''::schedule::default::'' @ field"

text \<open>The rows under a pattern, by the last component of their keys; None if there are none.\<close>

definition fields_like :: "string \<Rightarrow> workers_db \<Rightarrow> (string, string) dict option" where
  "fields_like pat db =
     (case config_like pat db of
        [] \<Rightarrow> None
      | rows \<Rightarrow> Some (dict_of (map (\<lambda>(k, v). (last (split_colons k), v)) rows)))"

definition get_worker_schedule :: "string \<Rightarrow> workers_db \<Rightarrow> (string, string) dict option" where
  "get_worker_schedule hostname db = fields_like (hostname @ ''::schedule::%'') db"

definition get_default_schedule :: "workers_db \<Rightarrow> (string, string) dict option" where
  "get_default_schedule db = fields_like ''::schedule::default::%'' db"

text \<open>A value as the column stores it; None violates a constraint and undoes the transaction.\<close>

fun sql_text :: "pyval \<Rightarrow> string option" where
  "sql_text PNone = None"
| "sql_text (PBool b) = Some (if b then ''1'' else ''0'')"
| "sql_text (PInt i) = Some (show_int i)"
| "sql_text (PStr s) = Some s"

definition save_fields :: "(string \<Rightarrow> string) \<Rightarrow> (string, pyval) dict \<Rightarrow> workers_db \<Rightarrow> workers_db option" where
  "save_fields key data db =
     fold (\<lambda>(field, v) acc. case acc of
             None \<Rightarrow> None
           | Some db \<Rightarrow> (case sql_text v of None \<Rightarrow> None | Some t \<Rightarrow> Some (config_upsert (key field) t db)))
       data (Some db)"

definition save_schedule :: "(string \<Rightarrow> string) \<Rightarrow> string \<Rightarrow> (string, pyval) dict \<Rightarrow> workers_db \<Rightarrow> workers_db \<times> reply" where
  "save_schedule key msg data db =
     (case save_fields key data db of
        None \<Rightarrow> (db, Failure ''NOT NULL constraint failed: config.value'')
      | Some db' \<Rightarrow> (db', Success msg))"

definition save_worker_schedule :: "string \<Rightarrow> (string, pyval) dict \<Rightarrow> workers_db \<Rightarrow> workers_db \<times> reply" where
  "save_worker_schedule hostname = save_schedule (schedule_key hostname) (''Schedule saved for '' @ hostname)"

definition save_default_schedule :: "(string, pyval) dict \<Rightarrow> workers_db \<Rightarrow> workers_db \<times> reply" where
  "save_default_schedule = save_schedule default_key ''Default schedule saved''"

definition delete_worker_schedule :: "string \<Rightarrow> workers_db \<Rightarrow> workers_db \<times> reply" where
  "delete_worker_schedule hostname db =
     (db\<lparr>w_config := filter (\<lambda>(k, _). \<not> (sqlite_like (hostname @ ''::schedule::%'') k
                                          \<and> \<not> sqlite_like (hostname @ ''::schedule::enabled'') k)) (w_config db)\<rparr>,
      Success (''Schedule reset to global defaults for '' @ hostname))"

definition get_scheduled_workers :: "workers_db \<Rightarrow> (string, (string, string) dict) dict" where
  "get_scheduled_workers db =
     fold (\<lambda>(key, v) acc.
         if v = ''true'' then
           let hostname = hd (split_colons key) in
           (case get_worker_schedule hostname db of None \<Rightarrow> acc | Some schedule \<Rightarrow> dset acc hostname schedule)
         else acc)
       (config_like ''%::schedule::enabled'' db) []"

section \<open>Reachable databases\<close>

text \<open>
  Host names have no colon. Those without the characters that mean something to LIKE, and whose
  only match in the set \<open>H\<close> of hosts, up to the case of letters, is the host itself, are the ones
  whose patterns find their own rows. Fields have no colon.
\<close>

definition host_name :: "string \<Rightarrow> bool" where
  "host_name h \<longleftrightarrow> h \<noteq> [] \<and> list_all (\<lambda>c. c \<noteq> CHR '':'') h"

definition plain_host :: "string \<Rightarrow> bool" where
  "plain_host h \<longleftrightarrow> host_name h \<and> list_all (\<lambda>c. c \<notin> {CHR ''%'', CHR ''_''}) h"

definition sole_host :: "string set \<Rightarrow> string \<Rightarrow> bool" where
  "sole_host H h \<longleftrightarrow> plain_host h \<and> (\<forall>a\<in>H. map ascii_lower a = map ascii_lower h \<longrightarrow> a = h)"

definition plain_field :: "string \<Rightarrow> bool" where
  "plain_field f \<longleftrightarrow> list_all (\<lambda>c. c \<noteq> CHR '':'') f"

text \<open>The databases in which rows of the table of settings were written for the hosts \<open>H\<close>.\<close>

inductive wdb_reachable :: "string set \<Rightarrow> workers_db \<Rightarrow> bool" for H where
  init: "wdb_reachable H init_workers_db"
| add: "wdb_reachable H db \<Longrightarrow> wdb_reachable H (fst (add_worker h arch override db))"
| remove: "wdb_reachable H db \<Longrightarrow> wdb_reachable H (fst (wdb_remove_worker h db))"
| update: "wdb_reachable H db \<Longrightarrow> wdb_reachable H (fst (update_worker_workdir h override db))"
| role: "wdb_reachable H db \<Longrightarrow> wdb_reachable H (set_worker_role h role enabled db)"
| workdir: "wdb_reachable H db \<Longrightarrow> wdb_reachable H (fst (set_default_workdir path db))"
| build_node: "wdb_reachable H db \<Longrightarrow> wdb_reachable H (fst (set_build_node_config h override enabled db))"
| test_build: "wdb_reachable H db \<Longrightarrow> wdb_reachable H (fst (set_test_build_use_installed_db enabled db))"
| mode: "wdb_reachable H db \<Longrightarrow> wdb_reachable H (fst (set_tuning_mode mode db))"
| selection: "wdb_reachable H db \<Longrightarrow> h \<in> H \<Longrightarrow> host_name h \<Longrightarrow>
              wdb_reachable H (fst (save_worker_gpu_selection h ids db))"
| status: "wdb_reachable H db \<Longrightarrow> h \<in> H \<Longrightarrow> host_name h \<Longrightarrow> wdb_reachable H (save_worker_status h st db)"
| detected: "wdb_reachable H db \<Longrightarrow> h \<in> H \<Longrightarrow> host_name h \<Longrightarrow>
             wdb_reachable H (store_gpu_info h arch pciid number db)"
| schedule: "wdb_reachable H db \<Longrightarrow> h \<in> H \<Longrightarrow> host_name h \<Longrightarrow> list_all plain_field (map fst data) \<Longrightarrow>
             wdb_reachable H (fst (save_worker_schedule h data db))"
| default_schedule: "wdb_reachable H db \<Longrightarrow> wdb_reachable H (fst (save_default_schedule data db))"
| delete: "wdb_reachable H db \<Longrightarrow> wdb_reachable H (fst (delete_worker_schedule h db))"

definition fixed_keys :: "string list" where
  "fixed_keys =
     [''default_workdir'', ''buildnode::hostname'', ''buildnode::workdir_override'', ''buildnode::enable'',
      ''webui::test_build_use_installed_db'', ''webui::tuning_mode'']"

definition host_suffixes :: "string list" where
  "host_suffixes = [''::gpu_selection'', ''::status'', ''::gpu::arch'', ''::gpu::pciid'', ''::gpu::number'']"

definition good_key :: "string set \<Rightarrow> string \<Rightarrow> bool" where
  "good_key H k \<longleftrightarrow>
     (\<exists>h f. h \<in> H \<and> host_name h \<and> plain_field f \<and> k = schedule_key h f)
     \<or> (\<exists>h s. h \<in> H \<and> host_name h \<and> s \<in> set host_suffixes \<and> k = h @ s)
     \<or> (\<exists>f. k = default_key f) \<or> k \<in> set fixed_keys"

definition wdb_ok :: "string set \<Rightarrow> workers_db \<Rightarrow> bool" where
  "wdb_ok H db \<longleftrightarrow>
     distinct (map wk_hostname (w_rows db)) \<and> sorted_wrt (<) (map wk_id (w_rows db))
     \<and> list_all (\<lambda>r. wk_id r < w_next_id db \<and> wk_arch r \<in> set TUNING_ARCHITECTURES) (w_rows db)
     \<and> distinct (w_roles db)
     \<and> distinct (dkeys (w_config db)) \<and> list_all (good_key H) (dkeys (w_config db))"

lemma wdb_ok_upsert: "wdb_ok H db \<Longrightarrow> good_key H k \<Longrightarrow> wdb_ok H (config_upsert k v db)"
  using distinct_dset [of "w_config db" k v]
  by (auto simp: wdb_ok_def config_upsert_def dkeys_dset simp flip: dkeys_def)

lemma save_fields_simps [simp]:
  "save_fields key [] db = Some db"
  "save_fields key ((f, v) # data) db =
     (case sql_text v of None \<Rightarrow> None | Some t \<Rightarrow> save_fields key data (config_upsert (key f) t db))"
proof -
  have "fold (\<lambda>(field, v) acc. case acc of None \<Rightarrow> None
      | Some db \<Rightarrow> (case sql_text v of None \<Rightarrow> None | Some t \<Rightarrow> Some (config_upsert (key field) t db))) xs None = None" for xs
    by (induction xs) auto
  then show "save_fields key ((f, v) # data) db =
     (case sql_text v of None \<Rightarrow> None | Some t \<Rightarrow> save_fields key data (config_upsert (key f) t db))"
    by (simp add: save_fields_def split: option.splits)
qed (simp add: save_fields_def)

lemma save_fields_Some:
  assumes "save_fields key data db = Some db'" "\<And>db k v. P db \<Longrightarrow> k \<in> key ` fst ` set data \<Longrightarrow> P (config_upsert k v db)" "P db"
  shows "P db'"
  using assms
proof (induction data arbitrary: db)
  case (Cons kv data)
  then obtain t where "save_fields key data (config_upsert (key (fst kv)) t db) = Some db'"
    by (cases kv) (auto split: option.splits)
  then show ?case using Cons.IH [of "config_upsert (key (fst kv)) t db"] Cons.prems(2,3) by auto
qed simp

lemma save_fields_lookup:
  assumes "save_fields key data db = Some db'" "distinct (map fst data)" "inj key"
  shows "dget (w_config db') (key f) = (case dget data f of None \<Rightarrow> dget (w_config db) (key f) | Some v \<Rightarrow> sql_text v)"
    and "k \<notin> key ` fst ` set data \<Longrightarrow> dget (w_config db') k = dget (w_config db) k"
proof -
  have upsert: "dget (w_config (config_upsert k v db)) k' = (if k = k' then Some v else dget (w_config db) k')" for k k' v db
    by (simp add: config_upsert_def)
  show other: "k \<notin> key ` fst ` set data \<Longrightarrow> dget (w_config db') k = dget (w_config db) k" for k
    using assms(1) by (induction data arbitrary: db) (auto simp: upsert split: option.splits)
  show "dget (w_config db') (key f) = (case dget data f of None \<Rightarrow> dget (w_config db) (key f) | Some v \<Rightarrow> sql_text v)"
    using assms(1,2)
  proof (induction data arbitrary: db)
    case (Cons gv data)
    obtain g v where gv: "gv = (g, v)" by (cases gv)
    obtain t where t: "sql_text v = Some t" "save_fields key data (config_upsert (key g) t db) = Some db'"
      using Cons.prems(1) by (auto simp: gv split: option.splits)
    note IH = Cons.IH [OF t(2)]
    show ?case
    proof (cases "f = g")
      case True
      then have "dget data f = None" using Cons.prems(2) by (simp add: gv map_of_eq_None_iff)
      then show ?thesis using IH Cons.prems(2) t(1) True by (simp add: gv upsert)
    next
      case False
      then have "key g \<noteq> key f" using injD [OF assms(3), of g f] by blast
      then show ?thesis using IH Cons.prems(2) False by (simp add: gv upsert split: option.split)
    qed
  qed simp
qed

lemma wdb_ok_save:
  assumes "wdb_ok H db" "\<And>f. f \<in> fst ` set data \<Longrightarrow> good_key H (key f)"
  shows "wdb_ok H (fst (save_schedule key msg data db))"
proof (cases "save_fields key data db")
  case (Some db')
  have "wdb_ok H db'" by (rule save_fields_Some [of key data db db' "wdb_ok H", OF Some _ assms(1)]) (auto intro: wdb_ok_upsert assms(2))
  then show ?thesis using Some by (simp add: save_schedule_def)
qed (use assms(1) in \<open>simp add: save_schedule_def\<close>)

lemma wdb_ok_filter_config: "wdb_ok H db \<Longrightarrow> wdb_ok H (db\<lparr>w_config := filter p (w_config db)\<rparr>)"
  by (auto simp: wdb_ok_def dkeys_def list_all_iff intro: distinct_map_filter)

lemma wdb_ok_reachable: "wdb_reachable H db \<Longrightarrow> wdb_ok H db"
proof (induction rule: wdb_reachable.induct)
  case (add db h arch override)
  then show ?case
    by (auto simp: wdb_ok_def add_worker_def list_all_iff list_ex_iff sorted_wrt_append)
next
  case (remove db h)
  then show ?case
    by (auto simp: wdb_ok_def wdb_remove_worker_def list_all_iff intro: distinct_map_filter sorted_wrt_filter
        simp flip: filter_map)
       (simp add: sorted_wrt_map sorted_wrt_filter)
next
  case (update db h override)
  let ?f = "\<lambda>r. if wk_hostname r = h then r\<lparr>wk_override := text_or_null override\<rparr> else r"
  have eq: "map wk_hostname (map ?f rs) = map wk_hostname rs" "map wk_id (map ?f rs) = map wk_id rs" for rs by simp_all
  then show ?case using update unfolding wdb_ok_def update_worker_workdir_def by (auto simp: list_all_iff eq simp del: map_map)
next
  case (schedule db h data)
  then show ?case
    unfolding save_worker_schedule_def by (intro wdb_ok_save) (auto simp: good_key_def list_all_iff)
next
  case (default_schedule db data)
  then show ?case
    unfolding save_default_schedule_def by (intro wdb_ok_save) (auto simp: good_key_def)
next
  case (delete db h)
  then show ?case by (simp add: delete_worker_schedule_def wdb_ok_filter_config)
qed (auto simp: set_worker_role_def set_default_workdir_def set_build_node_config_def set_test_build_use_installed_db_def
      set_tuning_mode_def save_worker_gpu_selection_def save_worker_status_def store_gpu_info_def good_key_def fixed_keys_def host_suffixes_def
      intro!: wdb_ok_upsert, auto simp: wdb_ok_def init_workers_db_def dkeys_def)

section \<open>Schedules of different hosts\<close>

lemma split_colons_plain: "list_all (\<lambda>c. c \<noteq> CHR '':'') w \<Longrightarrow> split_colons w = [w]"
  by (induction w rule: split_colons.induct) auto

lemma split_colons_append:
  "list_all (\<lambda>c. c \<noteq> CHR '':'') w \<Longrightarrow> split_colons (w @ CHR '':'' # CHR '':'' # s) = w # split_colons s"
proof (induction w)
  case (Cons c w)
  obtain d r where "w @ CHR '':'' # CHR '':'' # s = d # r" by (cases w) auto
  then show ?case using Cons by simp
qed simp

lemma split_schedule_key:
  assumes "host_name h" "plain_field f" shows "split_colons (schedule_key h f) = [h, ''schedule'', f]"
proof -
  have "list_all (\<lambda>c. c \<noteq> CHR '':'') h" using assms(1) by (simp add: host_name_def)
  from split_colons_append [OF this, of "''schedule'' @ ''::'' @ f"]
    split_colons_append [of "''schedule''" f] split_colons_plain [of f]
  show ?thesis using assms(2) by (simp add: schedule_key_def plain_field_def)
qed

lemma like_any: "sqlite_like ''%'' s"
  by (auto simp: list_ex_iff intro!: bexI [of _ "length s"])

lemma like_prefix:
  assumes "list_all (\<lambda>c. c \<notin> {CHR ''%'', CHR ''_''}) p"
  shows "sqlite_like (p @ ''%'') k \<longleftrightarrow> (\<exists>t. map ascii_lower k = map ascii_lower p @ t)"
  using assms
proof (induction p arbitrary: k)
  case Nil
  then show ?case using like_any by simp
next
  case (Cons c p)
  then show ?case by (cases k) (auto simp del: upt_Suc)
qed

lemma colon_parts:
  assumes "list_all (\<lambda>c. c \<noteq> CHR '':'') w"
  shows "takeWhile (\<lambda>c. c \<noteq> CHR '':'') (w @ CHR '':'' # s) = w" and "dropWhile (\<lambda>c. c \<noteq> CHR '':'') (w @ CHR '':'' # s) = CHR '':'' # s"
  using assms by (auto simp: takeWhile_append dropWhile_append list_all_iff)

lemma ascii_lower_colon: "ascii_lower c = CHR '':'' \<longleftrightarrow> c = CHR '':''"
proof -
  have "\<forall>c. ascii_lower c = CHR '':'' \<longleftrightarrow> c = CHR '':''" by code_simp
  then show ?thesis by blast
qed

text \<open>The host of a key in lower case, and the rest.\<close>

lemma lower_host:
  assumes "host_name h"
  shows "takeWhile (\<lambda>c. c \<noteq> CHR '':'') (map ascii_lower h @ CHR '':'' # s) = map ascii_lower h"
    and "dropWhile (\<lambda>c. c \<noteq> CHR '':'') (map ascii_lower h @ CHR '':'' # s) = CHR '':'' # s"
proof -
  have "list_all (\<lambda>c. c \<noteq> CHR '':'') (map ascii_lower h)"
    using assms by (simp add: host_name_def list_all_iff ascii_lower_colon)
  from colon_parts [OF this, of s]
  show "takeWhile (\<lambda>c. c \<noteq> CHR '':'') (map ascii_lower h @ CHR '':'' # s) = map ascii_lower h"
    "dropWhile (\<lambda>c. c \<noteq> CHR '':'') (map ascii_lower h @ CHR '':'' # s) = CHR '':'' # s" .
qed

lemma lower_texts:
  "map ascii_lower ''::schedule::'' = ''::schedule::''" "map ascii_lower ''::schedule::default::'' = ''::schedule::default::''"
  "list_all (\<lambda>s. map ascii_lower s = s \<and> take 1 s = '':'' \<and> take 5 s \<noteq> ''::sch'') host_suffixes"
  "list_all (\<lambda>k. take 5 (dropWhile (\<lambda>c. c \<noteq> CHR '':'') (map ascii_lower k)) \<noteq> ''::sch'') fixed_keys"
  by code_simp+

text \<open>Among the keys of a reachable database the pattern of a host finds the host's own ones.\<close>

lemma like_own_keys:
  assumes h: "sole_host H h" and k: "good_key H k"
  shows "sqlite_like (h @ ''::schedule::%'') k \<longleftrightarrow> h \<in> H \<and> (\<exists>f. plain_field f \<and> k = schedule_key h f)"
proof -
  let ?c = "\<lambda>c. c \<noteq> CHR '':''"
  have hn: "host_name h" using h by (simp add: sole_host_def plain_host_def)
  have like: "sqlite_like (h @ ''::schedule::%'') k \<longleftrightarrow> (\<exists>t. map ascii_lower k = map ascii_lower h @ ''::schedule::'' @ t)"
  proof -
    have "list_all (\<lambda>c. c \<notin> {CHR ''%'', CHR ''_''}) (h @ ''::schedule::'')"
      using h by (simp add: sole_host_def plain_host_def)
    from like_prefix [OF this, of k] show ?thesis unfolding map_append lower_texts(1) append_assoc append_Cons append_Nil .
  qed
  show ?thesis
  proof
    assume "sqlite_like (h @ ''::schedule::%'') k"
    then obtain t where "map ascii_lower k = map ascii_lower h @ ''::schedule::'' @ t" using like by blast
    then have parts: "takeWhile ?c (map ascii_lower k) = map ascii_lower h" "dropWhile ?c (map ascii_lower k) = ''::schedule::'' @ t"
      using lower_host [OF hn] by simp_all
    then have five: "take 5 (dropWhile ?c (map ascii_lower k)) = ''::sch''" by simp
    from k consider
        (own) h' f where "h' \<in> H" "host_name h'" "plain_field f" "k = schedule_key h' f"
      | (other) h' s where "host_name h'" "s \<in> set host_suffixes" "k = h' @ s"
      | (default) f where "k = default_key f"
      | (fixed) "k \<in> set fixed_keys"
      unfolding good_key_def by blast
    then show "h \<in> H \<and> (\<exists>f. plain_field f \<and> k = schedule_key h f)"
    proof cases
      case own
      have "map ascii_lower k = map ascii_lower h' @ CHR '':'' # tl ''::schedule::'' @ map ascii_lower f"
        unfolding own(4) schedule_key_def map_append lower_texts(1) by simp
      then have "takeWhile ?c (map ascii_lower k) = map ascii_lower h'" using lower_host(1) [OF own(2)] by metis
      then have "h' = h" using parts(1) own(1) h by (simp add: sole_host_def)
      then show ?thesis using own by auto
    next
      case other
      then have s: "map ascii_lower s = s" "take 1 s = '':''" "take 5 s \<noteq> ''::sch''"
        using lower_texts(3) by (auto simp: list_all_iff)
      then obtain r where "s = CHR '':'' # r" by (cases s) auto
      then have "dropWhile ?c (map ascii_lower k) = s"
        using lower_host(2) [OF other(1), of r] s(1) unfolding other(3) map_append by simp
      then show ?thesis using five s(3) by simp
    next
      case default
      have "map ascii_lower k = CHR '':'' # tl ''::schedule::default::'' @ map ascii_lower f"
        unfolding default default_key_def map_append lower_texts(2) by simp
      then have "takeWhile ?c (map ascii_lower k) = []" by simp
      then show ?thesis using parts(1) hn by (simp add: host_name_def)
    next
      case fixed
      then show ?thesis using five lower_texts(4) by (auto simp: list_all_iff)
    qed
  next
    assume "h \<in> H \<and> (\<exists>f. plain_field f \<and> k = schedule_key h f)"
    then show "sqlite_like (h @ ''::schedule::%'') k"
      unfolding like by (elim conjE exE) (simp only: schedule_key_def map_append lower_texts(1), blast)
  qed
qed

text \<open>A field of the schedule that \<open>get_worker_schedule\<close> returns.\<close>

definition schedule_field :: "string \<Rightarrow> workers_db \<Rightarrow> string \<Rightarrow> string option" where
  "schedule_field h db f = (case get_worker_schedule h db of None \<Rightarrow> None | Some s \<Rightarrow> dget s f)"

lemma dget_iff: "distinct (map fst d) \<Longrightarrow> dget d k = Some v \<longleftrightarrow> (k, v) \<in> set d"
  by simp

lemma mem_map_key: "(f, v) \<in> set (map (\<lambda>(k, v). (g k, v)) xs) \<longleftrightarrow> (\<exists>k. (k, v) \<in> set xs \<and> f = g k)"
  by force

lemma distinct_map_key: "inj_on g (fst ` set xs) \<Longrightarrow> distinct (map fst xs) \<Longrightarrow> distinct (map fst (map (\<lambda>(k, v). (g k, v)) xs))"
proof -
  assume "inj_on g (fst ` set xs)" "distinct (map fst xs)"
  moreover have "map fst (map (\<lambda>(k, v). (g k, v)) xs) = map g (map fst xs)" by (induction xs) auto
  ultimately show ?thesis by (simp only: distinct_map [of g "map fst xs"] set_map)
qed

lemma option_eqI: "(\<And>v. a = Some v \<longleftrightarrow> P \<and> b = Some v) \<Longrightarrow> a = (if P then b else None)"
  by (cases a; cases b) auto

lemma schedule_field_eq:
  assumes db: "wdb_ok H db" and h: "sole_host H h" "h \<in> H"
  shows "schedule_field h db f = (if plain_field f then dget (w_config db) (schedule_key h f) else None)"
proof -
  define rows where "rows = config_like (h @ ''::schedule::%'') db"
  let ?g = "\<lambda>(k, v). (last (split_colons k), v)"
  have cfg: "distinct (map fst (w_config db))" "\<And>k v. (k, v) \<in> set (w_config db) \<Longrightarrow> good_key H k"
    using db by (auto simp: wdb_ok_def dkeys_def list_all_iff)
  have row: "(k, v) \<in> set rows \<longleftrightarrow> (\<exists>f. plain_field f \<and> k = schedule_key h f \<and> (k, v) \<in> set (w_config db))" for k v
  proof -
    have "(k, v) \<in> set rows \<longleftrightarrow> sqlite_like (h @ ''::schedule::%'') k \<and> (k, v) \<in> set (w_config db)"
      by (simp add: rows_def config_like_def conj_commute)
    then show ?thesis using like_own_keys [OF h(1) cfg(2)] h(2) by blast
  qed
  have last: "last (split_colons (schedule_key h f)) = f" if "plain_field f" for f
    using split_schedule_key [OF _ that, of h] h by (simp add: sole_host_def plain_host_def)
  have mem: "(f, v) \<in> set (map ?g rows) \<longleftrightarrow> plain_field f \<and> (schedule_key h f, v) \<in> set (w_config db)" for f v
  proof -
    have "(f, v) \<in> set (map ?g rows) \<longleftrightarrow> (\<exists>k. (k, v) \<in> set rows \<and> f = last (split_colons k))"
      by (rule mem_map_key)
    also have "\<dots> \<longleftrightarrow> (\<exists>g. plain_field g \<and> (schedule_key h g, v) \<in> set (w_config db)
                          \<and> f = last (split_colons (schedule_key h g)))"
      unfolding row by blast
    also have "\<dots> \<longleftrightarrow> (\<exists>g. plain_field g \<and> (schedule_key h g, v) \<in> set (w_config db) \<and> f = g)"
      by (rule ex_cong1) (auto simp only: last)
    finally show ?thesis by blast
  qed
  have own: "\<exists>f. plain_field f \<and> k = schedule_key h f" if "k \<in> fst ` set rows" for k
  proof -
    from that obtain v where "(k, v) \<in> set rows" by (metis imageE prod.collapse)
    then show ?thesis unfolding row by blast
  qed
  have "inj_on (last \<circ> split_colons) (fst ` set rows)"
  proof (rule inj_onI)
    fix j k assume jk: "j \<in> fst ` set rows" "k \<in> fst ` set rows" and eq: "(last \<circ> split_colons) j = (last \<circ> split_colons) k"
    from own [OF jk(1)] own [OF jk(2)] obtain f g where
      fg: "plain_field f" "j = schedule_key h f" "plain_field g" "k = schedule_key h g" by blast
    then have "f = g" using eq last [OF fg(1)] last [OF fg(3)] by simp
    then show "j = k" using fg by simp
  qed
  moreover have "distinct (map fst rows)" using cfg(1) by (simp add: rows_def config_like_def distinct_map_filter)
  ultimately have dist: "distinct (map fst (map ?g rows))"
    using distinct_map_key [of "last \<circ> split_colons" rows] by (simp only: comp_apply)
  have "schedule_field h db f = dget (dict_of (map ?g rows)) f"
    by (cases rows) (simp_all add: schedule_field_def get_worker_schedule_def fields_like_def rows_def [symmetric] dict_of_def)
  then have "schedule_field h db f = dget (map ?g rows) f" by (simp only: dict_of_distinct [OF dist])
  moreover have "dget (map ?g rows) f = Some v \<longleftrightarrow> plain_field f \<and> dget (w_config db) (schedule_key h f) = Some v" for v
    unfolding dget_iff [OF dist] dget_iff [OF cfg(1)] by (rule mem)
  ultimately show ?thesis by (intro option_eqI) simp
qed

lemma like_exact:
  assumes "list_all (\<lambda>c. c \<notin> {CHR ''%'', CHR ''_''}) p"
  shows "sqlite_like p k \<longleftrightarrow> map ascii_lower k = map ascii_lower p"
  using assms
proof (induction p arbitrary: k)
  case (Cons c p)
  then show ?case by (cases k) auto
qed auto

lemma lower_enabled: "map ascii_lower ''::schedule::enabled'' = ''::schedule::enabled''"
  by code_simp

lemma map_of_filter_key: "dget (filter (\<lambda>(k, _). P k) d) k = (if P k then dget d k else None)"
  by (induction d) auto

lemma schedule_key_inject: 
  assumes "host_name h" "host_name h'" shows "schedule_key h f = schedule_key h' f' \<longleftrightarrow> h = h' \<and> f = f'"
proof
  assume eq: "schedule_key h f = schedule_key h' f'"
  have "takeWhile (\<lambda>c. c \<noteq> CHR '':'') (schedule_key h f) = h" if "host_name h" for h f
    using colon_parts(1) [of h, OF that [unfolded host_name_def, THEN conjunct2], of "tl ''::schedule::'' @ f"] by (simp add: schedule_key_def)
  then have "h = h'" using eq assms by metis
  then show "h = h' \<and> f = f'" using eq by (simp add: schedule_key_def)
qed simp

lemma like_own_schedule:
  assumes "sole_host H h" "h \<in> H" "host_name h'" "h' \<in> H" "plain_field f"
  shows "sqlite_like (h @ ''::schedule::%'') (schedule_key h' f) \<longleftrightarrow> h' = h"
proof -
  have "host_name h" using assms(1) by (simp add: sole_host_def plain_host_def)
  moreover have "good_key H (schedule_key h' f)" using assms(3-5) by (auto simp: good_key_def)
  from like_own_keys [OF assms(1) this] show ?thesis
    using schedule_key_inject [OF assms(3) calculation] assms(2,5) by auto
qed

lemma like_enabled:
  assumes "sole_host H h"
  shows "sqlite_like (h @ ''::schedule::enabled'') (schedule_key h f) \<longleftrightarrow> map ascii_lower f = ''enabled''"
proof -
  have "list_all (\<lambda>c. c \<notin> {CHR ''%'', CHR ''_''}) (h @ ''::schedule::enabled'')"
    using assms by (simp add: sole_host_def plain_host_def)
  from like_exact [OF this, of "schedule_key h f"] show ?thesis
    using lower_enabled unfolding schedule_key_def map_append by simp
qed

text \<open>
  C40: the schedules of hosts do not interfere, as long as the names of the two hosts have no
  character that LIKE takes for a pattern and no other host of the database differs from them in the
  case of letters only. In every reachable database, saving a schedule changes exactly the saved
  fields of that host to the saved texts, and deleting it removes exactly the fields of that host
  other than the enabled flag; every field of every other such host keeps its value.
\<close>

theorem schedules_isolated:
  assumes db: "wdb_reachable H db" and h: "sole_host H h" "h \<in> H" "sole_host H h'" "h' \<in> H"
    and data: "list_all plain_field (map fst data)" "distinct (map fst data)"
    and save: "save_worker_schedule h data db = (db', Success m)"
  shows "schedule_field h' db' f
           = (if h' = h \<and> dget data f \<noteq> None then sql_text (the (dget data f)) else schedule_field h' db f)
         \<and> schedule_field h' (fst (delete_worker_schedule h db)) f
           = (if h' = h \<and> map ascii_lower f \<noteq> ''enabled'' then None else schedule_field h' db f)"
proof
  note ok = wdb_ok_reachable [OF db]
  have names: "host_name h" "host_name h'" using h by (simp_all add: sole_host_def plain_host_def)
  have ok': "wdb_ok H db'" using wdb_ok_reachable [OF wdb_reachable.schedule [OF db h(2) names(1) data(1)]] save by simp
  have "save_fields (schedule_key h) data db = Some db'"
    using save by (auto simp: save_worker_schedule_def save_schedule_def split: option.splits)
  note look = save_fields_lookup [OF this data(2)]
  have inj: "inj (schedule_key h)" using schedule_key_inject [OF names(1) names(1)] by (simp add: inj_def)
  show "schedule_field h' db' f
           = (if h' = h \<and> dget data f \<noteq> None then sql_text (the (dget data f)) else schedule_field h' db f)"
  proof (cases "h' = h")
    case True
    have "plain_field f" if "dget data f = Some v" for v
      using map_of_SomeD [OF that] data(1) by (auto simp: list_all_iff)
    then show ?thesis
      using True look(1) [OF inj, of f]
      by (auto simp: schedule_field_eq [OF ok' h(1,2)] schedule_field_eq [OF ok h(1,2)] split: option.splits)
  next
    case False
    then have "schedule_key h' f \<notin> schedule_key h ` fst ` set data" using schedule_key_inject [OF names(2,1)] by auto
    then show ?thesis
      using False look(2) [OF inj] by (simp add: schedule_field_eq [OF ok' h(3,4)] schedule_field_eq [OF ok h(3,4)])
  qed
  have ok'': "wdb_ok H (fst (delete_worker_schedule h db))"
    using ok by (simp add: delete_worker_schedule_def wdb_ok_filter_config)
  show "schedule_field h' (fst (delete_worker_schedule h db)) f
           = (if h' = h \<and> map ascii_lower f \<noteq> ''enabled'' then None else schedule_field h' db f)"
    unfolding schedule_field_eq [OF ok'' h(3,4)] schedule_field_eq [OF ok h(3,4)]
    using like_own_schedule [OF h(1,2) names(2) h(4)] like_enabled [OF h(1)]
    by (auto simp: delete_worker_schedule_def map_of_filter_key)
qed

text \<open>Two hosts with detected GPUs; one has a schedule, the other gets one.\<close>

definition ex_wdb :: workers_db where
  "ex_wdb = store_gpu_info ''GPU-a'' ''gfx942'' ''1002:74a1'' ''8''
     (fst (save_worker_schedule ''gpu-b'' [(''enabled'', PStr ''true''), (''weekday_start'', PStr ''18:00'')]
       init_workers_db))"

lemma ex_plain:
  "host_name ''GPU-a'' \<and> host_name ''gpu-b'' \<and> plain_field ''weekday_start'' \<and> plain_field ''enabled''"
  "sole_host {''GPU-a'', ''gpu-b''} ''GPU-a'' \<and> sole_host {''GPU-a'', ''gpu-b''} ''gpu-b''"
  by code_simp+

theorem schedules_isolated_witness:
  "schedule_field ''gpu-b'' (fst (save_worker_schedule ''GPU-a'' [(''weekday_start'', PStr ''20:00'')] ex_wdb))
     ''weekday_start'' = Some ''18:00''"
proof -
  obtain db' m where save: "save_worker_schedule ''GPU-a'' [(''weekday_start'', PStr ''20:00'')] ex_wdb = (db', Success m)"
    by (simp add: save_worker_schedule_def save_schedule_def)
  have "wdb_reachable {''GPU-a'', ''gpu-b''} ex_wdb"
    unfolding ex_wdb_def using ex_plain(1)
    by (intro wdb_reachable.detected wdb_reachable.schedule wdb_reachable.init) simp_all
  from schedules_isolated [OF this _ _ _ _ _ _ save, of "''gpu-b''" "''weekday_start''"] ex_plain
  have "schedule_field ''gpu-b'' db' ''weekday_start'' = schedule_field ''gpu-b'' ex_wdb ''weekday_start''" by simp
  also have "\<dots> = Some ''18:00''" by code_simp
  finally show ?thesis by (simp add: save)
qed

text \<open>LIKE ignores case: resetting a schedule deletes that of a host that differs in case only.\<close>

lemma case_deletes_other_host:
  "let db = fst (save_worker_schedule ''gpu-b'' [(''weekday_start'', PStr ''18:00'')] init_workers_db)
   in schedule_field ''gpu-b'' db ''weekday_start'' = Some ''18:00''
      \<and> schedule_field ''gpu-b'' (fst (delete_worker_schedule ''GPU-b'' db)) ''weekday_start'' = None"
  by code_simp

text \<open>
  A host name with an underscore is a pattern: resetting its schedule deletes the schedule of
  another host.
\<close>

lemma underscore_deletes_other_host:
  "let db = fst (save_worker_schedule ''gpu-b'' [(''weekday_start'', PStr ''18:00'')] init_workers_db)
   in schedule_field ''gpu-b'' db ''weekday_start'' = Some ''18:00''
      \<and> schedule_field ''gpu-b'' (fst (delete_worker_schedule ''gpu_b'' db)) ''weekday_start'' = None"
  by code_simp

text \<open>An empty selection is stored as an empty text, which is no list of numbers.\<close>

lemma empty_selection_lost:
  "let db = fst (save_worker_gpu_selection ''gpu-b'' [] init_workers_db)
   in get_worker_gpu_selection ''gpu-b'' db = None \<and> get_workers_by_architecture db = Inl ValueError"
  by code_simp

text \<open>Every other selection is read back.\<close>

lemma selection_read_back:
  assumes "ids \<noteq> []"
  shows "get_worker_gpu_selection h (fst (save_worker_gpu_selection h ids db)) = Some ids"
proof -
  have comma: "list_all (\<lambda>w. CHR '','' \<notin> set w) (map show_int ids)"
    using show_int_digits by (fastforce simp: list_all_iff is_digit_def)
  have "split_on (CHR '','') (join '','' (map show_int ids)) = map show_int ids"
    using split_on_join [OF _ comma] assms by simp
  moreover have "rtraverse parse_int (map show_int ids) = Inr ids"
    by (induction ids) (simp_all add: parse_int_show_int)
  ultimately have "rtraverse parse_int (split_on (CHR '','') (join '','' (map show_int ids))) = Inr ids"
    by simp
  moreover have "rtraverse parse_int (split_on (CHR '','') ''-1'') = Inr [- 1]" by code_simp
  ultimately have "parse_selection (if ids = [- 1] then ''-1'' else join '','' (map show_int ids)) = Inr ids"
    by (auto simp: parse_selection_def)
  then show ?thesis by (simp add: get_worker_gpu_selection_def save_worker_gpu_selection_def config_upsert_def)
qed

end
