(* ===== verification/OfficeHours.thy ===== *)
theory OfficeHours
  imports WorkersDb
begin

text \<open>
  \<open>.tune/webui/scheduler.py\<close>: timers that stop and start the workers of hosts with office hours.
  A naive date and time is the number of microseconds since the first of January of year 1, which
  was a Monday. The threads of the timers are events: a timer fires when it is told to, with the
  readings of the clock as arguments. The process \<open>wkctl\<close> is the list of its calls.
\<close>

section \<open>Time\<close>

definition SECOND :: int where "SECOND = 1000000"
definition MINUTE :: int where "MINUTE = 60 * SECOND"
definition DAY :: int where "DAY = 1440 * MINUTE"

definition date_of :: "int \<Rightarrow> int" where "date_of t = t div DAY"
definition time_of :: "int \<Rightarrow> int" where "time_of t = t mod DAY"

definition is_weekday :: "int \<Rightarrow> bool" where
  "is_weekday date \<longleftrightarrow> date mod 7 < 5"

definition combine :: "int \<Rightarrow> int \<Rightarrow> int" where
  "combine date time = date * DAY + time"

text \<open>\<open>datetime.strptime(s, '%H:%M').time()\<close>: one or two digits each.\<close>

definition two_digits :: "nat \<Rightarrow> string \<Rightarrow> bool" where
  "two_digits bound s \<longleftrightarrow> length s \<in> {1, 2} \<and> list_all is_digit s \<and> digits_val 0 s < bound"

definition strptime_hm :: "pyval \<Rightarrow> int res" where
  "strptime_hm v =
     (case v of
        PStr s \<Rightarrow>
          (case split_on (CHR '':'') s of
             [h, m] \<Rightarrow> (if two_digits 24 h \<and> two_digits 60 m
                        then Inr (int (60 * digits_val 0 h + digits_val 0 m) * MINUTE) else Inl ValueError)
           | _ \<Rightarrow> Inl ValueError)
      | _ \<Rightarrow> Inl TypeError)"

section \<open>Office hours\<close>

type_synonym schedule = "(string, pyval) dict"

definition sch_get :: "schedule \<Rightarrow> string \<Rightarrow> pyval" where
  "sch_get sch k = (case dget sch k of None \<Rightarrow> PNone | Some v \<Rightarrow> v)"

definition weekend_allowed :: "schedule \<Rightarrow> pyval" where
  "weekend_allowed sch =
     (case dget sch ''weekend_allowed'' of
        None \<Rightarrow> PBool True
      | Some (PStr s) \<Rightarrow> PBool (py_lower s = ''true'')
      | Some v \<Rightarrow> v)"

definition is_allowed_now :: "int \<Rightarrow> schedule \<Rightarrow> pyval res" where
  "is_allowed_now now sch =
     (if is_weekday (date_of now) then
        let start = sch_get sch ''weekday_start''; fin = sch_get sch ''weekday_end'' in
        if \<not> py_bool start \<or> \<not> py_bool fin then Inr (PBool True)
        else
          let current_time = time_of now in
          rbind (strptime_hm start) (\<lambda>start_time.
          rmap (\<lambda>end_time. PBool
              (if start_time \<le> end_time then start_time \<le> current_time \<and> current_time \<le> end_time
               else current_time \<ge> start_time \<or> current_time \<le> end_time))
            (strptime_hm fin))
      else Inr (weekend_allowed sch))"

definition or_else :: "pyval \<Rightarrow> string \<Rightarrow> pyval" where
  "or_else v dflt = (if py_bool v then v else PStr dflt)"

fun first_change :: "schedule \<Rightarrow> pyval \<Rightarrow> int list \<Rightarrow> int option res" where
  "first_change sch current_state [] = Inr None"
| "first_change sch current_state (candidate # cs) =
     rbind (is_allowed_now (candidate + SECOND) sch) (\<lambda>future_state.
       if \<not> pv_eq future_state current_state then Inr (Some candidate) else first_change sch current_state cs)"

definition candidates :: "int \<Rightarrow> int \<Rightarrow> int \<Rightarrow> int list" where
  "candidates now start_time end_time =
     filter (\<lambda>c. c > now) (map (combine (date_of now)) [start_time, end_time])
     @ concat (map (\<lambda>days_ahead. map (combine (date_of now + days_ahead)) [start_time, end_time]) [1..7])"

definition calculate_next_transition :: "int \<Rightarrow> schedule \<Rightarrow> pyval \<Rightarrow> int res" where
  "calculate_next_transition now sch current_state =
     rbind (strptime_hm (or_else (sch_get sch ''weekday_start'') ''18:00'')) (\<lambda>start_time.
     rbind (strptime_hm (or_else (sch_get sch ''weekday_end'') ''08:00'')) (\<lambda>end_time.
     rmap (\<lambda>found. case found of Some c \<Rightarrow> c | None \<Rightarrow> now + DAY)
       (first_change sch current_state (sort (candidates now start_time end_time)))))"

section \<open>Timers\<close>

record timer =
  tm_id :: nat
  tm_action :: string
  tm_fire_time :: int
  tm_finished :: bool

record worker_state =
  ws_state :: string
  ws_next_action :: string
  ws_next_transition :: int

record scheduler =
  sc_timers :: "(string, timer) dict"
  sc_states :: "(string, worker_state) dict"
  sc_created :: nat
  sc_calls :: "(string \<times> string \<times> string) list"

definition new_scheduler :: scheduler where
  "new_scheduler = \<lparr>sc_timers = [], sc_states = [], sc_created = 0, sc_calls = []\<rparr>"

text \<open>
  \<open>_arm_timer_for_worker\<close>: the clock is read once for the schedule and once more, as \<open>now'\<close>, when
  the timer object is made. The timer it replaces is cancelled, and gone with its entry.
\<close>

definition arm_timer :: "int \<Rightarrow> int \<Rightarrow> string \<Rightarrow> schedule \<Rightarrow> (scheduler, unit) act" where
  "arm_timer now now' hostname sch =
     sbind (slift (is_allowed_now now sch)) (\<lambda>current_state.
     sbind (slift (calculate_next_transition now sch current_state)) (\<lambda>next_transition.
     let next_action = (if py_bool current_state then ''STOP'' else ''START'') in
     supd (\<lambda>s. s\<lparr>sc_timers := dset (sc_timers s) hostname
                    \<lparr>tm_id = sc_created s, tm_action = next_action,
                     tm_fire_time = now' + (next_transition - now), tm_finished = False\<rparr>,
                 sc_states := dset (sc_states s) hostname
                    \<lparr>ws_state = (if py_bool current_state then ''ALLOWED'' else ''BLOCKED''),
                     ws_next_action = next_action, ws_next_transition = next_transition\<rparr>,
                 sc_created := sc_created s + 1\<rparr>)))"

definition merge_default :: "(string, string) dict \<Rightarrow> string \<Rightarrow> schedule \<Rightarrow> schedule" where
  "merge_default defaults key sch =
     (if py_bool (sch_get sch key) then sch
      else dset sch key (case dget defaults key of None \<Rightarrow> PNone | Some v \<Rightarrow> PStr v))"

definition merged_schedule :: "workers_db \<Rightarrow> (string, string) dict \<Rightarrow> schedule" where
  "merged_schedule db sch =
     (let defaults = (case get_default_schedule db of None \<Rightarrow> [] | Some d \<Rightarrow> d) in
      fold (merge_default defaults) [''weekday_start'', ''weekday_end'', ''weekend_allowed'']
        (map (\<lambda>(k, v). (k, PStr v)) sch))"

text \<open>\<open>clock\<close> gives the two readings for each host.\<close>

definition arm_all_scheduled_workers :: "workers_db \<Rightarrow> (string \<Rightarrow> int \<times> int) \<Rightarrow> (scheduler, nat) act" where
  "arm_all_scheduled_workers db clock =
     (let tuner_hosts = get_tuner_hostnames db;
          workers = filter (\<lambda>(h, _). h \<in> set tuner_hosts) (get_scheduled_workers db) in
      sbind (sfor workers (\<lambda>(hostname, schedule).
          let sch = merged_schedule db schedule in
          if \<not> py_bool (sch_get sch ''weekday_start'') \<or> \<not> py_bool (sch_get sch ''weekday_end'') then sret ()
          else arm_timer (fst (clock hostname)) (snd (clock hostname)) hostname sch))
        (\<lambda>_. sget (\<lambda>s. length (sc_timers s))))"

definition wkctl :: "workers_db \<Rightarrow> string \<Rightarrow> string \<Rightarrow> (scheduler, unit) act" where
  "wkctl db action hostname = supd (\<lambda>s. s\<lparr>sc_calls := sc_calls s @ [(action, hostname, get_tuning_mode db)]\<rparr>)"

definition execute_transition :: "workers_db \<Rightarrow> int \<times> int \<Rightarrow> string \<Rightarrow> string \<Rightarrow> (scheduler, unit) act" where
  "execute_transition db clock hostname action =
     sbind (if action = ''STOP'' then wkctl db ''graceful'' hostname
            else if action = ''START'' then wkctl db ''start'' hostname else sret ()) (\<lambda>_.
       (case get_worker_schedule hostname db of
          None \<Rightarrow> sret ()
        | Some schedule \<Rightarrow> arm_timer (fst clock) (snd clock) hostname (merged_schedule db schedule)))"

text \<open>
  The thread of a timer: it calls the function unless it was cancelled, and is finished then, also
  after an exception. Its entry is another timer's if the function has armed a new one.
\<close>

definition timer_fires :: "workers_db \<Rightarrow> int \<times> int \<Rightarrow> string \<Rightarrow> scheduler \<Rightarrow> scheduler" where
  "timer_fires db clock hostname s =
     (case dget (sc_timers s) hostname of
        None \<Rightarrow> s
      | Some tm \<Rightarrow>
          if tm_finished tm then s
          else
            let s' = fst (execute_transition db clock hostname (tm_action tm) s) in
            (case dget (sc_timers s') hostname of
               Some tm' \<Rightarrow> if tm_id tm' = tm_id tm
                           then s'\<lparr>sc_timers := dset (sc_timers s') hostname (tm'\<lparr>tm_finished := True\<rparr>)\<rparr> else s'
             | None \<Rightarrow> s'))"

definition get_scheduler_status :: "int \<Rightarrow> scheduler \<Rightarrow> (string \<times> string \<times> string \<times> int \<times> int \<times> bool) list" where
  "get_scheduler_status now s =
     map (\<lambda>(hostname, tm).
       (hostname, (case dget (sc_states s) hostname of None \<Rightarrow> ''UNKNOWN'' | Some st \<Rightarrow> ws_state st), tm_action tm,
        tm_fire_time tm, (if tm_finished tm then 0 else max 0 (tm_fire_time tm - now)), \<not> tm_finished tm))
       (sc_timers s)"

definition cancel_all_timers :: "scheduler \<Rightarrow> scheduler" where
  "cancel_all_timers s = s\<lparr>sc_timers := [], sc_states := []\<rparr>"

section \<open>The next transition\<close>

lemma time_units: "MINUTE = 60000000" "DAY = 86400000000" "SECOND = 1000000"
  by (simp_all add: MINUTE_def DAY_def SECOND_def)

lemma strptime_bounds:
  assumes "strptime_hm v = Inr x" shows "0 \<le> x" "x + MINUTE \<le> DAY" "MINUTE dvd x"
proof -
  obtain h m where "two_digits 24 h" "two_digits 60 m" and x: "x = int (60 * digits_val 0 h + digits_val 0 m) * MINUTE"
    using assms by (auto simp: strptime_hm_def split: pyval.splits list.splits if_splits)
  then have "60 * digits_val 0 h + digits_val 0 m \<le> 1439" by (simp add: two_digits_def)
  then have "int (60 * digits_val 0 h + digits_val 0 m) \<le> 1439" by linarith
  then show "0 \<le> x" "x + MINUTE \<le> DAY" by (simp_all add: x time_units)
  show "MINUTE dvd x" by (simp add: x)
qed

text \<open>The state at an instant: office hours \<open>s\<close> to \<open>e\<close> on weekdays, \<open>w\<close> at weekends.\<close>

definition allowed_at :: "int \<Rightarrow> int \<Rightarrow> bool \<Rightarrow> int \<Rightarrow> bool" where
  "allowed_at s e w t \<longleftrightarrow>
     (if is_weekday (date_of t) then
        if s \<le> e then s \<le> time_of t \<and> time_of t \<le> e else time_of t \<ge> s \<or> time_of t \<le> e
      else w)"

lemma is_allowed_now_eq:
  assumes "strptime_hm (sch_get sch ''weekday_start'') = Inr s" "strptime_hm (sch_get sch ''weekday_end'') = Inr e"
    and "weekend_allowed sch = PBool w"
  shows "is_allowed_now t sch = Inr (PBool (allowed_at s e w t))"
proof -
  have "py_bool v" if "strptime_hm v = Inr x" for v x
    using that by (cases v) (auto simp: strptime_hm_def split: list.splits if_splits)
  then show ?thesis using assms by (simp add: is_allowed_now_def allowed_at_def Let_def)
qed

text \<open>The least candidate after which the state differs.\<close>

lemma find_least:
  fixes xs :: "int list"
  assumes "x \<in> set xs" "P x" "\<And>y. y \<in> set xs \<Longrightarrow> P y \<Longrightarrow> x \<le> y"
  shows "find P (sort xs) = Some x"
proof -
  have "find P ys = Some x" if "sorted ys" "set ys = set xs" for ys
    using that assms
  proof (induction ys arbitrary: xs)
    case (Cons y ys)
    show ?case
    proof (cases "P y")
      case True
      then have "x \<le> y" "y \<in> set xs" using Cons.prems by auto
      moreover have "y \<le> x" using Cons.prems(1-3) by auto
      ultimately show ?thesis using True by simp
    next
      case False
      then have "x \<in> set ys" using Cons.prems(2-4) by auto
      then show ?thesis using False Cons.IH [of ys] Cons.prems by auto
    qed
  qed simp
  then show ?thesis by simp
qed

lemma first_change_find:
  assumes "\<And>t. is_allowed_now t sch = Inr (PBool (A t))"
  shows "first_change sch (PBool b) cs = Inr (find (\<lambda>c. A (c + SECOND) \<noteq> b) cs)"
  by (induction cs) (auto simp: assms pv_eq_def)

lemma calculate_is:
  assumes s: "strptime_hm (sch_get sch ''weekday_start'') = Inr s" and e: "strptime_hm (sch_get sch ''weekday_end'') = Inr e"
    and w: "weekend_allowed sch = PBool w"
    and nx: "nx \<in> set (candidates now s e)" "now < nx"
    and between: "\<And>t. now \<le> t \<Longrightarrow> t < nx \<Longrightarrow> allowed_at s e w t = b"
    and after: "\<And>t. nx < t \<Longrightarrow> t < nx + MINUTE \<Longrightarrow> allowed_at s e w t \<noteq> b"
  shows "calculate_next_transition now sch (PBool b) = Inr nx"
proof -
  have truthy: "py_bool v" if "strptime_hm v = Inr x" for v x
    using that by (cases v) (auto simp: strptime_hm_def split: list.splits if_splits)
  note bs = strptime_bounds [OF s] and be = strptime_bounds [OF e]
  have minute: "MINUTE dvd c \<and> now < c" if "c \<in> set (candidates now s e)" for c
  proof -
    have comb: "MINUTE dvd combine d s" "MINUTE dvd combine d e" for d
      using bs(3) be(3) by (auto simp: combine_def DAY_def intro: dvd_add dvd_mult)
    have later: "now < combine (date_of now + k) x" if "1 \<le> k" "0 \<le> x" for k x
    proof -
      have "now < (date_of now + 1) * DAY" by (simp add: date_of_def time_units(2))
      also have "\<dots> \<le> (date_of now + k) * DAY" using that time_units by (intro mult_right_mono) auto
      also have "\<dots> \<le> combine (date_of now + k) x" using that by (simp add: combine_def)
      finally show ?thesis .
    qed
    show ?thesis using that comb later bs(1) be(1) by (auto simp: candidates_def split: if_splits)
  qed
  have "find (\<lambda>c. allowed_at s e w (c + SECOND) \<noteq> b) (sort (candidates now s e)) = Some nx"
  proof (rule find_least [OF nx(1)])
    show "allowed_at s e w (nx + SECOND) \<noteq> b" using after by (simp add: time_units)
    fix c assume c: "c \<in> set (candidates now s e)" "allowed_at s e w (c + SECOND) \<noteq> b"
    show "nx \<le> c"
    proof (rule ccontr)
      assume "\<not> nx \<le> c"
      then have "MINUTE \<le> nx - c" using minute [OF c(1)] minute [OF nx(1)] by (intro zdvd_imp_le) auto
      then have "allowed_at s e w (c + SECOND) = b" using between [of "c + SECOND"] minute [OF c(1)] by (simp add: time_units)
      then show False using c(2) by simp
    qed
  qed
  then show ?thesis
    using s e truthy first_change_find [of sch "allowed_at s e w", OF is_allowed_now_eq [OF s e w]]
    by (simp add: calculate_next_transition_def or_else_def)
qed

lemma date_time: "date_of t * DAY + time_of t = t" "0 \<le> time_of t" "time_of t < DAY"
  by (simp_all add: date_of_def time_of_def time_units(2))

lemma date_timeI: "0 \<le> r \<Longrightarrow> r < DAY \<Longrightarrow> t = d * DAY + r \<Longrightarrow> date_of t = d \<and> time_of t = r"
  by (simp add: date_of_def time_of_def time_units(2))

lemma in_day:
  assumes "d * DAY + x \<le> t" "t < d * DAY + y" "0 \<le> x" "y \<le> DAY"
  shows "date_of t = d \<and> x \<le> time_of t \<and> time_of t < y"
proof -
  have "date_of t = d \<and> time_of t = t - d * DAY" using assms by (intro date_timeI) auto
  then show ?thesis using assms by simp
qed

definition inside :: "int \<Rightarrow> int \<Rightarrow> int \<Rightarrow> bool" where
  "inside s e t \<longleftrightarrow>
     is_weekday (date_of t) \<and> (if s \<le> e then s \<le> time_of t \<and> time_of t \<le> e else e < time_of t \<and> time_of t < s)"

lemma allowed_at_inside: "s \<noteq> e \<Longrightarrow> allowed_at s e (e < s) t \<longleftrightarrow> inside s e t = (s \<le> e)"
  by (auto simp: allowed_at_def inside_def)

lemma next_weekday:
  "\<exists>k. 1 \<le> k \<and> k \<le> 3 \<and> is_weekday (d + k) \<and> (\<forall>j. 1 \<le> j \<and> j < k \<longrightarrow> \<not> is_weekday (d + j))"
proof -
  have only: "\<forall>j. 1 \<le> j \<and> j < k \<longrightarrow> \<not> is_weekday (d + j)"
    if "\<And>j. j \<in> {1..k - 1} \<Longrightarrow> \<not> is_weekday (d + j)" for k using that by simp
  have "is_weekday (d + 1) \<or> is_weekday (d + 2) \<or> is_weekday (d + 3)" unfolding is_weekday_def by presburger
  then consider "is_weekday (d + 1)" | "\<not> is_weekday (d + 1)" "is_weekday (d + 2)"
    | "\<not> is_weekday (d + 1)" "\<not> is_weekday (d + 2)" "is_weekday (d + 3)" by blast
  then show ?thesis
  proof cases
    case 1
    then show ?thesis by (intro exI [of _ 1]) auto
  next
    case 2
    have "{1..2 - 1} = {1 :: int}" by auto
    then show ?thesis using 2 only [of 2] by (intro exI [of _ 2]) simp
  next
    case 3
    have "{1..3 - 1} = {1, 2 :: int}" by auto
    then show ?thesis using 3 only [of 3] by (intro exI [of _ 3]) auto
  qed
qed

text \<open>Where the state changes next: at the end of today's window, at its start, or at a later start.\<close>

lemma next_change:
  assumes bs: "0 \<le> s" "s + MINUTE \<le> DAY" "MINUTE dvd s" and be: "0 \<le> e" "e + MINUTE \<le> DAY" "MINUTE dvd e"
    and ne: "s \<noteq> e" "time_of now \<noteq> e"
  shows "\<exists>nx. nx \<in> set (candidates now s e) \<and> now < nx
           \<and> (\<forall>t. now \<le> t \<and> t < nx \<longrightarrow> inside s e t = inside s e now)
           \<and> (\<forall>t. nx < t \<and> t < nx + MINUTE \<longrightarrow> inside s e t \<noteq> inside s e now)"
proof -
  define lo hi where "lo = min s e" and "hi = max s e"
  let ?D = "date_of now" and ?r = "time_of now"
  have "MINUTE dvd hi - lo" "0 < hi - lo" using bs(3) be(3) ne(1) by (auto simp: lo_def hi_def min_def max_def)
  then have gap: "lo + MINUTE \<le> hi" using zdvd_imp_le [of MINUTE "hi - lo"] by simp
  have bounds: "0 \<le> lo" "lo + MINUTE \<le> DAY" "0 \<le> hi" "hi + MINUTE \<le> DAY" "0 < MINUTE"
    using bs be by (auto simp: lo_def hi_def time_units(1))
  have win: "inside s e t" if "is_weekday (date_of t)" "lo < time_of t" "time_of t < hi" for t
    using that by (auto simp: inside_def lo_def hi_def split: if_splits)
  have out: "\<not> inside s e t" if "\<not> is_weekday (date_of t) \<or> time_of t < lo \<or> hi < time_of t" for t
    using that by (auto simp: inside_def lo_def hi_def split: if_splits)
  have at_edge: "inside s e t \<longleftrightarrow> s \<le> e" if "is_weekday (date_of t)" "time_of t = lo \<or> time_of t = hi" for t
    using that ne(1) by (auto simp: inside_def lo_def hi_def split: if_splits)
  have lo_e: "\<not> s \<le> e \<Longrightarrow> lo = e" by (simp add: lo_def)
  have now: "?D * DAY + ?r = now" "0 \<le> ?r" "?r < DAY"
    using date_time [of now] by simp_all
  have cands: "x \<in> {lo, hi} \<Longrightarrow> x \<in> {s, e}" for x by (auto simp: lo_def hi_def min_def max_def split: if_splits)
  have today: "?D * DAY + x \<in> set (candidates now s e)" if "x \<in> {lo, hi}" "?r < x" for x
    using cands [OF that(1)] that(2) now by (auto simp: candidates_def combine_def)
  have later: "(?D + k) * DAY + x \<in> set (candidates now s e)" if "x \<in> {lo, hi}" "1 \<le> k" "k \<le> 7" for x k
    using cands [OF that(1)] that(2,3) by (force simp: candidates_def combine_def)
  consider (inside) "inside s e now" | (before) "\<not> inside s e now" "is_weekday ?D" "?r < lo"
    | (after) "\<not> inside s e now" "\<not> (is_weekday ?D \<and> ?r < lo)" by blast
  then show ?thesis
  proof cases
    case inside
    then have r: "is_weekday ?D" "lo \<le> ?r" "?r < hi" "?r = lo \<longrightarrow> s \<le> e"
      using ne by (auto simp: inside_def lo_def hi_def split: if_splits)
    let ?nx = "?D * DAY + hi"
    have "inside s e t" if "now \<le> t" "t < ?nx" for t
    proof -
      have "date_of t = ?D \<and> ?r \<le> time_of t \<and> time_of t < hi" using in_day [of ?D ?r t hi] that now bounds by simp
      then show ?thesis using r win [of t] at_edge [of t] by (cases "time_of t = lo") simp_all
    qed
    moreover have "\<not> inside s e t" if "?nx < t" "t < ?nx + MINUTE" for t
      using in_day [of ?D "hi + 1" t "hi + MINUTE"] that bounds by (intro out) auto
    ultimately show ?thesis using today [of hi] r now(1) inside by (intro exI [of _ ?nx]) auto
  next
    case before
    let ?nx = "?D * DAY + lo"
    have "\<not> inside s e t" if "now \<le> t" "t < ?nx" for t
      using in_day [of ?D ?r t lo] that now bounds by (intro out) auto
    moreover have "inside s e t" if "?nx < t" "t < ?nx + MINUTE" for t
      using in_day [of ?D "lo + 1" t "lo + MINUTE"] that bounds gap before by (intro win) auto
    ultimately show ?thesis using today [of lo] before now(1) by (intro exI [of _ ?nx]) auto
  next
    case after
    obtain k where k: "1 \<le> k" "k \<le> 3" "is_weekday (?D + k)" "\<And>j. 1 \<le> j \<Longrightarrow> j < k \<Longrightarrow> \<not> is_weekday (?D + j)"
      using next_weekday [of ?D] by blast
    let ?nx = "(?D + k) * DAY + lo"
    have r: "is_weekday ?D \<Longrightarrow> hi \<le> ?r" and rhi: "is_weekday ?D \<Longrightarrow> ?r = hi \<Longrightarrow> e < s"
      using after ne(2) win [of now] at_edge [of now] lo_e by (smt (verit))+
    have "now < (?D + 1) * DAY" using now by (simp add: distrib_right)
    also have "(?D + 1) * DAY \<le> (?D + k) * DAY"
      using k(1) by (intro mult_right_mono) (simp_all add: time_units(2))
    also have "\<dots> \<le> ?nx" using bounds(1) by simp
    finally have "now < ?nx" .
    moreover have "\<not> inside s e t" if t: "now \<le> t" "t < ?nx" for t
    proof -
      have dt: "date_of t * DAY + time_of t = t" "0 \<le> time_of t" "time_of t < DAY" by (rule date_time)+
      have lower: "?D \<le> date_of t" and upper: "date_of t \<le> ?D + k"
        using t bounds by (auto simp: date_of_def time_units(2))
      consider "date_of t = ?D" | "date_of t = ?D + k" | "?D < date_of t" "date_of t < ?D + k" using lower upper by linarith
      then show ?thesis
      proof cases
        case 1
        then have "?r \<le> time_of t" using t(1) dt(1) now(1) by simp
        then show ?thesis using r rhi 1 out [of t] at_edge [of t]
          by (cases "is_weekday ?D"; cases "time_of t = hi") simp_all
      next
        case 2
        then have "time_of t < lo" using t(2) dt(1) by simp
        then show ?thesis by (intro out) simp
      next
        case 3
        then show ?thesis using k(4) [of "date_of t - ?D"] by (intro out) simp
      qed
    qed
    moreover have "inside s e t" if "?nx < t" "t < ?nx + MINUTE" for t
      using in_day [of "?D + k" "lo + 1" t "lo + MINUTE"] that bounds gap k(3) by (intro win) auto
    ultimately show ?thesis using later [of lo k] k after(1) by (intro exI [of _ ?nx]) auto
  qed
qed


text \<open>
  C39: the next transition is the right one when the rules of weekdays and weekends meet at
  midnight without a change: a window over midnight with weekends allowed, or one within the day
  with weekends not allowed. Then the instant computed lies ahead, the state of the host does not
  change before it, and for a minute after it the state is the other one, which is what the action
  of the timer assumes. (Not at the very microsecond at which the window closes.)
\<close>

theorem next_transition_correct:
  assumes "strptime_hm (sch_get sch ''weekday_start'') = Inr s" "strptime_hm (sch_get sch ''weekday_end'') = Inr e"
    and "weekend_allowed sch = PBool (e < s)" and "s \<noteq> e" "time_of now \<noteq> e"
  shows "\<exists>b nx. is_allowed_now now sch = Inr (PBool b) \<and> calculate_next_transition now sch (PBool b) = Inr nx
           \<and> now < nx
           \<and> (\<forall>t. now \<le> t \<and> t < nx \<longrightarrow> is_allowed_now t sch = Inr (PBool b))
           \<and> (\<forall>t. nx < t \<and> t < nx + MINUTE \<longrightarrow> is_allowed_now t sch = Inr (PBool (\<not> b)))"
proof -
  have ins: "allowed_at s e (e < s) t \<longleftrightarrow> inside s e t = (s \<le> e)" for t by (rule allowed_at_inside [OF assms(4)])
  have eq: "is_allowed_now t sch = Inr (PBool (inside s e t = (s \<le> e)))" for t
    unfolding is_allowed_now_eq [OF assms(1-3)] ins ..
  obtain nx where nx: "nx \<in> set (candidates now s e)" "now < nx"
    and between: "\<forall>t. now \<le> t \<and> t < nx \<longrightarrow> inside s e t = inside s e now"
    and after: "\<forall>t. nx < t \<and> t < nx + MINUTE \<longrightarrow> inside s e t \<noteq> inside s e now"
    using next_change [OF strptime_bounds [OF assms(1)] strptime_bounds [OF assms(2)] assms(4,5)] by blast
  have same: "inside s e t = inside s e now" if "now \<le> t" "t < nx" for t using between that by blast
  have other: "inside s e t \<longleftrightarrow> \<not> inside s e now" if "nx < t" "t < nx + MINUTE" for t using after that by blast
  have "calculate_next_transition now sch (PBool (inside s e now = (s \<le> e))) = Inr nx"
  proof (rule calculate_is [OF assms(1-3) nx])
    show "allowed_at s e (e < s) t = (inside s e now = (s \<le> e))" if "now \<le> t" "t < nx" for t
      unfolding ins same [OF that] ..
    show "allowed_at s e (e < s) t \<noteq> (inside s e now = (s \<le> e))" if "nx < t" "t < nx + MINUTE" for t
      unfolding ins other [OF that] by blast
  qed
  moreover have "is_allowed_now t sch = Inr (PBool (inside s e now = (s \<le> e)))" if "now \<le> t \<and> t < nx" for t
    unfolding eq same [OF conjunct1 [OF that] conjunct2 [OF that]] ..
  moreover have "is_allowed_now t sch = Inr (PBool (\<not> (inside s e now = (s \<le> e))))" if "nx < t \<and> t < nx + MINUTE" for t
    unfolding eq other [OF conjunct1 [OF that] conjunct2 [OF that]] by (cases "inside s e now"; cases "s \<le> e") simp_all
  ultimately show ?thesis using nx(2) eq [of now]
    by (intro exI [of _ "inside s e now = (s \<le> e)"] exI [of _ nx] conjI allI impI)
qed

text \<open>Friday noon: blocked until 18:00, then allowed over the weekend.\<close>

definition ex_hours :: "string \<Rightarrow> string \<Rightarrow> pyval \<Rightarrow> schedule" where
  "ex_hours start fin weekend =
     [(''weekday_start'', PStr start), (''weekday_end'', PStr fin), (''weekend_allowed'', weekend)]"

definition at_hour :: "int \<Rightarrow> int \<Rightarrow> int" where
  "at_hour date hour = combine date (60 * hour * MINUTE)"

theorem next_transition_correct_witness:
  "calculate_next_transition (at_hour 4 12) (ex_hours ''18:00'' ''08:00'' (PStr ''true'')) (PBool False) = Inr (at_hour 4 18)
   \<and> is_allowed_now (at_hour 4 18 + SECOND) (ex_hours ''18:00'' ''08:00'' (PStr ''true'')) = Inr (PBool True)"
proof -
  let ?sch = "ex_hours ''18:00'' ''08:00'' (PStr ''true'')"
  have "strptime_hm (sch_get ?sch ''weekday_start'') = Inr (1080 * MINUTE)"
    "strptime_hm (sch_get ?sch ''weekday_end'') = Inr (480 * MINUTE)"
    "weekend_allowed ?sch = PBool True" "time_of (at_hour 4 12) = 720 * MINUTE"
    "calculate_next_transition (at_hour 4 12) ?sch (PBool False) = Inr (at_hour 4 18)"
    "is_allowed_now (at_hour 4 12) ?sch = Inr (PBool False)"
    by code_simp+
  with next_transition_correct [of ?sch "1080 * MINUTE" "480 * MINUTE" "at_hour 4 12"]
  show ?thesis by (auto simp: time_units)
qed

text \<open>
  Otherwise midnight is missed. A window over midnight and no weekends: on a Friday evening the
  worker is told to stop at 8:00 on Saturday, although it is not allowed from midnight on.
\<close>

lemma late_stop:
  "let sch = ex_hours ''18:00'' ''08:00'' (PStr ''false'') in
   is_allowed_now (at_hour 4 20) sch = Inr (PBool True) \<and> is_allowed_now (at_hour 5 0) sch = Inr (PBool False)
   \<and> calculate_next_transition (at_hour 4 20) sch (PBool True) = Inr (at_hour 5 8)"
  by code_simp

text \<open>
  A weekend rule that is missing in the schedule and in the defaults is stored as None, which
  differs from False: the worker is started on Saturday although it stays blocked.
\<close>

lemma start_while_blocked:
  "let sch = ex_hours ''08:00'' ''18:00'' PNone in
   is_allowed_now (at_hour 4 20) sch = Inr (PBool False)
   \<and> calculate_next_transition (at_hour 4 20) sch (PBool False) = Inr (at_hour 5 8)
   \<and> is_allowed_now (at_hour 5 8) sch = Inr PNone \<and> \<not> py_bool PNone"
  by code_simp

section \<open>The state of the scheduler\<close>

inductive sched_reachable :: "scheduler \<Rightarrow> bool" where
  new: "sched_reachable new_scheduler"
| arm_all: "sched_reachable s \<Longrightarrow> sched_reachable (fst (arm_all_scheduled_workers db clock s))"
| fires: "sched_reachable s \<Longrightarrow> sched_reachable (timer_fires db now hostname s)"
| cancel: "sched_reachable s \<Longrightarrow> sched_reachable (cancel_all_timers s)"

text \<open>Timers and states belong together, and a timer stops exactly the workers that are allowed.\<close>

definition timer_matches :: "timer \<Rightarrow> worker_state \<Rightarrow> bool" where
  "timer_matches tm st \<longleftrightarrow>
     tm_action tm = ws_next_action st
     \<and> (ws_state st, tm_action tm) \<in> {(''ALLOWED'', ''STOP''), (''BLOCKED'', ''START'')}"

definition entries_match :: "('a \<Rightarrow> 'b \<Rightarrow> bool) \<Rightarrow> (string, 'a) dict \<Rightarrow> (string, 'b) dict \<Rightarrow> bool" where
  "entries_match R = list_all2 (\<lambda>x y. fst x = fst y \<and> R (snd x) (snd y))"

definition sched_ok :: "scheduler \<Rightarrow> bool" where
  "sched_ok s \<longleftrightarrow> entries_match timer_matches (sc_timers s) (sc_states s) \<and> distinct (dkeys (sc_timers s))"

lemma entries_match_dset:
  assumes "entries_match R d e" "R a b" shows "entries_match R (dset d k a) (dset e k b)"
  using assms unfolding entries_match_def by (induction d e rule: list_all2_induct) auto

lemma entries_match_finished:
  assumes "entries_match R d e" "dget d k = Some a" "\<And>b. R a b \<Longrightarrow> R a' b"
  shows "entries_match R (dset d k a') e"
  using assms unfolding entries_match_def by (induction d e rule: list_all2_induct) (auto split: if_splits)

lemma distinct_dkeys_dset: "distinct (dkeys d) \<Longrightarrow> distinct (dkeys (dset d k v))"
  using distinct_dset [of d k v] by (simp add: dkeys_def)

lemma preserves_bind: "preserves I m \<Longrightarrow> (\<And>x. preserves I (f x)) \<Longrightarrow> preserves I (sbind m f)"
  by (rule yields_sbind)

lemmas preserves_intros =
  preserves_bind preserves_sfor preserves_supd preserves_of_yields [OF yields_slift] preserves_of_yields [OF yields_sget]
  yields_sret [where Q = "\<lambda>_. True", OF TrueI]

lemma sched_ok_arm: "preserves sched_ok (arm_timer now now' hostname sch)"
  unfolding arm_timer_def Let_def
  by (intro preserves_intros)
    (auto simp: sched_ok_def timer_matches_def intro!: entries_match_dset distinct_dkeys_dset)

lemma sched_ok_arm_all: "preserves sched_ok (arm_all_scheduled_workers db clock)"
  unfolding arm_all_scheduled_workers_def Let_def case_prod_unfold
  by (intro preserves_bind preserves_sfor preserves_of_yields [OF yields_sget])
    (simp add: sched_ok_arm preserves_intros(6))

lemma sched_ok_wkctl: "preserves sched_ok (wkctl db action hostname)"
  unfolding wkctl_def by (intro preserves_supd) (simp add: sched_ok_def)

lemma sched_ok_execute: "preserves sched_ok (execute_transition db clock hostname action)"
  unfolding execute_transition_def
  by (intro preserves_bind) (simp_all add: sched_ok_wkctl sched_ok_arm preserves_intros(6) split: option.split)

lemma sched_ok_reachable: "sched_reachable s \<Longrightarrow> sched_ok s"
proof (induction rule: sched_reachable.induct)
  case (arm_all s db clock)
  then show ?case using yieldsD [OF sched_ok_arm_all] by (metis prod.collapse)
next
  case (fires s db now hostname)
  have ex: "sched_ok (fst (execute_transition db now hostname a s))" for a
    using yieldsD [OF sched_ok_execute fires.IH] by (metis prod.collapse)
  show ?case
  proof (cases "dget (sc_timers s) hostname")
    case (Some tm)
    let ?s' = "fst (execute_transition db now hostname (tm_action tm) s)"
    have "sched_ok (?s'\<lparr>sc_timers := dset (sc_timers ?s') hostname (tm'\<lparr>tm_finished := True\<rparr>)\<rparr>)"
      if "dget (sc_timers ?s') hostname = Some tm'" for tm'
      using ex [of "tm_action tm"] that
      by (auto simp: sched_ok_def timer_matches_def intro!: entries_match_finished [where a = tm'] distinct_dkeys_dset)
    then show ?thesis using Some fires.IH ex by (auto simp: timer_fires_def Let_def split: option.split)
  qed (simp add: timer_fires_def fires.IH)
qed (simp_all add: sched_ok_def entries_match_def new_scheduler_def cancel_all_timers_def dkeys_def)

text \<open>A schedule that is switched off again keeps its timer, which arms the next one when it fires.\<close>

definition ex_host_db :: "string \<Rightarrow> workers_db" where
  "ex_host_db enabled =
     fst (save_worker_schedule ''gpu-a'' [(''enabled'', PStr enabled), (''weekday_start'', PStr ''18:00''),
         (''weekday_end'', PStr ''08:00''), (''weekend_allowed'', PStr ''true'')]
       (set_worker_role ''gpu-a'' ''Tuner'' True init_workers_db))"

lemma disabled_schedule_keeps_timer:
  "let clock = (\<lambda>_. (at_hour 4 12, at_hour 4 12));
       s = fst (arm_all_scheduled_workers (ex_host_db ''true'') clock new_scheduler);
       off = ex_host_db ''false'';
       s' = fst (arm_all_scheduled_workers off clock s);
       s'' = timer_fires off (at_hour 4 18 + SECOND, at_hour 4 18 + SECOND) ''gpu-a'' s' in
   get_scheduled_workers off = [] \<and> sc_calls s'' = [(''start'', ''gpu-a'', ''kernel'')]
   \<and> map_option tm_action (dget (sc_timers s'') ''gpu-a'') = Some ''STOP''"
  by code_simp

end
