(* ===== verification/TuneDispatch.thy ===== *)
theory TuneDispatch
  imports FlashRules TaskQueue WorkersDb
begin

text \<open>
  From the tuning modules to the task queue: the entries a module describes
  (\<open>v3python/tune/tdesc.py\<close>, \<open>flash/module.py\<close>, \<open>flash_op/module.py\<close>) and \<open>dispatch_tasks.py\<close>,
  which filters them, drops what the hardware does not support or what is done, and inserts the
  rest. An entry is the dictionary of its fields (\<open>asdict\<close>), the choices of a module are the lists
  of values per field. The parser of the command line gives the arguments; printing is left out.
\<close>

section \<open>Tuning modules\<close>

type_synonym entry = "(string, pyobj) dict"
type_synonym choices = "(string \<times> pyobj list) list"

text \<open>\<open>entry.k\<close>.\<close>

definition field :: "entry \<Rightarrow> string \<Rightarrow> pyobj res" where
  "field e k = of_option AttributeError (dget e k)"

text \<open>\<open>v > n\<close> for a value of an entry.\<close>

definition obj_gt :: "pyobj \<Rightarrow> int \<Rightarrow> bool res" where
  "obj_gt v n = rmap (\<lambda>i. i > n) (of_option TypeError (obj_num v))"

record tune_desc =
  td_choices :: choices
  td_validate_entry :: "entry \<Rightarrow> bool res"
  td_validate_hw :: "string \<Rightarrow> entry \<Rightarrow> (bool \<times> string) res"
  td_list_impls :: "entry \<Rightarrow> string list res"

definition flash_entry_choices :: choices where
  "flash_entry_choices =
     [(''dtype'', map OStr [''float16'', ''bfloat16'', ''float32'']),
      (''hdim'', map OInt [16, 32, 48, 64, 80, 96, 128, 160, 192, 224, 256, 512]),
      (''seqlen_q'', map OInt [16, 32, 64, 128, 256, 512, 1024, 2048, 4096, 8192]),
      (''seqlen_k'', map OInt [16, 32, 64, 128, 256, 512, 1024, 2048, 4096, 8192]),
      (''causal'', map OBool [False, True]),
      (''dropout_p'', map OFloat [''0.0'', ''0.5'']),
      (''bias_type'', map OInt [0, 1])]"

definition flash_validate_entry :: "entry \<Rightarrow> bool res" where
  "flash_validate_entry e =
     rbind (field e ''causal'') (\<lambda>causal.
       if \<not> obj_true causal then Inr True
       else rmap (\<lambda>bias_type. obj_eq bias_type (OInt 0)) (field e ''bias_type''))"

definition hdim_reason :: "string \<Rightarrow> pyobj \<Rightarrow> string" where
  "hdim_reason arch hdim =
     ''arch '' @ arch @ '' does not support hdim='' @ dumps hdim
     @ '' (gfx11xx maximum is 256; larger hdim exceeds LDS/register limits)''"

definition seqlen_reason :: "string \<Rightarrow> string" where
  "seqlen_reason arch =
     ''Insufficient number of gfx1100 GPUs available for tuning arch '' @ arch
     @ '': only seqlen_q/k <= 2048 entries are tuned''"

definition flash_validate_hw_feature :: "string \<Rightarrow> entry \<Rightarrow> (bool \<times> string) res" where
  "flash_validate_hw_feature arch e =
     (if \<not> startswith arch ''gfx11'' then Inr (True, [])
      else
        rbind (field e ''hdim'') (\<lambda>hdim.
        rbind (obj_gt hdim 256) (\<lambda>large.
        if large then Inr (False, hdim_reason arch hdim)
        else
          rbind (rbind (field e ''seqlen_q'') (\<lambda>q. obj_gt q 2048)) (\<lambda>long_q.
          rmap (\<lambda>long. if long then (False, seqlen_reason arch) else (True, []))
            (if long_q then Inr True else rbind (field e ''seqlen_k'') (\<lambda>k. obj_gt k 2048))))))"

definition flash_list_impls :: "entry \<Rightarrow> string list res" where
  "flash_list_impls e =
     rmap (\<lambda>large. if large then [''attn_fwd'', ''bwd_kernel_dk_dv'', ''bwd_kernel_dq'']
                   else [''attn_fwd'', ''bwd_kernel_dk_dv'', ''bwd_kernel_dq'', ''bwd_kernel_fuse''])
       (rbind (field e ''hdim'') (\<lambda>hdim. obj_gt hdim 224))"

definition flash_desc :: tune_desc where
  "flash_desc = \<lparr>td_choices = flash_entry_choices, td_validate_entry = flash_validate_entry,
                 td_validate_hw = flash_validate_hw_feature, td_list_impls = flash_list_impls\<rparr>"

definition op_list_impls :: "entry \<Rightarrow> string list res" where
  "op_list_impls e = Inr [''attn_fwd_op'', ''attn_bwd_op'']"

definition flash_op_desc :: tune_desc where
  "flash_op_desc = flash_desc\<lparr>td_list_impls := op_list_impls\<rparr>"

definition entries_of :: "choices \<Rightarrow> entry list" where
  "entries_of ch = map (zip (map fst ch)) (product_lists (map snd ch))"

text \<open>A filter whose predicate may raise.\<close>

fun rfilter :: "('a \<Rightarrow> bool res) \<Rightarrow> 'a list \<Rightarrow> 'a list res" where
  "rfilter p [] = Inr []"
| "rfilter p (x # xs) = rbind (p x) (\<lambda>b. rmap (\<lambda>ys. if b then x # ys else ys) (rfilter p xs))"

definition generate_entries_from_choices :: "tune_desc \<Rightarrow> choices \<Rightarrow> entry list res" where
  "generate_entries_from_choices td ch = rfilter (td_validate_entry td) (entries_of ch)"

definition generate_entries :: "tune_desc \<Rightarrow> entry list res" where
  "generate_entries td = generate_entries_from_choices td (td_choices td)"

section \<open>Filtering\<close>

fun norm_value :: "pyobj \<Rightarrow> pyobj" where
  "norm_value (OBool b) = OInt (if b then 1 else 0)"
| "norm_value v = v"

definition filter_values :: "pyobj list option \<Rightarrow> pyobj list \<Rightarrow> pyobj list" where
  "filter_values wanted all_values =
     (case wanted of
        None \<Rightarrow> all_values
      | Some ws \<Rightarrow> filter (\<lambda>v. list_ex (obj_eq (norm_value v)) (map norm_value ws)) all_values)"

text \<open>\<open>args\<close> gives the values asked for per field; a field with no value left ends it all.\<close>

definition generate_filtered_entries ::
  "tune_desc \<Rightarrow> (string \<Rightarrow> pyobj list option) \<Rightarrow> entry list res" where
  "generate_filtered_entries td args =
     (if list_ex (\<lambda>(f, vs). args f \<noteq> None \<and> filter_values (args f) vs = []) (td_choices td) then Inr []
      else generate_entries_from_choices td (map (\<lambda>(f, vs). (f, filter_values (args f) vs)) (td_choices td)))"

section \<open>Completed tasks\<close>

text \<open>\<open>make_hashable\<close>: the key of a task configuration; a list or a dictionary is not hashable.\<close>

type_synonym task_key = "pkey list"

definition make_hashable :: "string list \<Rightarrow> pyobj \<Rightarrow> task_key res" where
  "make_hashable names task_config =
     rbind (obj_get task_config ''arch'') (\<lambda>arch.
     rbind (obj_get task_config ''entry'') (\<lambda>entry_dict.
     rbind (rtraverse (obj_get entry_dict) names) (\<lambda>vs. rtraverse key_of (arch # vs))))"

definition is_dict :: "pyobj \<Rightarrow> bool" where
  "is_dict x = (case x of ODict _ \<Rightarrow> True | _ \<Rightarrow> False)"

definition get_completed_tasks :: "string \<Rightarrow> string list \<Rightarrow> tuner_db \<Rightarrow> task_key list res" where
  "get_completed_tasks module names db =
     rtraverse (make_hashable names)
       (filter is_dict (map t_config
         (filter (\<lambda>t. t_status t = ''completed'' \<and> t_module t = module) (task_rows db))))"

section \<open>Dispatching\<close>

record dispatch_args =
  da_arch :: "string list"
  da_filters :: "string \<Rightarrow> pyobj list option"
  da_skip_completed :: bool
  da_max_hsaco :: "int option"
  da_dry_run :: bool
  da_confirmed :: bool

definition task_config_of :: "string \<Rightarrow> int option \<Rightarrow> string \<Rightarrow> entry \<Rightarrow> pyobj" where
  "task_config_of module max_hsaco arch e =
     mk_dict ([(''arch'', OStr arch), (''module'', OStr module), (''entry'', mk_dict e)]
       @ (case max_hsaco of None \<Rightarrow> [] | Some n \<Rightarrow> [(''max_hsaco'', mk_dict [(''*'', OInt n)])]))"

definition task_config_gen ::
  "tune_desc \<Rightarrow> string \<Rightarrow> dispatch_args \<Rightarrow> entry list \<Rightarrow> (string \<times> pyobj) list res" where
  "task_config_gen td module args es =
     rmap (map (\<lambda>(e, arch). (arch, task_config_of module (da_max_hsaco args) arch e)))
       (rfilter (\<lambda>(e, arch). rmap fst (td_validate_hw td arch e)) (List.product es (da_arch args)))"

definition tasks_to_dispatch ::
  "tune_desc \<Rightarrow> string \<Rightarrow> dispatch_args \<Rightarrow> task_key list \<Rightarrow> new_task list res" where
  "tasks_to_dispatch td module args completed =
     (let names = map fst (td_choices td) in
      rbind (generate_filtered_entries td (da_filters args)) (\<lambda>es.
      rbind (task_config_gen td module args es) (\<lambda>cs.
      rmap (map (\<lambda>(arch, c). \<lparr>nt_arch = arch, nt_module = module, nt_config = c, nt_priority = Some 5\<rparr>))
        (rfilter (\<lambda>(arch, c). if da_skip_completed args
                               then rmap (\<lambda>k. k \<notin> set completed) (make_hashable names c) else Inr True) cs))))"

definition dispatch_tasks ::
  "int \<Rightarrow> tune_desc \<Rightarrow> string \<Rightarrow> dispatch_args \<Rightarrow> (tuner_db, nat option) act" where
  "dispatch_tasks now td module args =
     sbind (sget (\<lambda>db. if da_skip_completed args then get_completed_tasks module (map fst (td_choices td)) db
                       else Inr [])) (\<lambda>found.
     sbind (slift found) (\<lambda>completed.
     sbind (slift (tasks_to_dispatch td module args completed)) (\<lambda>tasks.
     if \<not> da_confirmed args \<or> da_dry_run args then sret None
     else
       sbind (supd (\<lambda>db. fold ensure_partition (da_arch args) db)) (\<lambda>_.
       sbind (dispatch_bulk now 1000 tasks) (\<lambda>n. sret (Some n))))))"

text \<open>\<open>main\<close> asks the database of workers for the architectures if none is given.\<close>

definition get_registered_archs :: "workers_db \<Rightarrow> string list" where
  "get_registered_archs wdb = get_architectures wdb"

definition main_archs :: "string list option \<Rightarrow> workers_db \<Rightarrow> string list option" where
  "main_archs arch wdb =
     (case arch of
        Some archs \<Rightarrow> Some archs
      | None \<Rightarrow> (case get_registered_archs wdb of [] \<Rightarrow> None | archs \<Rightarrow> Some archs))"

section \<open>The configuration file\<close>

definition config_line :: "string \<Rightarrow> (string \<times> string) option" where
  "config_line raw =
     (let line = strip raw in
      if line = [] \<or> startswith line ''#'' then None
      else
        let line = (if CHR ''#'' \<in> set line then strip (takeWhile (\<lambda>c. c \<noteq> CHR ''#'') line) else line) in
        if CHR ''='' \<in> set line
        then Some (takeWhile (\<lambda>c. c \<noteq> CHR ''='') line,
                   strip_chars (\<lambda>c. c = CHR 0x27) (strip_chars (\<lambda>c. c = CHR 0x22)
                     (strip (tl (dropWhile (\<lambda>c. c \<noteq> CHR ''='') line)))))
        else None)"

definition load_config :: "string list \<Rightarrow> (string, string) dict \<Rightarrow> (string, string) dict" where
  "load_config ls env = fold (\<lambda>(k, v) env. dset env k v) (List.map_filter config_line ls) env"

text \<open>Host, port, user and password; None is the exit with an error message.\<close>

definition get_db_connection_params :: "(string, string) dict \<Rightarrow> (string \<times> int \<times> string \<times> string) option res" where
  "get_db_connection_params env =
     (let get = (\<lambda>k. case dget env k of None \<Rightarrow> [] | Some v \<Rightarrow> v);
          user = get ''POSTGRES_USER''; password = get ''POSTGRES_PASSWORD'';
          host = get ''CELERY_SERVICE_HOST''; port = get ''POSTGRES_PORT'' in
      if user = [] \<or> password = [] \<or> host = [] \<or> port = [] then Inr None
      else rmap (\<lambda>p. Some (host, p, user, password)) (parse_int port))"

definition str_to_bool :: "string \<Rightarrow> bool option" where
  "str_to_bool s = (if s = ''0'' then Some False else if s = ''1'' then Some True else None)"

section \<open>Lists\<close>

lemma product_lists_filter:
  "product_lists (map (\<lambda>(p, xs). filter p xs) ps)
     = filter (list_all2 (\<lambda>p x. p x) (map fst ps)) (product_lists (map snd ps))"
proof (induction ps)
  case (Cons q ps)
  obtain p xs where q: "q = (p, xs)" by (cases q)
  have "concat (map (\<lambda>x. map (Cons x) (filter P yss)) (filter p xs))
          = filter (\<lambda>zs. p (hd zs) \<and> P (tl zs)) (concat (map (\<lambda>x. map (Cons x) yss) xs))" for P and yss :: "'a list list"
    by (induction xs) (simp_all add: filter_map comp_def)
  moreover have "filter (\<lambda>zs. p (hd zs) \<and> list_all2 (\<lambda>p x. p x) (map fst ps) (tl zs)) L
      = filter (list_all2 (\<lambda>p x. p x) (p # map fst ps)) L"
    if "L = concat (map (\<lambda>x. map (Cons x) (product_lists (map snd ps))) xs)" for L
    using that by (intro filter_cong) auto
  ultimately show ?case by (simp add: q Cons.IH)
qed simp

lemma rfilter_total: "(\<And>x. x \<in> set xs \<Longrightarrow> is_ok (p x)) \<Longrightarrow> rfilter p xs = Inr (filter (\<lambda>x. p x = Inr True) xs)"
proof (induction xs)
  case (Cons x xs)
  obtain b where "p x = Inr b" using Cons.prems [of x] by (auto simp: is_ok_iff)
  then show ?case using Cons by simp
qed simp

section \<open>Entries\<close>

lemma entries_shape:
  assumes "e \<in> set (entries_of ch)"
  shows "map fst e = map fst ch" and "list_all2 (\<lambda>v c. v \<in> set (snd c)) (map snd e) ch"
proof -
  obtain t where t: "t \<in> set (product_lists (map snd ch))" and e: "e = zip (map fst ch) t"
    using assms by (auto simp: entries_of_def)
  have len: "length t = length ch" using in_set_product_lists_length [OF t] by simp
  have "list_all2 (\<lambda>v c. v \<in> set (snd c)) t ch"
    using t by (induction ch arbitrary: t) auto
  then show "map fst e = map fst ch" "list_all2 (\<lambda>v c. v \<in> set (snd c)) (map snd e) ch" using e len by simp_all
qed

lemma entry_value:
  assumes e: "e \<in> set (entries_of ch)" and "distinct (map fst ch)" and f: "(f, vs) \<in> set ch"
  shows "\<exists>v\<in>set vs. dget e f = Some v"
proof -
  note sh = entries_shape [OF e]
  obtain i where i: "i < length ch" "ch ! i = (f, vs)" using f by (auto simp: in_set_conv_nth)
  have len: "length e = length ch" using sh(1) by (metis length_map)
  have "fst (e ! i) = f" using sh(1) i len by (metis fst_conv nth_map)
  moreover have "snd (e ! i) \<in> set vs" using sh(2) i len by (auto simp: list_all2_conv_all_nth)
  moreover have "e ! i \<in> set e" using i len by simp
  moreover have "distinct (map fst e)" using sh(1) assms(2) by simp
  ultimately show ?thesis by (metis map_of_is_SomeI prod.collapse)
qed

lemma distinct_entries:
  assumes "list_all distinct (map snd ch)" shows "distinct (entries_of ch)"
proof -
  have "distinct (product_lists (map snd ch))" using assms by (intro distinct_product_lists) (simp add: list_all_iff)
  moreover have "inj_on (zip (map fst ch)) (set (product_lists (map snd ch)))"
  proof (rule inj_onI)
    fix s t assume "s \<in> set (product_lists (map snd ch))" "t \<in> set (product_lists (map snd ch))" and eq: "zip (map fst ch) s = zip (map fst ch) t"
    then have "length s = length ch" "length t = length ch" using in_set_product_lists_length by fastforce+
    then show "s = t" using arg_cong [OF eq, of "map snd"] by simp
  qed
  ultimately show ?thesis by (simp add: entries_of_def distinct_map)
qed

text \<open>The entries a user asked for: every field with a filter has one of the values.\<close>

definition asked_for :: "(string \<Rightarrow> pyobj list option) \<Rightarrow> entry \<Rightarrow> bool" where
  "asked_for args e =
     list_all (\<lambda>(f, v). case args f of None \<Rightarrow> True | Some ws \<Rightarrow> list_ex (obj_eq (norm_value v)) (map norm_value ws)) e"

lemma filtered_entries:
  "entries_of (map (\<lambda>(f, vs). (f, filter_values (args f) vs)) ch) = filter (asked_for args) (entries_of ch)"
proof -
  define p where "p f v \<longleftrightarrow> (case args f of None \<Rightarrow> True | Some ws \<Rightarrow> list_ex (obj_eq (norm_value v)) (map norm_value ws))" for f v
  have fv: "filter_values (args f) vs = filter (p f) vs" for f vs
    by (cases "args f") (simp_all add: filter_values_def p_def [abs_def])
  have "map snd (map (\<lambda>(f, vs). (f, filter_values (args f) vs)) ch)
          = map (\<lambda>(p, xs). filter p xs) (map (\<lambda>(f, vs). (p f, vs)) ch)"
    by (simp add: fv comp_def case_prod_unfold)
  then have "product_lists (map snd (map (\<lambda>(f, vs). (f, filter_values (args f) vs)) ch))
          = filter (list_all2 (\<lambda>p x. p x) (map fst (map (\<lambda>(f, vs). (p f, vs)) ch)))
              (product_lists (map snd (map (\<lambda>(f, vs). (p f, vs)) ch)))"
    by (simp only: product_lists_filter)
  then have pl: "product_lists (map snd (map (\<lambda>(f, vs). (f, filter_values (args f) vs)) ch))
          = filter (list_all2 (\<lambda>p x. p x) (map (p \<circ> fst) ch)) (product_lists (map snd ch))"
    by (simp add: comp_def case_prod_unfold)
  moreover have "list_all2 (\<lambda>p x. p x) (map (p \<circ> fst) ch) t \<longleftrightarrow> asked_for args (zip (map fst ch) t)"
    if "t \<in> set (product_lists (map snd ch))" for t
    using that by (induction ch arbitrary: t) (auto simp: asked_for_def p_def)
  ultimately have "map (zip (map fst ch)) (filter (list_all2 (\<lambda>p x. p x) (map (p \<circ> fst) ch)) (product_lists (map snd ch)))
      = filter (asked_for args) (map (zip (map fst ch)) (product_lists (map snd ch)))"
    by (simp add: filter_map comp_def cong: filter_cong)
  moreover have "map fst (map (\<lambda>(f, vs). (f, filter_values (args f) vs)) ch) = map fst ch"
    by (simp add: comp_def case_prod_unfold)
  ultimately show ?thesis unfolding entries_of_def by (simp only: pl)
qed

section \<open>What a bulk insert does\<close>

definition new_row :: "int \<Rightarrow> int \<Rightarrow> new_task \<Rightarrow> task_row" where
  "new_row now i t =
     \<lparr>t_id = i, t_arch = nt_arch t, t_module = nt_module t, t_config = nt_config t, t_status = ''pending'',
      t_priority = (case nt_priority t of None \<Rightarrow> 5 | Some p \<Rightarrow> p), t_worker = None, t_node = None,
      t_created = now, t_started = None, t_completed = None, t_error = None, t_retry = 0\<rparr>"

definition add_row :: "int \<Rightarrow> new_task \<Rightarrow> tuner_db \<Rightarrow> tuner_db" where
  "add_row now t db =
     db\<lparr>next_id := next_id db + 1, task_rows := task_rows db @ [new_row now (next_id db) t]\<rparr>"

definition in_partitions :: "tuner_db \<Rightarrow> new_task list \<Rightarrow> bool" where
  "in_partitions db ts = list_all (\<lambda>t. nt_arch t \<in> set (partitions db)) ts"

lemma in_partitions_add [simp]: "in_partitions (add_row now t db) ts = in_partitions db ts"
  by (simp add: in_partitions_def add_row_def)

lemma in_partitions_fold [simp]: "in_partitions (fold (add_row now) xs db) ts = in_partitions db ts"
  by (induction xs arbitrary: db) simp_all

lemma insert_batch_rows: "in_partitions db ts \<Longrightarrow> insert_batch now ts db = (fold (add_row now) ts db, Inr ())"
proof (induction ts arbitrary: db)
  case Nil
  then show ?case by (simp add: insert_batch_def)
next
  case (Cons t ts)
  then have "insert_task now (nt_arch t) (nt_module t) (nt_config t) (case nt_priority t of None \<Rightarrow> 5 | Some p \<Rightarrow> p) db
      = (add_row now t db, Inr (next_id db))"
    by (simp add: insert_task_def on_partition_def add_row_def new_row_def in_partitions_def)
  moreover have "in_partitions db ts" using Cons.prems by (simp add: in_partitions_def)
  ultimately show ?case using Cons.IH [of "add_row now t db"] by (simp add: insert_batch_def sbind_def)
qed

lemma dispatch_loop_rows:
  "in_partitions db (batch @ ts)
     \<Longrightarrow> dispatch_loop now k ts batch d db = (fold (add_row now) (batch @ ts) db, Inr (d + length batch + length ts))"
proof (induction now k ts batch d arbitrary: db rule: dispatch_loop.induct)
  case (1 now k batch d)
  then show ?case by (simp add: sbind_def insert_batch_rows)
next
  case (2 now k t ts batch d)
  have "in_partitions db (batch @ [t])" "in_partitions db ts" using 2(3) by (simp_all add: in_partitions_def)
  with 2 show ?case by (simp add: Let_def sbind_def insert_batch_rows)
qed

lemma fold_add_row:
  "fold (add_row now) ts db
     = db\<lparr>next_id := next_id db + int (length ts),
          task_rows := task_rows db @ map2 (new_row now) [next_id db..next_id db + int (length ts) - 1] ts\<rparr>"
proof (induction ts arbitrary: db)
  case (Cons t ts)
  have "[next_id db..next_id db + int (length (t # ts)) - 1]
      = next_id db # [next_id db + 1..next_id db + 1 + int (length ts) - 1]"
    by (subst upto_rec1) (simp_all add: ac_simps)
  with Cons [of "add_row now t db"] show ?case by (simp add: add_row_def)
qed simp

lemma dispatch_bulk_rows:
  "in_partitions db ts
     \<Longrightarrow> dispatch_bulk now k ts db
          = (db\<lparr>next_id := next_id db + int (length ts),
                task_rows := task_rows db @ map2 (new_row now) [next_id db..next_id db + int (length ts) - 1] ts\<rparr>,
             Inr (length ts))"
  using dispatch_loop_rows [of db "[]" ts now k 0]
  by (simp add: dispatch_bulk_def transaction_def fold_add_row)

lemma fold_ensure: "\<exists>ps. fold ensure_partition archs db = db\<lparr>partitions := ps\<rparr> \<and> set ps = set (partitions db) \<union> set archs"
proof (induction archs arbitrary: db)
  case Nil
  show ?case by (rule exI [of _ "partitions db"]) simp
next
  case (Cons a archs)
  obtain ps where "fold ensure_partition archs (ensure_partition a db) = (ensure_partition a db)\<lparr>partitions := ps\<rparr>"
    "set ps = set (partitions (ensure_partition a db)) \<union> set archs" using Cons by blast
  then show ?case by (intro exI [of _ ps]) (auto simp: ensure_partition_def [of a db])
qed

lemma map2_rows:
  "length is = length ts \<Longrightarrow> map (\<lambda>t. (t_arch t, t_config t)) (map2 (new_row now) is ts) = map (\<lambda>t. (nt_arch t, nt_config t)) ts"
  by (induction "is" ts rule: list_induct2) (simp_all add: new_row_def)

lemma map2_row_ids: "length is = length ts \<Longrightarrow> map t_id (map2 (new_row now) is ts) = is"
  by (induction "is" ts rule: list_induct2) (simp_all add: new_row_def)

section \<open>The tasks of a module\<close>

definition config_key :: "string \<Rightarrow> entry \<Rightarrow> task_key" where
  "config_key a e = KStr a # map (\<lambda>(f, v). projr (key_of v)) e"

definition to_dispatch ::
  "(entry \<Rightarrow> bool) \<Rightarrow> (string \<Rightarrow> entry \<Rightarrow> bool) \<Rightarrow> dispatch_args \<Rightarrow> task_key list \<Rightarrow> entry \<times> string \<Rightarrow> bool" where
  "to_dispatch ok hw args completed = (\<lambda>(e, a).
     asked_for (da_filters args) e \<and> ok e \<and> hw a e
     \<and> (da_skip_completed args \<longrightarrow> config_key a e \<notin> set completed))"

definition new_task_of :: "string \<Rightarrow> dispatch_args \<Rightarrow> entry \<times> string \<Rightarrow> new_task" where
  "new_task_of module args = (\<lambda>(e, a).
     \<lparr>nt_arch = a, nt_module = module, nt_config = task_config_of module (da_max_hsaco args) a e,
      nt_priority = Some 5\<rparr>)"

lemma filter_product:
  "filter (\<lambda>(x, y). p x \<and> q x y) (List.product xs ys) = filter (\<lambda>(x, y). q x y) (List.product (filter p xs) ys)"
  by (induction xs) (simp_all add: filter_map comp_def)

lemma task_config_fields:
  assumes "distinct (map fst e)"
  shows "obj_get (task_config_of m h a e) ''arch'' = Inr (OStr a)"
    and "obj_get (task_config_of m h a e) ''entry'' = Inr (mk_dict e)"
  by (simp_all add: task_config_of_def mk_dict_distinct split: option.splits)

lemma obj_get_mk_dict:
  "distinct (map fst e) \<Longrightarrow> rtraverse (obj_get (mk_dict e)) (map fst e) = Inr (map snd e)"
proof -
  assume d: "distinct (map fst e)"
  have "obj_get (mk_dict e) f = Inr v" if "(f, v) \<in> set e" for f v
  proof -
    have "(KStr f, v) \<in> set (map (\<lambda>(k, v). (KStr k, v)) e)" using that by force
    then have "dget (map (\<lambda>(k, v). (KStr k, v)) e) (KStr f) = Some v"
      by (intro map_of_is_SomeI distinct_field_keys d)
    then show ?thesis by (simp add: mk_dict_distinct [OF d])
  qed
  then have "list_all2 (\<lambda>k v. obj_get (mk_dict e) k = Inr v) (map fst e) (map snd e)"
    by (auto simp: list_all2_conv_all_nth)
  then show ?thesis by (simp add: rtraverse_Inr_iff)
qed

lemma make_hashable_config:
  assumes "distinct (map fst e)" "list_all (\<lambda>(f, v). is_ok (key_of v)) e"
  shows "make_hashable (map fst e) (task_config_of m h a e) = Inr (config_key a e)"
proof -
  have "rtraverse key_of (map snd e) = Inr (map (\<lambda>v. projr (key_of v)) (map snd e))"
    using assms(2) by (intro rtraverse_map_Inr) (auto simp: list_all_iff dest!: is_ok_projr)
  then show ?thesis
    by (simp add: make_hashable_def task_config_fields [OF assms(1)] obj_get_mk_dict [OF assms(1)] config_key_def
        comp_def case_prod_unfold)
qed

lemma task_config_inj:
  assumes "distinct (map fst e)" "distinct (map fst e')" "task_config_of m h a e = task_config_of m h a' e'"
  shows "a = a'" "e = e'"
proof -
  from task_config_fields [OF assms(1), of m h a] task_config_fields [OF assms(2), of m h a'] assms(3)
  have "a = a'" and "mk_dict e = mk_dict e'" by simp_all
  moreover have "inj_on (\<lambda>(k :: string, v :: pyobj). (KStr k, v)) (set e \<union> set e')" by (rule inj_onI) auto
  ultimately show "a = a'" "e = e'"
    by (simp_all add: mk_dict_distinct assms(1,2) inj_on_map_eq_map)
qed

locale tuning_module =
  fixes td :: tune_desc and ok :: "entry \<Rightarrow> bool" and hw :: "string \<Rightarrow> entry \<Rightarrow> bool"
  assumes names_distinct: "distinct (map fst (td_choices td))"
    and values_distinct: "list_all (\<lambda>c. distinct (snd c)) (td_choices td)"
    and values_hashable: "list_all (\<lambda>c. list_all (\<lambda>v. is_ok (key_of v)) (snd c)) (td_choices td)"
    and validates: "e \<in> set (entries_of (td_choices td)) \<Longrightarrow> td_validate_entry td e = Inr (ok e)"
    and supports: "e \<in> set (entries_of (td_choices td)) \<Longrightarrow> rmap fst (td_validate_hw td a e) = Inr (hw a e)"
begin

abbreviation all_entries :: "entry list" where "all_entries \<equiv> entries_of (td_choices td)"

lemma generated: "generate_entries td = Inr (filter ok all_entries)"
proof -
  have "generate_entries td = Inr (filter (\<lambda>e. td_validate_entry td e = Inr True) all_entries)"
    unfolding generate_entries_def generate_entries_from_choices_def by (rule rfilter_total) (simp add: validates)
  then show ?thesis by (simp add: validates cong: filter_cong)
qed

lemma no_value_left:
  assumes "list_ex (\<lambda>(f, vs). args f \<noteq> None \<and> filter_values (args f) vs = []) (td_choices td)"
  shows "filter (asked_for args) all_entries = []"
proof -
  obtain f vs ws where f: "(f, vs) \<in> set (td_choices td)" "args f = Some ws" "filter_values (args f) vs = []"
    using assms by (auto simp: list_ex_iff)
  have "\<not> asked_for args e" if e: "e \<in> set all_entries" for e
  proof
    assume asked: "asked_for args e"
    obtain v where v: "v \<in> set vs" "dget e f = Some v" using entry_value [OF e names_distinct f(1)] by blast
    have "(f, v) \<in> set e" using v(2) by (rule map_of_SomeD)
    with asked f(2) have "list_ex (obj_eq (norm_value v)) (map norm_value ws)"
      by (force simp: asked_for_def list_all_iff)
    with v(1) f(2,3) show False by (simp add: filter_values_def filter_empty_conv)
  qed
  then show ?thesis by (simp add: filter_empty_conv)
qed

lemma generated_filtered:
  "generate_filtered_entries td args = Inr (filter ok (filter (asked_for args) all_entries))"
proof (cases "list_ex (\<lambda>(f, vs). args f \<noteq> None \<and> filter_values (args f) vs = []) (td_choices td)")
  case True
  then show ?thesis by (simp add: generate_filtered_entries_def no_value_left [OF True])
next
  case False
  then have "generate_filtered_entries td args = rfilter (td_validate_entry td) (filter (asked_for args) all_entries)"
    by (simp only: generate_filtered_entries_def generate_entries_from_choices_def filtered_entries if_False)
  also have "\<dots> = Inr (filter (\<lambda>e. td_validate_entry td e = Inr True) (filter (asked_for args) all_entries))"
    by (rule rfilter_total) (simp add: validates)
  finally show ?thesis by (simp add: validates cong: filter_cong)
qed

lemma entry_fields: "e \<in> set all_entries \<Longrightarrow> map fst e = map fst (td_choices td)"
  by (rule entries_shape)

lemma entry_hashable: "e \<in> set all_entries \<Longrightarrow> list_all (\<lambda>(f, v). is_ok (key_of v)) e"
proof -
  assume e: "e \<in> set all_entries"
  have len: "length e = length (td_choices td)" using entries_shape(1) [OF e] by (metis length_map)
  have "is_ok (key_of (snd (e ! i)))" if i: "i < length e" for i
  proof -
    have "snd (e ! i) \<in> set (snd (td_choices td ! i))"
      using list_all2_nthD [OF entries_shape(2) [OF e], of i] i by simp
    moreover have "td_choices td ! i \<in> set (td_choices td)" using i len by simp
    ultimately show ?thesis using values_hashable by (simp add: list_all_iff)
  qed
  then show ?thesis by (simp add: list_all_length case_prod_unfold)
qed

lemma hashable: "e \<in> set all_entries
    \<Longrightarrow> make_hashable (map fst (td_choices td)) (task_config_of m h a e) = Inr (config_key a e)"
  using make_hashable_config [of e m h a] entry_fields [of e] entry_hashable names_distinct by simp

lemma tasks:
  "tasks_to_dispatch td module args completed
     = Inr (map (new_task_of module args)
              (filter (to_dispatch ok hw args completed) (List.product all_entries (da_arch args))))"
proof -
  define es where "es = filter ok (filter (asked_for (da_filters args)) all_entries)"
  define prs where "prs = filter (\<lambda>(e, a). hw a e) (List.product es (da_arch args))"
  have es: "e \<in> set es \<Longrightarrow> e \<in> set all_entries" for e by (simp add: es_def)
  have "rfilter (\<lambda>(e, a). rmap fst (td_validate_hw td a e)) (List.product es (da_arch args))
      = Inr (filter (\<lambda>x. (\<lambda>(e, a). rmap fst (td_validate_hw td a e)) x = Inr True) (List.product es (da_arch args)))"
    by (rule rfilter_total) (auto simp: supports es)
  also have "\<dots> = Inr prs"
    unfolding prs_def by (auto simp: supports es intro!: filter_cong)
  finally have gen: "task_config_gen td module args es
      = Inr (map (\<lambda>(e, a). (a, task_config_of module (da_max_hsaco args) a e)) prs)"
    by (simp add: task_config_gen_def)
  define keep where "keep = (\<lambda>(a :: string, c). if da_skip_completed args
      then rmap (\<lambda>k. k \<notin> set completed) (make_hashable (map fst (td_choices td)) c) else Inr True)"
  define conf where "conf = (\<lambda>(e, a). (a, task_config_of module (da_max_hsaco args) a e))"
  have keep: "keep (conf x) = Inr (da_skip_completed args \<longrightarrow> config_key (snd x) (fst x) \<notin> set completed)"
    if "x \<in> set prs" for x
    using that es by (auto simp: keep_def conf_def prs_def hashable)
  have "rfilter keep (map conf prs) = Inr (filter (\<lambda>y. keep y = Inr True) (map conf prs))"
    by (rule rfilter_total) (auto simp: keep)
  also have "\<dots> = Inr (map conf (filter (\<lambda>x. da_skip_completed args \<longrightarrow> config_key (snd x) (fst x) \<notin> set completed) prs))"
    by (auto simp: filter_map keep intro!: arg_cong [of _ _ "map conf"] filter_cong)
  also have "filter (\<lambda>x. da_skip_completed args \<longrightarrow> config_key (snd x) (fst x) \<notin> set completed) prs
      = filter (to_dispatch ok hw args completed) (List.product all_entries (da_arch args))"
  proof -
    have "filter (\<lambda>(e, a). ok e \<and> asked_for (da_filters args) e \<and> hw a e) (List.product all_entries (da_arch args)) = prs"
      using filter_product [of "\<lambda>e. asked_for (da_filters args) e \<and> ok e" "\<lambda>e a. hw a e" all_entries "da_arch args"]
      by (simp add: prs_def es_def conj_ac)
    then show ?thesis
      by (auto simp: to_dispatch_def case_prod_unfold conj_ac simp flip: \<open>_ = prs\<close> intro!: filter_cong)
  qed
  finally have kept: "rfilter keep (map conf prs)
      = Inr (map conf (filter (to_dispatch ok hw args completed) (List.product all_entries (da_arch args))))" .
  have "new_task_of module args = (\<lambda>(a, c). \<lparr>nt_arch = a, nt_module = module, nt_config = c, nt_priority = Some 5\<rparr>) \<circ> conf"
    by (auto simp: new_task_of_def conf_def)
  then show ?thesis
    using gen kept by (simp add: tasks_to_dispatch_def Let_def generated_filtered es_def keep_def conf_def)
qed

lemma dispatched:
  assumes run: "da_confirmed args" "\<not> da_dry_run args" and archs: "distinct (da_arch args)"
    and completed: "da_skip_completed args \<Longrightarrow> get_completed_tasks module (map fst (td_choices td)) db = Inr completed"
  shows "\<exists>rows ps. dispatch_tasks now td module args db
           = (db\<lparr>next_id := next_id db + int (length rows), partitions := ps, task_rows := task_rows db @ rows\<rparr>,
              Inr (Some (length rows)))
      \<and> set ps = set (partitions db) \<union> set (da_arch args)
      \<and> map t_id rows = [next_id db..next_id db + int (length rows) - 1]
      \<and> list_all (\<lambda>t. t_status t = ''pending'' \<and> t_module t = module \<and> t_priority t = 5 \<and> t_retry t = 0) rows
      \<and> distinct (map (\<lambda>t. (t_arch t, t_config t)) rows)
      \<and> set (map (\<lambda>t. (t_arch t, t_config t)) rows)
          = {(a, task_config_of module (da_max_hsaco args) a e) | a e.
               a \<in> set (da_arch args) \<and> e \<in> set all_entries \<and> to_dispatch ok hw args completed (e, a)}"
proof -
  define found where "found = (if da_skip_completed args then completed else [])"
  define prs where "prs = filter (to_dispatch ok hw args found) (List.product all_entries (da_arch args))"
  have same: "to_dispatch ok hw args found = to_dispatch ok hw args completed"
    by (auto simp: to_dispatch_def found_def)
  define ts where "ts = map (new_task_of module args) prs"
  obtain ps where parts: "fold ensure_partition (da_arch args) db = db\<lparr>partitions := ps\<rparr>"
    and ps: "set ps = set (partitions db) \<union> set (da_arch args)" using fold_ensure by blast
  have tasks: "tasks_to_dispatch td module args found = Inr ts" by (simp add: tasks ts_def prs_def)
  have inp: "in_partitions (db\<lparr>partitions := ps\<rparr>) ts"
    by (auto simp: in_partitions_def ts_def prs_def list_all_iff ps new_task_of_def)
  define ids where "ids = [next_id db..next_id db + int (length ts) - 1]"
  define rows where "rows = map2 (new_row now) ids ts"
  have len: "length ids = length ts" "length rows = length ts" by (simp_all add: ids_def rows_def)
  have "dispatch_tasks now td module args db
      = (db\<lparr>next_id := next_id db + int (length rows), partitions := ps, task_rows := task_rows db @ rows\<rparr>,
         Inr (Some (length rows)))"
  proof -
    have "sget (\<lambda>db. if da_skip_completed args then get_completed_tasks module (map fst (td_choices td)) db else Inr []) db
        = (db, Inr (Inr found))" using completed by (simp add: found_def)
    moreover have "dispatch_bulk now 1000 ts (db\<lparr>partitions := ps\<rparr>)
        = (db\<lparr>next_id := next_id db + int (length rows), partitions := ps, task_rows := task_rows db @ rows\<rparr>,
           Inr (length rows))"
      using dispatch_bulk_rows [OF inp, of now 1000] by (simp add: rows_def ids_def)
    ultimately show ?thesis by (simp add: dispatch_tasks_def sbind_def run tasks parts)
  qed
  moreover have "map t_id rows = [next_id db..next_id db + int (length rows) - 1]"
    unfolding len(2) unfolding rows_def map2_row_ids [OF len(1)] by (simp add: ids_def)
  moreover have "list_all (\<lambda>t. t_status t = ''pending'' \<and> t_module t = module \<and> t_priority t = 5 \<and> t_retry t = 0) rows"
    by (auto simp: rows_def ts_def new_row_def new_task_of_def list_all_iff in_set_zip case_prod_unfold)
  moreover have keys: "map (\<lambda>t. (t_arch t, t_config t)) rows
      = map (\<lambda>(e, a). (a, task_config_of module (da_max_hsaco args) a e)) prs"
    unfolding rows_def map2_rows [OF len(1)] by (auto simp: ts_def new_task_of_def)
  moreover have "distinct (map (\<lambda>(e, a). (a, task_config_of module (da_max_hsaco args) a e)) prs)"
  proof -
    have "list_all distinct (map snd (td_choices td))" using values_distinct by (simp add: list.pred_map comp_def)
    then have "distinct prs"
      by (simp add: prs_def distinct_product distinct_entries archs)
    moreover have "inj_on (\<lambda>(e, a). (a, task_config_of module (da_max_hsaco args) a e)) (set prs)"
    proof (rule inj_onI, clarify)
      fix e a e' a'
      assume "(e, a) \<in> set prs" "(e', a') \<in> set prs"
        and eq: "task_config_of module (da_max_hsaco args) a e = task_config_of module (da_max_hsaco args) a' e'"
      then have "distinct (map fst e)" "distinct (map fst e')"
        using names_distinct entry_fields by (auto simp: prs_def)
      then show "e = e' \<and> a = a'" using task_config_inj eq by blast
    qed
    ultimately show ?thesis by (simp add: distinct_map)
  qed
  moreover have "set (map (\<lambda>(e, a). (a, task_config_of module (da_max_hsaco args) a e)) prs)
      = {(a, task_config_of module (da_max_hsaco args) a e) | a e.
           a \<in> set (da_arch args) \<and> e \<in> set all_entries \<and> to_dispatch ok hw args completed (e, a)}"
    by (auto simp: prs_def same image_iff)
  ultimately show ?thesis using ps by (intro exI [of _ rows] exI [of _ ps]) simp
qed

end

section \<open>The two modules\<close>

definition entry_num :: "entry \<Rightarrow> string \<Rightarrow> int" where
  "entry_num e f = the (obj_num (the (dget e f)))"

definition flash_valid :: "entry \<Rightarrow> bool" where
  "flash_valid e = (entry_num e ''causal'' \<noteq> 0 \<longrightarrow> entry_num e ''bias_type'' = 0)"

definition flash_supported :: "string \<Rightarrow> entry \<Rightarrow> bool" where
  "flash_supported arch e =
     (startswith arch ''gfx11'' \<longrightarrow>
        entry_num e ''hdim'' \<le> 256 \<and> entry_num e ''seqlen_q'' \<le> 2048 \<and> entry_num e ''seqlen_k'' \<le> 2048)"

lemma flash_choices_ok:
  "distinct (map fst flash_entry_choices)"
  "list_all (\<lambda>c. distinct (snd c)) flash_entry_choices"
  "list_all (\<lambda>c. list_all (\<lambda>v. is_ok (key_of v)) (snd c)) flash_entry_choices"
  by code_simp+

lemma flash_number:
  assumes "e \<in> set (entries_of flash_entry_choices)" "(f, vs) \<in> set flash_entry_choices"
    "list_all (\<lambda>v. obj_num v \<noteq> None) vs"
  shows "\<exists>v. field e f = Inr v \<and> obj_num v = Some (entry_num e f)"
  using entry_value [OF assms(1) flash_choices_ok(1) assms(2)] assms(3)
  by (auto simp: field_def entry_num_def list_all_iff)

lemma flash_numbers:
  assumes "e \<in> set (entries_of flash_entry_choices)"
    and "f \<in> {''hdim'', ''seqlen_q'', ''seqlen_k'', ''bias_type''}"
  obtains v where "field e f = Inr v" "obj_num v = Some (entry_num e f)"
proof -
  have "list_ex (\<lambda>c. fst c = f \<and> list_all (\<lambda>v. obj_num v \<noteq> None) (snd c)) flash_entry_choices"
    using assms(2) by (auto simp: flash_entry_choices_def)
  then obtain vs where "(f, vs) \<in> set flash_entry_choices" "list_all (\<lambda>v. obj_num v \<noteq> None) vs"
    by (auto simp: list_ex_iff)
  from flash_number [OF assms(1) this] show thesis using that by blast
qed

lemma flash_causal:
  assumes "e \<in> set (entries_of flash_entry_choices)"
  shows "field e ''causal'' = Inr (OBool (entry_num e ''causal'' \<noteq> 0))"
proof -
  have "(''causal'', map OBool [False, True]) \<in> set flash_entry_choices" by (simp add: flash_entry_choices_def)
  from entry_value [OF assms flash_choices_ok(1) this] show ?thesis by (auto simp: field_def entry_num_def)
qed

lemma obj_eq_zero: "obj_num v = Some i \<Longrightarrow> obj_eq v (OInt 0) = (i = 0)"
  by (cases v) auto

lemma flash_validates:
  assumes e: "e \<in> set (entries_of flash_entry_choices)"
  shows "flash_validate_entry e = Inr (flash_valid e)"
proof -
  obtain v where "field e ''bias_type'' = Inr v" "obj_num v = Some (entry_num e ''bias_type'')"
    using flash_numbers [OF e, of "''bias_type''"] by blast
  then show ?thesis
    by (simp add: flash_validate_entry_def flash_valid_def flash_causal [OF e] obj_eq_zero)
qed

lemma flash_supports:
  assumes e: "e \<in> set (entries_of flash_entry_choices)"
  shows "rmap fst (flash_validate_hw_feature a e) = Inr (flash_supported a e)"
proof -
  obtain h where h: "field e ''hdim'' = Inr h" "obj_num h = Some (entry_num e ''hdim'')"
    using flash_numbers [OF e, of "''hdim''"] by blast
  obtain q where q: "field e ''seqlen_q'' = Inr q" "obj_num q = Some (entry_num e ''seqlen_q'')"
    using flash_numbers [OF e, of "''seqlen_q''"] by blast
  obtain k where k: "field e ''seqlen_k'' = Inr k" "obj_num k = Some (entry_num e ''seqlen_k'')"
    using flash_numbers [OF e, of "''seqlen_k''"] by blast
  show ?thesis
    by (auto simp: flash_validate_hw_feature_def flash_supported_def obj_gt_def h q k)
qed

interpretation flash: tuning_module flash_desc flash_valid flash_supported
  by unfold_locales (simp_all add: flash_desc_def flash_choices_ok flash_validates flash_supports)

interpretation flash_op: tuning_module flash_op_desc flash_valid flash_supported
  by unfold_locales (simp_all add: flash_desc_def flash_op_desc_def flash_choices_ok flash_validates flash_supports)

text \<open>
  C30: A confirmed run of \<open>dispatch_tasks\<close> inserts exactly the work that is missing: the rows it
  appends are pending, with consecutive ids, and their (architecture, configuration) pairs are
  without repetition the pairs of an architecture asked for and an entry of the module that passes
  the filters, is valid (no bias under a causal mask), is supported by the hardware (gfx11: head
  dimension at most 256 and sequences at most 2048) and is not completed when completed tasks are
  skipped. The number reported is the number of rows, and every architecture has a partition.
\<close>

lemma dispatch_exact:
  assumes "td = flash_desc \<or> td = flash_op_desc"
    and "da_confirmed args" "\<not> da_dry_run args" "distinct (da_arch args)"
    and "da_skip_completed args \<Longrightarrow> get_completed_tasks module (map fst (td_choices td)) db = Inr completed"
  shows "\<exists>rows ps. dispatch_tasks now td module args db
           = (db\<lparr>next_id := next_id db + int (length rows), partitions := ps, task_rows := task_rows db @ rows\<rparr>,
              Inr (Some (length rows)))
      \<and> set ps = set (partitions db) \<union> set (da_arch args)
      \<and> map t_id rows = [next_id db..next_id db + int (length rows) - 1]
      \<and> list_all (\<lambda>t. t_status t = ''pending'' \<and> t_module t = module \<and> t_priority t = 5 \<and> t_retry t = 0) rows
      \<and> distinct (map (\<lambda>t. (t_arch t, t_config t)) rows)
      \<and> set (map (\<lambda>t. (t_arch t, t_config t)) rows)
          = {(a, task_config_of module (da_max_hsaco args) a e) | a e.
               a \<in> set (da_arch args) \<and> e \<in> set (entries_of flash_entry_choices)
               \<and> to_dispatch flash_valid flash_supported args completed (e, a)}"
  using assms(1)
proof
  assume "td = flash_desc"
  then show ?thesis
    using flash.dispatched [of args module db completed now] assms(2-5) by (simp add: flash_desc_def)
next
  assume "td = flash_op_desc"
  then show ?thesis
    using flash_op.dispatched [of args module db completed now] assms(2-5) by (simp add: flash_op_desc_def flash_desc_def)
qed

definition demo_entry :: entry where
  "demo_entry =
     [(''dtype'', OStr ''float16''), (''hdim'', OInt 64), (''seqlen_q'', OInt 16), (''seqlen_k'', OInt 16),
      (''causal'', OBool False), (''dropout_p'', OFloat ''0.0''), (''bias_type'', OInt 0)]"

definition demo_args :: dispatch_args where
  "demo_args =
     \<lparr>da_arch = [''gfx942'', ''gfx1100''], da_filters = (\<lambda>f. if f = ''hdim'' then Some [OInt 64] else None),
      da_skip_completed = True, da_max_hsaco = Some 5, da_dry_run = False, da_confirmed = True\<rparr>"

definition demo_db :: tuner_db where
  "demo_db = empty_db\<lparr>next_id := 2, partitions := [''gfx942''], task_rows :=
     [\<lparr>t_id = 1, t_arch = ''gfx942'', t_module = ''flash'', t_config = task_config_of ''flash'' None ''gfx942'' demo_entry,
       t_status = ''completed'', t_priority = 5, t_worker = None, t_node = None, t_created = 0, t_started = Some 1,
       t_completed = Some 2, t_error = None, t_retry = 0\<rparr>]\<rparr>"

lemma dispatch_exact_witness:
  "\<exists>rows :: task_row list. snd (dispatch_tasks 7 flash_desc ''flash'' demo_args demo_db) = Inr (Some (length rows))
     \<and> map t_id rows = [2..1 + int (length rows)]
     \<and> (''gfx942'', task_config_of ''flash'' (Some 5) ''gfx942'' demo_entry) \<notin> set (map (\<lambda>t. (t_arch t, t_config t)) rows)"
proof -
  have args: "da_confirmed demo_args" "\<not> da_dry_run demo_args" "distinct (da_arch demo_args)"
    and db: "next_id demo_db = 2" and max: "da_max_hsaco demo_args = Some 5"
    and skip: "da_skip_completed demo_args"
    by (simp_all add: demo_args_def demo_db_def)
  have found: "get_completed_tasks ''flash'' (map fst (td_choices flash_desc)) demo_db = Inr [config_key ''gfx942'' demo_entry]"
    by code_simp
  have fields: "distinct (map fst demo_entry)" by code_simp
  have "a = ''gfx942'' \<and> e = demo_entry"
    if e: "e \<in> set (entries_of flash_entry_choices)"
    and eq: "task_config_of ''flash'' (Some 5) ''gfx942'' demo_entry = task_config_of ''flash'' (Some 5) a e" for a e
  proof -
    have "distinct (map fst e)" using entries_shape(1) [OF e] flash_choices_ok(1) by simp
    with task_config_inj [OF fields this eq] show ?thesis by simp
  qed
  then have skipped: "\<not> to_dispatch flash_valid flash_supported demo_args [config_key ''gfx942'' demo_entry] (e, a)"
    if "e \<in> set (entries_of flash_entry_choices)"
    and "task_config_of ''flash'' (Some 5) ''gfx942'' demo_entry = task_config_of ''flash'' (Some 5) a e" for a e
    using that skip by (auto simp: to_dispatch_def)
  from dispatch_exact [OF disjI1 [OF refl] args found, of 7] show ?thesis
  proof (elim exE conjE, goal_cases)
    case (1 rows ps)
    show ?case
    proof (rule exI [where x = rows], intro conjI)
      show "snd (dispatch_tasks 7 flash_desc ''flash'' demo_args demo_db) = Inr (Some (length rows))" by (simp only: 1(1) snd_conv)
      show "map t_id rows = [2..1 + int (length rows)]" using 1(3) by (simp add: db)
      show "(''gfx942'', task_config_of ''flash'' (Some 5) ''gfx942'' demo_entry) \<notin> set (map (\<lambda>t. (t_arch t, t_config t)) rows)"
        unfolding 1(6) max using skipped by blast
    qed
  qed
qed

end
