(* ===== verification/TuneProcess.thy ===== *)
theory TuneProcess
  imports PyObj
begin

text \<open>
  \<open>v3python/tune/utils.py\<close> (\<open>SafeLineReader\<close>) and \<open>exaid.py\<close> (\<open>ExaidProxy\<close>): the pipe to the
  subprocess that tunes. What the reader will observe is a list of events: bytes in whatever
  chunks the pipe gives, moments without data, the deadline, the end of the output, an unexpected
  exception, and the exit of the process with its code; when the list is used up nothing more
  happens before the deadline. The decoding of a line is an argument, logging is left out.
\<close>

section \<open>SafeLineReader\<close>

datatype pipe_event =
  Chunk string | NotReady | TimeUp | EndOfFile | ReadError string | Exits int

record line_reader =
  rd_buffer :: string
  rd_exit :: "int option"
  rd_stderr :: string
  rd_events :: "pipe_event list"

text \<open>A line, an error number and a message, as \<open>readline\<close> returns them.\<close>

type_synonym line_result = "string option \<times> int \<times> string option"

definition newline :: char where
  "newline = CHR 0x0A"

definition ETIMEDOUT :: int where
  "ETIMEDOUT = 110"

definition EPIPE :: int where
  "EPIPE = 32"

text \<open>\<open>process.poll()\<close> sees an exit that has happened.\<close>

fun poll_events :: "int option \<Rightarrow> pipe_event list \<Rightarrow> int option \<times> pipe_event list" where
  "poll_events code (Exits c # es) = poll_events (Some c) es"
| "poll_events code es = (code, es)"

definition poll :: "line_reader \<Rightarrow> line_reader" where
  "poll r = (let (code, es) = poll_events (rd_exit r) (rd_events r) in r\<lparr>rd_exit := code, rd_events := es\<rparr>)"

text \<open>\<open>check_crash\<close> reads what is left on stderr.\<close>

definition check_crash :: "(string \<Rightarrow> string) \<Rightarrow> line_reader \<Rightarrow> (line_result \<times> line_reader) option" where
  "check_crash dec r =
     (case rd_exit r of
        None \<Rightarrow> None
      | Some code \<Rightarrow>
          if code = 0 then None else Some ((None, code, Some (dec (rd_stderr r))), r\<lparr>rd_stderr := []\<rparr>))"

definition rstrip_eol :: "string \<Rightarrow> string" where
  "rstrip_eol s = rev (dropWhile (\<lambda>c. c = newline \<or> c = CHR 0x0D) (rev s))"

text \<open>The first line of a text, its end included, and the rest; None without a newline.\<close>

fun cut_line :: "string \<Rightarrow> (string \<times> string) option" where
  "cut_line [] = None"
| "cut_line (c # cs) =
     (if c = newline then Some ([c], cs)
      else (case cut_line cs of None \<Rightarrow> None | Some (line, rest) \<Rightarrow> Some (c # line, rest)))"

definition got_line :: "(string \<Rightarrow> string) \<Rightarrow> string \<Rightarrow> line_result" where
  "got_line dec line = (Some (dec (rstrip_eol line)), 0, None)"

definition timed_out :: "string \<Rightarrow> line_result" where
  "timed_out timeout = (None, ETIMEDOUT, Some (''Timeout after '' @ timeout @ '' seconds waiting for output''))"

fun read_loop ::
  "(string \<Rightarrow> string) \<Rightarrow> string \<Rightarrow> string \<Rightarrow> int option \<Rightarrow> string \<Rightarrow> pipe_event list \<Rightarrow> line_result \<times> line_reader" where
  "read_loop dec timeout buffer code err [] = (timed_out timeout, \<lparr>rd_buffer = buffer, rd_exit = code, rd_stderr = err, rd_events = []\<rparr>)"
| "read_loop dec timeout buffer code err (TimeUp # es) =
     (timed_out timeout, \<lparr>rd_buffer = buffer, rd_exit = code, rd_stderr = err, rd_events = es\<rparr>)"
| "read_loop dec timeout buffer code err (NotReady # es) = read_loop dec timeout buffer code err es"
| "read_loop dec timeout buffer code err (Exits c # es) = read_loop dec timeout buffer (Some c) err es"
| "read_loop dec timeout buffer code err (ReadError msg # es) =
     ((None, -1, Some (''Unexpected error reading from subprocess: '' @ msg)),
      \<lparr>rd_buffer = buffer, rd_exit = code, rd_stderr = err, rd_events = es\<rparr>)"
| "read_loop dec timeout buffer code err (EndOfFile # es) =
     (if buffer \<noteq> [] then got_line dec buffer else (None, 0, Some ''EOF''),
      \<lparr>rd_buffer = [], rd_exit = code, rd_stderr = err, rd_events = EndOfFile # es\<rparr>)"
| "read_loop dec timeout buffer code err (Chunk bs # es) =
     (if bs = [] then read_loop dec timeout buffer code err es
      else
        (case cut_line (buffer @ bs) of
           None \<Rightarrow> read_loop dec timeout (buffer @ bs) code err es
         | Some (line, rest) \<Rightarrow>
             (let r = poll \<lparr>rd_buffer = rest, rd_exit = code, rd_stderr = err, rd_events = es\<rparr> in
              case check_crash dec r of
                Some res \<Rightarrow> res
              | None \<Rightarrow> (got_line dec line, r))))"

definition readline :: "(string \<Rightarrow> string) \<Rightarrow> string \<Rightarrow> line_reader \<Rightarrow> line_result \<times> line_reader" where
  "readline dec timeout r0 =
     (let r = poll r0 in
      case check_crash dec r of
        Some res \<Rightarrow> res
      | None \<Rightarrow>
          (case cut_line (rd_buffer r) of
             Some (line, rest) \<Rightarrow> (got_line dec line, r\<lparr>rd_buffer := rest\<rparr>)
           | None \<Rightarrow> read_loop dec timeout (rd_buffer r) (rd_exit r) (rd_stderr r) (rd_events r)))"

section \<open>ExaidProxy\<close>

text \<open>\<open>s.split(sep, maxsplit=1)\<close>, as \<open>first\<close> returns it.\<close>

definition first :: "string \<Rightarrow> string \<times> string option" where
  "first line =
     (if CHR '' '' \<in> set line
      then (takeWhile (\<lambda>c. c \<noteq> CHR '' '') line, Some (tl (dropWhile (\<lambda>c. c \<noteq> CHR '' '') line)))
      else (line, None))"

datatype proxy_error = ProxyOSError int string | SubprocessNotOK string "string option"

text \<open>\<open>px_process\<close> is the reader of the process that runs, \<open>px_sent\<close> what it was told.\<close>

record proxy =
  px_process :: "line_reader option"
  px_started :: nat
  px_sent :: "string list"

text \<open>The property \<open>process\<close> starts one if there is none; \<open>spawn n\<close> is what the n-th will do.\<close>

definition with_process :: "(nat \<Rightarrow> line_reader) \<Rightarrow> proxy \<Rightarrow> line_reader \<times> proxy" where
  "with_process spawn p =
     (case px_process p of
        Some r \<Rightarrow> (r, p)
      | None \<Rightarrow>
          (let r = spawn (px_started p) in
           (r, p\<lparr>px_process := Some r, px_started := px_started p + 1, px_sent := []\<rparr>)))"

definition command_line :: "string list \<Rightarrow> string" where
  "command_line objects = join '' '' objects @ [newline]"

text \<open>A pipe whose reader has exited refuses to be written.\<close>

definition px_write :: "(nat \<Rightarrow> line_reader) \<Rightarrow> string list \<Rightarrow> proxy \<Rightarrow> proxy \<times> (proxy_error + unit)" where
  "px_write spawn objects p =
     (let (r, p) = with_process spawn p; r = poll r; p = p\<lparr>px_process := Some r\<rparr> in
      if rd_exit r \<noteq> None then (p, Inl (ProxyOSError EPIPE ''Broken pipe''))
      else (p\<lparr>px_sent := px_sent p @ [command_line objects]\<rparr>, Inr ()))"

text \<open>The bytes that are still to come.\<close>

fun pipe_bytes :: "pipe_event list \<Rightarrow> string" where
  "pipe_bytes [] = []"
| "pipe_bytes (Chunk bs # es) = bs @ pipe_bytes es"
| "pipe_bytes (EndOfFile # es) = []"
| "pipe_bytes (_ # es) = pipe_bytes es"

definition os_error :: "(string \<Rightarrow> string) \<Rightarrow> int \<Rightarrow> string option \<Rightarrow> line_reader \<Rightarrow> proxy_error" where
  "os_error dec eno error_msg r =
     ProxyOSError (if eno \<noteq> 0 then eno else EPIPE)
       ((case error_msg of None \<Rightarrow> ''stdout closed unexpectedly''
         | Some m \<Rightarrow> if m = [] then ''stdout closed unexpectedly'' else m)
        @ [newline] @ ''STDOUT:'' @ [newline] @ dec (pipe_bytes (rd_events r))
        @ [newline] @ ''STDERR:'' @ [newline] @ dec (rd_stderr r))"

section \<open>Lines\<close>

text \<open>The lines of a text with their ends, the last one perhaps without.\<close>

fun lines_of :: "string \<Rightarrow> string list" where
  "lines_of [] = []"
| "lines_of (c # cs) =
     (if c = newline then [c] # lines_of cs
      else (case lines_of cs of [] \<Rightarrow> [[c]] | l # ls \<Rightarrow> (c # l) # ls))"

lemma lines_of_cut: "cut_line s = Some (l, r) \<Longrightarrow> lines_of s = l # lines_of r"
  by (induction s arbitrary: l) (auto split: if_splits option.splits)

lemma lines_of_no_cut: "cut_line s = None \<Longrightarrow> lines_of s = (if s = [] then [] else [s])"
  by (induction s) (auto split: if_splits option.splits)

lemma cut_line_append: "cut_line s = Some (l, r) \<Longrightarrow> cut_line (s @ t) = Some (l, r @ t)"
  by (induction s arbitrary: l) (auto split: if_splits option.splits)

lemma cut_line_pieces: "cut_line s = Some (l, r) \<Longrightarrow> s = l @ r \<and> l \<noteq> []"
  by (induction s arbitrary: l) (auto split: if_splits option.splits)

section \<open>What a reader has still to give\<close>

definition pending :: "line_reader \<Rightarrow> string list" where
  "pending r = lines_of (rd_buffer r @ pipe_bytes (rd_events r))"

fun clean_exit :: "pipe_event \<Rightarrow> bool" where
  "clean_exit (Exits c) = (c = 0)"
| "clean_exit _ = True"

definition no_crash :: "line_reader \<Rightarrow> bool" where
  "no_crash r \<longleftrightarrow> rd_exit r \<in> {None, Some 0} \<and> list_all clean_exit (rd_events r)"

fun all_bytes :: "pipe_event list \<Rightarrow> nat" where
  "all_bytes [] = 0"
| "all_bytes (Chunk bs # es) = length bs + all_bytes es"
| "all_bytes (_ # es) = all_bytes es"

lemma poll_events_facts:
  assumes "poll_events code es = (code', es')"
  shows "pipe_bytes es' = pipe_bytes es" "all_bytes es' = all_bytes es"
    "code \<in> {None, Some 0} \<Longrightarrow> list_all clean_exit es \<Longrightarrow> code' \<in> {None, Some 0} \<and> list_all clean_exit es'"
  using assms by (induction code es rule: poll_events.induct) auto

lemma poll_facts [simp]:
  "rd_buffer (poll r) = rd_buffer r" "pipe_bytes (rd_events (poll r)) = pipe_bytes (rd_events r)"
  "all_bytes (rd_events (poll r)) = all_bytes (rd_events r)" "rd_stderr (poll r) = rd_stderr r"
  using poll_events_facts(1,2) [of "rd_exit r" "rd_events r"]
  by (auto simp: poll_def split: prod.splits)

lemma no_crash_poll: "no_crash r \<Longrightarrow> no_crash (poll r)"
  using poll_events_facts(3) [of "rd_exit r" "rd_events r"]
  by (auto simp: poll_def no_crash_def split: prod.splits)

lemma no_crash_check: "no_crash r \<Longrightarrow> check_crash dec r = None"
  by (auto simp: no_crash_def check_crash_def)

text \<open>What one call did, seen on the lines that were to come.\<close>

definition step_ok :: "(string \<Rightarrow> string) \<Rightarrow> string list \<Rightarrow> line_result \<Rightarrow> line_reader \<Rightarrow> bool" where
  "step_ok dec ls res r' =
     (no_crash r' \<and>
      (case res of
         (Some l, eno, msg) \<Rightarrow> eno = 0 \<and> msg = None \<and> ls \<noteq> [] \<and> l = dec (rstrip_eol (hd ls)) \<and> pending r' = tl ls
       | (None, eno, msg) \<Rightarrow> pending r' = ls \<and> (eno = 0 \<longrightarrow> ls = [])))"

lemma read_loop_step:
  "cut_line buffer = None \<Longrightarrow> no_crash \<lparr>rd_buffer = buffer, rd_exit = code, rd_stderr = err, rd_events = es\<rparr> \<Longrightarrow>
   step_ok dec (lines_of (buffer @ pipe_bytes es)) (fst (read_loop dec t buffer code err es))
     (snd (read_loop dec t buffer code err es))"
proof (induction dec t buffer code err es rule: read_loop.induct)
  case (7 dec t buffer code err bs es)
  show ?case
  proof (cases "cut_line (buffer @ bs)")
    case None
    with 7 show ?thesis by (simp add: no_crash_def)
  next
    case (Some p)
    obtain line rest where p: "p = (line, rest)" by (cases p)
    define r where "r = poll \<lparr>rd_buffer = rest, rd_exit = code, rd_stderr = err, rd_events = es\<rparr>"
    have nc: "no_crash r" unfolding r_def by (rule no_crash_poll) (use 7(4) in \<open>simp add: no_crash_def\<close>)
    have "bs \<noteq> []" using Some 7(3) by auto
    then have run: "read_loop dec t buffer code err (Chunk bs # es) = (got_line dec line, r)"
      by (simp add: Some p r_def [symmetric] Let_def no_crash_check [OF nc])
    have "lines_of (buffer @ bs @ pipe_bytes es) = line # lines_of (rest @ pipe_bytes es)"
      using lines_of_cut [OF cut_line_append [OF Some [unfolded p]], of "pipe_bytes es"] by simp
    then show ?thesis using nc unfolding run by (simp add: step_ok_def got_line_def pending_def) (simp add: r_def)
  qed
qed (auto simp: step_ok_def pending_def no_crash_def timed_out_def got_line_def ETIMEDOUT_def lines_of_no_cut)

lemma readline_step:
  assumes "no_crash r" shows "step_ok dec (pending r) (fst (readline dec t r)) (snd (readline dec t r))"
proof -
  define q where "q = poll r"
  have q: "no_crash q" "pending r = lines_of (rd_buffer q @ pipe_bytes (rd_events q))"
    using no_crash_poll [OF assms] by (simp_all add: q_def pending_def)
  have run: "readline dec t r = (case cut_line (rd_buffer q) of
             Some (line, rest) \<Rightarrow> (got_line dec line, q\<lparr>rd_buffer := rest\<rparr>)
           | None \<Rightarrow> read_loop dec t (rd_buffer q) (rd_exit q) (rd_stderr q) (rd_events q))"
    by (simp add: readline_def Let_def q_def [symmetric] no_crash_check [OF q(1)] del: poll_facts)
  show ?thesis
  proof (cases "cut_line (rd_buffer q)")
    case None
    have "no_crash \<lparr>rd_buffer = rd_buffer q, rd_exit = rd_exit q, rd_stderr = rd_stderr q, rd_events = rd_events q\<rparr>"
      using q(1) by (simp add: no_crash_def)
    from read_loop_step [OF None this] None show ?thesis unfolding run q(2) by simp
  next
    case (Some p)
    obtain line rest where p: "p = (line, rest)" by (cases p)
    from lines_of_cut [OF cut_line_append [OF Some [unfolded p]], of "pipe_bytes (rd_events q)"]
    show ?thesis using q(1) unfolding run q(2) by (simp add: Some p step_ok_def got_line_def pending_def no_crash_def)
  qed
qed

section \<open>Every line consumes output\<close>

definition left_over :: "line_reader \<Rightarrow> nat" where
  "left_over r = length (rd_buffer r) + all_bytes (rd_events r)"

lemma read_loop_consumes:
  "fst (read_loop dec t buffer code err es) = (Some l, eno, msg)
     \<Longrightarrow> left_over (snd (read_loop dec t buffer code err es)) < length buffer + all_bytes es"
proof (induction dec t buffer code err es rule: read_loop.induct)
  case (7 dec t buffer code err bs es)
  show ?case
  proof (cases "cut_line (buffer @ bs)")
    case None
    with 7 show ?thesis by (auto split: if_splits)
  next
    case (Some p)
    obtain line rest where p: "p = (line, rest)" by (cases p)
    from cut_line_pieces [OF Some [unfolded p]] have "length buffer + length bs = length line + length rest" "line \<noteq> []"
      by (metis length_append, simp)
    with Some p 7(1,3) show ?thesis
      by (auto simp: Let_def check_crash_def left_over_def got_line_def split: if_splits option.splits)
  qed
qed (auto simp: timed_out_def left_over_def got_line_def split: if_splits)

lemma readline_consumes:
  "readline dec t r = ((Some l, eno, msg), r') \<Longrightarrow> left_over r' < left_over r"
proof -
  assume run: "readline dec t r = ((Some l, eno, msg), r')"
  show ?thesis
  proof (cases "cut_line (rd_buffer (poll r))")
    case None
    with run have "read_loop dec t (rd_buffer r) (rd_exit (poll r)) (rd_stderr r) (rd_events (poll r)) = ((Some l, eno, msg), r')"
      by (auto simp: readline_def Let_def check_crash_def split: option.splits if_splits)
    with read_loop_consumes [of dec t "rd_buffer r" "rd_exit (poll r)" "rd_stderr r" "rd_events (poll r)" l eno msg]
    show ?thesis by (simp add: left_over_def)
  next
    case (Some p)
    obtain line rest where p: "p = (line, rest)" by (cases p)
    from cut_line_pieces [OF Some [unfolded p]] have "length (rd_buffer r) = length line + length rest" "line \<noteq> []"
      by (metis length_append poll_facts(1), simp)
    with run Some p show ?thesis
      by (auto simp: readline_def Let_def check_crash_def left_over_def split: option.splits if_splits)
  qed
qed

section \<open>Answers\<close>

function readinfo ::
  "(string \<Rightarrow> string) \<Rightarrow> string \<Rightarrow> line_reader \<Rightarrow> (proxy_error + string option) \<times> line_reader option" where
  "readinfo dec timeout r =
     (case readline dec timeout r of
        ((None, eno, msg), r') \<Rightarrow> (Inl (os_error dec eno msg r'), None)
      | ((Some line, eno, msg), r') \<Rightarrow>
          if eno \<noteq> 0 then (Inl (os_error dec eno msg r'), None)
          else if fst (first line) = ''OVERHEATING:'' then readinfo dec timeout r'
          else if fst (first line) \<noteq> ''OK'' then (Inl (SubprocessNotOK line msg), Some r')
          else (Inr (snd (first line)), Some r'))"
  by pat_completeness auto
termination
  by (relation "measure (\<lambda>(dec, timeout, r). left_over r)") (auto dest: readline_consumes [OF sym])

declare readinfo.simps [simp del]

definition px_readinfo ::
  "(string \<Rightarrow> string) \<Rightarrow> (nat \<Rightarrow> line_reader) \<Rightarrow> string \<Rightarrow> proxy \<Rightarrow> proxy \<times> (proxy_error + string option)" where
  "px_readinfo dec spawn timeout p =
     (let (r, p) = with_process spawn p; (res, r') = readinfo dec timeout r
      in (p\<lparr>px_process := r'\<rparr>, res))"

definition request ::
  "(string \<Rightarrow> string) \<Rightarrow> (nat \<Rightarrow> line_reader) \<Rightarrow> string \<Rightarrow> string list \<Rightarrow> proxy \<Rightarrow> proxy \<times> (proxy_error + string option)" where
  "request dec spawn timeout objects p =
     (case px_write spawn objects p of
        (p, Inl e) \<Rightarrow> (p, Inl e)
      | (p, Inr _) \<Rightarrow> px_readinfo dec spawn timeout p)"

fun requests ::
  "(string \<Rightarrow> string) \<Rightarrow> (nat \<Rightarrow> line_reader) \<Rightarrow> (string \<times> string list) list \<Rightarrow> proxy \<Rightarrow> proxy \<times> (proxy_error + string option) list" where
  "requests dec spawn [] p = (p, [])"
| "requests dec spawn ((timeout, objects) # cmds) p =
     (let (p, res) = request dec spawn timeout objects p;
          (p, rest) = requests dec spawn cmds p
      in (p, res # rest))"

text \<open>What the answer line \<open>l\<close> means to the caller.\<close>

definition answer :: "string \<Rightarrow> proxy_error + string option" where
  "answer l = (if fst (first l) = ''OK'' then Inr (snd (first l)) else Inl (SubprocessNotOK l None))"

definition is_warning :: "string \<Rightarrow> bool" where
  "is_warning l \<longleftrightarrow> fst (first l) = ''OVERHEATING:''"

section \<open>A process that answers\<close>

text \<open>The process neither exits nor is late, and what it prints from now on are the lines \<open>ls\<close>.\<close>

fun prompt_event :: "pipe_event \<Rightarrow> bool" where
  "prompt_event (Chunk bs) = True"
| "prompt_event NotReady = True"
| "prompt_event _ = False"

definition prints :: "line_reader \<Rightarrow> string list \<Rightarrow> bool" where
  "prints r ls \<longleftrightarrow>
     rd_exit r = None \<and> list_all prompt_event (rd_events r)
     \<and> rd_buffer r @ pipe_bytes (rd_events r) = concat (map (\<lambda>l. l @ [newline]) ls)"

definition plain_line :: "string \<Rightarrow> bool" where
  "plain_line l \<longleftrightarrow> list_all (\<lambda>c. c \<noteq> newline \<and> c \<noteq> CHR 0x0D) l"

lemma cut_line_plain: "plain_line l \<Longrightarrow> cut_line (l @ newline # t) = Some (l @ [newline], t)"
  by (induction l) (auto simp: plain_line_def)

lemma rstrip_plain: "plain_line l \<Longrightarrow> rstrip_eol (l @ [newline]) = l"
proof -
  assume "plain_line l"
  then have "dropWhile (\<lambda>c. c = newline \<or> c = CHR 0x0D) (rev l) = rev l"
    by (cases l rule: rev_cases) (auto simp: plain_line_def)
  then show ?thesis by (simp add: rstrip_eol_def)
qed

lemma poll_prompt: "rd_exit r = None \<Longrightarrow> list_all prompt_event (rd_events r) \<Longrightarrow> poll r = r"
proof -
  assume "rd_exit r = None" "list_all prompt_event (rd_events r)"
  then have "poll_events None (rd_events r) = (None, rd_events r)"
    by (cases "rd_events r"; cases "hd (rd_events r)") auto
  with \<open>rd_exit r = None\<close> show ?thesis by (simp add: poll_def)
qed

lemma read_loop_prompt:
  "list_all prompt_event es \<Longrightarrow> cut_line buffer = None \<Longrightarrow> cut_line (buffer @ pipe_bytes es) = Some (l, t) \<Longrightarrow>
   \<exists>r'. read_loop dec tmo buffer None err es = (got_line dec l, r') \<and> rd_exit r' = None
      \<and> list_all prompt_event (rd_events r') \<and> rd_buffer r' @ pipe_bytes (rd_events r') = t"
proof (induction es arbitrary: buffer)
  case (Cons e es)
  show ?case
  proof (cases e)
    case (Chunk bs)
    show ?thesis
    proof (cases "cut_line (buffer @ bs)")
      case None
      with Cons.IH [of "buffer @ bs"] Cons.prems Chunk show ?thesis by (auto split: option.splits)
    next
      case (Some p)
      obtain l' rest where p: "p = (l', rest)" by (cases p)
      have poll: "poll \<lparr>rd_buffer = rest, rd_exit = None, rd_stderr = err, rd_events = es\<rparr>
          = \<lparr>rd_buffer = rest, rd_exit = None, rd_stderr = err, rd_events = es\<rparr>"
        using Cons.prems(1) by (intro poll_prompt) simp_all
      have "bs \<noteq> []" using Some Cons.prems(2) by auto
      moreover have "l' = l" "rest @ pipe_bytes es = t"
        using cut_line_append [OF Some [unfolded p], of "pipe_bytes es"] Cons.prems(3) Chunk by auto
      ultimately show ?thesis
        using Cons.prems(1) by (simp add: Chunk Some p poll Let_def check_crash_def)
    qed
  qed (use Cons in auto)
qed simp

lemma readline_prompt:
  assumes "prints r (l # ls)" "plain_line l"
  obtains r' where "readline dec tmo r = ((Some (dec l), 0, None), r')" "prints r' ls"
proof -
  from assms(1) have r: "rd_exit r = None" "list_all prompt_event (rd_events r)"
    and bytes: "rd_buffer r @ pipe_bytes (rd_events r) = l @ newline # concat (map (\<lambda>l. l @ [newline]) ls)"
    by (simp_all add: prints_def)
  note poll = poll_prompt [OF r]
  have cut: "cut_line (rd_buffer r @ pipe_bytes (rd_events r)) = Some (l @ [newline], concat (map (\<lambda>l. l @ [newline]) ls))"
    unfolding bytes by (rule cut_line_plain [OF assms(2)])
  show thesis
  proof (cases "cut_line (rd_buffer r)")
    case None
    from read_loop_prompt [OF r(2) None cut, of dec tmo "rd_stderr r"] show thesis
      by (auto simp: readline_def poll Let_def check_crash_def r None got_line_def rstrip_plain [OF assms(2)] prints_def
          intro!: that)
  next
    case (Some p)
    obtain l' rest where p: "p = (l', rest)" by (cases p)
    have "l' = l @ [newline]" "rest @ pipe_bytes (rd_events r) = concat (map (\<lambda>l. l @ [newline]) ls)"
      using cut_line_append [OF Some [unfolded p], of "pipe_bytes (rd_events r)"] cut by auto
    then show thesis using r
      by (intro that [of "r\<lparr>rd_buffer := rest\<rparr>"])
        (simp_all add: readline_def poll Let_def check_crash_def Some p got_line_def rstrip_plain [OF assms(2)] prints_def)
  qed
qed

lemma readinfo_prompt:
  assumes "prints r (ws @ l # ls)" "list_all plain_line (ws @ [l])" "list_all (is_warning \<circ> dec) ws" "\<not> is_warning (dec l)"
  shows "\<exists>r'. readinfo dec tmo r = (answer (dec l), Some r') \<and> prints r' ls"
  using assms
proof (induction ws arbitrary: r)
  case Nil
  then obtain r' where "readline dec tmo r = ((Some (dec l), 0, None), r')" "prints r' ls"
    using readline_prompt [of r l ls dec tmo] by auto
  with Nil(4) show ?case by (subst readinfo.simps) (simp add: answer_def is_warning_def)
next
  case (Cons w ws)
  then obtain r' where r': "readline dec tmo r = ((Some (dec w), 0, None), r')" "prints r' (ws @ l # ls)"
    using readline_prompt [of r w "ws @ l # ls" dec tmo] by auto
  have "readinfo dec tmo r = readinfo dec tmo r'"
    using Cons(4) by (subst readinfo.simps) (simp add: r' is_warning_def)
  with Cons.IH [OF r'(2)] Cons.prems show ?case by simp
qed

lemma split_answers:
  assumes "filter (\<lambda>l. \<not> is_warning (dec l)) ls = a # as"
  obtains ws rest where "ls = ws @ a # rest" "list_all (is_warning \<circ> dec) ws" "\<not> is_warning (dec a)"
    "filter (\<lambda>l. \<not> is_warning (dec l)) rest = as"
  using assms by (auto simp: filter_eq_Cons_iff list_all_iff)

lemma request_prompt:
  assumes "px_process p = Some r" "prints r ls" "list_all plain_line ls"
    "filter (\<lambda>l. \<not> is_warning (dec l)) ls = a # as"
  obtains r' ls' where
    "request dec spawn tmo objects p
       = (p\<lparr>px_process := Some r', px_sent := px_sent p @ [command_line objects]\<rparr>, answer (dec a))"
    "prints r' ls'" "list_all plain_line ls'" "filter (\<lambda>l. \<not> is_warning (dec l)) ls' = as"
proof -
  obtain ws rest where ls: "ls = ws @ a # rest" "list_all (is_warning \<circ> dec) ws" "\<not> is_warning (dec a)"
    "filter (\<lambda>l. \<not> is_warning (dec l)) rest = as" using split_answers [OF assms(4)] by blast
  have poll: "poll r = r" "rd_exit r = None" using poll_prompt [of r] assms(2) by (simp_all add: prints_def)
  obtain r' where "readinfo dec tmo r = (answer (dec a), Some r')" "prints r' rest"
    using readinfo_prompt [of r ws a rest dec tmo] assms(2,3) ls by auto
  with ls assms(1,3) poll that [of r' rest] show thesis
    by (simp add: request_def px_write_def px_readinfo_def with_process_def Let_def)
qed

text \<open>
  C33: The proxy and its subprocess stay in step. Whatever the chunks in which the output arrives
  and however many warnings about overheating are printed in between, the i-th command that is
  written gets the i-th answer of the process, and all commands reach the same process in order.
\<close>

lemma exaid_in_step:
  assumes "px_process p = Some r" and "prints r ls" and "list_all plain_line ls"
    and "length cmds \<le> length (filter (\<lambda>l. \<not> is_warning (dec l)) ls)"
  shows "\<exists>r'. requests dec spawn cmds p
      = (p\<lparr>px_process := Some r', px_sent := px_sent p @ map (\<lambda>(tmo, objects). command_line objects) cmds\<rparr>,
         map (answer \<circ> dec) (take (length cmds) (filter (\<lambda>l. \<not> is_warning (dec l)) ls)))"
  using assms
proof (induction cmds arbitrary: p r ls)
  case Nil
  then show ?case by (intro exI [of _ r]) simp
next
  case (Cons c cmds)
  obtain tmo objects where c: "c = (tmo, objects)" by (cases c)
  obtain a as where as: "filter (\<lambda>l. \<not> is_warning (dec l)) ls = a # as"
    using Cons.prems(4) by (cases "filter (\<lambda>l. \<not> is_warning (dec l)) ls") simp_all
  obtain r1 ls1 where step: "request dec spawn tmo objects p
       = (p\<lparr>px_process := Some r1, px_sent := px_sent p @ [command_line objects]\<rparr>, answer (dec a))"
    "prints r1 ls1" "list_all plain_line ls1" "filter (\<lambda>l. \<not> is_warning (dec l)) ls1 = as"
    using request_prompt [OF Cons.prems(1-3) as] by metis
  define p1 where "p1 = p\<lparr>px_process := Some r1, px_sent := px_sent p @ [command_line objects]\<rparr>"
  obtain r' where "requests dec spawn cmds p1
      = (p1\<lparr>px_process := Some r', px_sent := px_sent p1 @ map (\<lambda>(tmo, objects). command_line objects) cmds\<rparr>,
         map (answer \<circ> dec) (take (length cmds) as))"
    using Cons.IH [of p1 r1 ls1] Cons.prems(4) step by (auto simp: p1_def as)
  then show ?case
    by (intro exI [of _ r']) (simp add: c step(1) p1_def [symmetric] Let_def as, simp add: p1_def)
qed

lemma exaid_in_step_witness:
  "\<exists>r'. requests (\<lambda>s. s) (\<lambda>n. undefined) [(''10'', [''probe'', ''/d'']), (''30'', [''benchmark'', ''/d'', ''k=0''])]
        \<lparr>px_process = Some \<lparr>rd_buffer = [], rd_exit = None, rd_stderr = [],
           rd_events = [Chunk (''OVERHEATING: 101'' @ [newline] @ ''O''), NotReady, Chunk (''K 1'' @ [newline] @ ''Er''),
                        Chunk (''ror'' @ [newline])]\<rparr>,
         px_started = 1, px_sent = []\<rparr>
      = (\<lparr>px_process = Some r', px_started = 1,
           px_sent = [''probe /d'' @ [newline], ''benchmark /d k=0'' @ [newline]]\<rparr>,
         [Inr (Some ''1''), Inl (SubprocessNotOK ''Error'' None)])"
  using exaid_in_step [of
      "\<lparr>px_process = Some \<lparr>rd_buffer = [], rd_exit = None, rd_stderr = [],
           rd_events = [Chunk (''OVERHEATING: 101'' @ [newline] @ ''O''), NotReady, Chunk (''K 1'' @ [newline] @ ''Er''),
                        Chunk (''ror'' @ [newline])]\<rparr>, px_started = 1, px_sent = []\<rparr>"
      "\<lparr>rd_buffer = [], rd_exit = None, rd_stderr = [],
           rd_events = [Chunk (''OVERHEATING: 101'' @ [newline] @ ''O''), NotReady, Chunk (''K 1'' @ [newline] @ ''Er''),
                        Chunk (''ror'' @ [newline])]\<rparr>"
      "[''OVERHEATING: 101'', ''OK 1'', ''Error'']"
      "[(''10'', [''probe'', ''/d'']), (''30'', [''benchmark'', ''/d'', ''k=0''])]" "\<lambda>s. s" "\<lambda>n. undefined"]
  by (simp add: prints_def plain_line_def is_warning_def first_def answer_def newline_def command_line_def)

section \<open>When it fails\<close>

text \<open>
  Lines are never lost, doubled or reordered by a reader whose process does not crash, whatever
  calls run into their timeout: the lines returned and those still to come are the lines of the output.
\<close>

fun readlines :: "(string \<Rightarrow> string) \<Rightarrow> string list \<Rightarrow> line_reader \<Rightarrow> line_result list \<times> line_reader" where
  "readlines dec [] r = ([], r)"
| "readlines dec (t # ts) r =
     (let (res, r) = readline dec t r; (rest, r) = readlines dec ts r in (res # rest, r))"

lemma reader_in_order:
  "no_crash r \<Longrightarrow> readlines dec ts r = (results, r') \<Longrightarrow>
     List.map_filter fst results @ map (dec \<circ> rstrip_eol) (pending r') = map (dec \<circ> rstrip_eol) (pending r)
     \<and> list_all (\<lambda>(line, eno, msg). line = None \<and> eno = 0 \<longrightarrow> pending r' = []) results"
proof (induction dec ts r arbitrary: results rule: readlines.induct)
  case (2 dec t ts r)
  obtain line eno msg r1 where step: "readline dec t r = ((line, eno, msg), r1)" by (metis prod.collapse)
  obtain rest where rest: "readlines dec ts r1 = (rest, r')" "results = (line, eno, msg) # rest"
    using 2(3) by (auto simp: step Let_def split: prod.splits)
  have ok: "step_ok dec (pending r) (line, eno, msg) r1" using readline_step [OF 2(2), of dec t] by (simp add: step)
  then have nc: "no_crash r1" by (simp add: step_ok_def)
  note IH = 2(1) [OF step [symmetric] refl nc rest(1)]
  show ?case
  proof (cases line)
    case None
    with ok IH show ?thesis by (auto simp: step_ok_def rest(2) List.map_filter_simps)
  next
    case (Some l)
    with ok have "pending r = hd (pending r) # pending r1" "l = dec (rstrip_eol (hd (pending r)))"
      by (simp_all add: step_ok_def)
    then have "map (dec \<circ> rstrip_eol) (pending r) = l # map (dec \<circ> rstrip_eol) (pending r1)"
      by (metis comp_apply list.simps(9))
    with IH Some show ?thesis by (simp add: rest(2) List.map_filter_simps comp_def)
  qed
qed (simp add: List.map_filter_simps)

text \<open>An OSError ends the process, so the next command starts a new one, whose output is its own.\<close>

lemma os_error_ends_process:
  "readinfo dec t r = (Inl (ProxyOSError eno text), q) \<Longrightarrow> q = None"
proof (induction dec t r rule: readinfo.induct)
  case (1 dec t r)
  then show ?case
    by (subst (asm) (2) readinfo.simps) (auto split: prod.splits option.splits if_splits)
qed

text \<open>
  A process that dies while no answer is awaited is never replaced: every command fails with a
  broken pipe, and none is answered.
\<close>

lemma poll_idem [simp]: "poll (poll r) = poll r" "rd_exit (poll (poll r)) = rd_exit (poll r)"
proof -
  have "poll_events code es = (code', es') \<Longrightarrow> poll_events code' es' = (code', es')" for code es code' es'
    by (induction code es rule: poll_events.induct) auto
  then show "poll (poll r) = poll r" by (auto simp: poll_def split: prod.splits)
  then show "rd_exit (poll (poll r)) = rd_exit (poll r)" by simp
qed

lemma dead_proxy_stuck:
  "px_process p = Some r \<Longrightarrow> rd_exit (poll r) \<noteq> None
     \<Longrightarrow> list_all (\<lambda>res. res = Inl (ProxyOSError EPIPE ''Broken pipe'')) (snd (requests dec spawn cmds p))
        \<and> px_started (fst (requests dec spawn cmds p)) = px_started p"
proof (induction cmds arbitrary: p r)
  case (Cons c cmds)
  obtain tmo objects where c: "c = (tmo, objects)" by (cases c)
  define q where "q = p\<lparr>px_process := Some (poll r)\<rparr>"
  have "request dec spawn tmo objects p = (q, Inl (ProxyOSError EPIPE ''Broken pipe''))"
    using Cons.prems by (simp add: request_def px_write_def with_process_def q_def Let_def)
  moreover have "px_process q = Some (poll r)" "rd_exit (poll (poll r)) \<noteq> None" "px_started q = px_started p"
    using Cons.prems(2) by (simp_all add: q_def)
  ultimately show ?case using Cons.IH [of q "poll r"] by (auto simp: c split: prod.splits)
qed simp

text \<open>A complete line that was read when the crash is noticed is dropped.\<close>

lemma crash_drops_line:
  "readline (\<lambda>s. s) ''10'' \<lparr>rd_buffer = [], rd_exit = None, rd_stderr = ''Killed'', rd_events = [Chunk (''OK 5'' @ [newline]), Exits 9]\<rparr>
     = ((None, 9, Some ''Killed''), \<lparr>rd_buffer = [], rd_exit = Some 9, rd_stderr = [], rd_events = []\<rparr>)"
  by code_simp

section \<open>ExaidWorker\<close>

datatype worker_error = FromProxy proxy_error | FromPython pyerr

definition prepare_command :: "string \<Rightarrow> string \<Rightarrow> string list \<Rightarrow> string list" where
  "prepare_command entry_text workdir extra_im_texts = [''prepare_data'', entry_text, workdir] @ extra_im_texts"

definition probe_command :: "string \<Rightarrow> string list" where
  "probe_command workdir = [''probe'', workdir]"

definition benchmark_command :: "string \<Rightarrow> string \<Rightarrow> int \<Rightarrow> string list" where
  "benchmark_command workdir kname hsaco_index = [''benchmark'', workdir, kname @ ''='' @ show_int hsaco_index]"

definition worker_prepare ::
  "(string \<Rightarrow> string) \<Rightarrow> (nat \<Rightarrow> line_reader) \<Rightarrow> string \<Rightarrow> string \<Rightarrow> string list \<Rightarrow> proxy \<Rightarrow> proxy \<times> (proxy_error + string option)" where
  "worker_prepare dec spawn entry_text workdir extra_im_texts =
     request dec spawn ''120'' (prepare_command entry_text workdir extra_im_texts)"

text \<open>\<open>json.loads\<close> of None is a TypeError.\<close>

definition load_info :: "proxy_error + string option \<Rightarrow> worker_error + pyobj" where
  "load_info res =
     (case res of
        Inl e \<Rightarrow> Inl (FromProxy e)
      | Inr None \<Rightarrow> Inl (FromPython TypeError)
      | Inr (Some s) \<Rightarrow> (case loads s of Inl e \<Rightarrow> Inl (FromPython e) | Inr v \<Rightarrow> Inr v))"

text \<open>The log line after the answer asks for its length, or for a key.\<close>

definition use_info :: "(pyobj \<Rightarrow> pyobj res) \<Rightarrow> worker_error + pyobj \<Rightarrow> worker_error + pyobj" where
  "use_info log res =
     (case res of
        Inl e \<Rightarrow> Inl e
      | Inr v \<Rightarrow> (case log v of Inl e \<Rightarrow> Inl (FromPython e) | Inr w \<Rightarrow> Inr w))"

definition worker_probe ::
  "(string \<Rightarrow> string) \<Rightarrow> (nat \<Rightarrow> line_reader) \<Rightarrow> string \<Rightarrow> proxy \<Rightarrow> proxy \<times> (worker_error + pyobj)" where
  "worker_probe dec spawn workdir p =
     (let (p, res) = request dec spawn ''10'' (probe_command workdir) p
      in (p, use_info (\<lambda>v. rmap (\<lambda>_. v) (obj_len v)) (load_info res)))"

definition worker_benchmark ::
  "(string \<Rightarrow> string) \<Rightarrow> (nat \<Rightarrow> line_reader) \<Rightarrow> string \<Rightarrow> string \<Rightarrow> int \<Rightarrow> proxy \<Rightarrow> proxy \<times> (worker_error + pyobj)" where
  "worker_benchmark dec spawn workdir kname hsaco_index p =
     (let (p, res) = request dec spawn ''30'' (benchmark_command workdir kname hsaco_index) p
      in (p, use_info (\<lambda>v. rmap (\<lambda>_. v) (obj_get_or v ''result'' ONone)) (load_info res)))"

text \<open>\<open>in_time\<close>: the process ends within the 0.2 seconds that \<open>join\<close> waits for it.\<close>

definition px_join :: "bool \<Rightarrow> proxy \<Rightarrow> proxy" where
  "px_join in_time p =
     (case px_process p of
        None \<Rightarrow> p
      | Some r \<Rightarrow> if in_time then p\<lparr>px_process := Some (r\<lparr>rd_exit := Some 0\<rparr>)\<rparr> else p\<lparr>px_process := None\<rparr>)"

definition worker_exit :: "(nat \<Rightarrow> line_reader) \<Rightarrow> bool \<Rightarrow> proxy \<Rightarrow> proxy \<times> (proxy_error + unit)" where
  "worker_exit spawn in_time p =
     (case px_write spawn [''exit''] p of
        (p, Inl e) \<Rightarrow> (p, Inl e)
      | (p, Inr _) \<Rightarrow> (px_join in_time p, Inr ()))"

end
