(* ===== verification/TuneCommand.thy ===== *)
theory TuneCommand
  imports TuneProcess TypedChoice
begin

text \<open>
  The commands between \<open>ExaidWorker\<close> and the subprocess: the text of an entry (\<open>as_text\<close> of
  \<open>v3python/tune/flash/module.py\<close>, \<open>parse_python\<close> of \<open>utils.py\<close>), the \<open>CommandProcessor\<close> of
  \<open>testrun.py\<close>, and the inputs that the flash module derives from an entry. \<open>eval\<close> is modelled
  on literals; what it does with any other expression is an argument, and so is the GPU side of a
  tuning module.
\<close>

section \<open>Values of an entry\<close>

datatype pval =
  VNone | VBool bool | VInt int | VFloat string | VStr string | VTuple "pval list" | VList "pval list"

type_synonym fentry = "(string, pval) dict"

definition quote :: char where
  "quote = CHR 0x27"

text \<open>\<open>tr\<close> of \<open>as_text\<close>; a float is represented by its text.\<close>

fun tr :: "pval \<Rightarrow> string" and trs :: "pval list \<Rightarrow> string list" where
  "tr (VStr s) = [quote] @ s @ [quote]"
| "tr (VTuple l) = ''('' @ join '','' (trs l) @ '')''"
| "tr (VList l) = ''['' @ join '','' (trs l) @ '']''"
| "tr VNone = ''None''"
| "tr (VBool b) = (if b then ''True'' else ''False'')"
| "tr (VInt i) = show_int i"
| "tr (VFloat f) = f"
| "trs [] = []"
| "trs (v # vs) = tr v # trs vs"

definition as_text :: "fentry \<Rightarrow> string" where
  "as_text e = join '';'' (map (\<lambda>(k, v). k @ ''='' @ tr v) e)"

text \<open>\<open>repr\<close> of a value (of a text without quotes) and \<open>str\<close>.\<close>

fun val_repr :: "pval \<Rightarrow> string" and val_reprs :: "pval list \<Rightarrow> string list" where
  "val_repr (VStr s) = [quote] @ s @ [quote]"
| "val_repr (VTuple l) = (case l of [v] \<Rightarrow> ''('' @ val_repr v @ '',)'' | _ \<Rightarrow> ''('' @ join '', '' (val_reprs l) @ '')'')"
| "val_repr (VList l) = ''['' @ join '', '' (val_reprs l) @ '']''"
| "val_repr VNone = ''None''"
| "val_repr (VBool b) = (if b then ''True'' else ''False'')"
| "val_repr (VInt i) = show_int i"
| "val_repr (VFloat f) = f"
| "val_reprs [] = []"
| "val_reprs (v # vs) = val_repr v # val_reprs vs"

definition val_str :: "pval \<Rightarrow> string" where
  "val_str v = (case v of VStr s \<Rightarrow> s | _ \<Rightarrow> val_repr v)"

definition entry_as_posix :: "fentry \<Rightarrow> string" where
  "entry_as_posix e = join '','' (map (\<lambda>(k, v). k @ ''='' @ val_str v) e)"

section \<open>Evaluating literals\<close>

definition is_sep :: "char \<Rightarrow> bool" where
  "is_sep c \<longleftrightarrow> c \<in> {CHR '','', CHR '')'', CHR '']''}"

definition atom_value :: "string \<Rightarrow> pval option" where
  "atom_value t =
     (if t = ''None'' then Some VNone
      else if t = ''True'' then Some (VBool True)
      else if t = ''False'' then Some (VBool False)
      else (case parse_number t of
              Inr (OInt i, []) \<Rightarrow> Some (VInt i)
            | Inr (OFloat f, []) \<Rightarrow> Some (VFloat f)
            | _ \<Rightarrow> None))"

definition str_char :: "char \<Rightarrow> bool" where
  "str_char c \<longleftrightarrow> c \<notin> {quote, backslash, newline, CHR 0x0D}"

text \<open>A parenthesised value without a comma is no tuple.\<close>

definition paren :: "pval list \<Rightarrow> bool \<Rightarrow> pval" where
  "paren vs comma = (case vs of [v] \<Rightarrow> if comma then VTuple vs else v | _ \<Rightarrow> VTuple vs)"

fun parse_lit :: "nat \<Rightarrow> string \<Rightarrow> (pval \<times> string) option"
  and parse_items :: "nat \<Rightarrow> char \<Rightarrow> string \<Rightarrow> (pval list \<times> bool \<times> string) option" where
  "parse_lit 0 s = None"
| "parse_lit (Suc n) s =
     (if startswith s [quote] then
        (let t = takeWhile str_char (tl s); u = dropWhile str_char (tl s)
         in if startswith u [quote] then Some (VStr t, tl u) else None)
      else if startswith s ''('' then
        map_option (\<lambda>(vs, comma, u). (paren vs comma, u)) (parse_items n (CHR '')'') (tl s))
      else if startswith s ''['' then
        map_option (\<lambda>(vs, comma, u). (VList vs, u)) (parse_items n (CHR '']'') (tl s))
      else
        map_option (\<lambda>v. (v, dropWhile (\<lambda>c. \<not> is_sep c) s)) (atom_value (takeWhile (\<lambda>c. \<not> is_sep c) s)))"
| "parse_items 0 close s = None"
| "parse_items (Suc n) close s =
     (if startswith s [close] then Some ([], False, tl s)
      else
        (case parse_lit n s of
           None \<Rightarrow> None
         | Some (v, u) \<Rightarrow>
             if startswith u [close] then Some ([v], False, tl u)
             else if startswith u '','' then
               map_option (\<lambda>(vs, comma, w). (v # vs, vs = [] \<or> comma, w)) (parse_items n close (tl u))
             else None))"

text \<open>\<open>eval(s)\<close>; the second argument of \<open>parse_lit\<close> bounds the nesting, the text's length is enough.\<close>

definition py_eval :: "(string \<Rightarrow> pval res) \<Rightarrow> string \<Rightarrow> pval res" where
  "py_eval other s =
     (case parse_lit (Suc (length s)) s of
        Some (v, []) \<Rightarrow> Inr v
      | _ \<Rightarrow> other s)"

section \<open>parse_python, parse_text\<close>

text \<open>\<open>assignment.split('=', maxsplit=1)\<close> must give two parts.\<close>

definition split_assign :: "string \<Rightarrow> (string \<times> string) res" where
  "split_assign s =
     (if CHR ''='' \<in> set s then Inr (takeWhile (\<lambda>c. c \<noteq> CHR ''='') s, tl (dropWhile (\<lambda>c. c \<noteq> CHR ''='') s))
      else Inl ValueError)"

definition parse_python :: "(string \<Rightarrow> pval res) \<Rightarrow> string \<Rightarrow> fentry res" where
  "parse_python other line =
     rmap dict_of
       (rtraverse (\<lambda>a. rbind (split_assign a) (\<lambda>(k, t). rmap (\<lambda>v. (k, v)) (py_eval other t)))
          (split_on (CHR '';'') line))"

text \<open>A data class called with keywords: unknown ones are a TypeError, missing ones keep their default.\<close>

definition dataclass_of :: "fentry \<Rightarrow> fentry \<Rightarrow> fentry res" where
  "dataclass_of defaults d =
     (if list_all (\<lambda>k. dhas defaults k) (dkeys d)
      then Inr (map (\<lambda>(k, v). (k, case dget d k of None \<Rightarrow> v | Some w \<Rightarrow> w)) defaults)
      else Inl TypeError)"

definition FlashEntry :: fentry where
  "FlashEntry =
     [(''dtype'', VStr ''float16''), (''hdim'', VInt 16), (''seqlen_q'', VInt 16), (''seqlen_k'', VInt 16),
      (''causal'', VInt 0), (''dropout_p'', VFloat ''0.0''), (''bias_type'', VInt 0)]"

definition FlashInputMetadata :: fentry where
  "FlashInputMetadata = FlashEntry @
     [(''N_HEADS'', VInt 5), (''BATCH'', VInt 3), (''sm_scale'', VStr ''l1''), (''storage_flip'', VBool False),
      (''prng_seed'', VInt 0x9be998d4cf175339)]"

definition entry_parse_text :: "(string \<Rightarrow> pval res) \<Rightarrow> string \<Rightarrow> fentry res" where
  "entry_parse_text other line = rbind (parse_python other line) (dataclass_of FlashEntry)"

definition input_parse_text :: "(string \<Rightarrow> pval res) \<Rightarrow> string \<Rightarrow> fentry res" where
  "input_parse_text other line = rbind (parse_python other line) (dataclass_of FlashInputMetadata)"

definition split_selector :: "string \<Rightarrow> (string \<times> int) res" where
  "split_selector line =
     (case split_on (CHR ''='') line of
        [name, index] \<Rightarrow> rmap (\<lambda>i. (name, i)) (parse_int index)
      | _ \<Rightarrow> Inl ValueError)"

definition kernel_selector :: "string \<Rightarrow> pyobj res" where
  "kernel_selector line =
     rmap (\<lambda>(name, i). mk_dict [(''kernel_name'', OStr name), (''hsaco_index'', OInt i), (''max_hsaco'', OInt (- 1))])
       (split_selector line)"

definition backend_selector :: "string \<Rightarrow> pyobj res" where
  "backend_selector line =
     rmap (\<lambda>(name, i). mk_dict [(''op_name'', OStr name), (''backend_index'', OInt i)]) (split_selector line)"

section \<open>CommandProcessor\<close>

text \<open>
  What the processor uses of the package it has imported: the parsers, and the methods of its
  \<open>TuneDesc\<close>, which run on the GPU and may raise.
\<close>

record tune_module =
  tm_entry_of :: "string \<Rightarrow> fentry res"
  tm_input_of :: "string \<Rightarrow> fentry res"
  tm_selector_of :: "string \<Rightarrow> pyobj res"
  tm_mkdir :: "string \<Rightarrow> unit res"
  tm_is_dir :: "string \<Rightarrow> bool"
  tm_has_entry :: "string \<Rightarrow> bool"
  tm_prepare_data :: "fentry \<Rightarrow> string \<Rightarrow> fentry list \<Rightarrow> unit res"
  tm_list_impls :: "string \<Rightarrow> string list res"
  tm_probe_backends :: "string \<Rightarrow> string \<Rightarrow> pyobj res"
  tm_benchmark :: "string \<Rightarrow> pyobj \<Rightarrow> (pyobj \<times> pyobj \<times> pyobj \<times> pyobj \<times> pyobj) res"

text \<open>What a command returns: None, an error text, or an object; and the lines it printed.\<close>

datatype reply = NoReply | ErrorText string | Reply pyobj

type_synonym command_result = "(string list \<times> reply) res"

definition silent :: "reply \<Rightarrow> command_result" where
  "silent r = Inr ([], r)"

definition command_names :: "string list" where
  "command_names = [''benchmark'', ''cleanup'', ''help'', ''module'', ''prepare_data'', ''probe'']"

definition command_help :: command_result where
  "command_help = Inr (''Available Commands:'' # map (\<lambda>c. CHR 0x09 # CHR '' '' # c) command_names, NoReply)"

text \<open>The module that the processor has after the command, and its result.\<close>

definition command_module ::
  "(string \<Rightarrow> tune_module option) \<Rightarrow> tune_module option \<Rightarrow> string option \<Rightarrow> tune_module option \<times> command_result" where
  "command_module load m line =
     (case line of
        None \<Rightarrow> (m, silent (ErrorText ''Missing Arguments. Expect: module <package name>''))
      | Some l \<Rightarrow>
          (case load (fst (first l)) of
             None \<Rightarrow> (m, silent (ErrorText (''Package Error. Import package '' @ fst (first l) @ '' error'')))
           | Some m' \<Rightarrow> (Some m', silent NoReply)))"

text \<open>\<open>while tail: im_text, tail = first(tail)\<close>.\<close>

function ims_of :: "string option \<Rightarrow> string list" where
  "ims_of None = []"
| "ims_of (Some t) = (if t = [] then [] else fst (first t) # ims_of (snd (first t)))"
  by pat_completeness auto
termination
proof (relation "measure (\<lambda>t. case t of None \<Rightarrow> 0 | Some s \<Rightarrow> Suc (length s))")
  fix t :: string
  assume "t \<noteq> []"
  moreover have "length (dropWhile (\<lambda>c. c \<noteq> CHR '' '') t) \<le> length t" by (rule length_dropWhile_le)
  moreover have "0 < length t" using \<open>t \<noteq> []\<close> by simp
  ultimately show "(snd (first t), Some t) \<in> measure (\<lambda>t. case t of None \<Rightarrow> 0 | Some s \<Rightarrow> Suc (length s))"
    by (simp add: first_def)
qed simp

declare ims_of.simps(2) [simp del]

definition no_module :: string where
  "no_module = ''Error: Need to run module <package name> first''"

definition prepare_args :: "tune_module \<Rightarrow> string \<Rightarrow> (fentry \<times> string \<times> fentry list) res" where
  "prepare_args m line =
     (let (entry_text, tail) = first line in
      rbind (of_option AttributeError tail) (\<lambda>t.
      let (odir, tail) = first t in
      rbind (tm_entry_of m entry_text) (\<lambda>entry.
      rbind (tm_mkdir m (posix_path odir)) (\<lambda>_.
      rmap (\<lambda>ims. (entry, posix_path odir, ims)) (rtraverse (tm_input_of m) (ims_of tail))))))"

definition command_prepare_data :: "tune_module option \<Rightarrow> string option \<Rightarrow> command_result" where
  "command_prepare_data m line =
     (case line of
        None \<Rightarrow> silent (ErrorText ''Syntax Error: Expect: prepare_data <entry> <odir> [im_text ...]'')
      | Some l \<Rightarrow>
          (case m of
             None \<Rightarrow> silent (ErrorText no_module)
           | Some m \<Rightarrow>
               (case prepare_args m l of
                  Inl _ \<Rightarrow> silent (ErrorText (''Error when parsing argument '' @ l))
                | Inr (entry, odir, ims) \<Rightarrow> rmap (\<lambda>_. ([], NoReply)) (tm_prepare_data m entry odir ims))))"

definition not_data_dir :: "string \<Rightarrow> string" where
  "not_data_dir d = d @ '' is not valid data director. Missing entry.json file.''"

definition command_probe :: "tune_module option \<Rightarrow> string option \<Rightarrow> command_result" where
  "command_probe m line =
     (case line of
        None \<Rightarrow> silent (ErrorText ''Missing Arguments. Expect: probe <data directory>'')
      | Some l \<Rightarrow>
          (case m of
             None \<Rightarrow> silent (ErrorText no_module)
           | Some m \<Rightarrow>
               (let d = posix_path (fst (first l)) in
                if \<not> tm_has_entry m d then silent (ErrorText (not_data_dir d))
                else
                  rbind (tm_list_impls m d) (\<lambda>ks.
                  rmap (\<lambda>rs. ([], Reply (mk_dict rs)))
                    (rtraverse (\<lambda>k. rmap (\<lambda>r. (k, r)) (tm_probe_backends m d k)) ks)))))"

text \<open>
  An exception while the selector is parsed is caught, but the handler uses the variable \<open>tail\<close>,
  which is not set: a NameError, which ends the process like any other.
\<close>

definition command_benchmark :: "tune_module option \<Rightarrow> string option \<Rightarrow> command_result" where
  "command_benchmark m line =
     (case line of
        None \<Rightarrow> silent (ErrorText
          ''Syntax Error: no package name. Expect: benchmark <data directory> <kernel selector>'')
      | Some l \<Rightarrow>
          (case m of
             None \<Rightarrow> silent (ErrorText no_module)
           | Some m \<Rightarrow>
               (let d = posix_path (fst (first l)) in
                case rbind (of_option AttributeError (snd (first l))) (tm_selector_of m) of
                  Inl _ \<Rightarrow> Inl NameError
                | Inr selector \<Rightarrow>
                    if \<not> tm_has_entry m d then silent (ErrorText (not_data_dir d))
                    else
                      rmap (\<lambda>(entry, impl_desc, adiffs, times, bim).
                          ([], Reply (mk_dict
                            [(''entry'', entry), (''impl_selection'', selector), (''impl_desc'', impl_desc),
                             (''adiffs'', adiffs), (''times'', times), (''bim'', bim)])))
                        (tm_benchmark m d selector))))"

text \<open>\<open>Path(None)\<close> is a TypeError; the directory is not removed.\<close>

definition command_cleanup :: "(string \<Rightarrow> bool) \<Rightarrow> (string \<Rightarrow> bool) \<Rightarrow> string option \<Rightarrow> command_result" where
  "command_cleanup is_dir has_entry line =
     (case line of
        None \<Rightarrow> Inl TypeError
      | Some l \<Rightarrow>
          if \<not> is_dir (posix_path l) then silent (ErrorText (l @ '' is not a directory''))
          else if \<not> has_entry (posix_path l) then silent (ErrorText (l @ ''/entry.config does not exist''))
          else silent NoReply)"

record processor =
  cp_module :: "tune_module option"
  cp_load :: "string \<Rightarrow> tune_module option"
  cp_is_dir :: "string \<Rightarrow> bool"
  cp_has_entry :: "string \<Rightarrow> bool"

definition process_input :: "processor \<Rightarrow> string \<Rightarrow> processor \<times> command_result" where
  "process_input cp line =
     (let (command, tail) = first line; m = cp_module cp in
      if py_lower command = ''exit'' then (cp, silent (ErrorText ''exit''))
      else if command = ''help'' then (cp, command_help)
      else if command = ''module'' then
        (let (m, res) = command_module (cp_load cp) m tail in (cp\<lparr>cp_module := m\<rparr>, res))
      else if command = ''prepare_data'' then (cp, command_prepare_data m tail)
      else if command = ''probe'' then (cp, command_probe m tail)
      else if command = ''benchmark'' then (cp, command_benchmark m tail)
      else if command = ''cleanup'' then (cp, command_cleanup (cp_is_dir cp) (cp_has_entry cp) tail)
      else (cp, silent (ErrorText (''Unknown Command '' @ command))))"

section \<open>The loop of main\<close>

text \<open>\<open>json.dumps(ret, separators=(',', ':'))\<close>.\<close>

fun compact :: "pyobj \<Rightarrow> string" and compacts :: "pyobj list \<Rightarrow> string list" and
  compact_items :: "(pkey \<times> pyobj) list \<Rightarrow> string list" where
  "compact (OList l) = ''['' @ join '','' (compacts l) @ '']''"
| "compact (ODict d) = ''{'' @ join '','' (compact_items d) @ ''}''"
| "compact v = dumps v"
| "compacts [] = []"
| "compacts (v # vs) = compact v # compacts vs"
| "compact_items [] = []"
| "compact_items ((k, v) # d) = (dump_key k @ '':'' @ compact v) # compact_items d"

fun report_line :: "reply \<Rightarrow> string" where
  "report_line NoReply = ''OK''"
| "report_line (Reply v) = ''OK '' @ compact v"
| "report_line (ErrorText t) = ''Error''"

text \<open>The lines printed for the lines read, and the exception that ended the process if one did.\<close>

fun serve :: "processor \<Rightarrow> string list \<Rightarrow> string list \<times> pyerr option" where
  "serve cp [] = ([], None)"
| "serve cp (raw # raws) =
     (let line = strip raw in
      if py_lower line = ''exit'' then ([], None)
      else
        (case process_input cp line of
           (cp, Inl e) \<Rightarrow> ([], Some e)
         | (cp, Inr (printed, ret)) \<Rightarrow>
             (let (out, e) = serve cp raws in (printed @ [report_line ret] @ out, e))))"

section \<open>Literals come back\<close>

definition plain_char :: "char \<Rightarrow> bool" where
  "plain_char c \<longleftrightarrow> str_char c \<and> \<not> is_space c \<and> c \<noteq> CHR '';''"

fun wf_val :: "pval \<Rightarrow> bool" where
  "wf_val (VStr s) = list_all plain_char s"
| "wf_val (VFloat f) = (parse_number f = Inr (OFloat f, []) \<and> list_all (\<lambda>c. plain_char c \<and> \<not> is_sep c) f)"
| "wf_val (VTuple l) = (length l \<noteq> 1 \<and> list_all wf_val l)"
| "wf_val (VList l) = list_all wf_val l"
| "wf_val v = True"

definition sep_next :: "string \<Rightarrow> bool" where
  "sep_next r = (r = [] \<or> is_sep (hd r))"

text \<open>The texts of literals that are no strings, tuples or lists.\<close>

definition atom_text :: "string \<Rightarrow> pval \<Rightarrow> bool" where
  "atom_text t v \<longleftrightarrow> t \<noteq> [] \<and> list_all (\<lambda>c. \<not> is_sep c) t \<and> hd t \<notin> {quote, CHR ''('', CHR ''[''} \<and> atom_value t = Some v"

lemma parse_lit_atom:
  assumes "atom_text t v" "sep_next r"
  shows "parse_lit (Suc n) (t @ r) = Some (v, r)"
proof -
  have tw: "takeWhile (\<lambda>c. \<not> is_sep c) (t @ r) = t" "dropWhile (\<lambda>c. \<not> is_sep c) (t @ r) = r"
    using assms by (cases r; force simp: atom_text_def sep_next_def list_all_iff)+
  have "\<not> startswith (t @ r) [quote]" "\<not> startswith (t @ r) ''(''" "\<not> startswith (t @ r) ''[''"
    using assms(1) by (cases t; simp add: atom_text_def)+
  with assms(1) show ?thesis by (simp add: tw atom_text_def)
qed

lemma show_int_plain: "list_all (\<lambda>c. is_digit c \<or> c = CHR ''-'') (show_int i)" "show_int i \<noteq> []"
  using show_nat_digits by (auto simp: show_int_def list_all_iff)

lemma digit_plain: "is_digit c \<or> c = CHR ''-'' \<Longrightarrow> plain_char c \<and> \<not> is_sep c"
  by (auto simp: is_digit_def plain_char_def str_char_def quote_def backslash_def newline_def is_space_def is_sep_def)

lemma number_atom:
  assumes "parse_number t = Inr (v, [])" shows "t \<notin> {''None'', ''True'', ''False''}"
proof
  assume "t \<in> {''None'', ''True'', ''False''}"
  moreover have "\<not> is_ok (parse_number ''None'')" "\<not> is_ok (parse_number ''True'')" "\<not> is_ok (parse_number ''False'')"
    by code_simp+
  ultimately show False using assms by auto
qed

lemma number_first: "parse_number t = Inr (v, []) \<Longrightarrow> t \<noteq> [] \<and> (is_digit (hd t) \<or> hd t = CHR ''-'')"
proof -
  assume p: "parse_number t = Inr (v, [])"
  then obtain i u where "scan_int t = Some (i, u)" by (auto simp: parse_number_def split: option.splits)
  from scan_int_head [OF this] show ?thesis using p number_text_head [OF p] by (auto simp: number_head_def value_head_def)
qed

lemma tr_atom:
  "atom_text (tr VNone) VNone" "atom_text (tr (VBool b)) (VBool b)" "atom_text (tr (VInt i)) (VInt i)"
  "wf_val (VFloat f) \<Longrightarrow> atom_text (tr (VFloat f)) (VFloat f)"
proof -
  have "atom_text ''None'' VNone" "atom_text ''True'' (VBool True)" "atom_text ''False'' (VBool False)" by code_simp+
  then show "atom_text (tr VNone) VNone" "atom_text (tr (VBool b)) (VBool b)" by simp_all
  have first: "hd t \<notin> {quote, CHR ''('', CHR ''[''}" if "is_digit (hd t) \<or> hd t = CHR ''-''" for t
    using that by (auto simp: is_digit_def quote_def)
  show "atom_text (tr (VInt i)) (VInt i)"
    using number_atom [OF parse_number_int, of i] number_first [OF parse_number_int, of i] show_int_plain(1) [of i] first
    by (auto simp: atom_text_def atom_value_def parse_number_int list_all_iff dest!: digit_plain)
  show "atom_text (tr (VFloat f)) (VFloat f)" if "wf_val (VFloat f)"
  proof -
    from that have p: "parse_number f = Inr (OFloat f, [])" by simp
    from that number_atom [OF p] number_first [OF p] first show ?thesis
      by (auto simp: atom_text_def atom_value_def p list_all_iff)
  qed
qed

lemma tr_head: "wf_val v \<Longrightarrow> tr v \<noteq> [] \<and> \<not> is_sep (hd (tr v))"
proof (cases v)
  case (VInt i)
  then show ?thesis using tr_atom(3) [of i] by (cases "show_int i") (auto simp: atom_text_def)
next
  case (VFloat f)
  assume "wf_val v"
  with VFloat tr_atom(4) [of f] show ?thesis by (cases f) (auto simp: atom_text_def)
qed (auto simp: quote_def is_sep_def)

lemma parse_lit_str:
  assumes "list_all plain_char s" shows "parse_lit (Suc n) (tr (VStr s) @ r) = Some (VStr s, r)"
proof -
  have "takeWhile str_char (s @ quote # r) = s" "dropWhile str_char (s @ quote # r) = quote # r"
    using assms by (induction s) (auto simp: plain_char_def str_char_def)
  then show ?thesis by simp
qed

lemma trs_map: "trs l = map tr l"
  by (induction l) simp_all

lemma parse_tr:
  "wf_val v \<Longrightarrow> sep_next r \<Longrightarrow> length (tr v) < n \<Longrightarrow> parse_lit n (tr v @ r) = Some (v, r)"
  "list_all wf_val l \<Longrightarrow> close \<in> {CHR '')'', CHR '']''} \<Longrightarrow> length (join '','' (trs l)) + 1 < n
     \<Longrightarrow> parse_items n close (join '','' (trs l) @ close # r) = Some (l, False, r)"
proof (induction v and l arbitrary: n r and n r close rule: tr_trs.induct)
  case (1 s)
  then show ?case by (cases n) (simp_all only: not_less0 parse_lit_str wf_val.simps)
next
  case (2 l)
  obtain m where n: "n = Suc m" using 2(4) by (cases n) auto
  have "parse_items m (CHR '')'') (join '','' (trs l) @ CHR '')'' # r) = Some (l, False, r)"
    by (rule 2(1)) (use 2(2,4) n in auto)
  moreover have "paren l False = VTuple l" using 2(2) by (auto simp: paren_def split: list.splits)
  ultimately show ?case by (simp add: n quote_def)
next
  case (3 l)
  obtain m where n: "n = Suc m" using 3(4) by (cases n) auto
  have "parse_items m (CHR '']'') (join '','' (trs l) @ CHR '']'' # r) = Some (l, False, r)"
    by (rule 3(1)) (use 3(2,4) n in auto)
  then show ?case by (simp add: n quote_def)
next
  case 4
  then show ?case using parse_lit_atom [OF tr_atom(1)] by (cases n) simp_all
next
  case (5 b)
  then show ?case using parse_lit_atom [OF tr_atom(2), of r _ b] by (cases n) (simp_all del: tr.simps parse_lit.simps(2))
next
  case (6 i)
  then show ?case using parse_lit_atom [OF tr_atom(3), of r _ i] by (cases n) (simp_all del: tr.simps parse_lit.simps(2))
next
  case (7 f)
  then show ?case using parse_lit_atom [OF tr_atom(4), of f r] by (cases n) (simp_all del: tr.simps wf_val.simps parse_lit.simps(2))
next
  case 8
  then show ?case by (cases n) simp_all
next
  case (9 v vs)
  obtain m where n: "n = Suc m" using 9(5) by (cases n) auto
  have wf: "wf_val v" "list_all wf_val vs" using 9(3) by simp_all
  note head = tr_head [OF wf(1)]
  have first: "\<not> startswith (tr v @ u) [close]" for u
    using head 9(4) by (cases "tr v") (auto simp: is_sep_def)
  show ?case
  proof (cases "vs = []")
    case True
    have "parse_lit m (tr v @ close # r) = Some (v, close # r)"
      by (rule 9(1)) (use wf 9(4,5) n True in \<open>auto simp: sep_next_def is_sep_def\<close>)
    then show ?thesis using first by (simp add: n True)
  next
    case False
    then have ts: "trs vs \<noteq> []" by (simp add: trs_map)
    define w where "w = join '','' (trs vs) @ close # r"
    have "parse_lit m (tr v @ CHR '','' # w) = Some (v, CHR '','' # w)"
      by (rule 9(1)) (use wf 9(5) n ts in \<open>auto simp: sep_next_def is_sep_def join_Cons\<close>)
    moreover have "parse_items m close w = Some (vs, False, r)"
      unfolding w_def by (rule 9(2)) (use wf 9(4,5) n ts in \<open>auto simp: join_Cons\<close>)
    moreover have "close \<noteq> CHR '',''" using 9(4) by auto
    ultimately show ?thesis using first False by (simp add: n join_Cons ts w_def [symmetric])
  qed
qed

lemma py_eval_tr: "wf_val v \<Longrightarrow> py_eval other (tr v) = Inr v"
  using parse_tr(1) [of v "[]" "Suc (length (tr v))"] by (simp add: py_eval_def sep_next_def del: parse_lit.simps(2))

section \<open>Entries come back\<close>

text \<open>A word has no white space and is not empty; no value of an entry has white space or a semicolon.\<close>

definition word :: "string \<Rightarrow> bool" where
  "word w \<longleftrightarrow> w \<noteq> [] \<and> list_all (\<lambda>c. \<not> is_space c) w"

definition no_break :: "char \<Rightarrow> bool" where
  "no_break c \<longleftrightarrow> \<not> is_space c \<and> c \<noteq> CHR '';''"

lemma plain_no_break: "plain_char c \<Longrightarrow> no_break c"
  by (simp add: plain_char_def no_break_def)

lemma marks_no_break: "list_all no_break [quote, CHR ''('', CHR '')'', CHR ''['', CHR '']'', CHR '','', CHR ''='']"
  "list_all no_break ''None''" "list_all no_break ''True''" "list_all no_break ''False''"
  by code_simp+

lemma tr_no_break: "wf_val v \<Longrightarrow> list_all no_break (tr v)" "list_all wf_val l \<Longrightarrow> list_all (list_all no_break) (trs l)"
proof (induction v and l rule: tr_trs.induct)
  case (1 s)
  then show ?case using marks_no_break(1) plain_no_break by (simp add: list.pred_mono_strong)
next
  case (2 l)
  then show ?case using marks_no_break(1) by (simp add: join_all)
next
  case (3 l)
  then show ?case using marks_no_break(1) by (simp add: join_all)
next
  case (6 i)
  show ?case unfolding tr.simps
    by (rule list.pred_mono_strong [OF show_int_plain(1)]) (rule plain_no_break, use digit_plain in blast)
next
  case (7 f)
  then have "list_all (\<lambda>c. plain_char c \<and> \<not> is_sep c) f" by simp
  then show ?case unfolding tr.simps by (rule list.pred_mono_strong) (simp add: plain_no_break)
qed (use marks_no_break in simp_all)

definition flash_names :: "string list" where
  "flash_names = map fst FlashEntry"

definition wf_entry :: "fentry \<Rightarrow> bool" where
  "wf_entry e \<longleftrightarrow> map fst e = flash_names \<and> list_all (\<lambda>(k, v). wf_val v) e"

lemma flash_names_ok: "distinct flash_names" "list_all (\<lambda>k. word k \<and> list_all (\<lambda>c. no_break c \<and> c \<noteq> CHR ''='') k) flash_names"
  by code_simp+

lemma split_assign_append: "CHR ''='' \<notin> set k \<Longrightarrow> split_assign (k @ CHR ''='' # t) = Inr (k, t)"
  by (induction k) (auto simp: split_assign_def)

lemma wf_entry_assign:
  assumes "wf_entry e" "(k, v) \<in> set e"
  shows "CHR ''='' \<notin> set k" "list_all no_break k" "wf_val v" "CHR '';'' \<notin> set (k @ ''='' @ tr v)"
proof -
  have "k \<in> set flash_names" using assms imageI [of "(k, v)" "set e" fst] by (simp add: wf_entry_def flip: set_map)
  then show k: "CHR ''='' \<notin> set k" "list_all no_break k" using flash_names_ok(2) by (auto simp: list_all_iff)
  show v: "wf_val v" using assms by (auto simp: wf_entry_def list_all_iff)
  show "CHR '';'' \<notin> set (k @ ''='' @ tr v)"
    using k(2) tr_no_break(1) [OF v] by (auto simp: list_all_iff no_break_def)
qed

lemma parse_python_text:
  assumes "wf_entry e" shows "parse_python other (as_text e) = Inr e"
proof -
  have "e \<noteq> []" using assms by (auto simp: wf_entry_def flash_names_def FlashEntry_def)
  then have split: "split_on (CHR '';'') (as_text e) = map (\<lambda>(k, v). k @ ''='' @ tr v) e"
    unfolding as_text_def using wf_entry_assign(4) [OF assms] by (intro split_on_join) (auto simp: list_all_iff)
  have "rtraverse (\<lambda>a. rbind (split_assign a) (\<lambda>(k, t). rmap (\<lambda>v. (k, v)) (py_eval other t)))
          (map (\<lambda>(k, v). k @ ''='' @ tr v) e) = Inr e"
    using wf_entry_assign(1,3) [OF assms]
    by (auto simp: rtraverse_Inr_iff list_all2_conv_all_nth split_assign_append py_eval_tr split: prod.splits dest!: nth_mem)
  moreover have "distinct (map fst e)" using assms flash_names_ok(1) by (simp add: wf_entry_def)
  ultimately show ?thesis by (simp add: parse_python_def split dict_of_distinct)
qed

lemma entry_parse_text_text:
  assumes "wf_entry e" shows "entry_parse_text other (as_text e) = Inr e"
proof -
  have names: "map fst e = map fst FlashEntry" "distinct (map fst e)"
    using assms flash_names_ok(1) by (simp_all add: wf_entry_def flash_names_def)
  have keys: "list_all (\<lambda>k. dhas FlashEntry k) (dkeys e)"
    by (simp add: dkeys_def names(1) list_all_iff dhas_iff)
  have "map (\<lambda>(k, v). (k, case dget e k of None \<Rightarrow> v | Some w \<Rightarrow> w)) FlashEntry = e"
  proof (rule nth_equalityI)
    show len: "length (map (\<lambda>(k, v). (k, case dget e k of None \<Rightarrow> v | Some w \<Rightarrow> w)) FlashEntry) = length e"
      using names(1) by (metis length_map)
    fix i assume "i < length (map (\<lambda>(k, v). (k, case dget e k of None \<Rightarrow> v | Some w \<Rightarrow> w)) FlashEntry)"
    then have i: "i < length e" "i < length FlashEntry" using len by simp_all
    then have "fst (FlashEntry ! i) = fst (e ! i)" using names(1) by (metis nth_map)
    moreover have "dget e (fst (e ! i)) = Some (snd (e ! i))" using names(2) i by simp
    ultimately show "map (\<lambda>(k, v). (k, case dget e k of None \<Rightarrow> v | Some w \<Rightarrow> w)) FlashEntry ! i = e ! i"
      using i by (simp add: case_prod_unfold)
  qed
  with keys show ?thesis by (simp add: entry_parse_text_def parse_python_text [OF assms] dataclass_of_def)
qed

section \<open>Command lines come back\<close>

lemma word_first: "word w \<Longrightarrow> first (w @ CHR '' '' # t) = (w, Some t)" "word w \<Longrightarrow> first w = (w, None)"
proof -
  assume "word w"
  then have "CHR '' '' \<notin> set w" by (auto simp: word_def list_all_iff is_space_def)
  then show "first (w @ CHR '' '' # t) = (w, Some t)" "first w = (w, None)"
    by (auto simp: first_def takeWhile_append dropWhile_append)
qed

lemma ims_of_words: "list_all word ws \<Longrightarrow> ws \<noteq> [] \<Longrightarrow> ims_of (Some (join '' '' ws)) = ws"
proof (induction ws)
  case (Cons w ws)
  then show ?case
    by (cases "ws = []") (auto simp: ims_of.simps(2) join_Cons word_first word_def split: if_splits)
qed simp

lemma join_ends:
  "list_all word ws \<Longrightarrow> ws \<noteq> [] \<Longrightarrow>
   join '' '' ws \<noteq> [] \<and> \<not> is_space (hd (join '' '' ws)) \<and> \<not> is_space (last (join '' '' ws))"
proof (induction ws)
  case (Cons w ws)
  have "w \<noteq> []" "\<not> is_space (hd w)" "\<not> is_space (last w)"
    using Cons.prems(1) by (auto simp: word_def list_all_iff)
  with Cons show ?case by (cases "ws = []") (auto simp: join_Cons)
qed simp

lemma strip_line:
  assumes "list_all word ws" "ws \<noteq> []" shows "strip (command_line ws) = join '' '' ws"
proof -
  define s where "s = join '' '' ws"
  have s: "s \<noteq> []" "\<not> is_space (hd s)" "\<not> is_space (last s)" using join_ends [OF assms] by (auto simp: s_def)
  then have "dropWhile is_space (s @ [newline]) = s @ [newline]" by (cases s) simp_all
  moreover have "dropWhile is_space (newline # rev s) = rev s"
    using s by (cases "rev s") (auto simp: newline_def is_space_def last_rev simp flip: hd_rev)
  ultimately show ?thesis by (simp add: command_line_def strip_def strip_chars_def s_def)
qed

lemma no_space_marks: "list_all (\<lambda>c. \<not> is_space c) '';=''"
  by code_simp

lemma as_text_word: "wf_entry e \<Longrightarrow> word (as_text e)"
proof -
  assume e: "wf_entry e"
  have nb: "list_all no_break s \<Longrightarrow> list_all (\<lambda>c. \<not> is_space c) s" for s
    by (auto simp: list_all_iff no_break_def)
  have "list_all (list_all (\<lambda>c. \<not> is_space c)) (map (\<lambda>(k, v). k @ ''='' @ tr v) e)"
    unfolding list.pred_map list.pred_set
    using nb [OF wf_entry_assign(2) [OF e]] nb [OF tr_no_break(1) [OF wf_entry_assign(3) [OF e]]] no_space_marks
    by (auto simp: list_all_iff)
  then have "list_all (\<lambda>c. \<not> is_space c) (as_text e)"
    unfolding as_text_def using no_space_marks by (intro join_all) simp_all
  moreover obtain k v e' where "e = (k, v) # e'"
    using e by (cases e) (auto simp: wf_entry_def flash_names_def FlashEntry_def)
  then have "as_text e \<noteq> []" by (simp add: as_text_def join_Cons)
  ultimately show ?thesis by (simp add: word_def)
qed

lemma prepare_understood:
  assumes "cp_module cp = Some m" and "tm_entry_of m = entry_parse_text other"
    and e: "wf_entry e" and d: "word d" "posix_path d = d" "tm_mkdir m d = Inr ()"
    and ims: "list_all word ims" "rtraverse (tm_input_of m) ims = Inr xs"
  shows "process_input cp (join '' '' ([''prepare_data'', as_text e, d] @ ims))
    = (cp, rmap (\<lambda>_. ([], NoReply)) (tm_prepare_data m e d xs))"
proof -
  define rest where "rest = join '' '' (d # ims)"
  have cmd: "word ''prepare_data''" by code_simp
  have l: "join '' '' ([''prepare_data'', as_text e, d] @ ims) = ''prepare_data'' @ CHR '' '' # as_text e @ CHR '' '' # rest"
    by (simp add: rest_def)
  have "prepare_args m (as_text e @ CHR '' '' # rest) = Inr (e, d, xs)"
  proof (cases "ims = []")
    case True
    then have "first rest = (d, None)" using word_first(2) [OF d(1)] by (simp add: rest_def)
    with assms True show ?thesis
      by (simp add: prepare_args_def word_first(1) [OF as_text_word [OF e]] entry_parse_text_text [OF e])
  next
    case False
    then have "first rest = (d, Some (join '' '' ims))" using word_first(1) [OF d(1)] by (simp add: rest_def join_Cons)
    with assms False show ?thesis
      by (simp add: prepare_args_def word_first(1) [OF as_text_word [OF e]] entry_parse_text_text [OF e] ims_of_words)
  qed
  with assms(1) show ?thesis
    unfolding l by (simp only: process_input_def word_first(1) [OF cmd] Let_def prod.case)
      (simp add: command_prepare_data_def py_lower_def ascii_lower_def)
qed

lemma probe_understood:
  assumes "cp_module cp = Some m" "word d" "posix_path d = d" "tm_has_entry m d" "tm_list_impls m d = Inr ks"
  shows "process_input cp (join '' '' [''probe'', d])
    = (cp, rmap (\<lambda>rs. ([], Reply (mk_dict rs))) (rtraverse (\<lambda>k. rmap (\<lambda>r. (k, r)) (tm_probe_backends m d k)) ks))"
proof -
  have cmd: "word ''probe''" by code_simp
  have l: "join '' '' [''probe'', d] = ''probe'' @ CHR '' '' # d" by simp
  show ?thesis
    unfolding l using assms
    by (simp only: process_input_def word_first(1) [OF cmd] Let_def prod.case)
      (simp add: command_probe_def word_first(2) py_lower_def ascii_lower_def)
qed

lemma benchmark_understood:
  assumes "cp_module cp = Some m" "tm_selector_of m = kernel_selector" "word d" "posix_path d = d" "tm_has_entry m d"
    and k: "CHR ''='' \<notin> set k"
  shows "process_input cp (join '' '' [''benchmark'', d, k @ ''='' @ show_int i])
    = (cp, rmap (\<lambda>(entry, impl_desc, adiffs, times, bim).
              ([], Reply (mk_dict
                [(''entry'', entry),
                 (''impl_selection'', mk_dict [(''kernel_name'', OStr k), (''hsaco_index'', OInt i), (''max_hsaco'', OInt (- 1))]),
                 (''impl_desc'', impl_desc), (''adiffs'', adiffs), (''times'', times), (''bim'', bim)])))
            (tm_benchmark m d (mk_dict [(''kernel_name'', OStr k), (''hsaco_index'', OInt i), (''max_hsaco'', OInt (- 1))])))"
proof -
  have cmd: "word ''benchmark''" by code_simp
  have l: "join '' '' [''benchmark'', d, s] = ''benchmark'' @ CHR '' '' # d @ CHR '' '' # s" for s by simp
  have "CHR ''='' \<notin> set (show_int i)" using show_int_plain(1) [of i] by (auto simp: list_all_iff is_digit_def)
  then have "split_on (CHR ''='') (k @ CHR ''='' # show_int i) = [k, show_int i]"
    by (simp add: split_on_append [OF k] split_on_none)
  then have sel: "kernel_selector (k @ ''='' @ show_int i)
      = Inr (mk_dict [(''kernel_name'', OStr k), (''hsaco_index'', OInt i), (''max_hsaco'', OInt (- 1))])"
    by (simp add: kernel_selector_def split_selector_def parse_int_show_int)
  define sel_obj where "sel_obj = mk_dict [(''kernel_name'', OStr k), (''hsaco_index'', OInt i), (''max_hsaco'', OInt (- 1))]"
  show ?thesis
    unfolding l sel_obj_def [symmetric] using assms
    by (simp only: process_input_def word_first(1) [OF cmd] Let_def prod.case)
      (simp add: command_benchmark_def word_first(1) [OF assms(3)] sel [folded sel_obj_def, simplified] py_lower_def ascii_lower_def)
qed

text \<open>
  C34: What \<open>ExaidWorker\<close> writes is what the \<open>CommandProcessor\<close> does. For a flash entry whose
  values print without white space and without one-element tuples, a directory and further inputs
  without white space: the line of \<open>prepare_data\<close> makes the processor call the module with exactly
  that entry, directory and list of inputs, the line of \<open>probe\<close> makes it probe every implementation
  in that directory, and the line of \<open>benchmark\<close> makes it run the kernel and index selected.
\<close>

lemma commands_understood:
  assumes "cp_module cp = Some m" and "tm_entry_of m = entry_parse_text other" "tm_selector_of m = kernel_selector"
    and "wf_entry e" and d: "word d" "posix_path d = d" "tm_mkdir m d = Inr ()"
    and "list_all word ims" "rtraverse (tm_input_of m) ims = Inr xs"
    and "tm_has_entry m d" "tm_list_impls m d = Inr ks" and "word k" "CHR ''='' \<notin> set k"
  shows
    "process_input cp (strip (command_line (prepare_command (as_text e) d ims)))
       = (cp, rmap (\<lambda>_. ([], NoReply)) (tm_prepare_data m e d xs))
     \<and> process_input cp (strip (command_line (probe_command d)))
       = (cp, rmap (\<lambda>rs. ([], Reply (mk_dict rs))) (rtraverse (\<lambda>k. rmap (\<lambda>r. (k, r)) (tm_probe_backends m d k)) ks))
     \<and> process_input cp (strip (command_line (benchmark_command d k i)))
       = (cp, rmap (\<lambda>(entry, impl_desc, adiffs, times, bim).
              ([], Reply (mk_dict
                [(''entry'', entry),
                 (''impl_selection'', mk_dict [(''kernel_name'', OStr k), (''hsaco_index'', OInt i), (''max_hsaco'', OInt (- 1))]),
                 (''impl_desc'', impl_desc), (''adiffs'', adiffs), (''times'', times), (''bim'', bim)])))
            (tm_benchmark m d (mk_dict [(''kernel_name'', OStr k), (''hsaco_index'', OInt i), (''max_hsaco'', OInt (- 1))])))"
proof -
  have names: "word ''prepare_data''" "word ''probe''" "word ''benchmark''" by code_simp+
  have "list_all (\<lambda>c. \<not> is_space c) (show_int i)"
    using show_int_plain(1) [of i] digit_plain by (auto simp: list_all_iff plain_char_def)
  then have "word (k @ ''='' @ show_int i)" using assms(12) no_space_marks by (simp add: word_def)
  then have words: "list_all word (prepare_command (as_text e) d ims)" "list_all word (probe_command d)"
    "list_all word (benchmark_command d k i)"
    using names d(1) as_text_word [OF assms(4)] assms(8)
    by (simp_all add: prepare_command_def probe_command_def benchmark_command_def)
  have lines: "strip (command_line (prepare_command (as_text e) d ims)) = join '' '' ([''prepare_data'', as_text e, d] @ ims)"
    "strip (command_line (probe_command d)) = join '' '' [''probe'', d]"
    "strip (command_line (benchmark_command d k i)) = join '' '' [''benchmark'', d, k @ ''='' @ show_int i]"
    using strip_line [OF words(1)] strip_line [OF words(2)] strip_line [OF words(3)]
    unfolding prepare_command_def probe_command_def benchmark_command_def by blast+
  show ?thesis unfolding lines
    by (intro conjI prepare_understood [OF assms(1,2,4-9)] probe_understood [OF assms(1) d(1,2) assms(10,11)]
        benchmark_understood [OF assms(1,3) d(1,2) assms(10,13)])
qed

definition demo_module :: tune_module where
  "demo_module = \<lparr>tm_entry_of = entry_parse_text (\<lambda>_. Inl NameError), tm_input_of = input_parse_text (\<lambda>_. Inl NameError),
     tm_selector_of = kernel_selector, tm_mkdir = (\<lambda>_. Inr ()), tm_is_dir = (\<lambda>_. True), tm_has_entry = (\<lambda>_. True),
     tm_prepare_data = (\<lambda>e d xs. if length xs = 1 then Inr () else Inl ValueError),
     tm_list_impls = (\<lambda>_. Inr [''attn_fwd'']), tm_probe_backends = (\<lambda>d k. Inr (OStr (d @ k))),
     tm_benchmark = (\<lambda>d s. Inr (ONone, ONone, ONone, ONone, ONone))\<rparr>"

definition demo_flash_entry :: fentry where
  "demo_flash_entry =
     [(''dtype'', VStr ''bfloat16''), (''hdim'', VTuple [VInt 192, VInt 128]), (''seqlen_q'', VInt 2048), (''seqlen_k'', VInt 16),
      (''causal'', VBool True), (''dropout_p'', VFloat ''0.5''), (''bias_type'', VInt 0)]"

lemma commands_understood_witness:
  "let cp = \<lparr>cp_module = Some demo_module, cp_load = (\<lambda>_. None), cp_is_dir = (\<lambda>_. True), cp_has_entry = (\<lambda>_. True)\<rparr>
   in process_input cp (strip (command_line (prepare_command (as_text demo_flash_entry) ''/dev/shm/t'' [''seqlen_q=32;BATCH=1''])))
        = (cp, Inr ([], NoReply))
      \<and> process_input cp (strip (command_line (probe_command ''/dev/shm/t'')))
        = (cp, Inr ([], Reply (mk_dict [(''attn_fwd'', OStr ''/dev/shm/tattn_fwd'')])))"
proof -
  have im: "rtraverse (tm_input_of demo_module) [''seqlen_q=32;BATCH=1'']
      = Inr [projr (tm_input_of demo_module ''seqlen_q=32;BATCH=1'')]"
    by code_simp
  have wf: "wf_entry demo_flash_entry" "word ''/dev/shm/t''" "posix_path ''/dev/shm/t'' = ''/dev/shm/t''"
    "list_all word [''seqlen_q=32;BATCH=1'']" "word ''attn_fwd''" "CHR ''='' \<notin> set ''attn_fwd''"
    by code_simp+
  define cp where "cp = \<lparr>cp_module = Some demo_module, cp_load = (\<lambda>_. None), cp_is_dir = (\<lambda>_. True), cp_has_entry = (\<lambda>_. True)\<rparr>"
  have m: "cp_module cp = Some demo_module" by (simp add: cp_def)
  have md: "tm_entry_of demo_module = entry_parse_text (\<lambda>_. Inl NameError)" "tm_selector_of demo_module = kernel_selector"
    "tm_mkdir demo_module ''/dev/shm/t'' = Inr ()" "tm_has_entry demo_module ''/dev/shm/t''"
    "tm_list_impls demo_module ''/dev/shm/t'' = Inr [''attn_fwd'']"
    by (simp_all add: demo_module_def)
  have res: "tm_prepare_data demo_module e d [x] = Inr ()" "tm_probe_backends demo_module d k = Inr (OStr (d @ k))" for e d x k
    by (simp_all add: demo_module_def)
  from commands_understood [OF m md(1,2) wf(1-3) md(3) wf(4) im md(4,5) wf(5,6), of 0]
  show ?thesis by (simp add: cp_def [symmetric] Let_def res)
qed

text \<open>
  The directory of an entry is named by \<open>as_posix\<close>, which prints a tuple with a space: the processor
  takes the name up to that space for the directory.
\<close>

lemma tuple_directory_cut:
  "let d = ''/dev/shm/aotriton-tuner/'' @ entry_as_posix demo_flash_entry
   in \<not> word d \<and> first (join '' '' (tl (probe_command d)))
        = (''/dev/shm/aotriton-tuner/dtype=bfloat16,hdim=(192,'',
           Some ''128),seqlen_q=2048,seqlen_k=16,causal=True,dropout_p=0.5,bias_type=0'')"
  by code_simp

text \<open>A tuple of one element is printed as the element in parentheses, which is no tuple.\<close>

lemma one_tuple_lost: "py_eval other (tr (VTuple [VInt 16])) = Inr (VInt 16)"
proof -
  have "parse_lit (Suc (length (tr (VTuple [VInt 16])))) (tr (VTuple [VInt 16])) = Some (VInt 16, [])" by code_simp
  then show ?thesis by (simp only: py_eval_def) simp
qed

end
