(* ===== verification/FlashInputs.thy ===== *)
theory FlashInputs
  imports TuneCommand
begin

text \<open>
  What the flash module of \<open>v3python/tune/flash/module.py\<close> makes of an entry: the inputs of its
  tests (\<open>_do_gen_ref\<close>, \<open>_gen_ref\<close>), the bound on their size (\<open>_clamp_memory_usage\<close>) and the record
  of the tests (\<open>prepare_data\<close> of \<open>tdesc.py\<close>); and \<open>sanitize_value\<close> of \<open>utils.py\<close>, which removes what
  JSONB refuses. The estimate of the cost is floating point and an argument; so is what the GPU
  computes.
\<close>

section \<open>The size of an input\<close>

fun pv_int :: "pval \<Rightarrow> int option" where
  "pv_int (VInt i) = Some i"
| "pv_int (VBool b) = Some (if b then 1 else 0)"
| "pv_int _ = None"

text \<open>\<open>v[0]\<close> for a value that is no integer.\<close>

fun pv_first :: "pval \<Rightarrow> pval res" where
  "pv_first (VTuple l) = (case l of [] \<Rightarrow> Inl IndexError | v # _ \<Rightarrow> Inr v)"
| "pv_first (VList l) = (case l of [] \<Rightarrow> Inl IndexError | v # _ \<Rightarrow> Inr v)"
| "pv_first (VStr s) = (case s of [] \<Rightarrow> Inl IndexError | c # _ \<Rightarrow> Inr (VStr [c]))"
| "pv_first _ = Inl TypeError"

definition pv_head :: "pval \<Rightarrow> int res" where
  "pv_head v =
     (case pv_int v of
        Some i \<Rightarrow> Inr i
      | None \<Rightarrow> rbind (pv_first v) (\<lambda>w. of_option TypeError (pv_int w)))"

definition im_field :: "fentry \<Rightarrow> string \<Rightarrow> pval" where
  "im_field im k = (case dget im k of None \<Rightarrow> VNone | Some v \<Rightarrow> v)"

text \<open>\<open>costly\<close>: \<open>current_cost() > vram_cap_gb\<close> for a batch size and a number of heads.\<close>

definition clamp_heads :: "(int \<Rightarrow> int \<Rightarrow> bool) \<Rightarrow> int \<Rightarrow> int \<Rightarrow> int" where
  "clamp_heads costly batch n = fold (\<lambda>cap n. if costly batch n then min n cap else n) [24, 12, 6, 3, 2] n"

definition gqa_heads :: "int \<Rightarrow> pval" where
  "gqa_heads n =
     (if n \<ge> 24 then VTuple [VInt 24, VInt 8]
      else if n \<ge> 12 then VTuple [VInt 12, VInt 4]
      else if n \<ge> 6 then VTuple [VInt 6, VInt 2]
      else if n \<ge> 3 then VTuple [VInt 3, VInt 1]
      else if n \<ge> 2 then VTuple [VInt 2, VInt 1]
      else VInt n)"

text \<open>
  \<open>vram\<close> is None when the size of the memory is not known. The last test whether anything has
  changed compares with \<open>==\<close>, which holds between an integer and the bool of the same value.
\<close>

definition clamp_memory_usage ::
  "(int option) \<Rightarrow> (fentry \<Rightarrow> int \<Rightarrow> int \<Rightarrow> int \<Rightarrow> int \<Rightarrow> bool) \<Rightarrow> fentry \<Rightarrow> fentry res" where
  "clamp_memory_usage vram costly im =
     (case vram of
        None \<Rightarrow> Inr im
      | Some cap \<Rightarrow>
          (let batch = (case pv_int (im_field im ''BATCH'') of None \<Rightarrow> 3 | Some b \<Rightarrow> b);
               is_gqa = (pv_int (im_field im ''N_HEADS'') = None) in
           rbind (pv_head (im_field im ''N_HEADS'')) (\<lambda>n_heads.
           rmap (\<lambda>d_head.
               let n = clamp_heads (costly im cap d_head) batch n_heads;
                   b = (if costly im cap d_head batch n then min batch 2 else batch);
                   heads = (if is_gqa then gqa_heads n else VInt n)
               in if pv_int (im_field im ''BATCH'') \<noteq> Some b
                     \<or> (heads \<noteq> im_field im ''N_HEADS'' \<and> (pv_int heads = None \<or> pv_int heads \<noteq> pv_int (im_field im ''N_HEADS'')))
                  then dset (dset im ''BATCH'' (VInt b)) ''N_HEADS'' heads else im)
             (pv_head (im_field im ''hdim'')))))"

section \<open>The tests of an entry\<close>

text \<open>\<open>v - n\<close>.\<close>

definition pv_minus :: "pval \<Rightarrow> int \<Rightarrow> pval res" where
  "pv_minus v n = rmap (\<lambda>i. VInt (i - n)) (of_option TypeError (pv_int v))"

definition shorter :: "fentry \<Rightarrow> fentry res" where
  "shorter im =
     rbind (pv_minus (im_field im ''seqlen_q'') 7) (\<lambda>q.
     rmap (\<lambda>k. dset (dset im ''seqlen_q'' q) ''seqlen_k'' k) (pv_minus (im_field im ''seqlen_k'') 7))"

text \<open>\<open>FlashInputMetadata(**asdict(entry))\<close>.\<close>

definition input_of_entry :: "fentry \<Rightarrow> fentry res" where
  "input_of_entry e = dataclass_of FlashInputMetadata e"

definition do_gen_ref :: "(fentry \<Rightarrow> fentry res) \<Rightarrow> fentry \<Rightarrow> (string \<times> fentry) list res" where
  "do_gen_ref clamp entry =
     rbind (rbind (input_of_entry entry) clamp) (\<lambda>im.
     rbind (clamp (dset im ''N_HEADS'' (VTuple [VInt 10, VInt 2]))) (\<lambda>gqa.
     rbind (rmap (dset im ''hdim'') (pv_minus (im_field im ''hdim'') 8)) (\<lambda>ihdim.
     rbind (shorter im) (\<lambda>irregular_seqlen.
     rmap (\<lambda>irregular_both.
         [(''00_benchmark'', im), (''01_gqa'', gqa), (''02_irregular_hdim'', ihdim),
          (''03_irregular_seqlen'', irregular_seqlen), (''04_irregular_both'', irregular_both),
          (''05_bshd'', dset irregular_seqlen ''storage_flip'' (VTuple [VInt 1, VInt 2]))])
       (shorter ihdim)))))"

text \<open>\<open>f'{6 + idx:02d}_utextra'\<close>.\<close>

definition extra_name :: "nat \<Rightarrow> string" where
  "extra_name idx = (if 6 + idx < 10 then ''0'' else []) @ show_nat (6 + idx) @ ''_utextra''"

definition gen_ref :: "(fentry \<Rightarrow> fentry res) \<Rightarrow> fentry \<Rightarrow> fentry list \<Rightarrow> (string \<times> fentry) list res" where
  "gen_ref clamp entry extra_ims =
     rmap (\<lambda>tests. tests @ map (\<lambda>(idx, im). (extra_name idx, im)) (enumerate 0 extra_ims)) (do_gen_ref clamp entry)"

text \<open>The tests in \<open>entry.json\<close>: name, input and file of each.\<close>

definition pt_file :: "string \<Rightarrow> string \<Rightarrow> string" where
  "pt_file root tname = root @ ''/'' @ tname @ ''.pt''"

definition prepared_tests ::
  "(fentry \<Rightarrow> fentry res) \<Rightarrow> fentry \<Rightarrow> string \<Rightarrow> fentry list \<Rightarrow> (string \<times> fentry \<times> string) list res" where
  "prepared_tests clamp entry root extra_ims =
     rmap (map (\<lambda>(tname, im). (tname, im, pt_file root tname))) (gen_ref clamp entry extra_ims)"

text \<open>
  \<open>benchmark\<close>: the errors per test, in a dictionary by test name, and the times of the first input.
  A module without tests leaves the variables of the loop unset.
\<close>

definition tuning_benchmark ::
  "(fentry \<Rightarrow> string \<Rightarrow> 'e res) \<Rightarrow> (fentry \<Rightarrow> string \<Rightarrow> 't res) \<Rightarrow> (string \<times> fentry \<times> string) list
     \<Rightarrow> ((string, 'e) dict \<times> 't \<times> fentry) res" where
  "tuning_benchmark run_single_test run_single_benchmark tests =
     rbind (rtraverse (\<lambda>(tname, im, pt). rmap (\<lambda>r. (tname, r)) (run_single_test im pt)) tests) (\<lambda>adiffs.
       case tests of
         [] \<Rightarrow> Inl NameError
       | (_, bim, pt) # _ \<Rightarrow> rmap (\<lambda>t. (dict_of adiffs, t, bim)) (run_single_benchmark bim pt))"

section \<open>sanitize_value\<close>

definition FLOAT_MAX :: string where
  "FLOAT_MAX = ''1.7976931348623157e+308''"

definition sanitize_float :: "string \<Rightarrow> pyobj" where
  "sanitize_float f =
     (if f = ''NaN'' then ONone
      else if f = ''Infinity'' then OFloat FLOAT_MAX
      else if f = ''-Infinity'' then OFloat (CHR ''-'' # FLOAT_MAX)
      else OFloat f)"

fun sanitize_value :: "pyobj \<Rightarrow> pyobj" and sanitize_values :: "pyobj list \<Rightarrow> pyobj list"
  and sanitize_items :: "(pkey \<times> pyobj) list \<Rightarrow> (pkey \<times> pyobj) list" where
  "sanitize_value (ODict d) = ODict (sanitize_items d)"
| "sanitize_value (OList l) = OList (sanitize_values l)"
| "sanitize_value (OFloat f) = sanitize_float f"
| "sanitize_value v = v"
| "sanitize_values [] = []"
| "sanitize_values (v # vs) = sanitize_value v # sanitize_values vs"
| "sanitize_items [] = []"
| "sanitize_items ((k, v) # d) = (k, sanitize_value v) # sanitize_items d"

section \<open>Clamping\<close>

text \<open>Heads and batch only shrink, to one of the sizes of the list, and stop where the input fits.\<close>

lemma clamp_heads_bounds:
  "clamp_heads costly batch n \<le> n" "clamp_heads costly batch n \<ge> min n 2"
  "clamp_heads costly batch n \<in> {n, 24, 12, 6, 3, 2}"
  "clamp_heads costly batch n \<le> 2 \<or> \<not> costly batch (clamp_heads costly batch n)"
  by (auto simp: clamp_heads_def min_def)

lemma clamp_heads_fits: "\<not> costly batch n \<Longrightarrow> clamp_heads costly batch n = n"
  by (simp add: clamp_heads_def)

text \<open>
  The heads of a GQA input are rewritten even where the input fits: the ten query heads over two
  key heads of the test \<open>01_gqa\<close> become six whenever the size of the memory is known.
\<close>

definition default_gqa :: fentry where
  "default_gqa = dset FlashInputMetadata ''N_HEADS'' (VTuple [VInt 10, VInt 2])"

lemma gqa_always_shrinks:
  "clamp_memory_usage (Some cap) (\<lambda>im c d b n. False) default_gqa
     = Inr (dset default_gqa ''N_HEADS'' (VTuple [VInt 6, VInt 2]))"
  by code_simp

lemma unknown_memory_unchanged: "clamp_memory_usage None costly im = Inr im"
  by (simp add: clamp_memory_usage_def)

section \<open>The tests have different names\<close>

lemma extra_name_inj: "extra_name i = extra_name j \<Longrightarrow> i = j"
proof -
  assume eq: "extra_name i = extra_name j"
  have val: "digits_val 0 (takeWhile (\<lambda>c. c \<noteq> CHR ''_'') (extra_name k)) = 6 + k" for k
  proof -
    have "\<forall>c\<in>set (show_nat (6 + k)). c \<noteq> CHR ''_''" using show_nat_digits [of "6 + k"] by (auto simp: is_digit_def)
    then have "takeWhile (\<lambda>c. c \<noteq> CHR ''_'') (extra_name k) = (if 6 + k < 10 then ''0'' else []) @ show_nat (6 + k)"
      by (simp add: extra_name_def takeWhile_append)
    then show ?thesis by (simp add: digits_val_show_nat digit_val_def)
  qed
  show ?thesis using val [of i] val [of j] unfolding eq by simp
qed

lemma extra_name_end: "endswith (extra_name i) ''_utextra''"
  by (auto simp: endswith_iff extra_name_def)

lemma gen_ref_names:
  assumes "gen_ref clamp e ims = Inr tests"
  shows "distinct (map fst tests)" "length tests = 6 + length ims"
    "map snd (drop 6 tests) = ims"
proof -
  obtain base where base: "do_gen_ref clamp e = Inr base"
    and tests: "tests = base @ map (\<lambda>(idx, im). (extra_name idx, im)) (enumerate 0 ims)"
    using assms by (auto simp: gen_ref_def rmap_Inr_iff)
  have names: "map fst base = [''00_benchmark'', ''01_gqa'', ''02_irregular_hdim'', ''03_irregular_seqlen'',
      ''04_irregular_both'', ''05_bshd'']"
    using base by (auto simp: do_gen_ref_def res_iffs)
  have extra: "map fst (map (\<lambda>(idx, im). (extra_name idx, im)) (enumerate 0 ims)) = map extra_name [0..<length ims]"
    by (rule nth_equalityI) (auto simp: nth_enumerate_eq)
  have "list_all (\<lambda>n. \<not> endswith n ''_utextra'') (map fst base)" unfolding names by code_simp
  then have "n \<in> set (map fst base) \<Longrightarrow> n \<noteq> extra_name i" for n i using extra_name_end by (auto simp: list_all_iff)
  moreover have "distinct (map fst base)" unfolding names by code_simp
  moreover have "distinct (map extra_name [0..<length ims])"
    by (auto simp: distinct_map inj_on_def dest: extra_name_inj)
  ultimately show "distinct (map fst tests)" unfolding tests map_append extra by (force simp: distinct_append)
  have "length base = 6" using arg_cong [OF names, of length] by simp
  then show "length tests = 6 + length ims" "map snd (drop 6 tests) = ims"
    by (simp_all add: tests comp_def case_prod_unfold)
qed

text \<open>So no result of a test is lost in the dictionary of errors.\<close>

lemma every_test_reported:
  assumes "prepared_tests clamp e root ims = Inr tests" "tuning_benchmark rt rb tests = Inr (errs, t, bim)"
  shows "map fst errs = map fst tests" and "t = projr (rb (fst (snd (hd tests))) (snd (snd (hd tests))))"
    and "list_all (\<lambda>(n, im, pt). rt im pt = Inr (the (dget errs n))) tests"
proof -
  obtain ts where ts: "gen_ref clamp e ims = Inr ts" "tests = map (\<lambda>(n, im). (n, im, pt_file root n)) ts"
    using assms(1) by (auto simp: prepared_tests_def rmap_Inr_iff)
  have d: "distinct (map fst tests)" using gen_ref_names(1) [OF ts(1)] by (simp add: ts(2) comp_def case_prod_unfold)
  obtain rs where rs: "list_all2 (\<lambda>x y. rmap (\<lambda>r. (fst x, r)) (rt (fst (snd x)) (snd (snd x))) = Inr y) tests rs"
    and errs: "errs = dict_of rs" and t: "tests \<noteq> []" "rb (fst (snd (hd tests))) (snd (snd (hd tests))) = Inr t"
    using assms(2) by (cases tests) (auto simp: tuning_benchmark_def rbind_Inr_iff rmap_Inr_iff rtraverse_Inr_iff case_prod_unfold)
  have names: "map fst rs = map fst tests"
    using rs by (induction rule: list_all2_induct) (auto simp: rmap_Inr_iff)
  with d have rs_errs: "errs = rs" by (simp add: errs dict_of_distinct)
  then show "map fst errs = map fst tests" using names by simp
  show "t = projr (rb (fst (snd (hd tests))) (snd (snd (hd tests))))" using t by simp
  have "distinct (map fst rs)" using names d by simp
  have "rt (fst (snd (tests ! i))) (snd (snd (tests ! i))) = Inr (the (dget rs (fst (tests ! i))))" if i: "i < length tests" for i
  proof -
    obtain r where r: "rt (fst (snd (tests ! i))) (snd (snd (tests ! i))) = Inr r" "rs ! i = (fst (tests ! i), r)"
      using list_all2_nthD [OF rs i] by (auto simp: rmap_Inr_iff)
    have "i < length rs" using list_all2_lengthD [OF rs] i by simp
    then have "(fst (tests ! i), r) \<in> set rs" unfolding r(2) [symmetric] by (rule nth_mem)
    then show ?thesis using map_of_is_SomeI [OF \<open>distinct (map fst rs)\<close>] r(1) by simp
  qed
  then show "list_all (\<lambda>(n, im, pt). rt im pt = Inr (the (dget errs n))) tests"
    by (simp add: rs_errs list_all_length case_prod_unfold)
qed

section \<open>Sanitized values\<close>

fun json_safe :: "pyobj \<Rightarrow> bool" where
  "json_safe (OFloat f) = (f \<notin> {''NaN'', ''Infinity'', ''-Infinity''})"
| "json_safe (OList l) = list_all json_safe l"
| "json_safe (ODict d) = list_all (\<lambda>p. json_safe (snd p)) d"
| "json_safe v = True"

lemma sanitized_safe:
  "json_safe (sanitize_value v)" "list_all json_safe (sanitize_values l)" "list_all (\<lambda>p. json_safe (snd p)) (sanitize_items d)"
  by (induction v and l and d rule: sanitize_value_sanitize_values_sanitize_items.induct)
    (simp_all add: sanitize_float_def FLOAT_MAX_def)

lemma safe_unchanged:
  "json_safe v \<Longrightarrow> sanitize_value v = v" "list_all json_safe l \<Longrightarrow> sanitize_values l = l"
  "list_all (\<lambda>p. json_safe (snd p)) d \<Longrightarrow> sanitize_items d = d"
  by (induction v and l and d rule: sanitize_value_sanitize_values_sanitize_items.induct)
    (simp_all add: sanitize_float_def)

end
