(* ===== verification/TuningDatabase.thy ===== *)
theory TuningDatabase
  imports Functional WorkersDb "HOL-Library.Product_Lexorder" "HOL-Library.Multiset"
begin

text \<open>
  From the best results to the generator: \<open>v3python/tune/pq/export_best_results.py\<close>, which writes
  a SQLite table per kernel and operator, \<open>database_decompose.py\<close>, which splits the tables by
  architecture, \<open>database_compose.py\<close>, which puts them together, and \<open>v3python/database/sqlite.py\<close>,
  through which the generator sees the rows of a functional. A table is the list of its rows in
  the order of their ids, a row the list of its values; the rows that PostgreSQL returns are an
  argument, and so is the text of a float.
\<close>

section \<open>Columns\<close>

datatype source =
  FromGpu | FromEntry string | FromPsels string | FromCopts string | Derived string | OpBackend | OpTflops

type_synonym column = "string \<times> string \<times> source"

definition FWD_COLS :: "column list" where
  "FWD_COLS =
     [(''gpu'', ''TEXT'', FromGpu),
      (''inputs$Q_dtype'', ''TEXT'', Derived ''dtype''),
      (''inputs$Max_seqlen_q'', ''INTEGER'', FromEntry ''seqlen_q''),
      (''inputs$Max_seqlen_k'', ''INTEGER'', FromEntry ''seqlen_k''),
      (''inputs$CAUSAL_TYPE'', ''INTEGER'', Derived ''causal''),
      (''inputs$BLOCK_DMODEL'', ''INTEGER'', FromEntry ''hdim''),
      (''inputs$ENABLE_DROPOUT'', ''INTEGER'', Derived ''dropout_p''),
      (''inputs$PADDED_HEAD'', ''INTEGER'', FromPsels ''PADDED_HEAD''),
      (''inputs$BIAS_TYPE'', ''INTEGER'', FromEntry ''bias_type''),
      (''inputs$USE_ALIBI'', ''INTEGER'', FromPsels ''USE_ALIBI''),
      (''inputs$INT8'', ''INTEGER'', FromPsels ''INT8''),
      (''inputs$INT8_KV'', ''INTEGER'', FromPsels ''INT8_KV''),
      (''inputs$USE_P_SCALE'', ''INTEGER'', FromPsels ''USE_P_SCALE''),
      (''tuned_kernel$PERSISTENT_TYPE'', ''INTEGER'', FromPsels ''PERSISTENT_TYPE''),
      (''tuned_kernel$GRID_CU_MULTIP'', ''INTEGER'', FromPsels ''GRID_CU_MULTIP''),
      (''tuned_kernel$BLOCK_M'', ''INTEGER'', FromPsels ''BLOCK_M''),
      (''tuned_kernel$BLOCK_N'', ''INTEGER'', FromPsels ''BLOCK_N''),
      (''tuned_kernel$PRE_LOAD_V'', ''INTEGER'', FromPsels ''PRE_LOAD_V''),
      (''compiler_options$waves_per_eu'', ''INTEGER'', FromCopts ''waves_per_eu''),
      (''compiler_options$num_warps'', ''INTEGER'', FromCopts ''num_warps''),
      (''compiler_options$num_stages'', ''INTEGER'', FromCopts ''num_stages'')]"

definition FWD_UNIQUE :: "string list" where
  "FWD_UNIQUE =
     [''gpu'', ''inputs$Q_dtype'', ''inputs$Max_seqlen_q'', ''inputs$Max_seqlen_k'', ''inputs$CAUSAL_TYPE'',
      ''inputs$BLOCK_DMODEL'', ''inputs$ENABLE_DROPOUT'', ''inputs$PADDED_HEAD'', ''inputs$BIAS_TYPE'',
      ''inputs$USE_ALIBI'', ''inputs$INT8'', ''inputs$INT8_KV'', ''inputs$USE_P_SCALE'']"

definition BWD_SPLIT_COLS :: "column list" where
  "BWD_SPLIT_COLS =
     [(''gpu'', ''TEXT'', FromGpu),
      (''inputs$Q_dtype'', ''TEXT'', Derived ''dtype''),
      (''inputs$max_seqlen_q'', ''INTEGER'', FromEntry ''seqlen_q''),
      (''inputs$max_seqlen_k'', ''INTEGER'', FromEntry ''seqlen_k''),
      (''inputs$CAUSAL_TYPE'', ''INTEGER'', Derived ''causal''),
      (''inputs$BLOCK_DMODEL'', ''INTEGER'', FromEntry ''hdim''),
      (''inputs$ENABLE_DROPOUT'', ''INTEGER'', Derived ''dropout_p''),
      (''inputs$PADDED_HEAD'', ''INTEGER'', FromPsels ''PADDED_HEAD''),
      (''inputs$BIAS_TYPE'', ''INTEGER'', FromEntry ''bias_type''),
      (''tuned_kernel$BLOCK_M'', ''INTEGER'', FromPsels ''BLOCK_M''),
      (''tuned_kernel$BLOCK_N'', ''INTEGER'', FromPsels ''BLOCK_N''),
      (''compiler_options$waves_per_eu'', ''INTEGER'', FromCopts ''waves_per_eu''),
      (''compiler_options$num_warps'', ''INTEGER'', FromCopts ''num_warps''),
      (''compiler_options$num_stages'', ''INTEGER'', FromCopts ''num_stages'')]"

definition BWD_SPLIT_UNIQUE :: "string list" where
  "BWD_SPLIT_UNIQUE =
     [''gpu'', ''inputs$Q_dtype'', ''inputs$max_seqlen_q'', ''inputs$max_seqlen_k'', ''inputs$CAUSAL_TYPE'',
      ''inputs$BLOCK_DMODEL'', ''inputs$ENABLE_DROPOUT'', ''inputs$PADDED_HEAD'', ''inputs$BIAS_TYPE'']"

definition BWD_FUSE_COLS :: "column list" where
  "BWD_FUSE_COLS =
     [(''gpu'', ''TEXT'', FromGpu),
      (''inputs$Q_dtype'', ''TEXT'', Derived ''dtype''),
      (''inputs$max_seqlen_q'', ''INTEGER'', FromEntry ''seqlen_q''),
      (''inputs$max_seqlen_k'', ''INTEGER'', FromEntry ''seqlen_k''),
      (''inputs$CAUSAL_TYPE'', ''INTEGER'', Derived ''causal''),
      (''inputs$BLOCK_DMODEL'', ''INTEGER'', FromEntry ''hdim''),
      (''inputs$ENABLE_DROPOUT'', ''INTEGER'', Derived ''dropout_p''),
      (''inputs$PADDED_HEAD'', ''INTEGER'', FromPsels ''PADDED_HEAD''),
      (''inputs$BIAS_TYPE'', ''INTEGER'', FromEntry ''bias_type''),
      (''inputs$USE_ALIBI'', ''INTEGER'', FromPsels ''USE_ALIBI''),
      (''inputs$INT8'', ''INTEGER'', FromPsels ''INT8''),
      (''inputs$INT8_KV'', ''INTEGER'', FromPsels ''INT8_KV''),
      (''inputs$USE_P_SCALE'', ''INTEGER'', FromPsels ''USE_P_SCALE''),
      (''tuned_kernel$BLOCK_M'', ''INTEGER'', FromPsels ''BLOCK_M''),
      (''tuned_kernel$BLOCK_N'', ''INTEGER'', FromPsels ''BLOCK_N''),
      (''compiler_options$waves_per_eu'', ''INTEGER'', FromCopts ''waves_per_eu''),
      (''compiler_options$num_warps'', ''INTEGER'', FromCopts ''num_warps''),
      (''compiler_options$num_stages'', ''INTEGER'', FromCopts ''num_stages'')]"

definition BWD_FUSE_UNIQUE :: "string list" where
  "BWD_FUSE_UNIQUE =
     [''gpu'', ''inputs$Q_dtype'', ''inputs$max_seqlen_q'', ''inputs$max_seqlen_k'', ''inputs$CAUSAL_TYPE'',
      ''inputs$BLOCK_DMODEL'', ''inputs$ENABLE_DROPOUT'', ''inputs$PADDED_HEAD'', ''inputs$BIAS_TYPE'',
      ''inputs$USE_ALIBI'', ''inputs$INT8'', ''inputs$INT8_KV'', ''inputs$USE_P_SCALE'']"

type_synonym schema = "column list \<times> string list"

definition KERNEL_SCHEMAS :: "(string, schema) dict" where
  "KERNEL_SCHEMAS =
     [(''attn_fwd'', FWD_COLS, FWD_UNIQUE),
      (''bwd_kernel_dk_dv'', BWD_SPLIT_COLS, BWD_SPLIT_UNIQUE),
      (''bwd_kernel_dq'', BWD_SPLIT_COLS, BWD_SPLIT_UNIQUE),
      (''bwd_kernel_fuse'', BWD_FUSE_COLS, BWD_FUSE_UNIQUE)]"

definition OP_EXTRA_COLS :: "column list" where
  "OP_EXTRA_COLS = [(''op$backend'', ''INTEGER'', OpBackend), (''op$tflops'', ''REAL'', OpTflops)]"

definition input_only :: "column list \<Rightarrow> column list" where
  "input_only cols =
     filter (\<lambda>c. \<not> (startswith (fst c) ''tuned_kernel$'' \<or> startswith (fst c) ''compiler_options$'')) cols"

definition OP_NAME_MAP :: "(string, string) dict" where
  "OP_NAME_MAP = [(''attn_fwd_op'', ''op_attn_fwd''), (''attn_bwd_op'', ''op_attn_bwd'')]"

definition OP_SCHEMAS :: "(string, schema) dict" where
  "OP_SCHEMAS =
     [(''op_attn_fwd'', input_only FWD_COLS @ OP_EXTRA_COLS, FWD_UNIQUE),
      (''op_attn_bwd'', input_only BWD_FUSE_COLS @ OP_EXTRA_COLS, BWD_FUSE_UNIQUE)]"

section \<open>Values\<close>

definition DTYPE_MAP :: "(string, string) dict" where
  "DTYPE_MAP =
     [(''float16'', ''torch.float16''), (''bfloat16'', ''torch.bfloat16''), (''float32'', ''torch.float32'')]"

text \<open>A key that is no text is not in the map; one that is not hashable is a TypeError.\<close>

definition derive_dtype :: "pyobj \<Rightarrow> pyobj res" where
  "derive_dtype entry =
     rbind (obj_get entry ''dtype'') (\<lambda>raw.
     rbind (key_of raw) (\<lambda>k.
       case k of
         KStr s \<Rightarrow> rmap OStr (of_option ValueError (dget DTYPE_MAP s))
       | _ \<Rightarrow> Inl ValueError))"

definition derive_causal_type :: "pyobj \<Rightarrow> pyobj res" where
  "derive_causal_type entry =
     rmap (\<lambda>causal. if obj_eq causal (OInt 0) \<or> causal \<in> {OFloat ''0.0'', OFloat ''-0.0''} then OInt 0 else OInt 3)
       (obj_get entry ''causal'')"

text \<open>\<open>v > 0.0\<close>.\<close>

definition obj_positive :: "pyobj \<Rightarrow> bool res" where
  "obj_positive v =
     (case v of
        OFloat f \<Rightarrow> Inr (\<not> startswith f ''-'' \<and> f \<notin> {''0.0'', ''NaN''})
      | _ \<Rightarrow> rmap (\<lambda>i. i > 0) (of_option TypeError (obj_num v)))"

definition derive_enable_dropout :: "pyobj \<Rightarrow> pyobj res" where
  "derive_enable_dropout entry =
     rbind (obj_get_or entry ''dropout_p'' (OFloat ''0.0'')) (\<lambda>p.
     rmap (\<lambda>b. OInt (if b then 1 else 0)) (obj_positive p))"

definition extract_value :: "column \<Rightarrow> string \<Rightarrow> pyobj \<Rightarrow> pyobj \<Rightarrow> pyobj \<Rightarrow> pyobj res" where
  "extract_value col_def gpu entry psels copts =
     (case snd (snd col_def) of
        FromGpu \<Rightarrow> Inr (OStr gpu)
      | FromEntry key \<Rightarrow> obj_get entry key
      | FromPsels key \<Rightarrow> obj_get_or psels key (OInt 0)
      | FromCopts key \<Rightarrow> obj_get_or copts key (OInt 0)
      | Derived key \<Rightarrow>
          (if key = ''dtype'' then derive_dtype entry
           else if key = ''causal'' then derive_causal_type entry
           else if key = ''dropout_p'' then derive_enable_dropout entry
           else Inl ValueError)
      | _ \<Rightarrow> Inl ValueError)"

section \<open>Tables\<close>

text \<open>A value bound to a parameter: a bool is its number, a list or a dictionary cannot be bound.\<close>

fun sql_bind :: "pyobj \<Rightarrow> pyobj res" where
  "sql_bind (OBool b) = Inr (OInt (if b then 1 else 0))"
| "sql_bind (OList _) = Inl DatabaseError"
| "sql_bind (ODict _) = Inl DatabaseError"
| "sql_bind v = Inr v"

type_synonym row = "pyobj list"
type_synonym tables = "(string, row list) dict"

definition col_names :: "column list \<Rightarrow> string list" where
  "col_names cols = map fst cols"

definition row_key :: "column list \<Rightarrow> string list \<Rightarrow> row \<Rightarrow> pyobj list" where
  "row_key cols unique r =
     map snd (filter (\<lambda>(c, v). c \<in> set unique) (zip (col_names cols) r))"

text \<open>Two rows conflict if their keys are equal and have no null.\<close>

definition conflicts :: "column list \<Rightarrow> string list \<Rightarrow> row \<Rightarrow> row \<Rightarrow> bool" where
  "conflicts cols unique r s \<longleftrightarrow>
     row_key cols unique r = row_key cols unique s \<and> ONone \<notin> set (row_key cols unique r)"

definition table_name :: "string \<Rightarrow> string" where
  "table_name kname = ''FLASH$'' @ kname"

definition ensure_table :: "string \<Rightarrow> tables \<Rightarrow> tables" where
  "ensure_table kname db = (if dhas db (table_name kname) then db else dset db (table_name kname) [])"

definition rows_of :: "tables \<Rightarrow> string \<Rightarrow> row list" where
  "rows_of db kname = (case dget db (table_name kname) of None \<Rightarrow> [] | Some rs \<Rightarrow> rs)"

text \<open>\<open>INSERT OR REPLACE\<close>: rows in conflict go, the new one gets the next id.\<close>

definition insert_row :: "string \<Rightarrow> schema \<Rightarrow> pyobj list \<Rightarrow> tables \<Rightarrow> tables res" where
  "insert_row kname schema vals db =
     rmap (\<lambda>r. dset db (table_name kname)
                 (filter (\<lambda>s. \<not> conflicts (fst schema) (snd schema) r s) (rows_of db kname) @ [r]))
       (rtraverse sql_bind vals)"

section \<open>Export\<close>

record export_row =
  br_task_id :: int
  br_arch :: string
  br_name :: string
  br_config :: pyobj
  br_impl :: "pyobj option"
  br_backend :: pyobj
  br_status :: string

definition gpu_of_arch :: "string \<Rightarrow> string" where
  "gpu_of_arch arch = arch @ ''_mod0''"

text \<open>\<open>impl_desc.get(k) or {}\<close>.\<close>

definition get_or_empty :: "pyobj \<Rightarrow> string \<Rightarrow> pyobj res" where
  "get_or_empty d k = rmap (\<lambda>v. if obj_true v then v else ODict []) (obj_get_or d k ONone)"

text \<open>
  What a row becomes: None is a row that is skipped. An exception while the entry is taken out of
  the task or the selections out of the description is not caught.
\<close>

definition kernel_values :: "export_row \<Rightarrow> (schema \<times> pyobj list) option res" where
  "kernel_values b =
     (case br_impl b of
        None \<Rightarrow> Inr None
      | Some impl_desc \<Rightarrow>
          (case dget KERNEL_SCHEMAS (br_name b) of
             None \<Rightarrow> Inr None
           | Some schema \<Rightarrow>
               rbind (obj_get (br_config b) ''entry'') (\<lambda>entry.
               rbind (get_or_empty impl_desc ''psels'') (\<lambda>psels.
               rmap (\<lambda>copts.
                   case rtraverse (\<lambda>c. extract_value c (gpu_of_arch (br_arch b)) entry psels copts) (fst schema) of
                     Inl _ \<Rightarrow> None
                   | Inr vs \<Rightarrow> Some (schema, vs))
                 (get_or_empty impl_desc ''copts'')))))"

definition op_value :: "column \<Rightarrow> export_row \<Rightarrow> pyobj \<Rightarrow> pyobj res" where
  "op_value c b entry =
     (case snd (snd c) of
        OpBackend \<Rightarrow> Inr (br_backend b)
      | OpTflops \<Rightarrow> Inr (OFloat ''0.0'')
      | _ \<Rightarrow> extract_value c (gpu_of_arch (br_arch b)) entry (ODict []) (ODict []))"

definition op_values :: "export_row \<Rightarrow> (schema \<times> pyobj list) option res" where
  "op_values b =
     (case Option.bind (dget OP_NAME_MAP (br_name b)) (dget OP_SCHEMAS) of
        None \<Rightarrow> Inr None
      | Some schema \<Rightarrow>
          rmap (\<lambda>entry.
              case rtraverse (\<lambda>c. op_value c b entry) (fst schema) of Inl _ \<Rightarrow> None | Inr vs \<Rightarrow> Some (schema, vs))
            (obj_get (br_config b) ''entry''))"

text \<open>The query: rows of tasks that are not cancelled, by architecture and name.\<close>

definition best_query :: "export_row list \<Rightarrow> export_row list" where
  "best_query rows = sort_key (\<lambda>b. (br_arch b, br_name b)) (filter (\<lambda>b. br_status b \<noteq> ''cancelled'') rows)"

text \<open>The loop over the rows, with the numbers of rows exported per table and skipped.\<close>

fun export_rows ::
  "(export_row \<Rightarrow> (schema \<times> pyobj list) option res) \<Rightarrow> (export_row \<Rightarrow> string) \<Rightarrow> export_row list
     \<Rightarrow> tables \<times> (string, nat) dict \<times> nat \<Rightarrow> (tables \<times> (string, nat) dict \<times> nat) res" where
  "export_rows values_of table_of [] st = Inr st"
| "export_rows values_of table_of (b # bs) (db, counts, skipped) =
     rbind (values_of b) (\<lambda>v.
       case v of
         None \<Rightarrow> export_rows values_of table_of bs (db, counts, skipped + 1)
       | Some (schema, vs) \<Rightarrow>
           rbind (insert_row (table_of b) schema vs db) (\<lambda>db.
             export_rows values_of table_of bs
               (db, dset counts (table_of b) ((case dget counts (table_of b) of None \<Rightarrow> 0 | Some n \<Rightarrow> n) + 1), skipped)))"

text \<open>An exception leaves the file as it was, but for the tables, which were created before.\<close>

definition export :: "export_row list \<Rightarrow> tables \<Rightarrow> tables \<times> ((string, nat) dict \<times> nat) res" where
  "export rows db =
     (let db = fold ensure_table (dkeys KERNEL_SCHEMAS) db in
      case export_rows kernel_values br_name (best_query rows) (db, [], 0) of
        Inl e \<Rightarrow> (db, Inl e)
      | Inr (db', counts, skipped) \<Rightarrow> (db', Inr (counts, skipped)))"

definition op_table :: "export_row \<Rightarrow> string" where
  "op_table b = (case dget OP_NAME_MAP (br_name b) of None \<Rightarrow> [] | Some t \<Rightarrow> t)"

definition export_op :: "export_row list \<Rightarrow> tables \<Rightarrow> tables \<times> ((string, nat) dict \<times> nat) res" where
  "export_op rows db =
     (let db = fold ensure_table (dkeys OP_SCHEMAS) db in
      case export_rows op_values op_table (best_query rows) (db, [], 0) of
        Inl e \<Rightarrow> (db, Inl e)
      | Inr (db', counts, skipped) \<Rightarrow> (db', Inr (counts, skipped)))"

section \<open>Shards\<close>

text \<open>The text in the column \<open>gpu\<close>, which is the first.\<close>

definition row_gpu :: "row \<Rightarrow> string option" where
  "row_gpu r = (case r of OStr g # _ \<Rightarrow> Some g | _ \<Rightarrow> None)"

fun no_conflicts :: "schema \<Rightarrow> row list \<Rightarrow> bool" where
  "no_conflicts schema [] = True"
| "no_conflicts schema (r # rs) =
     (list_all (\<lambda>s. \<not> conflicts (fst schema) (snd schema) r s) rs \<and> no_conflicts schema rs)"

text \<open>\<open>INSERT ... SELECT\<close>: all rows, or none if one conflicts.\<close>

definition insert_all :: "schema \<Rightarrow> row list \<Rightarrow> row list \<Rightarrow> row list option" where
  "insert_all schema old new = (if no_conflicts schema (old @ new) then Some (old @ new) else None)"

type_synonym shards = "(string \<times> string, row list) dict"

text \<open>
  The commands for one GPU of one table. The shell goes on when the table exists already or the
  insert is refused.
\<close>

definition shard_step :: "string \<Rightarrow> schema \<Rightarrow> row list \<Rightarrow> string \<Rightarrow> shards \<Rightarrow> shards" where
  "shard_step kname schema rows gpu shards =
     (let arch = gpu2arch gpu;
          old = (case dget shards (arch, kname) of None \<Rightarrow> [] | Some rs \<Rightarrow> rs);
          new = filter (\<lambda>r. case row_gpu r of None \<Rightarrow> False | Some g \<Rightarrow> sqlite_like (arch @ ''_%'') g) rows
      in dset shards (arch, kname) (case insert_all schema old new of None \<Rightarrow> old | Some rs \<Rightarrow> rs))"

definition distinct_gpus :: "row list \<Rightarrow> string list" where
  "distinct_gpus rows = remdups (List.map_filter row_gpu rows)"

definition decompose_table :: "tables \<Rightarrow> string \<times> schema \<Rightarrow> shards \<Rightarrow> shards" where
  "decompose_table db = (\<lambda>(kname, schema) shards.
     fold (shard_step kname schema (rows_of db kname)) (distinct_gpus (rows_of db kname)) shards)"

definition decompose :: "(string, schema) dict \<Rightarrow> tables \<Rightarrow> shards" where
  "decompose schemas db = fold (decompose_table db) schemas []"

text \<open>
  The tables of the composed file exist, with the columns of the shards; \<open>schema_of\<close> is their
  unique key.
\<close>

fun compose :: "(string \<Rightarrow> schema) \<Rightarrow> shards \<Rightarrow> tables \<Rightarrow> tables res" where
  "compose schema_of [] db = Inr db"
| "compose schema_of (((arch, kname), rows) # shards) db =
     (case dget db (table_name kname) of
        None \<Rightarrow> Inl DatabaseError
      | Some old \<Rightarrow>
          (case insert_all (schema_of kname) old rows of
             None \<Rightarrow> Inl DatabaseError
           | Some rs \<Rightarrow> compose schema_of shards (dset db (table_name kname) rs)))"

section \<open>The view of a functional\<close>

fun obj_of_pyval :: "pyval \<Rightarrow> pyobj" where
  "obj_of_pyval PNone = ONone"
| "obj_of_pyval (PBool b) = OBool b"
| "obj_of_pyval (PInt i) = OInt i"
| "obj_of_pyval (PStr s) = OStr s"

text \<open>A condition: a column is one of some values, or it is equal to a value.\<close>

datatype where_clause = InValues "pyobj list" | EqValue pyobj

definition where_key :: "string \<Rightarrow> stc \<Rightarrow> string" where
  "where_key key c = ''inputs$'' @ key @ (if stc_is_tensor c then ''_dtype'' else [])"

definition build_wheres :: "string list \<Rightarrow> (string, stc) dict \<Rightarrow> (string, where_clause) dict" where
  "build_wheres database_gpus choices =
     fold (\<lambda>(key, c) w. dset w (where_key key c) (EqValue (obj_of_pyval (stc_sql_value c))))
       choices [(''gpu'', InValues (map OStr database_gpus))]"

text \<open>The statement and its parameters.\<close>

definition create_select_stmt :: "string \<Rightarrow> (string, where_clause) dict \<Rightarrow> string \<times> pyobj list" where
  "create_select_stmt tname wheres =
     (''SELECT * FROM '' @ tname @ '' WHERE '' @
        join '' AND '' (map (\<lambda>(k, w). case w of
            InValues vs \<Rightarrow> k @ '' IN ('' @ join '', '' (map (\<lambda>_. ''?'') vs) @ '')''
          | EqValue v \<Rightarrow> k @ '' = ?'') wheres),
      concat (map (\<lambda>(k, w). case w of InValues vs \<Rightarrow> vs | EqValue v \<Rightarrow> [v]) wheres))"

text \<open>Comparison in SQL: null is equal to nothing.\<close>

definition sql_eq :: "pyobj \<Rightarrow> pyobj \<Rightarrow> bool" where
  "sql_eq a b \<longleftrightarrow> a \<noteq> ONone \<and> b \<noteq> ONone \<and> obj_eq a b"

definition clause_holds :: "where_clause \<Rightarrow> pyobj \<Rightarrow> bool" where
  "clause_holds w v = (case w of InValues vs \<Rightarrow> list_ex (sql_eq v) vs | EqValue u \<Rightarrow> sql_eq v u)"

definition row_matches :: "column list \<Rightarrow> (string, where_clause) dict \<Rightarrow> row \<Rightarrow> bool" where
  "row_matches cols wheres r =
     list_all (\<lambda>(k, w). case dget (zip (col_names cols) r) k of None \<Rightarrow> False | Some v \<Rightarrow> clause_holds w v) wheres"

text \<open>A column that does not exist is an error of the database, and so is a table.\<close>

definition run_select :: "column list \<Rightarrow> row list option \<Rightarrow> (string, where_clause) dict \<Rightarrow> row list res" where
  "run_select cols rows wheres =
     (case rows of
        None \<Rightarrow> Inl DatabaseError
      | Some rs \<Rightarrow>
          if list_all (\<lambda>k. k \<in> set (col_names cols)) (dkeys wheres) then Inr (filter (row_matches cols wheres) rs)
          else Inl DatabaseError)"

definition view_table :: "bool \<Rightarrow> string \<Rightarrow> string \<Rightarrow> string" where
  "view_table is_operator family name =
     (if is_operator then ''op.'' else []) @ map ascii_upper family @ ''$'' @ name"

text \<open>The rows, or None after an error; without a row the choices of the fallback are tried.\<close>

definition create_view ::
  "column list \<Rightarrow> row list option \<Rightarrow> string list \<Rightarrow> (string, stc) dict \<Rightarrow> (string, stc) dict \<Rightarrow> row list option" where
  "create_view cols rows database_gpus compact_choices fallback_choices =
     (case run_select cols rows (build_wheres database_gpus compact_choices) of
        Inl _ \<Rightarrow> None
      | Inr (r # rs) \<Rightarrow> Some (r # rs)
      | Inr [] \<Rightarrow>
          (case run_select cols rows (build_wheres database_gpus fallback_choices) of
             Inl _ \<Rightarrow> None
           | Inr rs \<Rightarrow> Some rs))"

section \<open>The last row of a key\<close>

text \<open>The rows no later row conflicts with.\<close>

fun latest :: "schema \<Rightarrow> row list \<Rightarrow> row list" where
  "latest schema [] = []"
| "latest schema (r # rs) =
     (if list_ex (conflicts (fst schema) (snd schema) r) rs then latest schema rs else r # latest schema rs)"

lemma conflicts_sym: "conflicts cols unique r s \<longleftrightarrow> conflicts cols unique s r"
  by (auto simp: conflicts_def)

lemma latest_snoc:
  "latest schema (rs @ [r]) = filter (\<lambda>s. \<not> conflicts (fst schema) (snd schema) r s) (latest schema rs) @ [r]"
  by (induction rs) (auto simp: conflicts_sym)

lemma latest_subset: "set (latest schema rs) \<subseteq> set rs"
  by (induction rs) auto

lemma no_conflicts_latest: "no_conflicts schema (latest schema rs)"
proof (induction rs)
  case (Cons r rs)
  then show ?case using latest_subset [of schema rs] by (auto simp: list_ex_iff list_all_iff)
qed simp

lemma latest_no_conflicts: "no_conflicts schema rs \<Longrightarrow> latest schema rs = rs"
  by (induction rs) (auto simp: list_all_iff list_ex_iff)

lemma latest_append: "latest schema (latest schema rs @ ts) = latest schema (rs @ ts)"
proof (induction ts rule: rev_induct)
  case Nil
  show ?case by (simp add: latest_no_conflicts no_conflicts_latest)
next
  case (snoc t ts)
  then show ?case using latest_snoc [of schema "latest schema rs @ ts" t] latest_snoc [of schema "rs @ ts" t] by simp
qed

section \<open>What an export leaves in a table\<close>

text \<open>The row a best result becomes in the table \<open>k\<close>, if it becomes one.\<close>

definition exported_row ::
  "(export_row \<Rightarrow> (schema \<times> pyobj list) option res) \<Rightarrow> (export_row \<Rightarrow> string) \<Rightarrow> string \<Rightarrow> export_row \<Rightarrow> row option" where
  "exported_row values_of table_of k b =
     (if table_of b \<noteq> k then None
      else (case values_of b of
              Inr (Some (_, vs)) \<Rightarrow> (case rtraverse sql_bind vs of Inr r \<Rightarrow> Some r | Inl _ \<Rightarrow> None)
            | _ \<Rightarrow> None))"

definition exported_rows ::
  "(export_row \<Rightarrow> (schema \<times> pyobj list) option res) \<Rightarrow> (export_row \<Rightarrow> string) \<Rightarrow> string \<Rightarrow> export_row list \<Rightarrow> row list" where
  "exported_rows values_of table_of k bs = List.map_filter (exported_row values_of table_of k) bs"

lemma table_name_inj [simp]: "table_name k = table_name k' \<longleftrightarrow> k = k'"
  by (simp add: table_name_def)

lemma rows_of_dset [simp]: "rows_of (dset db (table_name k) rs) k' = (if k = k' then rs else rows_of db k')"
  by (simp add: rows_of_def)

lemma map_filter_Cons: "List.map_filter f (x # xs) = (case f x of None \<Rightarrow> [] | Some y \<Rightarrow> [y]) @ List.map_filter f xs"
  by (simp add: List.map_filter_simps split: option.splits)

abbreviation count_of :: "(string, nat) dict \<Rightarrow> string \<Rightarrow> nat" where
  "count_of counts k \<equiv> (case dget counts k of None \<Rightarrow> 0 | Some n \<Rightarrow> n)"

lemma export_rows_latest:
  assumes "\<And>b schema vs. values_of b = Inr (Some (schema, vs)) \<Longrightarrow> dget schemas (table_of b) = Some schema"
    and k: "dget schemas k = Some schema"
    and "export_rows values_of table_of bs (db, counts, skipped) = Inr (db', counts', skipped')"
    and "no_conflicts schema (rows_of db k)"
  shows "rows_of db' k = latest schema (rows_of db k @ exported_rows values_of table_of k bs)
      \<and> count_of counts' k = count_of counts k + length (exported_rows values_of table_of k bs)
      \<and> skipped' = skipped + length (filter (\<lambda>b. values_of b = Inr None) bs)"
  using assms(3,4)
proof (induction bs arbitrary: db counts skipped)
  case Nil
  then show ?case by (simp add: exported_rows_def List.map_filter_simps latest_no_conflicts)
next
  case (Cons b bs)
  obtain v where v: "values_of b = Inr v" using Cons.prems by (auto simp: rbind_Inr_iff)
  show ?case
  proof (cases v)
    case None
    then have "exported_row values_of table_of k b = None" by (simp add: exported_row_def v)
    with None Cons.IH [of db counts "skipped + 1"] Cons.prems show ?thesis
      by (simp add: v exported_rows_def map_filter_Cons)
  next
    case (Some sv)
    obtain sc vs where sv: "sv = (sc, vs)" by (cases sv)
    obtain db1 where db1: "insert_row (table_of b) sc vs db = Inr db1"
      and rest: "export_rows values_of table_of bs
        (db1, dset counts (table_of b) (count_of counts (table_of b) + 1), skipped) = Inr (db', counts', skipped')"
      using Cons.prems(1) by (auto simp: v Some sv rbind_Inr_iff)
    obtain r where r: "rtraverse sql_bind vs = Inr r"
      and db1_def: "db1 = dset db (table_name (table_of b))
                 (filter (\<lambda>s. \<not> conflicts (fst sc) (snd sc) r s) (rows_of db (table_of b)) @ [r])"
      using db1 by (auto simp: insert_row_def rmap_Inr_iff)
    have sc: "dget schemas (table_of b) = Some sc" using assms(1) v Some sv by simp
    show ?thesis
    proof (cases "table_of b = k")
      case False
      then have "exported_row values_of table_of k b = None" by (simp add: exported_row_def)
      with False Cons.IH [OF rest] Cons.prems(2) show ?thesis
        by (simp add: db1_def v Some sv exported_rows_def map_filter_Cons)
    next
      case True
      then have schema: "sc = schema" using sc k by simp
      have row: "exported_row values_of table_of k b = Some r" using True by (simp add: exported_row_def v Some sv r)
      have rows1: "rows_of db1 k = latest schema (rows_of db k @ [r])"
        using True Cons.prems(2) by (simp add: db1_def schema latest_snoc latest_no_conflicts)
      then show ?thesis
        using Cons.IH [OF rest] True row no_conflicts_latest [of schema "rows_of db k @ [r]"]
        by (simp add: v Some sv exported_rows_def map_filter_Cons latest_append)
    qed
  qed
qed

lemma dget_ensure_table:
  "dget (ensure_table kname db) n = (if n = table_name kname \<and> dget db n = None then Some [] else dget db n)"
  by (auto simp: ensure_table_def dhas_def dget_dset split: option.splits)

lemma rows_of_ensure_tables [simp]: "rows_of (fold ensure_table ks db) k = rows_of db k"
proof (induction ks arbitrary: db)
  case (Cons kname ks)
  have "rows_of (ensure_table kname db) k = rows_of db k"
    by (auto simp: rows_of_def dget_ensure_table split: option.split)
  with Cons show ?case by simp
qed simp

lemma kernel_values_schema: "kernel_values b = Inr (Some (schema, vs)) \<Longrightarrow> dget KERNEL_SCHEMAS (br_name b) = Some schema"
  by (auto simp: kernel_values_def rbind_Inr_iff rmap_Inr_iff split: option.split_asm sum.split_asm)
    (metis sum.exhaust)

lemma op_values_schema:
  "op_values b = Inr (Some (schema, vs)) \<Longrightarrow> dget OP_SCHEMAS (op_table b) = Some schema"
  by (auto simp: op_values_def op_table_def rbind_Inr_iff rmap_Inr_iff bind_eq_Some_conv split: option.split_asm sum.split_asm)
    (metis sum.exhaust)

text \<open>An export that fails leaves the rows of every table as they were.\<close>

lemma export_failure: "export rows db = (db', Inl e) \<Longrightarrow> rows_of db' k = rows_of db k"
  by (auto simp: export_def Let_def split: sum.splits)

lemma export_op_latest:
  assumes "export_op rows db = (db', Inr (counts, skipped))"
    and "dget OP_SCHEMAS k = Some schema"
    and "no_conflicts schema (rows_of db k)"
  shows "rows_of db' k = latest schema (rows_of db k @ exported_rows op_values op_table k (best_query rows))
      \<and> count_of counts k = length (exported_rows op_values op_table k (best_query rows))
      \<and> skipped = length (filter (\<lambda>b. op_values b = Inr None) (best_query rows))"
proof -
  have "export_rows op_values op_table (best_query rows) (fold ensure_table (dkeys OP_SCHEMAS) db, [], 0)
      = Inr (db', counts, skipped)"
    using assms(1) by (auto simp: export_op_def Let_def split: sum.splits)
  from export_rows_latest [OF op_values_schema assms(2) this] assms(3) show ?thesis by simp
qed

text \<open>
  C31: after an export that succeeds, the table of a kernel holds, of its former rows followed by
  the rows of the best results of the tasks that are not cancelled, in the order of architectures,
  those that no later row with the same key replaces; no two of them have the same key, and the
  numbers reported are the results written to the table and the results skipped.
\<close>

theorem export_latest:
  assumes "export rows db = (db', Inr (counts, skipped))"
    and "dget KERNEL_SCHEMAS k = Some schema"
    and "no_conflicts schema (rows_of db k)"
  shows "rows_of db' k = latest schema (rows_of db k @ exported_rows kernel_values br_name k (best_query rows))
      \<and> no_conflicts schema (rows_of db' k)
      \<and> count_of counts k = length (exported_rows kernel_values br_name k (best_query rows))
      \<and> skipped = length (filter (\<lambda>b. kernel_values b = Inr None) (best_query rows))"
proof -
  have "export_rows kernel_values br_name (best_query rows) (fold ensure_table (dkeys KERNEL_SCHEMAS) db, [], 0)
      = Inr (db', counts, skipped)"
    using assms(1) by (auto simp: export_def Let_def split: sum.splits)
  from export_rows_latest [OF kernel_values_schema assms(2) this] assms(3) show ?thesis
    by (simp add: no_conflicts_latest)
qed

text \<open>Two tasks with the same inputs on one GPU, one on another GPU, a cancelled one and an unknown kernel.\<close>

definition ex_entry :: pyobj where
  "ex_entry = ODict [(KStr ''entry'', ODict [(KStr ''dtype'', OStr ''float16''), (KStr ''seqlen_q'', OInt 16),
     (KStr ''seqlen_k'', OInt 32), (KStr ''causal'', OBool True), (KStr ''hdim'', OInt 64),
     (KStr ''dropout_p'', OFloat ''0.5''), (KStr ''bias_type'', OInt 0)])]"

definition ex_best :: "int \<Rightarrow> string \<Rightarrow> string \<Rightarrow> int \<Rightarrow> string \<Rightarrow> export_row" where
  "ex_best i arch name m status =
     \<lparr>br_task_id = i, br_arch = arch, br_name = name, br_config = ex_entry,
      br_impl = Some (ODict [(KStr ''psels'', ODict [(KStr ''BLOCK_M'', OInt m)])]),
      br_backend = OInt 0, br_status = status\<rparr>"

definition ex_best_rows :: "export_row list" where
  "ex_best_rows =
     [ex_best 1 ''gfx942'' ''bwd_kernel_dq'' 64 ''completed'', ex_best 2 ''gfx942'' ''bwd_kernel_dq'' 32 ''completed'',
      ex_best 3 ''gfx942'' ''bwd_kernel_dq'' 16 ''cancelled'', ex_best 4 ''gfx1100'' ''bwd_kernel_dq'' 128 ''completed'',
      ex_best 5 ''gfx942'' ''other'' 16 ''completed'']"

definition ex_exported :: tables where
  "ex_exported = fst (export ex_best_rows [])"

lemma ex_export:
  "is_ok (snd (export ex_best_rows []))
   \<and> map (\<lambda>r. (r ! 0, r ! 9)) (rows_of ex_exported ''bwd_kernel_dq'') =
       [(OStr ''gfx1100_mod0'', OInt 128), (OStr ''gfx942_mod0'', OInt 32)]"
  by code_simp

theorem export_latest_witness:
  "\<exists>counts skipped. export ex_best_rows [] = (ex_exported, Inr (counts, skipped))
     \<and> rows_of ex_exported ''bwd_kernel_dq''
         = latest (BWD_SPLIT_COLS, BWD_SPLIT_UNIQUE) (exported_rows kernel_values br_name ''bwd_kernel_dq'' (best_query ex_best_rows))
     \<and> count_of counts ''bwd_kernel_dq'' = length (exported_rows kernel_values br_name ''bwd_kernel_dq'' (best_query ex_best_rows))
     \<and> map (\<lambda>r. r ! 9) (rows_of ex_exported ''bwd_kernel_dq'') = [OInt 128, OInt 32]"
proof -
  obtain counts skipped where run: "export ex_best_rows [] = (ex_exported, Inr (counts, skipped))"
    using ex_export by (cases "export ex_best_rows []"; cases "snd (export ex_best_rows [])") (auto simp: ex_exported_def)
  have schema: "dget KERNEL_SCHEMAS ''bwd_kernel_dq'' = Some (BWD_SPLIT_COLS, BWD_SPLIT_UNIQUE)"
    by (simp add: KERNEL_SCHEMAS_def)
  have empty: "rows_of [] ''bwd_kernel_dq'' = []" by (simp add: rows_of_def)
  have "map (\<lambda>r. r ! 9) (rows_of ex_exported ''bwd_kernel_dq'') = [OInt 128, OInt 32]" by code_simp
  with run export_latest [OF run schema] show ?thesis by (auto simp: empty)
qed

section \<open>Shards of a table\<close>

lemma no_conflicts_append:
  "no_conflicts schema (xs @ ys) \<longleftrightarrow> no_conflicts schema xs \<and> no_conflicts schema ys
     \<and> list_all (\<lambda>x. list_all (\<lambda>y. \<not> conflicts (fst schema) (snd schema) x y) ys) xs"
  by (induction xs) auto

lemma no_conflicts_middle: "no_conflicts schema (xs @ y # ys) \<longleftrightarrow> no_conflicts schema (y # xs @ ys)"
  by (auto simp: no_conflicts_append list_all_iff conflicts_sym)

lemma no_conflicts_mset: "mset xs = mset ys \<Longrightarrow> no_conflicts schema xs = no_conflicts schema ys"
proof (induction xs arbitrary: ys)
  case (Cons x xs)
  then obtain as bs where ys: "ys = as @ x # bs" by (metis list.set_intros(1) set_mset_mset split_list)
  with Cons.prems have m: "mset xs = mset (as @ bs)" by simp
  then have "set xs = set (as @ bs)" by (metis set_mset_mset)
  then show ?case using Cons.IH [OF m] by (simp only: ys no_conflicts_middle no_conflicts.simps list_all_iff)
qed simp

lemma no_conflicts_filter: "no_conflicts schema xs \<Longrightarrow> no_conflicts schema (filter P xs)"
  by (induction xs) (auto simp: list_all_iff)

text \<open>The rows of one architecture.\<close>

definition row_arch :: "row \<Rightarrow> string option" where
  "row_arch r = map_option gpu2arch (row_gpu r)"

definition arch_rows :: "row list \<Rightarrow> string \<Rightarrow> row list" where
  "arch_rows rows arch = filter (\<lambda>r. row_arch r = Some arch) rows"

text \<open>A table whose rows name a supported GPU and have no null in their keys.\<close>

definition sound_table :: "schema \<Rightarrow> row list \<Rightarrow> bool" where
  "sound_table schema rows \<longleftrightarrow> no_conflicts schema rows
     \<and> list_all (\<lambda>r. row_gpu r \<in> Some ` set AOTRITON_SUPPORTED_GPUS
                    \<and> ONone \<notin> set (row_key (fst schema) (snd schema) r)) rows"

lemma supported_like:
  assumes "g \<in> set AOTRITON_SUPPORTED_GPUS" "g' \<in> set AOTRITON_SUPPORTED_GPUS"
  shows "sqlite_like (gpu2arch g @ ''_%'') g' \<longleftrightarrow> gpu2arch g' = gpu2arch g"
proof -
  have "list_all (\<lambda>g. list_all (\<lambda>g'. sqlite_like (gpu2arch g @ ''_%'') g' \<longleftrightarrow> gpu2arch g' = gpu2arch g)
      AOTRITON_SUPPORTED_GPUS) AOTRITON_SUPPORTED_GPUS"
    by code_simp
  with assms show ?thesis by (simp add: list_all_iff)
qed

lemma shard_step_dget:
  assumes sound: "sound_table schema rows" and g: "g \<in> set AOTRITON_SUPPORTED_GPUS"
    and old: "dget shards (gpu2arch g, k) \<in> {None, Some (arch_rows rows (gpu2arch g))}"
  shows "shard_step k schema rows g shards = dset shards (gpu2arch g, k) (arch_rows rows (gpu2arch g))"
proof -
  have new: "filter (\<lambda>r. case row_gpu r of None \<Rightarrow> False | Some h \<Rightarrow> sqlite_like (gpu2arch g @ ''_%'') h) rows
      = arch_rows rows (gpu2arch g)"
    unfolding arch_rows_def row_arch_def
    using sound supported_like [OF g] by (intro filter_cong) (auto simp: sound_table_def list_all_iff)
  have alone: "no_conflicts schema (arch_rows rows (gpu2arch g))"
    using sound by (simp add: arch_rows_def sound_table_def no_conflicts_filter)
  have again: "\<not> no_conflicts schema (arch_rows rows (gpu2arch g) @ arch_rows rows (gpu2arch g))"
    if "arch_rows rows (gpu2arch g) \<noteq> []"
  proof -
    have r: "hd (arch_rows rows (gpu2arch g)) \<in> set (arch_rows rows (gpu2arch g))" (is "?r \<in> _") using that by simp
    then have "conflicts (fst schema) (snd schema) ?r ?r"
      using sound by (auto simp: arch_rows_def sound_table_def list_all_iff conflicts_def)
    with r show ?thesis by (auto simp: no_conflicts_append list_all_iff)
  qed
  show ?thesis
    using old alone again
    by (cases "arch_rows rows (gpu2arch g) = []") (auto simp: shard_step_def Let_def new insert_all_def)
qed

lemma distinct_gpus_set: "set (distinct_gpus rows) = {g. \<exists>r\<in>set rows. row_gpu r = Some g}"
proof -
  have "set (List.map_filter row_gpu rs) = {g. \<exists>r\<in>set rs. row_gpu r = Some g}" for rs
    by (induction rs) (auto simp: map_filter_Cons List.map_filter_simps split: option.splits)
  then show ?thesis by (simp add: distinct_gpus_def)
qed

lemma shard_steps_dget:
  assumes sound: "sound_table schema rows" and "set gs \<subseteq> set AOTRITON_SUPPORTED_GPUS"
    and "\<And>a. dget shards (a, k) \<in> {None, Some (arch_rows rows a)}"
  shows "dget (fold (shard_step k schema rows) gs shards) (a, k')
    = (if k' = k \<and> a \<in> gpu2arch ` set gs then Some (arch_rows rows a) else dget shards (a, k'))"
  using assms(2,3)
proof (induction gs arbitrary: shards)
  case (Cons g gs)
  have step: "shard_step k schema rows g shards = dset shards (gpu2arch g, k) (arch_rows rows (gpu2arch g))"
    using Cons.prems by (intro shard_step_dget [OF sound]) auto
  have "dget (dset shards (gpu2arch g, k) (arch_rows rows (gpu2arch g))) (a, k) \<in> {None, Some (arch_rows rows a)}" for a
    using Cons.prems(2) by auto
  from Cons.IH [OF _ this] Cons.prems(1) show ?case by (auto simp: step)
qed simp

lemma distinct_shard_step: "distinct (dkeys shards) \<Longrightarrow> distinct (dkeys (shard_step k schema rows g shards))"
  unfolding shard_step_def Let_def dkeys_def by (rule distinct_dset)

lemma distinct_shard_steps:
  "distinct (dkeys shards) \<Longrightarrow> distinct (dkeys (fold (shard_step k schema rows) gs shards))"
  by (induction gs arbitrary: shards) (simp_all add: distinct_shard_step)

text \<open>The shards of a decomposition: one per architecture of a table, with its rows.\<close>

lemma decompose_tables_dget:
  assumes "distinct (dkeys schemas)"
    and "\<And>k schema. (k, schema) \<in> set schemas \<Longrightarrow> sound_table schema (rows_of db k)"
    and "\<And>a k. k \<in> set (dkeys schemas) \<Longrightarrow> dget shards (a, k) = None"
  shows "dget (fold (decompose_table db) schemas shards) (a, k)
    = (if k \<in> set (dkeys schemas) \<and> Some a \<in> row_arch ` set (rows_of db k) then Some (arch_rows (rows_of db k) a)
       else dget shards (a, k))"
  using assms
proof (induction schemas arbitrary: shards)
  case (Cons s schemas)
  obtain j schema where s: "s = (j, schema)" by (cases s)
  define shards1 where "shards1 = decompose_table db (j, schema) shards"
  have sound: "sound_table schema (rows_of db j)" using Cons.prems(2) s by simp
  have gpus: "set (distinct_gpus (rows_of db j)) \<subseteq> set AOTRITON_SUPPORTED_GPUS"
    using sound by (auto simp: distinct_gpus_set sound_table_def list_all_iff)
  have archs: "a \<in> gpu2arch ` set (distinct_gpus (rows_of db j)) \<longleftrightarrow> Some a \<in> row_arch ` set (rows_of db j)" for a
    by (auto simp: distinct_gpus_set row_arch_def image_iff map_option_case split: option.splits)
  have step: "dget shards1 (a, k') = (if k' = j \<and> Some a \<in> row_arch ` set (rows_of db j)
      then Some (arch_rows (rows_of db j) a) else dget shards (a, k'))" for a k'
    unfolding shards1_def decompose_table_def prod.case archs [symmetric]
    by (rule shard_steps_dget [OF sound gpus]) (use Cons.prems(3) [of j] s in \<open>simp add: dkeys_def\<close>)
  have fresh: "j \<notin> set (dkeys schemas)" using Cons.prems(1) by (simp add: s dkeys_def)
  have none: "dget shards1 (a, k') = None" if "k' \<in> set (dkeys schemas)" for a k'
    using that fresh Cons.prems(3) [of k' a] by (auto simp: step s dkeys_def)
  have "distinct (dkeys schemas)" using Cons.prems(1) by (simp add: dkeys_def)
  from Cons.IH [OF this _ none] Cons.prems(2) fresh show ?case
    by (auto simp: s shards1_def [symmetric] step dkeys_def)
qed (simp add: dkeys_def)

lemma distinct_decompose: "distinct (dkeys (decompose schemas db))"
proof -
  have "distinct (dkeys shards) \<Longrightarrow> distinct (dkeys (fold (decompose_table db) schemas shards))" for shards
    by (induction schemas arbitrary: shards) (auto simp: decompose_table_def distinct_shard_steps)
  then show ?thesis by (simp add: decompose_def dkeys_def)
qed

lemma decompose_dget:
  assumes "distinct (dkeys schemas)"
    and "\<And>k schema. (k, schema) \<in> set schemas \<Longrightarrow> sound_table schema (rows_of db k)"
  shows "dget (decompose schemas db) (a, k)
    = (if k \<in> set (dkeys schemas) \<and> Some a \<in> row_arch ` set (rows_of db k) then Some (arch_rows (rows_of db k) a) else None)"
  unfolding decompose_def by (subst decompose_tables_dget [OF assms]) auto

text \<open>The rows a list of shards has for a table.\<close>

definition shard_rows :: "string \<Rightarrow> shards \<Rightarrow> row list" where
  "shard_rows k shards = concat (map snd (filter (\<lambda>s. snd (fst s) = k) shards))"

lemma mset_arch_rows:
  "distinct as \<Longrightarrow> mset (concat (map (arch_rows rows) as)) = mset (filter (\<lambda>r. row_arch r \<in> Some ` set as) rows)"
proof (induction as)
  case (Cons a as)
  have "filter_mset (\<lambda>r. row_arch r \<in> Some ` set (a # as)) (mset rows)
      = filter_mset (\<lambda>r. row_arch r = Some a) (mset rows) + filter_mset (\<lambda>r. row_arch r \<in> Some ` set as) (mset rows)"
    using Cons.prems by (induction rows) auto
  with Cons show ?case by (simp add: arch_rows_def)
qed simp

lemma shard_rows_decompose:
  assumes "distinct (dkeys schemas)"
    and sound: "\<And>k schema. (k, schema) \<in> set schemas \<Longrightarrow> sound_table schema (rows_of db k)"
    and k: "k \<in> set (dkeys schemas)"
  shows "mset (shard_rows k (decompose schemas db)) = mset (rows_of db k)"
proof -
  define mine where "mine = filter (\<lambda>s. snd (fst s) = k) (decompose schemas db)"
  define as where "as = map (fst \<circ> fst) mine"
  have dist: "distinct (map fst (decompose schemas db))" using distinct_decompose by (simp add: dkeys_def)
  have entry: "((a, k'), rs) \<in> set (decompose schemas db) \<longleftrightarrow> dget (decompose schemas db) (a, k') = Some rs" for a k' rs
    using dist by simp
  have "distinct (map fst mine)" unfolding mine_def by (rule distinct_map_filter [OF dist])
  then have "distinct as" 
    by (auto simp: as_def distinct_map mine_def inj_on_def)
  have maps: "map snd mine = map (arch_rows (rows_of db k)) as"
    unfolding as_def map_map
    by (rule map_cong [OF refl]) (auto simp: mine_def entry decompose_dget [OF assms(1) sound] split: if_splits)
  have archs: "set as = {a. Some a \<in> row_arch ` set (rows_of db k)}"
  proof -
    have "a \<in> set as \<longleftrightarrow> (\<exists>rs. dget (decompose schemas db) (a, k) = Some rs)" for a
      unfolding as_def mine_def entry [symmetric] by force
    then show ?thesis using k by (auto simp: decompose_dget [OF assms(1) sound] split: if_split_asm)
  qed
  obtain schema where schema: "(k, schema) \<in> set schemas" using k by (auto simp: dkeys_def)
  have "row_arch r \<in> Some ` set as" if "r \<in> set (rows_of db k)" for r
  proof -
    have "row_gpu r \<in> Some ` set AOTRITON_SUPPORTED_GPUS"
      using that sound [OF schema] by (simp add: sound_table_def list_all_iff)
    then obtain g where "row_gpu r = Some g" by blast
    then have "row_arch r = Some (gpu2arch g)" by (simp add: row_arch_def)
    moreover from this have "gpu2arch g \<in> set as" using that by (simp add: archs) (metis imageI)
    ultimately show ?thesis by simp
  qed
  then have "filter (\<lambda>r. row_arch r \<in> Some ` set as) (rows_of db k) = rows_of db k" by (simp add: filter_id_conv)
  then show ?thesis
    using mset_arch_rows [OF \<open>distinct as\<close>, of "rows_of db k"] maps
    by (simp add: shard_rows_def mine_def [symmetric])
qed

lemma compose_rows:
  assumes "\<And>k. k \<in> set (map (snd \<circ> fst) shards) \<Longrightarrow> dget db (table_name k) \<noteq> None"
    and "\<And>k. k \<in> set (map (snd \<circ> fst) shards) \<Longrightarrow> no_conflicts (schema_of k) (rows_of db k @ shard_rows k shards)"
  shows "\<exists>db'. compose schema_of shards db = Inr db' \<and> (\<forall>k. rows_of db' k = rows_of db k @ shard_rows k shards)"
  using assms
proof (induction shards arbitrary: db)
  case Nil
  then show ?case by (simp add: shard_rows_def)
next
  case (Cons s shards)
  obtain a j rows where s: "s = ((a, j), rows)" by (cases s) auto
  obtain old where old: "dget db (table_name j) = Some old" using Cons.prems(1) [of j] s by auto
  define db1 where "db1 = dset db (table_name j) (old @ rows)"
  have here: "rows_of db j = old" by (simp add: rows_of_def old)
  have rows1: "rows_of db1 k @ shard_rows k shards = rows_of db k @ shard_rows k (s # shards)" for k
    using here by (auto simp: db1_def s shard_rows_def)
  have "no_conflicts (schema_of j) (old @ rows)"
    using Cons.prems(2) [of j] by (auto simp: s shard_rows_def here no_conflicts_append list_all_iff)
  then have step: "compose schema_of (s # shards) db = compose schema_of shards db1"
    by (simp add: s old insert_all_def db1_def)
  have "\<exists>db'. compose schema_of shards db1 = Inr db' \<and> (\<forall>k. rows_of db' k = rows_of db1 k @ shard_rows k shards)"
  proof (rule Cons.IH)
    fix k assume "k \<in> set (map (snd \<circ> fst) shards)"
    then have k: "k \<in> set (map (snd \<circ> fst) (s # shards))" by simp
    show "dget db1 (table_name k) \<noteq> None" using Cons.prems(1) [OF k] by (simp add: db1_def)
    show "no_conflicts (schema_of k) (rows_of db1 k @ shard_rows k shards)"
      unfolding rows1 by (rule Cons.prems(2) [OF k])
  qed
  then show ?case by (simp add: step rows1)
qed

text \<open>
  C32: splitting tables by architecture and putting the shards together, in any order, in a file
  with empty tables gives every table its rows, if the rows name supported GPUs, have no null in
  their keys and no two have the same key.
\<close>

theorem compose_decompose:
  assumes "distinct (dkeys schemas)"
    and "\<And>k schema. (k, schema) \<in> set schemas \<Longrightarrow> sound_table schema (rows_of db k)"
    and "mset shards = mset (decompose schemas db)"
    and "\<And>k. k \<in> set (dkeys schemas) \<Longrightarrow> dget fresh (table_name k) = Some []"
  shows "\<exists>db'. compose (\<lambda>k. the (dget schemas k)) shards fresh = Inr db'
    \<and> (\<forall>k \<in> set (dkeys schemas). mset (rows_of db' k) = mset (rows_of db k))"
proof -
  have rows: "mset (shard_rows k shards) = mset (rows_of db k)" if "k \<in> set (dkeys schemas)" for k
  proof -
    have "mset (map (mset \<circ> snd) (filter (\<lambda>s. snd (fst s) = k) shards))
        = mset (map (mset \<circ> snd) (filter (\<lambda>s. snd (fst s) = k) (decompose schemas db)))"
      using assms(3) by simp
    then have "mset (shard_rows k shards) = mset (shard_rows k (decompose schemas db))"
      unfolding shard_rows_def mset_concat map_map by (metis sum_mset_sum_list)
    then show ?thesis using shard_rows_decompose [OF assms(1,2) that] by simp
  qed
  have keys: "k \<in> set (dkeys schemas)" if "k \<in> set (map (snd \<circ> fst) shards)" for k
  proof -
    have "k \<in> (snd \<circ> fst) ` set (decompose schemas db)"
      using that mset_eq_setD [OF assms(3)] by (simp only: list.set_map)
    then obtain s where "s \<in> set (decompose schemas db)" "k = (snd \<circ> fst) s" by blast
    then have "((fst (fst s), k), snd s) \<in> set (decompose schemas db)" by simp
    then have "dget (decompose schemas db) (fst (fst s), k) = Some (snd s)"
      by (intro map_of_is_SomeI) (use distinct_decompose in \<open>simp_all add: dkeys_def\<close>)
    then show ?thesis by (simp add: decompose_dget [OF assms(1,2)] split: if_split_asm)
  qed
  have "\<exists>db'. compose (\<lambda>k. the (dget schemas k)) shards fresh = Inr db'
      \<and> (\<forall>k. rows_of db' k = rows_of fresh k @ shard_rows k shards)"
  proof (rule compose_rows)
    fix k assume "k \<in> set (map (snd \<circ> fst) shards)"
    with keys have k: "k \<in> set (dkeys schemas)" by blast
    show "dget fresh (table_name k) \<noteq> None" using assms(4) [OF k] by simp
    obtain schema where s: "dget schemas k = Some schema" "(k, schema) \<in> set schemas"
      using k assms(1) by (force simp: dkeys_def)
    show "no_conflicts (the (dget schemas k)) (rows_of fresh k @ shard_rows k shards)"
      using assms(2) [OF s(2)] no_conflicts_mset [OF rows [OF k]] s(1)
      by (simp add: rows_of_def assms(4) [OF k] sound_table_def)
  qed
  then show ?thesis using rows by (auto simp: rows_of_def assms(4))
qed

theorem compose_decompose_witness:
  "\<exists>db'. compose (\<lambda>k. the (dget KERNEL_SCHEMAS k)) (rev (decompose KERNEL_SCHEMAS ex_exported))
           (fold ensure_table (dkeys KERNEL_SCHEMAS) []) = Inr db'
     \<and> mset (rows_of db' ''bwd_kernel_dq'') = mset (rows_of ex_exported ''bwd_kernel_dq'')
     \<and> length (decompose KERNEL_SCHEMAS ex_exported) = 2"
proof -
  have distinct: "distinct (dkeys KERNEL_SCHEMAS)" by code_simp
  have "list_all (\<lambda>(k, schema). sound_table schema (rows_of ex_exported k)) KERNEL_SCHEMAS" by code_simp
  then have sound: "sound_table schema (rows_of ex_exported k)" if "(k, schema) \<in> set KERNEL_SCHEMAS" for k schema
    using that by (auto simp: list_all_iff)
  have "list_all (\<lambda>k. dget (fold ensure_table (dkeys KERNEL_SCHEMAS) []) (table_name k) = Some []) (dkeys KERNEL_SCHEMAS)"
    by code_simp
  then have fresh: "dget (fold ensure_table (dkeys KERNEL_SCHEMAS) []) (table_name k) = Some []"
    if "k \<in> set (dkeys KERNEL_SCHEMAS)" for k
    using that by (simp add: list_all_iff)
  have two: "length (decompose KERNEL_SCHEMAS ex_exported) = 2" by code_simp
  have known: "''bwd_kernel_dq'' \<in> set (dkeys KERNEL_SCHEMAS)" by (simp add: KERNEL_SCHEMAS_def dkeys_def)
  have "mset (rev (decompose KERNEL_SCHEMAS ex_exported)) = mset (decompose KERNEL_SCHEMAS ex_exported)" by simp
  from compose_decompose [OF distinct sound this fresh] known two show ?thesis by blast
qed

section \<open>Rows of a view\<close>

lemma build_wheres_dget:
  "dget (build_wheres gpus choices) k
    = (case dget (rev (map (\<lambda>(key, c). (where_key key c, EqValue (obj_of_pyval (stc_sql_value c)))) choices)) k of
         Some w \<Rightarrow> Some w
       | None \<Rightarrow> if k = ''gpu'' then Some (InValues (map OStr gpus)) else None)"
proof -
  have "dget (fold (\<lambda>(key, c) w. dset w (where_key key c)
            (EqValue (obj_of_pyval (stc_sql_value c)))) choices d) k
      = (case dget (rev (map (\<lambda>(key, c). (where_key key c, EqValue (obj_of_pyval (stc_sql_value c)))) choices)) k of
           Some w \<Rightarrow> Some w | None \<Rightarrow> dget d k)" for d
    by (induction choices arbitrary: d) (auto simp: map_add_def split: option.splits)
  then show ?thesis by (simp add: build_wheres_def split: option.split)
qed

lemma build_wheres_gpu: "dget (build_wheres gpus choices) ''gpu'' = Some (InValues (map OStr gpus))"
proof -
  have "dget (rev (map (\<lambda>(key, c). (where_key key c, EqValue (obj_of_pyval (stc_sql_value c)))) choices)) ''gpu'' = None"
    by (auto simp: map_of_eq_None_iff where_key_def)
  then show ?thesis by (simp add: build_wheres_dget)
qed

lemma build_wheres_choice:
  assumes "(key, c) \<in> set choices" and "distinct (map (\<lambda>(key, c). where_key key c) choices)"
  shows "dget (build_wheres gpus choices) (where_key key c) = Some (EqValue (obj_of_pyval (stc_sql_value c)))"
proof -
  have "dget (rev (map (\<lambda>(key, c). (where_key key c, EqValue (obj_of_pyval (stc_sql_value c)))) choices)) (where_key key c)
      = Some (EqValue (obj_of_pyval (stc_sql_value c)))"
  proof (rule map_of_is_SomeI)
    have "map fst (rev (map (\<lambda>(key, c). (where_key key c, EqValue (obj_of_pyval (stc_sql_value c)))) choices))
        = rev (map (\<lambda>(key, c). where_key key c) choices)"
      by (simp add: rev_map [symmetric] comp_def case_prod_unfold)
    with assms(2) show "distinct (map fst (rev (map (\<lambda>(key, c). (where_key key c, EqValue (obj_of_pyval (stc_sql_value c)))) choices)))"
      by simp
  qed (use assms(1) in force)
  then show ?thesis by (simp add: build_wheres_dget)
qed

text \<open>
  A row of the view has a GPU of the database and, in the column of each choice, the value of the
  choice.
\<close>

lemma row_matches_clause:
  assumes "row_matches cols wheres r" and "dget wheres k = Some w"
  shows "\<exists>v. dget (zip (col_names cols) r) k = Some v \<and> clause_holds w v"
  using assms map_of_SomeD [OF assms(2)] by (auto simp: row_matches_def list_all_iff split: option.splits)

lemma view_row_gpu:
  assumes "row_matches cols (build_wheres gpus choices) r"
  shows "\<exists>g \<in> set gpus. dget (zip (col_names cols) r) ''gpu'' = Some (OStr g)"
proof -
  have "a = OStr g" if "sql_eq a (OStr g)" for a g
    using that by (cases a) (auto simp: sql_eq_def)
  with row_matches_clause [OF assms build_wheres_gpu] show ?thesis
    by (auto simp: clause_holds_def list_ex_iff)
qed

lemma view_row_choice:
  assumes "row_matches cols (build_wheres gpus choices) r"
    and "(key, c) \<in> set choices" and "distinct (map (\<lambda>(key, c). where_key key c) choices)"
  shows "\<exists>v. dget (zip (col_names cols) r) (where_key key c) = Some v \<and> sql_eq v (obj_of_pyval (stc_sql_value c))"
  using row_matches_clause [OF assms(1) build_wheres_choice [OF assms(2,3)]] by (simp add: clause_holds_def)

lemma create_view_rows:
  assumes "create_view cols (Some table) gpus compact fallback = Some rs"
  shows "rs = filter (row_matches cols (build_wheres gpus compact)) table \<and> rs \<noteq> []
       \<or> rs = filter (row_matches cols (build_wheres gpus fallback)) table
           \<and> filter (row_matches cols (build_wheres gpus compact)) table = []"
  using assms by (auto simp: create_view_def run_select_def split: sum.split_asm list.split_asm if_split_asm)

text \<open>The names of types in the exported tables are those the generator asks for.\<close>

lemma exported_dtype:
  "derive_dtype entry = Inr v \<Longrightarrow> \<exists>s \<in> {Fp16_t, Bf16_t, Fp32_t}. v = obj_of_pyval (stc_sql_value (Scalar s))"
proof -
  have names: "DTYPE_MAP = [(''float16'', sc_sql_value Fp16_t), (''bfloat16'', sc_sql_value Bf16_t), (''float32'', sc_sql_value Fp32_t)]"
    by code_simp
  assume "derive_dtype entry = Inr v"
  then obtain s t where st: "dget DTYPE_MAP s = Some t" and v: "v = OStr t"
    by (auto simp: derive_dtype_def rbind_Inr_iff rmap_Inr_iff of_option_Inr_iff split: pkey.split_asm)
      (metis pkey.exhaust)
  from map_of_SomeD [OF st] have "t \<in> sc_sql_value ` {Fp16_t, Bf16_t, Fp32_t}"
    unfolding names list.set by blast
  then show ?thesis by (force simp: v)
qed

end
