(* ===== verification/ActionTracker.thy ===== *)
theory ActionTracker
  imports Json "HOL-Library.Sublist"
begin

text \<open>
  \<open>.tune/webui/action_tracker.py\<close>: a command the web interface runs in the background, with a thread
  per output stream that reads its lines and one that waits for its end; and what
  \<open>.tune/webui/routes.py\<close> shows of it. The threads and the process are a step relation; a step is what
  one of them does between two points where another can see the state. The texts of a stream are
  lines that end with a newline, or the last one without.
\<close>

section \<open>Reading a stream\<close>

text \<open>
  What was written to the pipe, whether all who hold its other end have closed it, how many of the
  lines are read, whether the thread runs or an exception has ended it, the deque and the log file.
\<close>

record capture =
  c_written :: "string list"
  c_closed :: bool
  c_read :: nat
  c_alive :: bool
  c_crashed :: bool
  c_buffer :: "string list"
  c_log :: string

definition MAXLEN :: nat where
  "MAXLEN = 1000"

definition new_capture :: capture where
  "new_capture = \<lparr>c_written = [], c_closed = False, c_read = 0, c_alive = False, c_crashed = False,
     c_buffer = [], c_log = []\<rparr>"

text \<open>\<open>deque(maxlen=n).append(x)\<close>.\<close>

definition deque_append :: "nat \<Rightarrow> 'a \<Rightarrow> 'a list \<Rightarrow> 'a list" where
  "deque_append n x q = (if length q < n then q @ [x] else tl (q @ [x]))"

text \<open>\<open>line.rstrip('\n')\<close>.\<close>

definition rstrip_newlines :: "string \<Rightarrow> string" where
  "rstrip_newlines line = rev (dropWhile (\<lambda>c. c = CHR 0x0A) (rev line))"

definition unread :: "capture \<Rightarrow> string list" where
  "unread c = drop (c_read c) (c_written c)"

text \<open>One round of \<open>_capture_stream\<close>; without a line left, \<open>readline\<close> returns the empty text.\<close>

definition capture_turn :: "capture \<Rightarrow> capture" where
  "capture_turn c =
     (case unread c of
        [] \<Rightarrow> c\<lparr>c_alive := False\<rparr>
      | line # _ \<Rightarrow>
          c\<lparr>c_read := c_read c + 1, c_buffer := deque_append MAXLEN (rstrip_newlines line) (c_buffer c),
            c_log := c_log c @ line\<rparr>)"

text \<open>
  An exception ends the thread: of \<open>open\<close> or \<open>readline\<close>, or of \<open>write\<close> or \<open>flush\<close>, when the line is in
  the deque already and a part of it may be in the file.
\<close>

definition capture_crash :: "capture \<Rightarrow> capture" where
  "capture_crash c = c\<lparr>c_alive := False, c_crashed := True\<rparr>"

definition capture_torn :: "string \<Rightarrow> capture \<Rightarrow> capture" where
  "capture_torn part c =
     (case unread c of
        [] \<Rightarrow> capture_crash c
      | line # _ \<Rightarrow>
          capture_crash (c\<lparr>c_read := c_read c + 1,
            c_buffer := deque_append MAXLEN (rstrip_newlines line) (c_buffer c), c_log := c_log c @ part\<rparr>))"

text \<open>
  The steps of a stream: a process that holds the pipe writes, the last one closes it, the thread
  reads when a line is there or the end has come, or it fails.
\<close>

abbreviation write_line :: "string \<Rightarrow> capture \<Rightarrow> capture" where
  "write_line line c \<equiv> c\<lparr>c_written := c_written c @ [line]\<rparr>"

definition readable :: "capture \<Rightarrow> bool" where
  "readable c \<longleftrightarrow> c_alive c \<and> (unread c \<noteq> [] \<or> c_closed c)"

inductive capture_step :: "capture \<Rightarrow> capture \<Rightarrow> bool" where
  writes: "\<not> c_closed c \<Longrightarrow> line \<noteq> [] \<Longrightarrow> capture_step c (write_line line c)"
| closes: "\<not> c_closed c \<Longrightarrow> capture_step c (c\<lparr>c_closed := True\<rparr>)"
| reads: "readable c \<Longrightarrow> capture_step c (capture_turn c)"
| crashes: "c_alive c \<Longrightarrow> capture_step c (capture_crash c)"
| tears: "c_alive c \<Longrightarrow> unread c = line # rest \<Longrightarrow> prefix part line \<Longrightarrow> capture_step c (capture_torn part c)"

section \<open>The tracker\<close>

datatype action_status = AQueued | ARunning | ACompleted | AFailed | AKilled

fun status_text :: "action_status \<Rightarrow> string" where
  "status_text AQueued = ''queued''"
| "status_text ARunning = ''running''"
| "status_text ACompleted = ''completed''"
| "status_text AFailed = ''failed''"
| "status_text AKilled = ''killed''"

text \<open>The thread of \<open>_monitor_completion\<close>: not started, in \<open>wait\<close>, in \<open>join\<close>, finished.\<close>

datatype monitor = MNone | MWaiting | MJoining | MEnded

text \<open>
  \<open>tk_spawned\<close>: \<open>process\<close> is set; \<open>tk_exit\<close> is the code with which the process has ended. Times are
  milliseconds.
\<close>

record tracker =
  tk_id :: string
  tk_command :: "string + string list"
  tk_description :: string
  tk_cwd :: string
  tk_status :: action_status
  tk_returncode :: "int option"
  tk_spawned :: bool
  tk_exit :: "int option"
  tk_out :: capture
  tk_err :: capture
  tk_created :: int
  tk_started :: "int option"
  tk_completed :: "int option"
  tk_monitor :: monitor

definition new_tracker :: "string \<Rightarrow> string + string list \<Rightarrow> string \<Rightarrow> string \<Rightarrow> int \<Rightarrow> tracker" where
  "new_tracker action_id command description cwd now =
     \<lparr>tk_id = action_id, tk_command = command, tk_description = description, tk_cwd = cwd,
      tk_status = AQueued, tk_returncode = None, tk_spawned = False, tk_exit = None,
      tk_out = new_capture, tk_err = new_capture, tk_created = now, tk_started = None,
      tk_completed = None, tk_monitor = MNone\<rparr>"

definition command_str :: "tracker \<Rightarrow> string" where
  "command_str t = (case tk_command t of Inl s \<Rightarrow> s | Inr ws \<Rightarrow> join '' '' ws)"

text \<open>\<open>spawn\<close> is the outcome of making the log directory and of \<open>Popen\<close>.\<close>

definition tracker_start :: "int \<Rightarrow> unit res \<Rightarrow> tracker \<Rightarrow> tracker \<times> unit res" where
  "tracker_start now spawn t =
     (if tk_status t \<noteq> AQueued then (t, Inr ())
      else
        let t = t\<lparr>tk_status := ARunning, tk_started := Some now\<rparr> in
        case spawn of
          Inl e \<Rightarrow> (t, Inl e)
        | Inr _ \<Rightarrow>
            (t\<lparr>tk_spawned := True, tk_out := (tk_out t)\<lparr>c_alive := True\<rparr>,
               tk_err := (tk_err t)\<lparr>c_alive := True\<rparr>, tk_monitor := MWaiting\<rparr>, Inr ()))"

text \<open>\<open>_monitor_completion\<close>: up to the return of \<open>wait\<close>, and from the joins on.\<close>

definition monitor_wait :: "int \<Rightarrow> tracker \<Rightarrow> tracker" where
  "monitor_wait rc t = t\<lparr>tk_returncode := Some rc, tk_monitor := MJoining\<rparr>"

definition monitor_finish :: "int \<Rightarrow> tracker \<Rightarrow> tracker" where
  "monitor_finish now t =
     t\<lparr>tk_status := (if tk_returncode t = Some 0 then ACompleted else AFailed), tk_completed := Some now,
       tk_monitor := MEnded\<rparr>"

definition is_running :: "tracker \<Rightarrow> bool" where
  "is_running t \<longleftrightarrow> tk_status t = ARunning"

text \<open>
  \<open>sent\<close>: whether \<open>process.kill()\<close> returns. The signal ends a process that has not ended.
\<close>

definition tracker_kill :: "int \<Rightarrow> bool \<Rightarrow> tracker \<Rightarrow> tracker \<times> bool" where
  "tracker_kill now sent t =
     (if tk_spawned t \<and> tk_status t = ARunning then
        if sent then
          (t\<lparr>tk_exit := (case tk_exit t of None \<Rightarrow> Some (-9) | Some rc \<Rightarrow> Some rc), tk_status := AKilled,
             tk_completed := Some now, tk_returncode := Some (-9)\<rparr>, True)
        else (t, False)
      else (t, False))"

record output_view =
  o_stdout :: "string list"
  o_stderr :: "string list"
  o_total_stdout :: nat
  o_total_stderr :: nat
  o_status :: action_status
  o_returncode :: "int option"

definition get_output :: "nat \<Rightarrow> tracker \<Rightarrow> output_view" where
  "get_output from_line t =
     \<lparr>o_stdout = drop from_line (c_buffer (tk_out t)), o_stderr = drop from_line (c_buffer (tk_err t)),
      o_total_stdout = length (c_buffer (tk_out t)), o_total_stderr = length (c_buffer (tk_err t)),
      o_status = tk_status t, o_returncode = tk_returncode t\<rparr>"

definition obj_opt :: "int option \<Rightarrow> pyobj" where
  "obj_opt x = (case x of None \<Rightarrow> ONone | Some i \<Rightarrow> OInt i)"

text \<open>\<open>isoformat\<close> prints a time.\<close>

definition to_dict :: "(int \<Rightarrow> string) \<Rightarrow> tracker \<Rightarrow> (string \<times> pyobj) list" where
  "to_dict isoformat t =
     (let time = (\<lambda>x. case x of None \<Rightarrow> ONone | Some i \<Rightarrow> OStr (isoformat i)) in
      [(''action_id'', OStr (tk_id t)), (''command'', OStr (command_str t)),
       (''description'', OStr (tk_description t)), (''cwd'', OStr (tk_cwd t)),
       (''status'', OStr (status_text (tk_status t))), (''returncode'', obj_opt (tk_returncode t)),
       (''created_at'', OStr (isoformat (tk_created t))), (''started_at'', time (tk_started t)),
       (''completed_at'', time (tk_completed t)),
       (''duration_ms'', case (tk_completed t, tk_started t) of
           (Some b, Some a) \<Rightarrow> OInt (b - a) | _ \<Rightarrow> ONone)])"

section \<open>The registry\<close>

type_synonym trackers = "(string, tracker) dict"

text \<open>\<open>uuid\<close> is the identifier \<open>uuid4\<close> makes.\<close>

definition registry_create ::
  "string \<Rightarrow> string + string list \<Rightarrow> string \<Rightarrow> string \<Rightarrow> int \<Rightarrow> trackers \<Rightarrow> trackers \<times> tracker" where
  "registry_create uuid command description cwd now ts =
     (let t = new_tracker uuid command description cwd now in (dset ts uuid t, t))"

definition registry_get :: "string \<Rightarrow> trackers \<Rightarrow> tracker option" where
  "registry_get action_id ts = dget ts action_id"

definition registry_get_all :: "trackers \<Rightarrow> tracker list" where
  "registry_get_all ts = map snd ts"

definition registry_remove :: "string \<Rightarrow> trackers \<Rightarrow> trackers" where
  "registry_remove action_id ts = ddel ts action_id"

definition registry_clear_all :: "trackers \<Rightarrow> trackers" where
  "registry_clear_all ts = []"

text \<open>\<open>run_command\<close> of \<open>tasks.py\<close>; the action is stored before it is started.\<close>

definition run_command ::
  "string \<Rightarrow> string list \<Rightarrow> string \<Rightarrow> string option \<Rightarrow> bool \<Rightarrow> int \<Rightarrow> unit res \<Rightarrow> trackers
     \<Rightarrow> trackers \<times> (string \<times> pyobj) list res" where
  "run_command uuid cmd cwd description dry_run now spawn ts =
     (let cmd_str = join '' '' cmd;
          text = (case description of None \<Rightarrow> cmd_str | Some d \<Rightarrow> if d = [] then cmd_str else d) in
      if dry_run then
        (ts, Inr [(''action_id'', ONone), (''status'', OStr ''dry_run''),
                  (''message'', OStr (''[DRY RUN] Would run: '' @ text))])
      else
        let (ts, t) = registry_create uuid (Inr cmd) text cwd now ts;
            (t, r) = tracker_start now spawn t
        in (dset ts uuid t,
            rmap (\<lambda>_. [(''action_id'', OStr uuid), (''status'', OStr ''running''),
                        (''message'', OStr (''Command started: '' @ text))]) r))"

section \<open>What the routes show\<close>

text \<open>The events of \<open>stream_output\<close>, and their texts.\<close>

datatype sse =
  SPing | SStdout string | SStderr string
| SStatus action_status "int option" | SComplete action_status "int option"

definition sse_event :: "string \<Rightarrow> (string \<times> pyobj) list \<Rightarrow> string" where
  "sse_event name d =
     ''event: '' @ name @ [CHR 0x0A] @ ''data: '' @ dumps (ODict (map (\<lambda>(k, v). (KStr k, v)) d)) @ [CHR 0x0A, CHR 0x0A]"

definition sse_status :: "action_status \<Rightarrow> int option \<Rightarrow> (string \<times> pyobj) list" where
  "sse_status s rc = [(''status'', OStr (status_text s)), (''returncode'', obj_opt rc)]"

fun sse_text :: "sse \<Rightarrow> string" where
  "sse_text SPing = '':ping'' @ [CHR 0x0A, CHR 0x0A]"
| "sse_text (SStdout line) = sse_event ''stdout'' [(''line'', OStr line)]"
| "sse_text (SStderr line) = sse_event ''stderr'' [(''line'', OStr line)]"
| "sse_text (SStatus s rc) = sse_event ''status'' (sse_status s rc)"
| "sse_text (SComplete s rc) = sse_event ''complete'' (sse_status s rc)"

text \<open>The loop over the outputs it polls, with the numbers of lines it has sent.\<close>

fun stream_loop :: "nat \<Rightarrow> nat \<Rightarrow> output_view list \<Rightarrow> sse list" where
  "stream_loop sent_stdout sent_stderr [] = []"
| "stream_loop sent_stdout sent_stderr (p # ps) =
     map SStdout (drop sent_stdout (o_stdout p)) @ map SStderr (drop sent_stderr (o_stderr p)) @
     SStatus (o_status p) (o_returncode p) #
     (if o_status p = ACompleted \<or> o_status p = AFailed then [SComplete (o_status p) (o_returncode p)]
      else stream_loop (length (o_stdout p)) (length (o_stderr p)) ps)"

definition stream_output :: "output_view list \<Rightarrow> sse list" where
  "stream_output ps = SPing # stream_loop 0 0 ps"

text \<open>\<open>get_action_output\<close>: the body and the header with the next offset, if it has one.\<close>

definition get_action_output :: "int \<Rightarrow> output_view \<Rightarrow> string \<times> nat option" where
  "get_action_output offset p =
     (let all_lines = o_stdout p @ o_stderr p;
          n = int (length all_lines);
          new_lines = drop (nat (if offset < 0 then max 0 (n + offset) else offset)) all_lines
      in if new_lines = [] then
           (if offset = 0 \<and> o_status p \<in> {ACompleted, AFailed} then ''(no output)'' @ [CHR 0x0A] else [], None)
         else (join [CHR 0x0A] new_lines @ [CHR 0x0A], Some (length all_lines)))"

text \<open>The other routes on actions: their JSON and status code.\<close>

definition get_action_status :: "(int \<Rightarrow> string) \<Rightarrow> string \<Rightarrow> trackers \<Rightarrow> nat \<times> (string \<times> pyobj) list" where
  "get_action_status isoformat action_id ts =
     (case registry_get action_id ts of
        None \<Rightarrow> (404, [(''error'', OStr ''Action not found'')])
      | Some t \<Rightarrow>
          let p = get_output 0 t in
          (200, to_dict isoformat t @
             [(''stdout_lines'', OList (map OStr (o_stdout p))), (''stderr_lines'', OList (map OStr (o_stderr p))),
              (''total_stdout'', OInt (int (length (o_stdout p)))),
              (''total_stderr'', OInt (int (length (o_stderr p))))]))"

definition list_actions :: "(int \<Rightarrow> string) \<Rightarrow> trackers \<Rightarrow> (string \<times> pyobj) list list" where
  "list_actions isoformat ts = map (to_dict isoformat) (registry_get_all ts)"

definition kill_action :: "string \<Rightarrow> int \<Rightarrow> bool \<Rightarrow> trackers \<Rightarrow> trackers \<times> nat \<times> (string \<times> pyobj) list" where
  "kill_action action_id now sent ts =
     (case registry_get action_id ts of
        None \<Rightarrow> (ts, 404, [(''success'', OBool False), (''error'', OStr ''Action not found'')])
      | Some t \<Rightarrow>
          let (t, success) = tracker_kill now sent t in
          (dset ts action_id t,
           if success then (200, [(''success'', OBool True), (''message'', OStr ''Process killed'')])
           else (400, [(''success'', OBool False), (''error'', OStr ''Process not running or already terminated'')])))"

section \<open>Steps\<close>

text \<open>
  The threads, the process and the requests. The process may end at any time; its children may
  hold the pipes and write on after that, as the \<open>ssh\<close> of a killed script does.
\<close>

inductive tracker_step :: "tracker \<Rightarrow> tracker \<Rightarrow> bool" where
  start: "tk_status t = AQueued \<Longrightarrow> tracker_step t (fst (tracker_start now spawn t))"
| out: "tk_spawned t \<Longrightarrow> capture_step (tk_out t) c \<Longrightarrow> tracker_step t (t\<lparr>tk_out := c\<rparr>)"
| err: "tk_spawned t \<Longrightarrow> capture_step (tk_err t) c \<Longrightarrow> tracker_step t (t\<lparr>tk_err := c\<rparr>)"
| exits: "tk_spawned t \<Longrightarrow> tk_exit t = None \<Longrightarrow> tracker_step t (t\<lparr>tk_exit := Some rc\<rparr>)"
| waited: "tk_monitor t = MWaiting \<Longrightarrow> tk_exit t = Some rc \<Longrightarrow> tracker_step t (monitor_wait rc t)"
| finish: "tk_monitor t = MJoining \<Longrightarrow> tracker_step t (monitor_finish now t)"
| kill: "tk_spawned t \<Longrightarrow> tk_status t = ARunning \<Longrightarrow> tracker_step t (fst (tracker_kill now True t))"

inductive_cases tracker_stepE: "tracker_step t t'"

inductive tracker_reachable :: "tracker \<Rightarrow> bool" where
  created: "tracker_reachable (new_tracker action_id command description cwd now)"
| step: "tracker_reachable t \<Longrightarrow> tracker_step t t' \<Longrightarrow> tracker_reachable t'"

section \<open>Invariant\<close>

text \<open>
  The deque holds the last lines read and the log file all of them, but for the end of one that
  an exception has torn. A thread that has ended without an exception has read its stream to the
  end. A thread and the process exist only after the start; the status is final once the monitor
  has finished.
\<close>

definition capture_ok :: "capture \<Rightarrow> bool" where
  "capture_ok c \<longleftrightarrow> c_read c \<le> length (c_written c)
     \<and> c_buffer c = drop (c_read c - MAXLEN) (map rstrip_newlines (take (c_read c) (c_written c)))
     \<and> prefix (c_log c) (concat (take (c_read c) (c_written c)))
     \<and> (\<not> c_crashed c \<longrightarrow> c_log c = concat (take (c_read c) (c_written c)))
     \<and> (c_crashed c \<longrightarrow> \<not> c_alive c)"

definition drained :: "capture \<Rightarrow> bool" where
  "drained c \<longleftrightarrow> (\<not> c_alive c \<longrightarrow> c_crashed c \<or> c_closed c \<and> unread c = [])"

definition tracker_ok :: "tracker \<Rightarrow> bool" where
  "tracker_ok t \<longleftrightarrow> capture_ok (tk_out t) \<and> capture_ok (tk_err t)
     \<and> (tk_spawned t \<longrightarrow> drained (tk_out t) \<and> drained (tk_err t))
     \<and> (\<not> tk_spawned t \<longrightarrow> tk_out t = new_capture \<and> tk_err t = new_capture)
     \<and> (tk_status t = AQueued \<longrightarrow> \<not> tk_spawned t)
     \<and> (tk_spawned t \<longleftrightarrow> tk_monitor t \<noteq> MNone)
     \<and> (tk_exit t \<noteq> None \<longrightarrow> tk_spawned t)
     \<and> (tk_monitor t \<in> {MJoining, MEnded} \<longrightarrow> tk_exit t \<noteq> None \<and> tk_returncode t \<in> {tk_exit t, Some (-9)})
     \<and> (tk_monitor t = MEnded \<longleftrightarrow> tk_status t \<in> {ACompleted, AFailed})
     \<and> (tk_monitor t = MEnded \<longrightarrow> (tk_status t = ACompleted \<longleftrightarrow> tk_returncode t = Some 0))"

lemma capture_ok_new [simp]: "capture_ok new_capture"
  by (simp add: capture_ok_def new_capture_def)

lemma deque_append_drop:
  assumes "0 < n"
  shows "deque_append n x (drop (length xs - n) xs) = drop (length xs + 1 - n) (xs @ [x])"
proof (cases "length xs < n")
  case False
  then have "length xs + 1 - n = Suc (length xs - n)" by simp
  with False assms show ?thesis by (simp add: deque_append_def drop_Suc flip: tl_drop)
qed (simp add: deque_append_def)

lemma unread_less: "unread c = line # rest \<Longrightarrow> c_read c < length (c_written c)"
  by (metis drop_all leI list.distinct(1) unread_def)

text \<open>A line read: what the deque holds and what the log file should.\<close>

lemma capture_line:
  assumes "capture_ok c" and "unread c = line # rest"
  shows "take (Suc (c_read c)) (c_written c) = take (c_read c) (c_written c) @ [line]"
    and "deque_append MAXLEN (rstrip_newlines line) (c_buffer c)
      = drop (Suc (c_read c) - MAXLEN) (map rstrip_newlines (take (Suc (c_read c)) (c_written c)))"
proof -
  have r: "c_read c < length (c_written c)" "c_written c ! c_read c = line"
    using assms(2) by (auto simp: unread_less) (simp add: unread_def nth_via_drop)
  then show snoc: "take (Suc (c_read c)) (c_written c) = take (c_read c) (c_written c) @ [line]"
    by (simp add: take_Suc_conv_app_nth)
  define xs where "xs = map rstrip_newlines (take (c_read c) (c_written c))"
  have len: "length xs = c_read c" using r by (simp add: xs_def)
  have "deque_append MAXLEN (rstrip_newlines line) (drop (c_read c - MAXLEN) xs)
      = drop (Suc (c_read c) - MAXLEN) (xs @ [rstrip_newlines line])"
    using deque_append_drop [of MAXLEN "rstrip_newlines line" xs] by (simp add: len MAXLEN_def)
  then show "deque_append MAXLEN (rstrip_newlines line) (c_buffer c)
      = drop (Suc (c_read c) - MAXLEN) (map rstrip_newlines (take (Suc (c_read c)) (c_written c)))"
    using assms(1) by (simp add: capture_ok_def snoc xs_def)
qed

lemma capture_ok_turn:
  assumes "capture_ok c" "c_alive c" shows "capture_ok (capture_turn c)"
proof (cases "unread c")
  case Nil
  then show ?thesis using assms by (simp add: capture_turn_def capture_ok_def)
next
  case (Cons line rest)
  then show ?thesis
    using assms capture_line [OF assms(1) Cons] unread_less [OF Cons] by (simp add: capture_ok_def capture_turn_def)
qed

lemma capture_ok_torn:
  assumes "capture_ok c" "c_alive c" "unread c = line # rest" "prefix part line"
  shows "capture_ok (capture_torn part c)"
  using assms capture_line [OF assms(1,3)] unread_less [OF assms(3)]
  by (auto simp: capture_ok_def capture_torn_def capture_crash_def)

lemma capture_step_ok:
  "capture_step c c' \<Longrightarrow> capture_ok c \<Longrightarrow> capture_ok c' \<and> (drained c \<longrightarrow> drained c')"
proof (induction rule: capture_step.induct)
  case (reads c)
  then have "drained (capture_turn c)"
    by (auto simp: readable_def drained_def capture_turn_def unread_def split: list.split)
  with reads show ?case by (simp add: readable_def capture_ok_turn)
next
  case (tears c line rest part)
  then have "drained (capture_torn part c)" by (simp add: capture_torn_def capture_crash_def drained_def)
  with tears show ?case by (simp add: capture_ok_torn)
qed (auto simp: capture_ok_def drained_def capture_crash_def)

lemma tracker_ok_step: "tracker_step t t' \<Longrightarrow> tracker_ok t \<Longrightarrow> tracker_ok t'"
proof (induction rule: tracker_step.induct)
  case (start t now spawn)
  then show ?case
    by (cases spawn) (auto simp: tracker_ok_def tracker_start_def Let_def capture_ok_def drained_def new_capture_def)
next
  case (out t c)
  then show ?case using capture_step_ok [of "tk_out t" c] by (auto simp: tracker_ok_def)
next
  case (err t c)
  then show ?case using capture_step_ok [of "tk_err t" c] by (auto simp: tracker_ok_def)
next
  case (exits t rc)
  then show ?case by (auto simp: tracker_ok_def)
next
  case (waited t rc)
  then show ?case by (auto simp: tracker_ok_def monitor_wait_def)
next
  case (finish t now)
  then show ?case by (auto simp: tracker_ok_def monitor_finish_def)
next
  case (kill t now)
  then show ?case by (cases "tk_exit t") (auto simp: tracker_ok_def tracker_kill_def)
qed

lemma tracker_reachable_ok: "tracker_reachable t \<Longrightarrow> tracker_ok t"
proof (induction rule: tracker_reachable.induct)
  case created
  show ?case by (simp add: new_tracker_def tracker_ok_def)
qed (rule tracker_ok_step)

section \<open>The end of an action\<close>

text \<open>What the monitor and the capture threads have still to do once the process has ended.\<close>

definition monitor_left :: "tracker \<Rightarrow> nat" where
  "monitor_left t = (case tk_monitor t of MWaiting \<Rightarrow> 2 | MJoining \<Rightarrow> 1 | _ \<Rightarrow> 0)"

definition capture_weight :: "capture \<Rightarrow> nat" where
  "capture_weight c = length (unread c) + (if c_alive c then 1 else 0)"

definition tracker_weight :: "tracker \<Rightarrow> nat" where
  "tracker_weight t = capture_weight (tk_out t) + capture_weight (tk_err t)
     + monitor_left t + (if tk_status t = ARunning then 1 else 0)"

lemma capture_step_weight:
  "capture_step c c' \<Longrightarrow> c_closed c \<Longrightarrow> capture_weight c' < capture_weight c \<and> c_closed c'"
proof (induction rule: capture_step.induct)
  case (reads c)
  then show ?case
    using unread_less [of c] by (auto simp: readable_def capture_weight_def capture_turn_def unread_def split: list.split)
next
  case (tears c line rest part)
  then have "length (c_written c) - c_read c = Suc (length rest)" by (metis length_drop length_Cons unread_def)
  with tears show ?case by (auto simp: capture_weight_def capture_torn_def capture_crash_def unread_def)
qed (auto simp: capture_weight_def capture_crash_def unread_def)

lemma tracker_step_weight:
  assumes "tracker_step t t'" and "tk_exit t = Some rc" and "tracker_ok t"
    and "c_closed (tk_out t)" and "c_closed (tk_err t)"
  shows "tracker_weight t' < tracker_weight t"
  using assms
proof (cases rule: tracker_step.cases)
  case (out c)
  then show ?thesis using assms capture_step_weight [of "tk_out t" c] by (simp add: tracker_weight_def monitor_left_def)
next
  case (err c)
  then show ?thesis using assms capture_step_weight [of "tk_err t" c] by (simp add: tracker_weight_def monitor_left_def)
qed (auto simp: tracker_ok_def tracker_weight_def monitor_left_def monitor_wait_def monitor_finish_def tracker_kill_def)

lemma tracker_step_exit:
  assumes "tracker_step t t'" and "tk_exit t = Some rc" and "tracker_ok t"
  shows "tk_exit t' = Some rc \<and> monitor_left t' \<le> monitor_left t
    \<and> (tk_monitor t = MEnded \<longrightarrow> tk_status t' = tk_status t \<and> tk_returncode t' = tk_returncode t)"
  using assms
  by (cases rule: tracker_step.cases)
    (auto simp: tracker_ok_def monitor_left_def monitor_wait_def monitor_finish_def tracker_kill_def)

lemma monitor_advances:
  assumes "tracker_ok t" and "tk_exit t = Some rc" and "tk_monitor t \<noteq> MEnded"
  shows "\<exists>t'. tracker_step t t' \<and> monitor_left t' < monitor_left t"
proof (cases "tk_monitor t")
  case MWaiting
  have "monitor_left (monitor_wait rc t) < monitor_left t" using MWaiting by (simp add: monitor_left_def monitor_wait_def)
  then show ?thesis using waited [OF MWaiting assms(2)] by blast
next
  case MJoining
  have "monitor_left (monitor_finish 0 t) < monitor_left t" using MJoining by (simp add: monitor_left_def monitor_finish_def)
  then show ?thesis using finish [OF MJoining] by blast
qed (use assms in \<open>auto simp: tracker_ok_def\<close>)

lemma capture_stuck:
  assumes "\<nexists>c'. capture_step c c'" shows "c_closed c \<and> \<not> c_alive c"
  using assms closes [of c] crashes [of c] by blast

lemma capture_complete:
  assumes "\<nexists>c'. capture_step c c'" "drained c" "capture_ok c" "\<not> c_crashed c"
  shows "c_log c = concat (c_written c)
    \<and> c_buffer c = drop (length (c_written c) - MAXLEN) (map rstrip_newlines (c_written c))"
proof -
  have "unread c = []" using capture_stuck [OF assms(1)] assms(2,4) by (simp add: drained_def)
  then show ?thesis using assms(3,4) by (simp add: capture_ok_def unread_def)
qed

text \<open>
  C35: an action whose process has ended finishes, whatever its children do with the pipes. No
  step takes the monitor back, and as long as it has not finished it can go on; once it has, the
  status is completed or failed for good, completed only if the process has returned 0. When the
  pipes are closed every step brings the threads closer to their end. Where no step is left, the
  pipes are closed, the status is final, and a stream whose thread no exception has ended has all
  its text in the log and its last thousand lines shown; at any time a log holds a beginning of
  the text written.
\<close>

theorem tracker_finishes:
  assumes "tracker_reachable t" and "tk_exit t = Some rc"
  shows "(\<forall>t'. tracker_step t t' \<longrightarrow> tk_exit t' = Some rc \<and> monitor_left t' \<le> monitor_left t)
    \<and> (tk_monitor t \<noteq> MEnded \<longrightarrow> (\<exists>t'. tracker_step t t' \<and> monitor_left t' < monitor_left t))
    \<and> (tk_monitor t = MEnded \<longrightarrow> tk_status t \<in> {ACompleted, AFailed} \<and> (tk_status t = ACompleted \<longrightarrow> rc = 0)
         \<and> (\<forall>t'. tracker_step t t' \<longrightarrow> tk_status t' = tk_status t \<and> tk_returncode t' = tk_returncode t))
    \<and> (c_closed (tk_out t) \<and> c_closed (tk_err t) \<longrightarrow> (\<forall>t'. tracker_step t t' \<longrightarrow> tracker_weight t' < tracker_weight t))
    \<and> ((\<nexists>t'. tracker_step t t') \<longrightarrow> tk_monitor t = MEnded
         \<and> list_all (\<lambda>c. c_closed c \<and> (\<not> c_crashed c \<longrightarrow> c_log c = concat (c_written c)
              \<and> c_buffer c = drop (length (c_written c) - MAXLEN) (map rstrip_newlines (c_written c)))) [tk_out t, tk_err t])
    \<and> list_all (\<lambda>c. prefix (c_log c) (concat (c_written c))) [tk_out t, tk_err t]"
proof -
  have ok: "tracker_ok t" using tracker_reachable_ok [OF assms(1)] .
  have spawned: "tk_spawned t" using ok assms(2) by (auto simp: tracker_ok_def)
  have steps: "\<forall>t'. tracker_step t t' \<longrightarrow> tk_exit t' = Some rc \<and> monitor_left t' \<le> monitor_left t"
    using tracker_step_exit [OF _ assms(2) ok] by blast
  have final: "tk_status t \<in> {ACompleted, AFailed} \<and> (tk_status t = ACompleted \<longrightarrow> rc = 0)
      \<and> (\<forall>t'. tracker_step t t' \<longrightarrow> tk_status t' = tk_status t \<and> tk_returncode t' = tk_returncode t)"
    if "tk_monitor t = MEnded"
    using tracker_step_exit [OF _ assms(2) ok] that ok assms(2) by (auto simp: tracker_ok_def)
  have stuck: "tk_monitor t = MEnded \<and> list_all (\<lambda>c. c_closed c \<and> (\<not> c_crashed c \<longrightarrow> c_log c = concat (c_written c)
      \<and> c_buffer c = drop (length (c_written c) - MAXLEN) (map rstrip_newlines (c_written c)))) [tk_out t, tk_err t]"
    if none: "\<nexists>t'. tracker_step t t'"
  proof -
    have "\<nexists>c. capture_step (tk_out t) c" "\<nexists>c. capture_step (tk_err t) c"
      using none out [OF spawned] err [OF spawned] by blast+
    moreover have "tk_monitor t = MEnded" using monitor_advances [OF ok assms(2)] none by blast
    ultimately show ?thesis
      using capture_stuck capture_complete ok spawned by (simp add: tracker_ok_def)
  qed
  have log: "capture_ok c \<Longrightarrow> prefix (c_log c) (concat (c_written c))" for c
    unfolding capture_ok_def by (metis append_take_drop_id concat_append prefix_order.trans prefixI)
  have "list_all (\<lambda>c. prefix (c_log c) (concat (c_written c))) [tk_out t, tk_err t]"
    using log ok by (simp add: tracker_ok_def)
  with steps final stuck monitor_advances [OF ok assms(2)] tracker_step_weight [OF _ assms(2) ok]
  show ?thesis by blast
qed

text \<open>A command that could not be started stays running: no step changes it, and it cannot be killed.\<close>

lemma failed_start_stuck:
  assumes "tracker_start now (Inl e) (new_tracker i c d w n) = (t, r)"
  shows "r = Inl e \<and> tk_status t = ARunning \<and> (\<nexists>t'. tracker_step t t') \<and> tracker_kill now' sent t = (t, False)"
  using assms by (auto simp: tracker_start_def new_tracker_def tracker_kill_def new_capture_def elim!: tracker_stepE)

lemma run_command_failure:
  assumes "run_command uuid cmd cwd descr False now (Inl e) ts = (ts', r)"
  shows "r = Inl e \<and> (\<exists>t. registry_get uuid ts' = Some t \<and> tk_status t = ARunning \<and> (\<nexists>t'. tracker_step t t'))"
proof -
  obtain t u where start: "tracker_start now (Inl e) (new_tracker uuid (Inr cmd)
      (case descr of None \<Rightarrow> join '' '' cmd | Some d \<Rightarrow> if d = [] then join '' '' cmd else d) cwd now) = (t, u)"
    by fastforce
  from failed_start_stuck [OF this] show ?thesis
    using assms by (auto simp: run_command_def registry_create_def registry_get_def Let_def start)
qed

text \<open>A killed action is reported as failed in the end.\<close>

lemma killed_then_failed:
  assumes "tracker_kill now True t = (t', True)"
  shows "tk_status t' = AKilled \<and> tk_status (monitor_finish later t') = AFailed"
  using assms by (auto simp: tracker_kill_def monitor_finish_def split: if_splits)

section \<open>What a stream shows\<close>

definition stdout_lines :: "sse list \<Rightarrow> string list" where
  "stdout_lines es = concat (map (\<lambda>e. case e of SStdout l \<Rightarrow> [l] | _ \<Rightarrow> []) es)"

definition stderr_lines :: "sse list \<Rightarrow> string list" where
  "stderr_lines es = concat (map (\<lambda>e. case e of SStderr l \<Rightarrow> [l] | _ \<Rightarrow> []) es)"

lemma stdout_lines_simps [simp]:
  "stdout_lines [] = []"
  "stdout_lines (xs @ ys) = stdout_lines xs @ stdout_lines ys"
  "stdout_lines (e # es) = (case e of SStdout l \<Rightarrow> [l] | _ \<Rightarrow> []) @ stdout_lines es"
  "stdout_lines (map SStdout ls) = ls"
  "stdout_lines (map SStderr ls) = []"
  by (induction ls) (simp_all add: stdout_lines_def)

lemma stderr_lines_simps [simp]:
  "stderr_lines [] = []"
  "stderr_lines (xs @ ys) = stderr_lines xs @ stderr_lines ys"
  "stderr_lines (e # es) = (case e of SStderr l \<Rightarrow> [l] | _ \<Rightarrow> []) @ stderr_lines es"
  "stderr_lines (map SStdout ls) = []"
  "stderr_lines (map SStderr ls) = ls"
  by (induction ls) (simp_all add: stderr_lines_def)

lemma stream_loop_lines:
  assumes "sorted_wrt prefix (outs # map o_stdout ps)" and "sorted_wrt prefix (errs # map o_stderr ps)" and "ps \<noteq> []"
    and "list_all (\<lambda>p. o_status p \<notin> {ACompleted, AFailed}) (butlast ps)"
  shows "stdout_lines (stream_loop (length outs) (length errs) ps) = drop (length outs) (o_stdout (last ps))
    \<and> stderr_lines (stream_loop (length outs) (length errs) ps) = drop (length errs) (o_stderr (last ps))"
  using assms
proof (induction ps arbitrary: outs errs)
  case (Cons p ps)
  obtain new_out new_err where p: "o_stdout p = outs @ new_out" "o_stderr p = errs @ new_err"
    using Cons.prems(1,2) by (auto simp: prefix_def)
  show ?case
  proof (cases "ps = []")
    case False
    then have run: "o_status p \<notin> {ACompleted, AFailed}" using Cons.prems(4) by simp
    have rest: "stdout_lines (stream_loop (length (o_stdout p)) (length (o_stderr p)) ps)
          = drop (length (o_stdout p)) (o_stdout (last ps))
        \<and> stderr_lines (stream_loop (length (o_stdout p)) (length (o_stderr p)) ps)
          = drop (length (o_stderr p)) (o_stderr (last ps))"
      by (rule Cons.IH) (use Cons.prems False in simp_all)
    have "prefix (o_stdout p) (o_stdout (last ps))" "prefix (o_stderr p) (o_stderr (last ps))"
      using Cons.prems(1,2) False by simp_all
    then obtain later later' where "o_stdout (last ps) = o_stdout p @ later" "o_stderr (last ps) = o_stderr p @ later'"
      by (auto simp: prefix_def)
    with rest run False show ?thesis by (simp add: p)
  qed simp
qed simp

text \<open>The lines of a stream its thread has read.\<close>

definition lines_read :: "capture \<Rightarrow> string list" where
  "lines_read c = map rstrip_newlines (take (c_read c) (c_written c))"

definition grows :: "capture \<Rightarrow> capture \<Rightarrow> bool" where
  "grows c c' \<longleftrightarrow> prefix (c_written c) (c_written c') \<and> c_read c \<le> c_read c'"

lemma capture_step_grows: "capture_step c c' \<Longrightarrow> grows c c'"
  by (induction rule: capture_step.induct)
    (auto simp: grows_def capture_turn_def capture_torn_def capture_crash_def split: list.split)

lemma captures_grow:
  "tracker_step\<^sup>*\<^sup>* t t' \<Longrightarrow> grows (tk_out t) (tk_out t') \<and> grows (tk_err t) (tk_err t')"
proof (induction rule: rtranclp_induct)
  case base
  show ?case by (simp add: grows_def)
next
  case (step u v)
  have "grows (tk_out u) (tk_out v) \<and> grows (tk_err u) (tk_err v)"
    using step.hyps(2)
    by (cases rule: tracker_step.cases)
      (auto simp: tracker_start_def Let_def monitor_wait_def monitor_finish_def tracker_kill_def grows_def
         dest!: capture_step_grows split: sum.split)
  then show ?case using step.IH unfolding grows_def by (meson order_trans prefix_order.trans)
qed

lemma steps_reachable: "tracker_step\<^sup>*\<^sup>* t t' \<Longrightarrow> tracker_reachable t \<Longrightarrow> tracker_reachable t'"
  by (induction rule: rtranclp_induct) (auto intro: tracker_reachable.step)

lemma shown_lines: "capture_ok c \<Longrightarrow> c_read c \<le> MAXLEN \<Longrightarrow> c_buffer c = lines_read c"
  by (simp add: capture_ok_def lines_read_def)

lemma lines_read_prefix:
  assumes "grows c c'" and "capture_ok c" shows "prefix (lines_read c) (lines_read c')"
proof -
  obtain lines where w: "c_written c' = c_written c @ lines" and r: "c_read c \<le> c_read c'"
    using assms(1) by (auto simp: grows_def prefix_def)
  have "c_read c \<le> length (c_written c)" using assms(2) by (simp add: capture_ok_def)
  then have "take (c_read c) (c_written c) = take (c_read c) (take (c_read c') (c_written c'))"
    using r by (simp add: w min_absorb1)
  then show ?thesis unfolding lines_read_def by (metis map_mono_prefix take_is_prefix)
qed

lemma sorted_wrt_last: "sorted_wrt R xs \<Longrightarrow> x \<in> set xs \<Longrightarrow> x = last xs \<or> R x (last xs)"
  by (induction xs) auto

text \<open>One of the two streams of an action that is polled at some of its states.\<close>

lemma polled_stream:
  assumes "sorted_wrt tracker_step\<^sup>*\<^sup>* ts" "list_all tracker_ok ts" "ts \<noteq> []"
    and "\<And>t. tracker_ok t \<Longrightarrow> capture_ok (c t)" and "\<And>t t'. tracker_step\<^sup>*\<^sup>* t t' \<Longrightarrow> grows (c t) (c t')"
    and "c_read (c (last ts)) \<le> MAXLEN"
  shows "sorted_wrt prefix ([] # map (c_buffer \<circ> c) ts) \<and> c_buffer (c (last ts)) = lines_read (c (last ts))"
proof -
  have small: "c_buffer (c u) = lines_read (c u)" if "u \<in> set ts" for u
  proof (rule shown_lines)
    show "capture_ok (c u)" using that assms(2,4) by (simp add: list_all_iff)
    have "u = last ts \<or> grows (c u) (c (last ts))" using sorted_wrt_last [OF assms(1) that] assms(5) by blast
    then show "c_read (c u) \<le> MAXLEN" using assms(6) by (auto simp: grows_def)
  qed
  have "sorted_wrt (\<lambda>t t'. prefix (lines_read (c t)) (lines_read (c t'))) ts"
    by (rule sorted_wrt_mono_rel [OF _ assms(1)])
      (use lines_read_prefix assms(2,4,5) in \<open>auto simp: list_all_iff\<close>)
  then have "sorted_wrt (\<lambda>t t'. prefix (c_buffer (c t)) (c_buffer (c t'))) ts"
    by (rule sorted_wrt_mono_rel [rotated]) (simp add: small)
  then show ?thesis using small assms(3) by (simp add: sorted_wrt_map)
qed

text \<open>
  C36: the stream of an action shows each line that the threads have read by the last poll exactly
  once, in the order of its stream, those of the standard output as well as those of the standard
  error, as long as neither has more than a thousand lines.
\<close>

theorem stream_complete:
  assumes "sorted_wrt tracker_step\<^sup>*\<^sup>* (t # ts)" and "tracker_reachable t"
    and "c_read (tk_out (last (t # ts))) \<le> MAXLEN" and "c_read (tk_err (last (t # ts))) \<le> MAXLEN"
    and "list_all (\<lambda>t. tk_status t \<notin> {ACompleted, AFailed}) (butlast (t # ts))"
  shows "stdout_lines (stream_output (map (get_output 0) (t # ts))) = lines_read (tk_out (last (t # ts)))
    \<and> stderr_lines (stream_output (map (get_output 0) (t # ts))) = lines_read (tk_err (last (t # ts)))"
proof -
  let ?ps = "map (get_output 0) (t # ts)"
  have ok: "list_all tracker_ok (t # ts)"
    using assms(1,2) steps_reachable tracker_reachable_ok by (auto simp: list_all_iff)
  have outs: "map o_stdout ?ps = map (c_buffer \<circ> tk_out) (t # ts)" "map o_stderr ?ps = map (c_buffer \<circ> tk_err) (t # ts)"
    by (simp_all add: get_output_def comp_def)
  have last: "last ?ps = get_output 0 (last (t # ts))" by (rule last_map) simp
  note p_out = polled_stream [OF assms(1) ok, of tk_out] and p_err = polled_stream [OF assms(1) ok, of tk_err]
  have o: "sorted_wrt prefix ([] # map (c_buffer \<circ> tk_out) (t # ts))
      \<and> c_buffer (tk_out (last (t # ts))) = lines_read (tk_out (last (t # ts)))"
    by (rule p_out) (use captures_grow assms(3) in \<open>auto simp: tracker_ok_def\<close>)
  have e: "sorted_wrt prefix ([] # map (c_buffer \<circ> tk_err) (t # ts))
      \<and> c_buffer (tk_err (last (t # ts))) = lines_read (tk_err (last (t # ts)))"
    by (rule p_err) (use captures_grow assms(4) in \<open>auto simp: tracker_ok_def\<close>)
  have run: "list_all (\<lambda>p. o_status p \<notin> {ACompleted, AFailed}) (butlast ?ps)"
    using assms(5) by (simp add: map_butlast [symmetric] list_all_iff get_output_def del: map_butlast)
  have "sorted_wrt prefix ([] # map o_stdout ?ps)" "sorted_wrt prefix ([] # map o_stderr ?ps)" "?ps \<noteq> []"
    using o e unfolding outs by simp_all
  from stream_loop_lines [OF this run]
  have "stdout_lines (stream_loop 0 0 ?ps) = o_stdout (last ?ps) \<and> stderr_lines (stream_loop 0 0 ?ps) = o_stderr (last ?ps)"
    by simp
  then show ?thesis
    using o e unfolding last stream_output_def stdout_lines_simps(3) stderr_lines_simps(3) by (simp add: get_output_def)
qed

text \<open>Once a thousand lines are shown, none is shown any more.\<close>

lemma stream_stalls:
  assumes "list_all (\<lambda>p. length (o_stdout p) \<le> MAXLEN) (p # ps)" and "length (o_stdout p) = MAXLEN"
    and "sent = MAXLEN" and "sorted_wrt (\<lambda>p q. length (o_stdout p) \<le> length (o_stdout q)) (p # ps)"
  shows "stdout_lines (stream_loop sent m (p # ps)) = []"
  using assms by (induction ps arbitrary: p m sent) (auto simp: )

text \<open>Lines of two streams, polled one after the other: the second poll repeats x and never shows b.\<close>

lemma poll_loses_line:
  fixes p :: output_view
  assumes "o_stdout p = [''a'']" and "o_stderr p = [''x'']" and "q = p\<lparr>o_stdout := [''a'', ''b'']\<rparr>"
  shows "get_action_output 0 p = (''a'' @ [CHR 0x0A] @ ''x'' @ [CHR 0x0A], Some 2)"
    and "get_action_output 2 q = (''x'' @ [CHR 0x0A], Some 3)"
  using assms by (simp_all add: get_action_output_def Let_def)

section \<open>Examples\<close>

text \<open>
  A command that writes a line and returns 0, followed to its end. A child of it holds the pipe of
  the standard error and writes there later.
\<close>

definition ex_started :: tracker where
  "ex_started = fst (tracker_start 1 (Inr ()) (new_tracker ''id'' (Inr [''ls'']) ''list'' ''/'' 0))"

definition ex_ended :: tracker where
  "ex_ended = (ex_started\<lparr>tk_out := write_line (''a'' @ [CHR 0x0A]) (tk_out ex_started)\<rparr>)\<lparr>tk_exit := Some 0\<rparr>"

definition ex_late :: tracker where
  "ex_late = ex_ended\<lparr>tk_err := write_line (''b'' @ [CHR 0x0A]) (tk_err ex_ended)\<rparr>"

definition ex_read :: tracker where
  "ex_read = (ex_late\<lparr>tk_out := capture_turn (tk_out ex_late)\<rparr>)\<lparr>tk_err := capture_turn (tk_err ex_late)\<rparr>"

definition ex_finished :: tracker where
  "ex_finished = monitor_finish 9 (monitor_wait 0 ex_read)"

lemmas ex_defs = ex_read_def ex_late_def ex_ended_def ex_started_def tracker_start_def new_tracker_def new_capture_def

lemma ex_started_reachable: "tracker_reachable ex_started"
  unfolding ex_started_def
  by (rule tracker_reachable.step [OF created start]) (simp add: new_tracker_def)

lemma ex_ended_steps: "tracker_step\<^sup>*\<^sup>* ex_started ex_ended"
proof -
  let ?t = "ex_started\<lparr>tk_out := write_line (''a'' @ [CHR 0x0A]) (tk_out ex_started)\<rparr>"
  have "tracker_step ex_started ?t"
    by (rule out [OF _ writes]) (simp_all add: ex_defs)
  moreover have "tracker_step ?t ex_ended"
    unfolding ex_ended_def by (rule exits) (simp_all add: ex_defs)
  ultimately show ?thesis by simp
qed

lemma ex_late_step: "tracker_step ex_ended ex_late"
  unfolding ex_late_def by (rule err [OF _ writes]) (simp_all add: ex_defs)

lemma ex_read_steps: "tracker_step\<^sup>*\<^sup>* ex_ended ex_read"
proof -
  let ?t = "ex_late\<lparr>tk_out := capture_turn (tk_out ex_late)\<rparr>"
  have "tracker_step ex_late ?t"
    by (rule out [OF _ reads]) (simp_all add: readable_def unread_def ex_defs)
  moreover have "tracker_step ?t (?t\<lparr>tk_err := capture_turn (tk_err ?t)\<rparr>)"
    by (rule err [OF _ reads]) (simp_all add: readable_def unread_def ex_defs)
  then have "tracker_step ?t ex_read" by (simp add: ex_read_def)
  ultimately show ?thesis using ex_late_step by simp
qed

lemma ex_finished_steps: "tracker_step\<^sup>*\<^sup>* ex_read ex_finished"
proof -
  have "tracker_step ex_read (monitor_wait 0 ex_read)"
    by (rule waited) (simp_all add: ex_defs)
  moreover have "tracker_step (monitor_wait 0 ex_read) ex_finished"
    unfolding ex_finished_def by (rule finish) (simp add: monitor_wait_def)
  ultimately show ?thesis by simp
qed

text \<open>The line of the child comes after the end of the process; the monitor goes on nevertheless.\<close>

theorem tracker_finishes_witness:
  "monitor_left ex_late \<le> monitor_left ex_ended \<and> (\<exists>t'. tracker_step ex_ended t' \<and> monitor_left t' < monitor_left ex_ended)
   \<and> tk_exit ex_late = Some 0 \<and> prefix (c_log (tk_out ex_ended)) (''a'' @ [CHR 0x0A])"
proof -
  have "tk_exit ex_ended = Some 0" "tk_monitor ex_ended \<noteq> MEnded" by (simp_all add: ex_defs)
  moreover have "concat (c_written (tk_out ex_ended)) = ''a'' @ [CHR 0x0A]" by (simp add: ex_defs)
  ultimately show ?thesis
    using tracker_finishes [OF steps_reachable [OF ex_ended_steps ex_started_reachable], of 0] ex_late_step
    by (metis list.pred_inject(2))
qed

theorem stream_complete_witness:
  "stdout_lines (stream_output (map (get_output 0) [ex_started, ex_read, ex_finished])) = [''a'']
   \<and> stderr_lines (stream_output (map (get_output 0) [ex_started, ex_read, ex_finished])) = [''b'']"
proof -
  have "tracker_step\<^sup>*\<^sup>* ex_started ex_read" using ex_ended_steps ex_read_steps by (rule rtranclp_trans)
  moreover from this ex_finished_steps have "tracker_step\<^sup>*\<^sup>* ex_started ex_finished" by (rule rtranclp_trans)
  ultimately have "sorted_wrt tracker_step\<^sup>*\<^sup>* [ex_started, ex_read, ex_finished]" using ex_finished_steps by simp
  moreover have "c_read (tk_out (last [ex_started, ex_read, ex_finished])) \<le> MAXLEN"
    "c_read (tk_err (last [ex_started, ex_read, ex_finished])) \<le> MAXLEN" by code_simp+
  moreover have "list_all (\<lambda>t. tk_status t \<notin> {ACompleted, AFailed}) (butlast [ex_started, ex_read, ex_finished])"
    by code_simp
  moreover have "lines_read (tk_out ex_finished) = [''a'']" "lines_read (tk_err ex_finished) = [''b'']" by code_simp+
  ultimately show ?thesis using stream_complete [OF _ ex_started_reachable, of "[ex_read, ex_finished]"] by simp
qed

text \<open>
  A killed script whose child writes on: the process has ended with the signal, the status is
  final after the monitor has given up waiting for the threads, and a line comes after that.
\<close>

lemma killed_child_writes_on:
  assumes "tracker_reachable t" "tk_status t = AFailed" "\<not> c_closed (tk_out t)"
  shows "tracker_step t (t\<lparr>tk_out := write_line ''late'' (tk_out t)\<rparr>)"
proof -
  have "tk_spawned t" using tracker_reachable_ok [OF assms(1)] assms(2) by (auto simp: tracker_ok_def)
  then show ?thesis using out [OF _ writes, of t "''late''"] assms(3) by simp
qed

end
