(* ===== verification/EntryLookup.thy ===== *)
theory EntryLookup
  imports TuneCommand TaskQueue "HOL-Library.List_Lexorder" "HOL-Library.Product_Lexorder"
begin

text \<open>
  \<open>.tune/webui/pytest_entry_parser.py\<close> and \<open>resolve_tune_entry\<close> of \<open>.tune/webui/tasks.py\<close>: the task
  that belongs to the name of a test or to a line that names an entry. \<open>to_float\<close> reads the text of
  a float and gives the shortest text of its value, or None; the variable
  \<open>AOTRITON_FLASH_BLOCK_DMODEL\<close> is an argument.
\<close>

section \<open>Names of tests\<close>

definition NODE_DTYPE_MAP :: "(string, string) dict" where
  "NODE_DTYPE_MAP = [(''dtype0'', ''float16''), (''dtype1'', ''bfloat16''), (''dtype2'', ''float32'')]"

definition BLOCK_DMODEL_DEFAULT :: string where
  "BLOCK_DMODEL_DEFAULT = ''16, 32, 48, 64, 80, 96, 128, 160, 192, 224, 256, 512''"

text \<open>\<open>int(s)\<close>: white space around, a sign, single underscores between the digits.\<close>

definition int_text :: "string \<Rightarrow> int res" where
  "int_text s =
     (let t = strip s;
          (neg, ds) = (case t of
               [] \<Rightarrow> (False, [])
             | c # r \<Rightarrow> if c = CHR ''-'' then (True, r) else if c = CHR ''+'' then (False, r) else (False, t));
          ws = split_on (CHR ''_'') ds
      in if list_all (\<lambda>w. w \<noteq> [] \<and> list_all is_digit w) ws
         then Inr ((if neg then -1 else 1) * int (digits_val 0 (concat ws)))
         else Inl ValueError)"

definition BLOCK_DMODEL :: "string option \<Rightarrow> int list res" where
  "BLOCK_DMODEL env =
     rmap sort (rtraverse (\<lambda>x. int_text (strip x))
       (split_on (CHR '','') (case env of None \<Rightarrow> BLOCK_DMODEL_DEFAULT | Some s \<Rightarrow> s)))"

definition SEQLEN_ENTRIES :: "int list" where
  "SEQLEN_ENTRIES = [16, 32, 64, 128, 256, 512, 1024, 2048, 4096, 8192]"

text \<open>\<open>_round_up\<close>; the error message takes the last element of the table.\<close>

fun round_up :: "int \<Rightarrow> int list \<Rightarrow> int res" where
  "round_up v [] = Inl ValueError"
| "round_up v (entry # table) = (if entry \<ge> v then Inr entry else round_up v table)"

definition int_or_pair :: "string \<Rightarrow> pval res" where
  "int_or_pair body =
     (if CHR ''x'' \<in> set body then
        rbind (int_text (takeWhile (\<lambda>c. c \<noteq> CHR ''x'') body)) (\<lambda>a.
        rmap (\<lambda>b. VTuple [VInt a, VInt b]) (int_text (tl (dropWhile (\<lambda>c. c \<noteq> CHR ''x'') body))))
      else rmap VInt (int_text body))"

definition parse_hdim :: "string \<Rightarrow> pval res" where
  "parse_hdim token = (if startswith token ''hdim'' then int_or_pair (drop 4 token) else Inl ValueError)"

definition parse_nheads :: "string \<Rightarrow> pval res" where
  "parse_nheads token = int_or_pair token"

definition word_char :: "char \<Rightarrow> bool" where
  "word_char c \<longleftrightarrow> is_digit c \<or> c = CHR ''_'' \<or> (65 \<le> (of_char c :: nat) \<and> (of_char c :: nat) \<le> 90)
     \<or> (97 \<le> (of_char c :: nat) \<and> (of_char c :: nat) \<le> 122)"

text \<open>The pattern \<open>::(\w+)\[(.+)\]$\<close> at the start of a text, and its first match in a text.\<close>

definition match_node :: "string \<Rightarrow> (string \<times> string) option" where
  "match_node s =
     (if \<not> startswith s ''::'' then None
      else
        let name = takeWhile word_char (drop 2 s) in
        case dropWhile word_char (drop 2 s) of
          [] \<Rightarrow> None
        | c # body \<Rightarrow>
            if c = CHR ''['' \<and> name \<noteq> [] \<and> length body \<ge> 2 \<and> last body = CHR '']'' \<and> CHR 0x0A \<notin> set (butlast body)
            then Some (name, butlast body) else None)"

fun search_node :: "string \<Rightarrow> (string \<times> string) option" where
  "search_node [] = None"
| "search_node (c # s) = (case match_node (c # s) of Some m \<Rightarrow> Some m | None \<Rightarrow> search_node s)"

fun round_hdim :: "int list \<Rightarrow> pval \<Rightarrow> pval res" where
  "round_hdim table (VTuple [VInt a, VInt b]) =
     rbind (round_up a table) (\<lambda>a. rmap (\<lambda>b. VTuple [VInt a, VInt b]) (round_up b table))"
| "round_hdim table (VInt a) = rmap VInt (round_up a table)"
| "round_hdim table _ = Inl TypeError"

definition causal_of :: "string \<Rightarrow> bool res" where
  "causal_of s = of_option ValueError (dget [(''CausalOff'', False), (''CausalOn'', True)] s)"

definition bias_of :: "string \<Rightarrow> int res" where
  "bias_of s = of_option ValueError (dget [(''BiasOff'', 0), (''BiasOn'', 1)] s)"

text \<open>What the three kinds of tests do with their parameters.\<close>

definition node_entry ::
  "(string \<Rightarrow> string option) \<Rightarrow> int list \<Rightarrow> string \<Rightarrow> string \<Rightarrow> bool res \<Rightarrow> int res \<Rightarrow> string \<Rightarrow> string \<Rightarrow> string
     \<Rightarrow> fentry res" where
  "node_entry to_float table dtype_token dropout causal bias_type seqlen_k seqlen_q hdim_token =
     rbind (of_option ValueError (to_float dropout)) (\<lambda>dropout_p.
     rbind (int_text seqlen_k) (\<lambda>seqlen_k.
     rbind (int_text seqlen_q) (\<lambda>seqlen_q.
     rbind bias_type (\<lambda>bias_type.
     rbind (of_option ValueError (dget NODE_DTYPE_MAP dtype_token)) (\<lambda>dtype.
     rbind causal (\<lambda>causal.
     rbind (parse_hdim hdim_token) (\<lambda>raw_hdim.
     rbind (round_hdim table raw_hdim) (\<lambda>hdim.
     rbind (round_up seqlen_q SEQLEN_ENTRIES) (\<lambda>seqlen_q.
     rmap (\<lambda>seqlen_k.
         [(''dtype'', VStr dtype), (''hdim'', hdim), (''seqlen_q'', VInt seqlen_q), (''seqlen_k'', VInt seqlen_k),
          (''causal'', VBool causal), (''dropout_p'', VFloat dropout_p), (''bias_type'', VInt bias_type)])
       (round_up seqlen_k SEQLEN_ENTRIES))))))))))"

definition parse_pytest_node_id :: "(string \<Rightarrow> string option) \<Rightarrow> int list \<Rightarrow> string \<Rightarrow> fentry res" where
  "parse_pytest_node_id to_float table node_id =
     (case search_node (strip node_id) of
        None \<Rightarrow> Inl ValueError
      | Some (test_name, bracket) \<Rightarrow>
          let parts = split_on (CHR ''-'') bracket in
          if test_name = ''test_regular_bwd'' \<or> test_name = ''test_fast'' then
            if length parts < 11 then Inl ValueError
            else node_entry to_float table (parts ! 3) (parts ! 4) (causal_of (parts ! 5)) (Inr 0)
                   (parts ! 6) (parts ! 7) (parts ! 8)
          else if test_name = ''test_irregulars'' then
            if length parts < 12 then Inl ValueError
            else node_entry to_float table (parts ! 4) (parts ! 5) (causal_of (parts ! 6)) (bias_of (parts ! 1))
                   (parts ! 7) (parts ! 8) (parts ! 9)
          else if test_name = ''test_op_bwd_with_matrix_bias'' then
            if length parts < 9 then Inl ValueError
            else node_entry to_float table (parts ! 3) (parts ! 4) (Inr False) (Inr 1)
                   (parts ! 5) (parts ! 6) (parts ! 7)
          else Inl ValueError)"

section \<open>Queries\<close>

text \<open>A clause and its parameter.\<close>

definition entry_col :: "string \<Rightarrow> string" where
  "entry_col field = ''task_config->'' @ [quote] @ ''entry'' @ [quote] @ ''->>'' @ [quote] @ field @ [quote]"

fun val_obj :: "pval \<Rightarrow> pyobj" where
  "val_obj VNone = ONone"
| "val_obj (VBool b) = OBool b"
| "val_obj (VInt i) = OInt i"
| "val_obj (VFloat f) = OFloat f"
| "val_obj (VStr s) = OStr s"
| "val_obj (VTuple l) = OList (map val_obj l)"
| "val_obj (VList l) = OList (map val_obj l)"

definition entry_clause :: "string \<times> pval \<Rightarrow> string \<times> pval" where
  "entry_clause fv =
     (let (field, v) = fv in
      case v of
        VTuple l \<Rightarrow>
          (''task_config->'' @ [quote] @ ''entry'' @ [quote] @ ''->'' @ [quote] @ field @ [quote] @ '' = %s::jsonb'',
           VStr (dumps (val_obj (VList l))))
      | VBool b \<Rightarrow> (''('' @ entry_col field @ '')::boolean = %s'', v)
      | VInt i \<Rightarrow> (''('' @ entry_col field @ '')::integer = %s'', v)
      | VFloat f \<Rightarrow> (''('' @ entry_col field @ '')::float = %s'', v)
      | _ \<Rightarrow> (entry_col field @ '' = %s'', v))"

definition entry_to_sql_clauses :: "fentry \<Rightarrow> string list \<times> pval list" where
  "entry_to_sql_clauses entry = (map (fst \<circ> entry_clause) entry, map (snd \<circ> entry_clause) entry)"

text \<open>
  The value of a clause for an entry in PostgreSQL, None for null: \<open>->>\<close> gives the text of a value, a
  cast of a text that does not fit is an error of the query.
\<close>

fun json_text :: "pyobj \<Rightarrow> string option" where
  "json_text ONone = None"
| "json_text (OStr s) = Some s"
| "json_text v = Some (dumps v)"

definition pg_boolean :: "string \<Rightarrow> bool res" where
  "pg_boolean s =
     (let t = map ascii_lower (strip s) in
      if t \<in> {''t'', ''tr'', ''tru'', ''true'', ''y'', ''ye'', ''yes'', ''on'', ''1''} then Inr True
      else if t \<in> {''f'', ''fa'', ''fal'', ''fals'', ''false'', ''n'', ''no'', ''of'', ''off'', ''0''} then Inr False
      else Inl DatabaseError)"

definition pg_integer :: "string \<Rightarrow> int res" where
  "pg_integer s =
     (case int_text s of
        Inr i \<Rightarrow> if - (2 ^ 31) \<le> i \<and> i < 2 ^ 31 then Inr i else Inl DatabaseError
      | Inl _ \<Rightarrow> Inl DatabaseError)"

definition on_text :: "(string \<Rightarrow> bool res) \<Rightarrow> pyobj \<Rightarrow> bool res" where
  "on_text f v = (case json_text v of None \<Rightarrow> Inr False | Some t \<Rightarrow> f t)"

definition clause_value :: "(string \<Rightarrow> string option) \<Rightarrow> pval \<Rightarrow> pyobj \<Rightarrow> bool res" where
  "clause_value to_float v j =
     (case v of
        VTuple l \<Rightarrow> Inr (j = val_obj (VList l))
      | VBool b \<Rightarrow> on_text (\<lambda>t. rmap (\<lambda>x. x = b) (pg_boolean t)) j
      | VInt i \<Rightarrow> on_text (\<lambda>t. rmap (\<lambda>x. x = i) (pg_integer t)) j
      | VFloat f \<Rightarrow> on_text (\<lambda>t. rmap (\<lambda>x. x = f) (of_option DatabaseError (to_float t))) j
      | VStr s \<Rightarrow> on_text (\<lambda>t. Inr (t = s)) j
      | _ \<Rightarrow> Inr False)"

definition row_entry :: "task_row \<Rightarrow> string \<Rightarrow> pyobj" where
  "row_entry t field =
     (case obj_get (t_config t) ''entry'' of
        Inl _ \<Rightarrow> ONone
      | Inr e \<Rightarrow> (case obj_get e field of Inl _ \<Rightarrow> ONone | Inr v \<Rightarrow> v))"

definition entry_matches :: "(string \<Rightarrow> string option) \<Rightarrow> fentry \<Rightarrow> task_row \<Rightarrow> bool res" where
  "entry_matches to_float entry t =
     rmap (list_all id) (rtraverse (\<lambda>(field, v). clause_value to_float v (row_entry t field)) entry)"

definition select_tasks :: "(task_row \<Rightarrow> bool res) \<Rightarrow> task_row list \<Rightarrow> task_row list res" where
  "select_tasks p ts = rmap (\<lambda>bs. map fst (filter snd (zip ts bs))) (rtraverse p ts)"

datatype lookup_error = BadEntry | NoRow string | QueryFailed

definition resolve_pytest_entry ::
  "(string \<Rightarrow> string option) \<Rightarrow> int list \<Rightarrow> task_row list \<Rightarrow> string \<Rightarrow> lookup_error + (int \<times> string \<times> string) list" where
  "resolve_pytest_entry to_float table ts line =
     (case parse_pytest_node_id to_float table line of
        Inl _ \<Rightarrow> Inl BadEntry
      | Inr entry \<Rightarrow>
          (case select_tasks (entry_matches to_float entry) ts of
             Inl _ \<Rightarrow> Inl QueryFailed
           | Inr [] \<Rightarrow> Inl (NoRow (join '', '' (map (\<lambda>(k, v). k @ ''='' @ val_repr v) entry)))
           | Inr rows \<Rightarrow> Inr (map (\<lambda>t. (t_id t, t_arch t, t_module t)) (sort_key (\<lambda>t. (t_arch t, t_id t)) rows))))"

section \<open>Lines with an entry\<close>

definition TUNE_V3BIS_MARKER :: string where
  "TUNE_V3BIS_MARKER = ''TUNE_V3BIS testrun Item: ''"

text \<open>What follows the first occurrence of a text.\<close>

fun after_first :: "string \<Rightarrow> string \<Rightarrow> string option" where
  "after_first m [] = (if m = [] then Some [] else None)"
| "after_first m (c # s) = (if startswith (c # s) m then Some (drop (length m) (c # s)) else after_first m s)"

definition split_once :: "char \<Rightarrow> string \<Rightarrow> (string \<times> string) option" where
  "split_once c s =
     (if c \<in> set s then Some (takeWhile (\<lambda>x. x \<noteq> c) s, tl (dropWhile (\<lambda>x. x \<noteq> c) s)) else None)"

definition parse_tune_line :: "(string \<Rightarrow> pval res) \<Rightarrow> string \<Rightarrow> (string \<times> string \<times> fentry) res" where
  "parse_tune_line other line =
     (let payload = strip (case after_first TUNE_V3BIS_MARKER line of Some r \<Rightarrow> r | None \<Rightarrow> line) in
      rbind (of_option ValueError (split_once (CHR '' '') payload)) (\<lambda>(arch_part, entry_part).
      rbind (of_option IndexError (split_once (CHR ''='') arch_part)) (\<lambda>(_, arch).
      rmap (\<lambda>entry. (arch, entry_part, entry)) (entry_parse_text other entry_part))))"

text \<open>
  The clauses of this query have no case for a tuple: its parameter is the text of a row, which the
  text of a JSON list never is.
\<close>

definition tune_matches :: "(string \<Rightarrow> string option) \<Rightarrow> string \<Rightarrow> fentry \<Rightarrow> task_row \<Rightarrow> bool res" where
  "tune_matches to_float arch entry t =
     rmap (\<lambda>bs. obj_get (t_config t) ''arch'' = Inr (OStr arch) \<and> \<not> like ''%_op'' (t_module t) \<and> list_all id bs)
       (rtraverse (\<lambda>(field, v). case v of
            VTuple l \<Rightarrow> on_text (\<lambda>t. Inr (t = ''('' @ join '','' (map val_str l) @ '')'')) (row_entry t field)
          | _ \<Rightarrow> clause_value to_float v (row_entry t field)) entry)"

text \<open>Without an order, \<open>LIMIT 1\<close> picks any of the rows.\<close>

definition resolve_tune_entry ::
  "(string \<Rightarrow> string option) \<Rightarrow> int list \<Rightarrow> (string \<Rightarrow> pval res) \<Rightarrow> (task_row list \<Rightarrow> task_row) \<Rightarrow> task_row list \<Rightarrow> string
     \<Rightarrow> lookup_error + (int \<times> string \<times> string) list + int" where
  "resolve_tune_entry to_float table other pick ts line =
     (if after_first ''::'' line \<noteq> None \<and> CHR ''['' \<in> set line then
        (case resolve_pytest_entry to_float table ts line of Inl e \<Rightarrow> Inl e | Inr ms \<Rightarrow> Inr (Inl ms))
      else
        case parse_tune_line other line of
          Inl _ \<Rightarrow> Inl BadEntry
        | Inr (arch, entry_part, entry) \<Rightarrow>
            (case select_tasks (tune_matches to_float arch entry) ts of
               Inl _ \<Rightarrow> Inl QueryFailed
             | Inr [] \<Rightarrow> Inl (NoRow (''arch='' @ arch @ '' '' @ entry_part))
             | Inr rows \<Rightarrow> Inr (Inr (t_id (pick rows)))))"

section \<open>Texts\<close>

lemma strip_id: "s = [] \<or> \<not> is_space (hd s) \<and> \<not> is_space (last s) \<Longrightarrow> strip s = s"
proof -
  assume s: "s = [] \<or> \<not> is_space (hd s) \<and> \<not> is_space (last s)"
  then have "dropWhile is_space s = s" "dropWhile is_space (rev s) = rev s"
    by (auto simp: dropWhile_eq_self_iff hd_rev)
  then show "strip s = s" by (simp add: strip_def strip_chars_def)
qed

lemma sign_digit_space: "is_digit c \<or> c = CHR ''-'' \<Longrightarrow> \<not> is_space c \<and> c \<noteq> CHR ''_'' \<and> c \<noteq> CHR ''x'' \<and> c \<noteq> CHR ''+''"
proof -
  have "list_all (\<lambda>c. \<not> is_space c \<and> c \<noteq> CHR ''_'' \<and> c \<noteq> CHR ''x'' \<and> c \<noteq> CHR ''+'') ''0123456789-''" by code_simp
  then show "is_digit c \<or> c = CHR ''-'' \<Longrightarrow> \<not> is_space c \<and> c \<noteq> CHR ''_'' \<and> c \<noteq> CHR ''x'' \<and> c \<noteq> CHR ''+''"
    using digit_cases [of c] by (auto simp: list_all_iff)
qed

lemma show_int_no_mark: "c \<in> set (show_int i) \<Longrightarrow> \<not> is_space c \<and> c \<noteq> CHR ''_'' \<and> c \<noteq> CHR ''x'' \<and> c \<noteq> CHR ''+''"
  using show_int_digits sign_digit_space by blast

lemma show_nat_digit: "c \<in> set (show_nat n) \<Longrightarrow> is_digit c"
  using show_nat_digits by (auto simp: list_all_iff)

lemma show_nat_minus: "c \<in> set (show_nat n) \<Longrightarrow> c \<noteq> CHR ''-'' \<and> c \<noteq> CHR 0x0A"
proof -
  have "list_all (\<lambda>c. c \<noteq> CHR ''-'' \<and> c \<noteq> CHR 0x0A) ''0123456789''" by code_simp
  then show "c \<in> set (show_nat n) \<Longrightarrow> c \<noteq> CHR ''-'' \<and> c \<noteq> CHR 0x0A"
    using digit_cases [OF show_nat_digit] by (fastforce simp: list_all_iff)
qed

lemma int_text_show_int: "int_text (show_int i) = Inr i"
proof -
  have strip: "strip (show_int i) = show_int i"
    using show_int_no_mark by (intro strip_id) (metis hd_in_set last_in_set)
  have ws: "split_on (CHR ''_'') (show_nat n) = [show_nat n]" for n
  proof (rule split_on_none)
    show "CHR ''_'' \<notin> set (show_nat n)" using show_nat_digit [of "CHR ''_''" n] sign_digit_space [of "CHR ''_''"] by auto
  qed
  have digits: "show_nat n \<noteq> []" "list_all is_digit (show_nat n)" for n
    using show_nat_digits [of n] by (simp_all add: list_all_iff)
  have sign: "(case show_nat n of [] \<Rightarrow> (False, [])
      | c # r \<Rightarrow> if c = CHR ''-'' then (True, r) else if c = CHR ''+'' then (False, r) else (False, show_nat n)) = (False, show_nat n)" for n
  proof (cases "show_nat n")
    case (Cons c r)
    then have "is_digit c" "c \<noteq> CHR ''-''" using show_nat_digit [of c n] show_nat_minus [of c n] by auto
    then show ?thesis using Cons sign_digit_space [of c] by simp
  qed (use digits in simp)
  show ?thesis
  proof (cases "i < 0")
    case True
    then have "show_int i = CHR ''-'' # show_nat (nat (- i))" by (simp add: show_int_def)
    then show ?thesis using True digits ws strip by (simp add: int_text_def Let_def digits_val_show_nat)
  next
    case False
    then have i: "show_int i = show_nat (nat i)" by (simp add: show_int_def)
    show ?thesis using False digits ws strip by (simp add: int_text_def Let_def i sign digits_val_show_nat)
  qed
qed

text \<open>A table that is sorted rounds up to its least element that is large enough.\<close>

lemma round_up_least:
  "sorted table \<Longrightarrow> round_up v table = Inr e \<longleftrightarrow> e \<in> set table \<and> v \<le> e \<and> (\<forall>x \<in> set table. v \<le> x \<longrightarrow> e \<le> x)"
  by (induction table) (auto intro: antisym)

lemma seqlen_sorted: "sorted SEQLEN_ENTRIES"
  by code_simp

lemma block_dmodel_sorted: "BLOCK_DMODEL env = Inr table \<Longrightarrow> sorted table"
  by (auto simp: BLOCK_DMODEL_def rmap_Inr_iff)

section \<open>The name of a test\<close>

lemma word_char_marks: "\<not> word_char (CHR ''['')" "\<not> word_char (CHR '':'')"
  by code_simp+

lemma search_node_found:
  assumes "CHR '':'' \<notin> set path" and "list_all word_char name" "name \<noteq> []" and "body \<noteq> []" "CHR 0x0A \<notin> set body"
  shows "search_node (path @ ''::'' @ name @ ''['' @ body @ '']'') = Some (name, body)"
  using assms(1)
proof (induction path)
  case Nil
  have "takeWhile word_char (name @ CHR ''['' # r) = name" "dropWhile word_char (name @ CHR ''['' # r) = CHR ''['' # r" for r
    using assms(2) word_char_marks by (simp_all add: list_all_iff takeWhile_append dropWhile_append)
  then show ?case using assms by (cases body) (simp_all add: match_node_def Let_def)
next
  case (Cons c path)
  then show ?case by (auto simp: match_node_def)
qed

fun hdim_text :: "pval \<Rightarrow> string" where
  "hdim_text (VTuple [VInt a, VInt b]) = show_int a @ ''x'' @ show_int b"
| "hdim_text v = tr v"

fun is_hdim :: "pval \<Rightarrow> bool" where
  "is_hdim (VTuple [VInt a, VInt b]) = (0 \<le> a \<and> 0 \<le> b)"
| "is_hdim (VInt a) = (0 \<le> a)"
| "is_hdim _ = False"

lemma parse_hdim_text: "is_hdim v \<Longrightarrow> parse_hdim (''hdim'' @ hdim_text v) = Inr v"
proof -
  have x: "CHR ''x'' \<notin> set (show_int i)" for i using show_int_no_mark by blast
  then have split: "takeWhile (\<lambda>c. c \<noteq> CHR ''x'') (show_int a @ CHR ''x'' # s) = show_int a"
    "dropWhile (\<lambda>c. c \<noteq> CHR ''x'') (show_int a @ CHR ''x'' # s) = CHR ''x'' # s" for a s
    by (auto simp: takeWhile_append dropWhile_append)
  show "is_hdim v \<Longrightarrow> parse_hdim (''hdim'' @ hdim_text v) = Inr v"
    by (cases v rule: is_hdim.cases) (simp_all add: parse_hdim_def int_or_pair_def split x int_text_show_int)
qed

text \<open>
  How the four tests of the backward pass are named: the parameters between the brackets, of which
  the entry needs those in the middle and, for the irregular sizes, whether there is a bias.
\<close>

definition test_params ::
  "string \<Rightarrow> string list \<Rightarrow> string \<Rightarrow> string \<Rightarrow> bool \<Rightarrow> int \<Rightarrow> int \<Rightarrow> int \<Rightarrow> pval \<Rightarrow> string list \<Rightarrow> string list" where
  "test_params name before dtype dropout causal bias seqlen_k seqlen_q hdim after =
     (if name = ''test_irregulars''
      then take 1 before @ [if bias = 1 then ''BiasOn'' else ''BiasOff''] @ drop 1 before else before)
     @ [dtype, dropout]
     @ (if name = ''test_op_bwd_with_matrix_bias'' then [] else [if causal then ''CausalOn'' else ''CausalOff''])
     @ [show_int seqlen_k, show_int seqlen_q, ''hdim'' @ hdim_text hdim] @ after"

definition test_id :: "string \<Rightarrow> string \<Rightarrow> string list \<Rightarrow> string" where
  "test_id path name parts = path @ ''::'' @ name @ ''['' @ join ''-'' parts @ '']''"

text \<open>Which parameters a test has: the bias and the mask are fixed in all but the irregular one.\<close>

definition test_shape :: "string \<Rightarrow> string list \<Rightarrow> bool \<Rightarrow> int \<Rightarrow> string list \<Rightarrow> bool" where
  "test_shape name before causal bias after \<longleftrightarrow>
     length before = 3
     \<and> (name \<in> {''test_regular_bwd'', ''test_fast''} \<and> length after = 2 \<and> bias = 0
        \<or> name = ''test_irregulars'' \<and> length after = 2 \<and> bias \<in> {0, 1}
        \<or> name = ''test_op_bwd_with_matrix_bias'' \<and> length after = 1 \<and> bias = 1 \<and> \<not> causal)"

text \<open>Rounding up, as mathematics has it: the least element of the table that is large enough.\<close>

definition least_from :: "int list \<Rightarrow> int \<Rightarrow> int \<Rightarrow> bool" where
  "least_from table v e \<longleftrightarrow> e \<in> set table \<and> v \<le> e \<and> list_all (\<lambda>x. v \<le> x \<longrightarrow> e \<le> x) table"

fun least_hdim :: "int list \<Rightarrow> pval \<Rightarrow> pval \<Rightarrow> bool" where
  "least_hdim table (VInt a) (VInt a') = least_from table a a'"
| "least_hdim table (VTuple [VInt a, VInt b]) (VTuple [VInt a', VInt b']) = (least_from table a a' \<and> least_from table b b')"
| "least_hdim table _ _ = False"

lemma round_up_from: "sorted table \<Longrightarrow> least_from table v e \<Longrightarrow> round_up v table = Inr e"
  by (simp add: round_up_least least_from_def list_all_iff)

lemma round_hdim_from: "sorted table \<Longrightarrow> least_hdim table h h' \<Longrightarrow> round_hdim table h = Inr h'"
  by (induction table h h' rule: least_hdim.induct) (auto simp: round_up_from)

definition param_text :: "string \<Rightarrow> bool" where
  "param_text s \<longleftrightarrow> list_all (\<lambda>c. c \<noteq> CHR ''-'' \<and> c \<noteq> CHR 0x0A) s"

lemma param_show: "0 \<le> i \<Longrightarrow> param_text (show_int i)"
  using show_nat_minus by (auto simp: param_text_def show_int_def list_all_iff)

lemma param_hdim: "is_hdim v \<Longrightarrow> param_text (''hdim'' @ hdim_text v)"
  using param_show by (cases v rule: is_hdim.cases) (simp_all add: param_text_def)

lemma param_dtype: "dget NODE_DTYPE_MAP d = Some t \<Longrightarrow> param_text d"
proof -
  have "list_all param_text (map fst NODE_DTYPE_MAP)" by code_simp
  then show "dget NODE_DTYPE_MAP d = Some t \<Longrightarrow> param_text d" by (force simp: list_all_iff dest: map_of_SomeD)
qed

text \<open>The name is taken apart into its parameters.\<close>

lemma test_id_parts:
  assumes name: "list_all word_char name" "name \<noteq> []" and path: "list_all (\<lambda>c. c \<noteq> CHR '':'' \<and> \<not> is_space c) path"
    and parts: "list_all param_text parts" "length parts \<ge> 2"
  shows "search_node (strip (test_id path name parts)) = Some (name, join ''-'' parts)"
    and "split_on (CHR ''-'') (join ''-'' parts) = parts"
proof -
  obtain a b rest where ab: "parts = a # b # rest"
    using parts(2) by (metis Suc_le_length_iff numeral_2_eq_2)
  show "split_on (CHR ''-'') (join ''-'' parts) = parts"
    using parts(1) ab by (intro split_on_join) (auto simp: param_text_def list_all_iff)
  have "list_all (\<lambda>c. c \<noteq> CHR 0x0A) (join ''-'' parts)"
    using parts(1) by (intro join_all) (auto simp: param_text_def list_all_iff)
  then have nl: "CHR 0x0A \<notin> set (join ''-'' parts)" by (auto simp: list_all_iff)
  have nonempty: "join ''-'' parts \<noteq> []" unfolding ab by (simp add: join_Cons)
  have "strip (test_id path name parts) = test_id path name parts"
  proof (rule strip_id)
    have "\<not> is_space (CHR '':'') \<and> \<not> is_space (CHR '']'')" by code_simp
    then show "test_id path name parts = [] \<or>
      \<not> is_space (hd (test_id path name parts)) \<and> \<not> is_space (last (test_id path name parts))"
      using path unfolding test_id_def by (cases path) simp_all
  qed
  moreover have "CHR '':'' \<notin> set path" using path by (auto simp: list_all_iff)
  ultimately show "search_node (strip (test_id path name parts)) = Some (name, join ''-'' parts)"
    using search_node_found [OF _ name nonempty nl] unfolding test_id_def by metis
qed

lemma pytest_parsed:
  assumes shape: "test_shape name before causal bias after" and path: "list_all (\<lambda>c. c \<noteq> CHR '':'' \<and> \<not> is_space c) path"
    and free: "list_all param_text (before @ after)"
    and dropout: "param_text dropout" "to_float dropout = Some p"
    and token: "dget NODE_DTYPE_MAP token = Some dtype" and "0 \<le> k" "0 \<le> q" "is_hdim h"
    and round: "round_up k SEQLEN_ENTRIES = Inr k'" "round_up q SEQLEN_ENTRIES = Inr q'" "round_hdim table h = Inr h'"
  shows "parse_pytest_node_id to_float table (test_id path name (test_params name before token dropout causal bias k q h after)) =
    Inr [(''dtype'', VStr dtype), (''hdim'', h'), (''seqlen_q'', VInt q'), (''seqlen_k'', VInt k'),
         (''causal'', VBool causal), (''dropout_p'', VFloat p), (''bias_type'', VInt bias)]"
proof -
  define parts where "parts = test_params name before token dropout causal bias k q h after"
  obtain b0 b1 b2 where before: "before = [b0, b1, b2]"
    using shape by (auto simp: test_shape_def numeral_eq_Suc length_Suc_conv)
  have fixed: "param_text ''BiasOn''" "param_text ''BiasOff''" "param_text ''CausalOn''" "param_text ''CausalOff''" by code_simp+
  have plain: "list_all param_text parts" "length parts \<ge> 2"
    using free dropout(1) param_dtype [OF token] param_show [OF assms(7)] param_show [OF assms(8)] param_hdim [OF assms(9)]
    by (simp_all add: parts_def test_params_def before fixed)
  have "name \<in> {''test_regular_bwd'', ''test_fast'', ''test_irregulars'', ''test_op_bwd_with_matrix_bias''}"
    using shape by (auto simp: test_shape_def)
  then have name: "list_all word_char name" "name \<noteq> []" by (auto; code_simp)+
  note found = test_id_parts [OF name path plain]
  have causal: "causal_of (if causal then ''CausalOn'' else ''CausalOff'') = Inr causal" by (simp add: causal_of_def)
  note hdim = parse_hdim_text [OF assms(9)] and parse = int_text_show_int dropout(2) token round
  consider (plain) "name = ''test_regular_bwd'' \<or> name = ''test_fast''" "length after = 2" "bias = 0"
    | (irregular) "name = ''test_irregulars''" "length after = 2" "bias \<in> {0, 1}"
    | (matrix) "name = ''test_op_bwd_with_matrix_bias''" "length after = 1" "bias = 1" "\<not> causal"
    using shape by (auto simp: test_shape_def)
  then show ?thesis
  proof cases
    case plain
    then have test: "(name = ''test_regular_bwd'' \<or> name = ''test_fast'') = True" by simp
    have ps: "parts = [b0, b1, b2, token, dropout, if causal then ''CausalOn'' else ''CausalOff'', show_int k, show_int q,
        ''hdim'' @ hdim_text h] @ after"
      using plain(1) by (auto simp: parts_def test_params_def before)
    have len: "length parts = 11" using plain(2) by (simp add: ps)
    have at: "parts ! 3 = token" "parts ! 4 = dropout" "parts ! 5 = (if causal then ''CausalOn'' else ''CausalOff'')"
      "parts ! 6 = show_int k" "parts ! 7 = show_int q" "parts ! 8 = ''hdim'' @ hdim_text h"
      unfolding ps by simp_all
    show ?thesis
      unfolding parts_def [symmetric] parse_pytest_node_id_def found(1) option.case prod.case Let_def found(2) test len at causal
      using plain(3) hdim by (simp add: node_entry_def parse)
  next
    case irregular
    have test: "(name = ''test_regular_bwd'' \<or> name = ''test_fast'') = False" "(name = ''test_irregulars'') = True"
      using irregular(1) by simp_all
    have ps: "parts = [b0, if bias = 1 then ''BiasOn'' else ''BiasOff'', b1, b2, token, dropout,
        if causal then ''CausalOn'' else ''CausalOff'', show_int k, show_int q, ''hdim'' @ hdim_text h] @ after"
      using irregular(1) by (simp add: parts_def test_params_def before)
    have len: "length parts = 12" using irregular(2) by (simp add: ps)
    have at: "parts ! 1 = (if bias = 1 then ''BiasOn'' else ''BiasOff'')" "parts ! 4 = token" "parts ! 5 = dropout"
      "parts ! 6 = (if causal then ''CausalOn'' else ''CausalOff'')"
      "parts ! 7 = show_int k" "parts ! 8 = show_int q" "parts ! 9 = ''hdim'' @ hdim_text h"
      unfolding ps by simp_all
    have bias: "EntryLookup.bias_of (if bias = 1 then ''BiasOn'' else ''BiasOff'') = Inr bias"
      using irregular(3) by (auto simp: bias_of_def)
    show ?thesis
      unfolding parts_def [symmetric] parse_pytest_node_id_def found(1) option.case prod.case Let_def found(2) test len at causal bias
      using hdim by (simp add: node_entry_def parse)
  next
    case matrix
    have test: "(name = ''test_regular_bwd'' \<or> name = ''test_fast'') = False" "(name = ''test_irregulars'') = False"
      "(name = ''test_op_bwd_with_matrix_bias'') = True"
      using matrix(1) by simp_all
    have ps: "parts = [b0, b1, b2, token, dropout, show_int k, show_int q, ''hdim'' @ hdim_text h] @ after"
      using matrix(1) by (simp add: parts_def test_params_def before)
    have len: "length parts = 9" using matrix(2) by (simp add: ps)
    have at: "parts ! 3 = token" "parts ! 4 = dropout"
      "parts ! 5 = show_int k" "parts ! 6 = show_int q" "parts ! 7 = ''hdim'' @ hdim_text h"
      unfolding ps by simp_all
    show ?thesis
      unfolding parts_def [symmetric] parse_pytest_node_id_def found(1) option.case prod.case Let_def found(2) test len at
      using matrix(3,4) hdim by (simp add: node_entry_def parse)
  qed
qed

section \<open>The rows that match\<close>

text \<open>
  Values whose clause can be evaluated: the JSON of a row has the type of the field. Then the clause
  says whether it is the value.
\<close>

fun comparable :: "(string \<Rightarrow> string option) \<Rightarrow> pval \<Rightarrow> pyobj \<Rightarrow> bool" where
  "comparable to_float (VStr s) (OStr t) = True"
| "comparable to_float (VInt i) (OInt j) = (- (2 ^ 31) \<le> j \<and> j < 2 ^ 31)"
| "comparable to_float (VBool b) (OBool c) = True"
| "comparable to_float (VFloat f) (OFloat t) = (to_float t \<noteq> None)"
| "comparable to_float (VTuple l) (OList js) = True"
| "comparable to_float _ _ = False"

fun same_value :: "(string \<Rightarrow> string option) \<Rightarrow> pval \<Rightarrow> pyobj \<Rightarrow> bool" where
  "same_value to_float (VFloat f) (OFloat t) = (to_float t = Some f)"
| "same_value to_float v j = (j = val_obj v)"

definition same_entry :: "(string \<Rightarrow> string option) \<Rightarrow> fentry \<Rightarrow> task_row \<Rightarrow> bool" where
  "same_entry to_float entry t \<longleftrightarrow> list_all (\<lambda>(k, v). same_value to_float v (row_entry t k)) entry"

definition comparable_row :: "(string \<Rightarrow> string option) \<Rightarrow> fentry \<Rightarrow> task_row \<Rightarrow> bool" where
  "comparable_row to_float entry t \<longleftrightarrow> list_all (\<lambda>(k, v). comparable to_float v (row_entry t k)) entry"

lemma pg_boolean_dumps: "pg_boolean (dumps (OBool b)) = Inr b"
proof -
  have "\<forall>b. pg_boolean (dumps (OBool b)) = Inr b" by code_simp
  then show ?thesis by blast
qed

lemma clause_value_same:
  "comparable to_float v j \<Longrightarrow> clause_value to_float v j = Inr (same_value to_float v j)"
proof (induction to_float v j rule: comparable.induct)
  case (2 to_float i j)
  then show ?case by (simp add: clause_value_def on_text_def pg_integer_def int_text_show_int)
next
  case (3 to_float b c)
  have "pg_boolean (if c then ''true'' else ''false'') = Inr c" using pg_boolean_dumps [of c] by simp
  then show ?case by (simp add: clause_value_def on_text_def)
next
  case (4 to_float f t)
  then show ?case by (auto simp: clause_value_def on_text_def of_option_def)
qed (simp_all add: clause_value_def on_text_def)

lemma rtraverse_Inr_map: "(\<And>x. x \<in> set xs \<Longrightarrow> f x = Inr (g x)) \<Longrightarrow> rtraverse f xs = Inr (map g xs)"
  by (induction xs) simp_all

lemma entry_matches_same:
  assumes "comparable_row to_float entry t"
  shows "entry_matches to_float entry t = Inr (same_entry to_float entry t)"
proof -
  have "rtraverse (\<lambda>(k, v). clause_value to_float v (row_entry t k)) entry
      = Inr (map (\<lambda>(k, v). same_value to_float v (row_entry t k)) entry)"
    using assms by (intro rtraverse_Inr_map) (auto simp: comparable_row_def list_all_iff clause_value_same)
  then show ?thesis by (simp add: entry_matches_def same_entry_def list.pred_map comp_def case_prod_unfold)
qed

lemma select_tasks_filter:
  assumes "\<And>t. t \<in> set ts \<Longrightarrow> p t = Inr (q t)" shows "select_tasks p ts = Inr (filter q ts)"
proof -
  have "map fst (filter snd (zip ts (map q ts))) = filter q ts" by (induction ts) simp_all
  then show ?thesis by (simp add: select_tasks_def rtraverse_Inr_map [OF assms])
qed


lemma after_first_prefix: "m \<noteq> [] \<Longrightarrow> after_first m (m @ s) = Some s"
proof -
  have "startswith (m @ s) m" by (induction m) simp_all
  then show "m \<noteq> [] \<Longrightarrow> after_first m (m @ s) = Some s" by (cases m) simp_all
qed

lemma split_once_append: "c \<notin> set k \<Longrightarrow> split_once c (k @ c # t) = Some (k, t)"
  by (auto simp: split_once_def takeWhile_append dropWhile_append)

lemma word_no_space: "word w \<Longrightarrow> CHR '' '' \<notin> set w"
  by (auto simp: word_def list_all_iff is_space_def)

lemma parse_tune_line_text:
  assumes "wf_entry entry" "word arch"
  shows "parse_tune_line other (TUNE_V3BIS_MARKER @ ''arch='' @ arch @ '' '' @ as_text entry) = Inr (arch, as_text entry, entry)"
proof -
  define payload where "payload = (''arch='' @ arch) @ CHR '' '' # as_text entry"
  have ends: "as_text entry \<noteq> []" "\<not> is_space (last (as_text entry))"
    using as_text_word [OF assms(1)] by (auto simp: word_def list_all_iff)
  have "hd payload = CHR ''a''" "last payload = last (as_text entry)" using ends by (simp_all add: payload_def)
  moreover have "\<not> is_space (CHR ''a'')" by code_simp
  ultimately have strip: "strip payload = payload" using ends by (intro strip_id) simp
  have "CHR '' '' \<notin> set (''arch='' @ arch)" using word_no_space [OF assms(2)] by simp
  then have parts: "split_once (CHR '' '') payload = Some (''arch='' @ arch, as_text entry)"
    unfolding payload_def by (rule split_once_append)
  have arch: "split_once (CHR ''='') (''arch='' @ arch) = Some (''arch'', arch)"
    using split_once_append [of "CHR ''=''" "''arch''" arch] by simp
  have "after_first TUNE_V3BIS_MARKER (TUNE_V3BIS_MARKER @ payload) = Some payload"
    by (rule after_first_prefix) (simp add: TUNE_V3BIS_MARKER_def)
  moreover have "TUNE_V3BIS_MARKER @ ''arch='' @ arch @ '' '' @ as_text entry = TUNE_V3BIS_MARKER @ payload"
    by (simp add: payload_def)
  ultimately show ?thesis
    by (simp only: parse_tune_line_def Let_def option.case strip parts arch of_option_simps rbind_simps prod.case
        entry_parse_text_text [OF assms(1)] rmap_simps)
qed

lemma tune_matches_same:
  assumes "comparable_row to_float entry t" and "list_all (\<lambda>(k, v). \<nexists>l. v = VTuple l) entry"
  shows "tune_matches to_float arch entry t =
    Inr (obj_get (t_config t) ''arch'' = Inr (OStr arch) \<and> \<not> like ''%_op'' (t_module t) \<and> same_entry to_float entry t)"
proof -
  have "rtraverse (\<lambda>(field, v). case v of
            VTuple l \<Rightarrow> on_text (\<lambda>t. Inr (t = ''('' @ join '','' (map val_str l) @ '')'')) (row_entry t field)
          | _ \<Rightarrow> clause_value to_float v (row_entry t field)) entry
      = Inr (map (\<lambda>(k, v). same_value to_float v (row_entry t k)) entry)"
  proof (rule rtraverse_Inr_map, clarify)
    fix k v assume kv: "(k, v) \<in> set entry"
    have "comparable to_float v (row_entry t k)" "\<nexists>l. v = VTuple l"
      using assms kv by (auto simp: comparable_row_def list_all_iff)
    then show "(case v of VTuple l \<Rightarrow> on_text (\<lambda>t. Inr (t = ''('' @ join '','' (map val_str l) @ '')'')) (row_entry t k)
          | _ \<Rightarrow> clause_value to_float v (row_entry t k)) = Inr (same_value to_float v (row_entry t k))"
      using clause_value_same by (cases v) auto
  qed
  then show ?thesis
    by (simp add: tune_matches_def same_entry_def list.pred_map comp_def case_prod_unfold)
qed


text \<open>An entry with a pair of head dimensions is never found by its line.\<close>

lemma pair_never_matches:
  "on_text (\<lambda>t. Inr (t = ''('' @ join '','' (map val_str l) @ '')'')) (OList js) = Inr False"
  by (simp add: on_text_def)
text \<open>A task with a pair makes the cast of a number fail.\<close>

lemma pair_row_fails: "clause_value to_float (VInt 64) (OList [OInt 192, OInt 128]) = Inl DatabaseError"
proof -
  have "clause_value (\<lambda>_. None) (VInt 64) (OList [OInt 192, OInt 128]) = Inl DatabaseError" by code_simp
  then show ?thesis by (simp add: clause_value_def)
qed

section \<open>Examples\<close>

definition ex_lookup_entry :: "int \<Rightarrow> fentry" where
  "ex_lookup_entry q =
     [(''dtype'', VStr ''float32''), (''hdim'', VInt 16), (''seqlen_q'', VInt q), (''seqlen_k'', VInt 16),
      (''causal'', VBool False), (''dropout_p'', VFloat ''0.0''), (''bias_type'', VInt 0)]"

definition ex_lookup_row :: "int \<Rightarrow> string \<Rightarrow> int \<Rightarrow> task_row" where
  "ex_lookup_row i arch q =
     \<lparr>t_id = i, t_arch = arch, t_module = ''flash'',
      t_config = ODict [(KStr ''arch'', OStr arch),
        (KStr ''entry'', ODict (map (\<lambda>(k, v). (KStr k, val_obj v)) (ex_lookup_entry q)))],
      t_status = ''pending'', t_priority = 0, t_worker = None, t_node = None, t_created = 0, t_started = None,
      t_completed = None, t_error = None, t_retry = 0\<rparr>"

definition ex_lookup_rows :: "task_row list" where
  "ex_lookup_rows = [ex_lookup_row 7 ''gfx942'' 32, ex_lookup_row 8 ''gfx942'' 16, ex_lookup_row 9 ''gfx1100'' 32]"

definition ex_to_float :: "string \<Rightarrow> string option" where
  "ex_to_float s = (if s = ''0.0'' then Some ''0.0'' else None)"

lemma ex_lookup_comparable:
  "list_all (comparable_row ex_to_float (ex_lookup_entry 32)) ex_lookup_rows"
  "list_ex (same_entry ex_to_float (ex_lookup_entry 32)) ex_lookup_rows"
  by code_simp+



end
