(* ===== verification/WebCommands.thy ===== *)
theory WebCommands
  imports ActionTracker WorkersDb EntryLookup
begin

text \<open>
  The command classes of \<open>.tune/webui/tasks.py\<close>: which script runs with which arguments, and the
  action that \<open>run_command\<close> makes of it; the actions on all tuners; and what the interface reads
  from the output of shell commands, which is an argument. \<open>start_worker.sh\<close> is modelled as far as
  it takes its arguments apart.
\<close>

section \<open>Commands\<close>

text \<open>Script, arguments, description.\<close>

type_synonym command = "string \<times> string list \<times> string"

text \<open>\<open>multi_gpu\<close>: the option of this name, if it is given.\<close>

definition build_worker_args :: "string \<Rightarrow> string \<Rightarrow> string list option \<Rightarrow> string list" where
  "build_worker_args workdir hostname multi_gpu =
     (let extargs = (case multi_gpu of None \<Rightarrow> [] | Some gpus \<Rightarrow> ''--multi_gpu'' # gpus) in
      if extargs \<noteq> [] then [workdir, hostname, ''--''] @ extargs else [workdir, hostname])"

datatype single_action = StartWorker | StopWorker | RestartWorker | StopStartWorker | DeployWorker

fun single_relative :: "single_action \<Rightarrow> string" where
  "single_relative StartWorker = ''.tune/single/start_worker.sh''"
| "single_relative StopWorker = ''.tune/single/stop_worker.sh''"
| "single_relative RestartWorker = ''.tune/single/restart_worker.sh''"
| "single_relative StopStartWorker = ''.tune/single/stopstart_worker.sh''"
| "single_relative DeployWorker = ''.tune/single/sync_workdir.sh''"

fun single_name :: "single_action \<Rightarrow> string" where
  "single_name StartWorker = ''Start''"
| "single_name StopWorker = ''Stop''"
| "single_name RestartWorker = ''Restart''"
| "single_name StopStartWorker = ''Stop & start''"
| "single_name DeployWorker = ''Deploy to''"

definition single_command ::
  "single_action \<Rightarrow> string \<Rightarrow> string \<Rightarrow> string list option \<Rightarrow> string list \<Rightarrow> command" where
  "single_command act workdir hostname multi_gpu extra_args =
     (single_relative act, build_worker_args workdir hostname multi_gpu @ extra_args,
      single_name act @ '' worker '' @ hostname)"

text \<open>\<open>capitalize\<close> of a word in lower case.\<close>

definition capitalize :: "string \<Rightarrow> string" where
  "capitalize s = (case s of [] \<Rightarrow> [] | c # cs \<Rightarrow> ascii_upper c # map ascii_lower cs)"

definition bulk_command :: "string \<Rightarrow> string \<Rightarrow> command" where
  "bulk_command act workdir = (''.tune/bin/wkctl'', [workdir, act], capitalize act @ '' all workers'')"

definition server_command :: "string \<Rightarrow> string \<Rightarrow> command" where
  "server_command act workdir = (''.tune/bin/srvctl'', [workdir, act], capitalize act @ '' servers'')"

definition init_database_command :: "string \<Rightarrow> command" where
  "init_database_command workdir = (''.tune/bin/initdb'', [workdir], ''Initialize database schema'')"

definition recreate_schema_command :: "string \<Rightarrow> command" where
  "recreate_schema_command workdir = (''.tune/bin/initdb'', [workdir, ''--recreate''], ''Recreate database schema'')"

text \<open>The commands with a tuning mode only.\<close>

datatype mode_action =
  ComputeBestResults | ExportBestResults | RecreateMaterializedView | UpdateMaterializedView | Sancheck | DecomposeDb

fun mode_relative :: "mode_action \<Rightarrow> string" where
  "mode_relative ComputeBestResults = ''.tune/bin/compute_best_results''"
| "mode_relative ExportBestResults = ''.tune/bin/export_best_results''"
| "mode_relative RecreateMaterializedView = ''.tune/bin/recreate_materialized_view''"
| "mode_relative UpdateMaterializedView = ''.tune/bin/update_materialized_view''"
| "mode_relative Sancheck = ''.tune/bin/sancheck''"
| "mode_relative DecomposeDb = ''.tune/bin/decomposedb''"

fun mode_label :: "mode_action \<Rightarrow> string" where
  "mode_label ComputeBestResults = ''Compute best tuning results''"
| "mode_label ExportBestResults = ''Export best results to centraldb''"
| "mode_label RecreateMaterializedView = ''Recreate materialized view''"
| "mode_label UpdateMaterializedView = ''Update materialized view (incremental)''"
| "mode_label Sancheck = ''LUT sanity check''"
| "mode_label DecomposeDb = ''Decompose database''"

definition mode_command :: "mode_action \<Rightarrow> string \<Rightarrow> string \<Rightarrow> command" where
  "mode_command act workdir tuning_mode =
     (mode_relative act, [workdir, ''--tuning_mode'', tuning_mode], mode_label act)"

definition bake_lut_command :: "string \<Rightarrow> string list \<Rightarrow> string \<Rightarrow> command" where
  "bake_lut_command workdir extra_args tuning_mode =
     (''.tune/bin/bake_lut'', [workdir, ''--tuning_mode'', tuning_mode] @ extra_args,
      ''Bake LUT'' @ (if extra_args \<noteq> [] then '' ('' @ join '' '' extra_args @ '')'' else []))"

definition build_libraries_command :: "string \<Rightarrow> string option \<Rightarrow> command" where
  "build_libraries_command workdir single_arch =
     (case single_arch of
        Some (c # cs) \<Rightarrow>
          (''.tune/bin/remotebld'', [workdir, ''--single_arch'', c # cs],
           ''Build tuning AOTriton libraries ('' @ (c # cs) @ '')'')
      | _ \<Rightarrow> (''.tune/bin/remotebld'', [workdir], ''Build tuning version of AOTriton libraries''))"

definition build_test_libraries_command :: "string \<Rightarrow> string option \<Rightarrow> bool \<Rightarrow> command" where
  "build_test_libraries_command workdir single_arch use_installed_db =
     (let arch = (case single_arch of None \<Rightarrow> [] | Some a \<Rightarrow> a) in
      (''.tune/bin/remotebld'',
       [workdir, ''--test''] @ (if arch \<noteq> [] then [''--single_arch'', arch] else [])
         @ (if use_installed_db then [] else [''--source_db'']),
       if arch \<noteq> [] then ''Build testing AOTriton libraries ('' @ arch @ '')'' else ''Build testing AOTriton libraries''))"

definition build_images_command :: "string \<Rightarrow> command" where
  "build_images_command workdir = (''.tune/bin/imgbld'', [workdir], ''Build Docker images'')"

definition build_image_on_worker_command :: "string \<Rightarrow> string \<Rightarrow> command" where
  "build_image_on_worker_command workdir hostname =
     (''.tune/single/build_image.sh'', [workdir, hostname, ''--follow''], ''Build image on '' @ hostname)"

definition deploy_all_command :: "string \<Rightarrow> string \<Rightarrow> command" where
  "deploy_all_command workdir tuning_mode =
     (''.tune/bin/deploy'', [workdir, ''--tuning_mode'', tuning_mode], ''Deploy to all workers'')"

definition prepare_workdir_command :: "string \<Rightarrow> command" where
  "prepare_workdir_command workdir = (''.tune/bin/prepwkdir'', [workdir], ''Prepare workdir'')"

text \<open>Commands on the build node; None where its host name is not configured.\<close>

definition build_node_command :: "(string \<Rightarrow> command) \<Rightarrow> workers_db \<Rightarrow> command option" where
  "build_node_command cmd db =
     (let hostname = fst (get_build_node_config db) in if hostname = [] then None else Some (cmd hostname))"

definition sync_build_node :: "string \<Rightarrow> workers_db \<Rightarrow> command option" where
  "sync_build_node workdir = build_node_command (\<lambda>hostname.
     (''.tune/single/sync_workdir.sh'', [workdir, hostname, ''--buildnode''], ''Sync workdir to remote build node '' @ hostname))"

definition fetch_tuning_build :: "string \<Rightarrow> workers_db \<Rightarrow> command option" where
  "fetch_tuning_build workdir = build_node_command (\<lambda>hostname.
     (''.tune/bin/fetchbuild'', [workdir, ''--tuning''], ''Fetch tuning build from '' @ hostname))"

definition fetch_test_build :: "string \<Rightarrow> workers_db \<Rightarrow> command option" where
  "fetch_test_build workdir = build_node_command (\<lambda>hostname.
     (''.tune/bin/fetchbuild'', [workdir, ''--test''], ''Fetch test build from '' @ hostname))"

section \<open>Actions on workers\<close>

definition mode_args :: "string \<Rightarrow> string list" where
  "mode_args tuning_mode = [''--tuning_mode'', tuning_mode]"

definition start_worker_single :: "string \<Rightarrow> string \<Rightarrow> string list option \<Rightarrow> string \<Rightarrow> command" where
  "start_worker_single workdir hostname multi_gpu tuning_mode =
     single_command StartWorker workdir hostname multi_gpu (mode_args tuning_mode)"

definition stop_worker_single :: "string \<Rightarrow> string \<Rightarrow> command" where
  "stop_worker_single workdir hostname = single_command StopWorker workdir hostname None []"

definition restart_worker_single :: "string \<Rightarrow> string \<Rightarrow> string list option \<Rightarrow> string \<Rightarrow> command" where
  "restart_worker_single workdir hostname multi_gpu tuning_mode =
     single_command RestartWorker workdir hostname multi_gpu (mode_args tuning_mode)"

definition stop_start_worker_single :: "string \<Rightarrow> string \<Rightarrow> string list option \<Rightarrow> string \<Rightarrow> command" where
  "stop_start_worker_single workdir hostname multi_gpu tuning_mode =
     single_command StopStartWorker workdir hostname multi_gpu (mode_args tuning_mode)"

definition deploy_workdir_single :: "string \<Rightarrow> string \<Rightarrow> string list \<Rightarrow> string \<Rightarrow> command" where
  "deploy_workdir_single workdir hostname extra_args tuning_mode =
     single_command DeployWorker workdir hostname None
       ((if tuning_mode = ''op'' then [''--testnode''] else []) @ extra_args)"

text \<open>What the start of a process meets: an identifier, the time and the outcome of \<open>Popen\<close>.\<close>

type_synonym launch = "string \<times> int \<times> unit res"

definition run_in :: "string \<Rightarrow> bool \<Rightarrow> launch \<Rightarrow> command \<Rightarrow> trackers \<Rightarrow> trackers \<times> (string \<times> pyobj) list res" where
  "run_in root dry_run l cmd ts =
     (case l of (uuid, now, spawn) \<Rightarrow>
      case cmd of (script, args, description) \<Rightarrow>
        run_command uuid (script # args) root (Some description) dry_run now spawn ts)"

definition worker_command :: "string \<Rightarrow> string \<Rightarrow> string \<Rightarrow> string list option \<Rightarrow> string \<Rightarrow> command option" where
  "worker_command act workdir hostname multi_gpu tuning_mode =
     (if act = ''start'' then Some (start_worker_single workdir hostname multi_gpu tuning_mode)
      else if act = ''stop'' then Some (stop_worker_single workdir hostname)
      else if act = ''restart'' then Some (restart_worker_single workdir hostname multi_gpu tuning_mode)
      else if act = ''stop-start'' then Some (stop_start_worker_single workdir hostname multi_gpu tuning_mode)
      else None)"

definition status_of :: "(string \<times> pyobj) list \<Rightarrow> string" where
  "status_of r = (case dget r ''status'' of Some (OStr s) \<Rightarrow> s | _ \<Rightarrow> ''unknown'')"

text \<open>The loop of \<open>_bulk_worker_action\<close>; an exception ends it.\<close>

fun bulk_loop ::
  "string \<Rightarrow> bool \<Rightarrow> (string \<Rightarrow> command option) \<Rightarrow> string list \<Rightarrow> launch list \<Rightarrow> trackers \<Rightarrow> trackers \<times> string list res" where
  "bulk_loop root dry_run cmd [] ls ts = (ts, Inr [])"
| "bulk_loop root dry_run cmd (h # hs) ls ts =
     (case cmd h of
        None \<Rightarrow>
          let (ts, r) = bulk_loop root dry_run cmd hs ls ts in (ts, rmap ((#) (h @ '': error'')) r)
      | Some c \<Rightarrow>
          let l = (case ls of [] \<Rightarrow> ([], 0, Inl OSError) | l # _ \<Rightarrow> l);
              (ts, r) = run_in root dry_run l c ts
          in case r of
               Inl e \<Rightarrow> (ts, Inl e)
             | Inr d \<Rightarrow>
                 let (ts, r) = bulk_loop root dry_run cmd hs (tl ls) ts in (ts, rmap ((#) (h @ '': '' @ status_of d)) r))"

definition bulk_worker_action ::
  "string \<Rightarrow> string \<Rightarrow> string \<Rightarrow> string list option \<Rightarrow> string \<Rightarrow> bool \<Rightarrow> workers_db \<Rightarrow> launch list \<Rightarrow> trackers
     \<Rightarrow> trackers \<times> string res" where
  "bulk_worker_action root workdir act multi_gpu tuning_mode dry_run db ls ts =
     (let hostnames = get_tuner_hostnames db in
      if hostnames = [] then (ts, Inr ''No Tuner-role workers configured'')
      else
        let (ts, r) = bulk_loop root dry_run (\<lambda>h. worker_command act workdir h multi_gpu tuning_mode) hostnames ls ts
        in (ts, rmap (join [CHR 0x0A]) r))"

section \<open>The arguments of \<open>start_worker.sh\<close>\<close>

text \<open>After the first two arguments: what follows \<open>--\<close>, and nothing without it.\<close>

definition script_extra_args :: "string list \<Rightarrow> string list" where
  "script_extra_args args = (case drop 2 args of a # rest \<Rightarrow> if a = ''--'' then rest else [] | [] \<Rightarrow> [])"

text \<open>The loop over the arguments; a value always follows the option.\<close>

fun take_tuning_mode :: "string \<Rightarrow> string list \<Rightarrow> string \<times> string list" where
  "take_tuning_mode mode (a # b # args) =
     (if a = ''--tuning_mode'' then take_tuning_mode b args
      else (case take_tuning_mode mode (b # args) of (m, rest) \<Rightarrow> (m, a # rest)))"
| "take_tuning_mode mode [a] = (if a = ''--tuning_mode'' then ([], []) else (mode, [a]))"
| "take_tuning_mode mode [] = (mode, [])"

definition script_tuning_mode :: "string list \<Rightarrow> string" where
  "script_tuning_mode args = fst (take_tuning_mode ''kernel'' ([''--hostname'', args ! 1] @ script_extra_args args))"

section \<open>Output of shell commands\<close>

text \<open>\<open>get_config_vars\<close>: the names in \<open>config.rc\<close> (None without the file), and \<open>out\<close>, the lines a shell prints for them.\<close>

definition config_key :: "string \<Rightarrow> string option" where
  "config_key line =
     (let l = strip line; key = takeWhile word_char l in
      if key \<noteq> [] \<and> startswith (dropWhile word_char l) ''='' then Some key else None)"

definition get_config_vars :: "string option \<Rightarrow> (string list \<Rightarrow> string option) \<Rightarrow> (string, string) dict" where
  "get_config_vars config_rc run =
     (case config_rc of
        None \<Rightarrow> []
      | Some rc \<Rightarrow>
          let keys = List.map_filter config_key (split_on (CHR 0x0A) rc) in
          if keys = [] then []
          else (case run keys of
                  None \<Rightarrow> []
                | Some out \<Rightarrow> sort_key fst (dict_of (zip keys (split_on (CHR 0x0A) (strip out))))))"

definition get_git_status :: "string \<Rightarrow> (string \<times> string \<times> bool \<times> bool) res" where
  "get_git_status out =
     (case split_on (CHR 0x0A) (strip out) of
        a # b # c # d # _ \<Rightarrow> Inr (a, b, c = ''1'', d = ''0'')
      | _ \<Rightarrow> Inl IndexError)"

text \<open>The file with the identifier, the output of \<open>docker ps\<close> for it and the name it prints.\<close>

definition get_server_status :: "string option \<Rightarrow> (string \<Rightarrow> string) \<Rightarrow> (string \<Rightarrow> string) \<Rightarrow> string \<times> bool \<times> string option" where
  "get_server_status pidf ps name_of =
     (let container_id = (case pidf of None \<Rightarrow> [] | Some s \<Rightarrow> strip s) in
      if container_id = [] then (''stopped'', False, None)
      else
        let running = strip (ps container_id) \<noteq> [] in
        (if running then ''running'' else ''stopped'', running, if running then Some (strip (name_of container_id)) else None))"

section \<open>Lemmas\<close>

text \<open>Without a selection of GPUs the script does not see the tuning mode.\<close>

lemma tuning_mode_lost:
  "hostname \<noteq> ''--tuning_mode'' \<Longrightarrow> script_tuning_mode (fst (snd (start_worker_single workdir hostname None mode))) = ''kernel''"
  by (simp add: script_tuning_mode_def start_worker_single_def single_command_def build_worker_args_def
      mode_args_def script_extra_args_def)

lemma take_tuning_mode_end:
  "list_all (\<lambda>a. a \<noteq> ''--tuning_mode'') args \<Longrightarrow> take_tuning_mode m (args @ [''--tuning_mode'', mode]) = (mode, args)"
proof (induction args)
  case (Cons a args)
  then show ?case by (cases "args @ [''--tuning_mode'', mode]") auto
qed simp

lemma tuning_mode_kept:
  assumes "list_all (\<lambda>a. a \<noteq> ''--tuning_mode'') (hostname # gpus)"
  shows "script_tuning_mode (fst (snd (start_worker_single workdir hostname (Some gpus) mode))) = mode"
proof -
  have args: "list_all (\<lambda>a. a \<noteq> ''--tuning_mode'') ([''--hostname'', hostname, ''--multi_gpu''] @ gpus)"
    using assms by auto
  have "fst (snd (start_worker_single workdir hostname (Some gpus) mode))
      = [workdir, hostname, ''--'', ''--multi_gpu''] @ gpus @ [''--tuning_mode'', mode]"
    by (simp add: start_worker_single_def single_command_def build_worker_args_def mode_args_def)
  then show ?thesis
    using take_tuning_mode_end [OF args, of "''kernel''" mode] by (simp add: script_tuning_mode_def script_extra_args_def)
qed

text \<open>A variable whose value is empty shifts the others: A is empty and B is x.\<close>

lemma empty_value_shifts:
  "get_config_vars (Some (''A='' @ [CHR 0x0A] @ ''B=x'' @ [CHR 0x0A])) (\<lambda>_. Some ([CHR 0x0A] @ ''x'' @ [CHR 0x0A])) = [(''A'', ''x'')]"
  by code_simp

lemma dset_twice: "dset (dset d k v) k w = dset d k w"
  by (induction d) auto

text \<open>The tracker of a command that has been started.\<close>

definition started_tracker :: "string \<Rightarrow> command \<Rightarrow> launch \<Rightarrow> string \<times> tracker" where
  "started_tracker root c l =
     (case c of (script, args, description) \<Rightarrow> case l of (uuid, now, _) \<Rightarrow>
        (uuid, fst (tracker_start now (Inr ()) (new_tracker uuid (Inr (script # args)) description root now))))"

lemma run_in_started:
  assumes "snd (snd c) \<noteq> []" and "snd (snd l) = Inr ()" and "fst l \<notin> set (dkeys ts)"
  shows "fst (run_in root False l c ts) = ts @ [started_tracker root c l]
    \<and> (\<exists>d. snd (run_in root False l c ts) = Inr d \<and> status_of d = ''running'')"
proof -
  obtain script args description where c: "c = (script, args, description)" by (cases c) auto
  obtain uuid now where l: "l = (uuid, now, Inr ())" using assms(2) by (cases l) auto
  have fresh: "\<not> dhas ts uuid" using assms(3) by (simp add: l dhas_iff)
  obtain t where t: "tracker_start now (Inr ()) (new_tracker uuid (Inr (script # args)) description root now) = (t, Inr ())"
    by (simp add: tracker_start_def new_tracker_def)
  show ?thesis
    using assms(1)
    by (simp add: run_in_def run_command_def registry_create_def Let_def c l t dset_twice dset_fresh [OF fresh]
        started_tracker_def status_of_def)
qed

text \<open>
  An action on all workers starts one command per worker, in order, if every process can be
  started; the first that cannot ends it.
\<close>

lemma bulk_starts_all:
  assumes "length ls = length hs" and "list_all (\<lambda>l. snd (snd l) = Inr ()) ls"
    and "distinct (map fst ls @ dkeys ts)" and "\<And>h. snd (snd (c h)) \<noteq> []"
  shows "bulk_loop root False (\<lambda>h. Some (c h)) hs ls ts
    = (ts @ map (\<lambda>(h, l). started_tracker root (c h) l) (zip hs ls), Inr (map (\<lambda>h. h @ '': running'') hs))"
  using assms(1-3)
proof (induction hs arbitrary: ls ts)
  case (Cons h hs)
  obtain l ls' where ls: "ls = l # ls'" using Cons.prems(1) by (cases ls) auto
  obtain d where run: "fst (run_in root False l (c h) ts) = ts @ [started_tracker root (c h) l]"
    "snd (run_in root False l (c h) ts) = Inr d" "status_of d = ''running''"
    using run_in_started [of "c h" l ts root] assms(4) Cons.prems(2,3) by (auto simp: ls)
  have key: "fst (started_tracker root (c h) l) = fst l" by (simp add: started_tracker_def case_prod_unfold)
  have "distinct (map fst ls' @ dkeys (ts @ [started_tracker root (c h) l]))"
    using Cons.prems(3) by (auto simp: ls dkeys_def key)
  from Cons.IH [OF _ _ this] Cons.prems(1,2)
  have "bulk_loop root False (\<lambda>h. Some (c h)) hs ls' (ts @ [started_tracker root (c h) l])
      = ((ts @ [started_tracker root (c h) l]) @ map (\<lambda>(h, l). started_tracker root (c h) l) (zip hs ls'),
         Inr (map (\<lambda>h. h @ '': running'') hs))"
    by (simp add: ls)
  then show ?case using run by (cases "run_in root False l (c h) ts") (simp add: ls Let_def)
qed simp

lemma bulk_stops:
  assumes "snd (snd l) = Inl e" shows "snd (bulk_loop root False (\<lambda>h. Some (c h)) (h # hs) (l # ls) ts) = Inl e"
  using assms
  by (cases l; cases "c h") (simp add: run_in_def run_command_def registry_create_def tracker_start_def new_tracker_def Let_def)

lemma dry_run_unchanged: "fst (bulk_loop root True cmd hs ls ts) = ts"
proof (induction hs arbitrary: ls)
  case (Cons h hs)
  have dry: "run_in root True l c ts = (ts, snd (run_in root True l c ts))" for l c
    by (simp add: run_in_def run_command_def Let_def case_prod_unfold)
  show ?case
  proof (cases "cmd h")
    case (Some c)
    let ?l = "case ls of [] \<Rightarrow> ([], 0, Inl OSError) | l # _ \<Rightarrow> l"
    show ?thesis
      using Cons.IH [of "tl ls"] dry [of ?l c]
      by (cases "run_in root True ?l c ts") (simp add: Some Let_def case_prod_unfold split: sum.split)
  qed (use Cons.IH [of ls] in \<open>simp add: Let_def case_prod_unfold\<close>)
qed simp

end
