(* ===== verification/QueueAdmin.thy ===== *)
theory QueueAdmin
  imports TaskQueue BestResults "HOL-Library.List_Lexorder" "HOL-Library.Multiset"
begin

text \<open>
  Around the task queue: \<open>v3python/tune/pq/admin.py\<close>, \<open>heartbeat.py\<close> and \<open>localq/heartbeat_main.py\<close>, and
  \<open>populate_most_accurate.py\<close>, which computes the smallest error of each tensor over all candidates.
  A statement that names a column the table of \<open>schema.sql\<close> does not have is an error of the
  database.
\<close>

section \<open>Heartbeats\<close>

record heartbeat =
  hb_node :: string
  hb_worker :: string
  hb_arch :: string
  hb_last :: int
  hb_status :: string
  hb_completed :: int
  hb_failed :: int

definition HEARTBEAT_COLUMNS :: "string list" where
  "HEARTBEAT_COLUMNS =
     [''node_hostname'', ''worker_name'', ''arch'', ''last_heartbeat'', ''status'', ''tasks_completed'', ''tasks_failed'']"

definition with_columns :: "string list \<Rightarrow> (heartbeat list, 'a) act \<Rightarrow> (heartbeat list, 'a) act" where
  "with_columns cols m hs = (if set cols \<subseteq> set HEARTBEAT_COLUMNS then m hs else (hs, Inl DatabaseError))"

text \<open>The statements of \<open>HeartbeatManager\<close>; \<open>f\<close> is the change of the row of the worker.\<close>

definition update_worker :: "string \<Rightarrow> (heartbeat \<Rightarrow> heartbeat) \<Rightarrow> (heartbeat list, unit) act" where
  "update_worker worker_id f hs = (map (\<lambda>h. if hb_worker h = worker_id then f h else h) hs, Inr ())"

definition hb_update :: "int \<Rightarrow> string \<Rightarrow> string \<Rightarrow> string \<Rightarrow> string \<Rightarrow> (heartbeat list, unit) act" where
  "hb_update now worker_id node arch status =
     with_columns [''worker_id'', ''node_hostname'', ''arch'', ''last_heartbeat'', ''status''] (\<lambda>hs.
       (if list_ex (\<lambda>h. hb_worker h = worker_id) hs
        then map (\<lambda>h. if hb_worker h = worker_id then h\<lparr>hb_last := now, hb_status := status\<rparr> else h) hs
        else hs @ [\<lparr>hb_node = node, hb_worker = worker_id, hb_arch = arch, hb_last = now, hb_status = status,
                    hb_completed = 0, hb_failed = 0\<rparr>], Inr ()))"

definition increment_completed :: "int \<Rightarrow> string \<Rightarrow> (heartbeat list, unit) act" where
  "increment_completed now worker_id =
     with_columns [''tasks_completed'', ''last_heartbeat'', ''worker_id'']
       (update_worker worker_id (\<lambda>h. h\<lparr>hb_completed := hb_completed h + 1, hb_last := now\<rparr>))"

definition increment_failed :: "int \<Rightarrow> string \<Rightarrow> (heartbeat list, unit) act" where
  "increment_failed now worker_id =
     with_columns [''tasks_failed'', ''last_heartbeat'', ''worker_id'']
       (update_worker worker_id (\<lambda>h. h\<lparr>hb_failed := hb_failed h + 1, hb_last := now\<rparr>))"

definition mark_dead :: "int \<Rightarrow> string \<Rightarrow> (heartbeat list, unit) act" where
  "mark_dead now worker_id =
     with_columns [''status'', ''last_heartbeat'', ''worker_id'']
       (update_worker worker_id (\<lambda>h. h\<lparr>hb_status := ''dead'', hb_last := now\<rparr>))"

definition dead_now :: "int \<Rightarrow> int \<Rightarrow> heartbeat \<Rightarrow> bool" where
  "dead_now now threshold h \<longleftrightarrow> hb_status h \<noteq> ''dead'' \<and> now - hb_last h > threshold"

definition cleanup_dead_workers :: "int \<Rightarrow> int \<Rightarrow> (heartbeat list, nat) act" where
  "cleanup_dead_workers now threshold =
     with_columns [''status'', ''last_heartbeat'', ''worker_id''] (\<lambda>hs.
       (map (\<lambda>h. if dead_now now threshold h then h\<lparr>hb_status := ''dead''\<rparr> else h) hs,
        Inr (length (filter (dead_now now threshold) hs))))"

text \<open>\<open>heartbeat_main.py\<close>: a row per log file that has changed since it was seen last.\<close>

definition update_heartbeat :: "int \<Rightarrow> string \<Rightarrow> string \<Rightarrow> string \<Rightarrow> (heartbeat list, unit) act" where
  "update_heartbeat now hostname worker_name arch =
     with_columns [''node_hostname'', ''worker_name'', ''arch'', ''last_heartbeat''] (\<lambda>hs.
       (let mine = (\<lambda>h. hb_node h = hostname \<and> hb_worker h = worker_name) in
        if list_ex mine hs
        then map (\<lambda>h. if mine h then h\<lparr>hb_last := now, hb_arch := arch\<rparr> else h) hs
        else hs @ [\<lparr>hb_node = hostname, hb_worker = worker_name, hb_arch = arch, hb_last = now, hb_status = ''active'',
                    hb_completed = 0, hb_failed = 0\<rparr>], Inr ()))"

text \<open>\<open>Path.stem\<close> of a name that ends with the suffix of the pattern.\<close>

definition log_stem :: "string \<Rightarrow> string" where
  "log_stem name = (if endswith name ''.log'' \<and> length name > 4 then take (length name - 4) name else name)"

text \<open>
  One log file: its time of change, or None if \<open>stat\<close> fails, and whether the statement is executed.
  An exception is logged and leaves the file for the next round.
\<close>

type_synonym log_file = "string \<times> int option \<times> bool"

definition scan_file ::
  "int \<Rightarrow> string \<Rightarrow> string \<Rightarrow> log_file \<Rightarrow> (string, int) dict \<times> heartbeat list \<Rightarrow> (string, int) dict \<times> heartbeat list" where
  "scan_file now hostname arch f st =
     (let (name, mtime, db_ok) = f; (file_mtimes, hs) = st in
      case mtime of
        None \<Rightarrow> st
      | Some m \<Rightarrow>
          if m > (case dget file_mtimes name of None \<Rightarrow> 0 | Some k \<Rightarrow> k) \<and> db_ok then
            (case update_heartbeat now hostname (log_stem name) arch hs of
               (hs, Inr _) \<Rightarrow> (dset file_mtimes name m, hs)
             | (hs, Inl _) \<Rightarrow> (file_mtimes, hs))
          else st)"

definition scan_round ::
  "int \<Rightarrow> string \<Rightarrow> string \<Rightarrow> log_file list \<Rightarrow> (string, int) dict \<times> heartbeat list \<Rightarrow> (string, int) dict \<times> heartbeat list" where
  "scan_round now hostname arch fs = fold (scan_file now hostname arch) fs"

text \<open>\<open>monitor_logs\<close> over its rounds, each with its time; the files seen start empty.\<close>

definition monitor_logs :: "bool \<Rightarrow> string \<Rightarrow> string \<Rightarrow> (int \<times> log_file list) list \<Rightarrow> heartbeat list \<Rightarrow> heartbeat list" where
  "monitor_logs log_dir_exists hostname arch rounds hs =
     (if log_dir_exists then snd (fold (\<lambda>(now, fs). scan_round now hostname arch fs) rounds ([], hs)) else hs)"

section \<open>Administration\<close>

definition create_partitions :: "string list \<Rightarrow> tuner_db \<Rightarrow> tuner_db" where
  "create_partitions archs = fold ensure_partition archs"

text \<open>The tables of the schema besides the partitions.\<close>

definition list_partitions :: "string list \<Rightarrow> tuner_db \<Rightarrow> string list" where
  "list_partitions tables db =
     sort (filter (like ''task_queue_%'') (tables @ map (\<lambda>a. ''task_queue_'' @ a) (partitions db)))"

definition admin_reset_stale_tasks :: "int \<Rightarrow> int \<Rightarrow> (tuner_db, nat) act" where
  "admin_reset_stale_tasks now timeout_seconds db =
     (db\<lparr>task_rows := map (\<lambda>t. if t_status t = ''running'' \<and> (\<exists>s. t_started t = Some s \<and> now - s > timeout_seconds)
           then t\<lparr>t_status := ''pending'', t_worker := None, t_node := None, t_started := None, t_retry := t_retry t + 1\<rparr>
           else t) (task_rows db)\<rparr>,
      Inr (length (filter (\<lambda>t. t_status t = ''running'' \<and> (\<exists>s. t_started t = Some s \<and> now - s > timeout_seconds)) (task_rows db))))"

text \<open>
  \<open>dict(row)\<close> of a row with the columns of the query: a row is a tuple of numbers unless the
  connection was made with \<open>dict_row\<close>, and a number is no pair.
\<close>

definition dict_of_row :: "bool \<Rightarrow> (string \<times> nat) list \<Rightarrow> (string, nat) dict res" where
  "dict_of_row dict_rows cols = (if dict_rows \<or> cols = [] then Inr cols else Inl TypeError)"

definition get_statistics ::
  "string list \<Rightarrow> tuner_db \<Rightarrow> heartbeat list \<Rightarrow> ((string, nat) dict \<times> (string, nat) dict \<times> nat) res" where
  "get_statistics tables db hs =
     rbind (dict_of_row False (queue_stats (task_rows db) @ [(''total'', length (task_rows db))])) (\<lambda>task_stats.
     rmap (\<lambda>worker_stats. (task_stats, worker_stats, length (list_partitions tables db)))
       (dict_of_row False
          (map (\<lambda>s. (s, length (filter (\<lambda>h. hb_status h = s) hs))) [''active'', ''idle'', ''dead''] @ [(''total'', length hs)])))"

section \<open>The most accurate results\<close>

record 'f measurement =
  m_task :: int
  m_name :: string
  m_data :: "'f res_data option"

text \<open>A row of the table: its key, the smallest fudge factor and the smallest absolute error.\<close>

type_synonym acc_key = "int \<times> string \<times> pyobj \<times> string \<times> string \<times> string"
type_synonym 'f acc_row = "acc_key \<times> 'f option \<times> 'f option"

text \<open>\<open>value->>i\<close> as a number.\<close>

definition tensor_num :: "'f errors \<Rightarrow> nat \<Rightarrow> 'f option" where
  "tensor_num vals i = (case vals of None \<Rightarrow> None | Some v \<Rightarrow> if i < length v then v ! i else None)"

text \<open>
  The condition of the operators on a tensor. The value of a null in JSON is a value, so the first
  half of the condition never holds.
\<close>

definition tensor_kept :: "string \<Rightarrow> 'f::{linorder,zero} errors \<Rightarrow> bool" where
  "tensor_kept tuning_mode vals \<longleftrightarrow>
     (tuning_mode = ''op'' \<longrightarrow> (case tensor_num vals 1 of None \<Rightarrow> False | Some e \<Rightarrow> 0 \<le> e))"

text \<open>The joined rows before grouping; a measurement without adiffs joins with nothing.\<close>

definition joined ::
  "string \<Rightarrow> task_row list \<Rightarrow> 'f::{linorder,zero} measurement \<Rightarrow> 'f acc_row list" where
  "joined tuning_mode tasks r =
     (case m_data r of
        None \<Rightarrow> []
      | Some d \<Rightarrow>
          concat (map (\<lambda>t. concat (map (\<lambda>(tc, tensors).
              map (\<lambda>(tn, vals). ((m_task r, t_arch t, t_config t, m_name r, tc, tn), tensor_num vals 0, tensor_num vals 1))
                (filter (\<lambda>(tn, vals). tensor_kept tuning_mode vals) tensors))
              (case adiffs d of None \<Rightarrow> [] | Some tcs \<Rightarrow> tcs)))
            (filter (\<lambda>t. t_id t = m_task r \<and> wanted_module tuning_mode (t_module t)) tasks)))"

definition opt_min :: "'f::linorder option list \<Rightarrow> 'f option" where
  "opt_min xs = (case List.map_filter id xs of [] \<Rightarrow> None | y # ys \<Rightarrow> Some (fold min ys y))"

definition group_rows :: "'f::linorder acc_row list \<Rightarrow> 'f acc_row list" where
  "group_rows js =
     map (\<lambda>k. (k, opt_min (map (fst \<circ> snd) (filter (\<lambda>j. fst j = k) js)), opt_min (map (snd \<circ> snd) (filter (\<lambda>j. fst j = k) js))))
       (remdups (map fst js))"

definition select_sql ::
  "string \<Rightarrow> task_row list \<Rightarrow> 'f::{linorder,zero} measurement list \<Rightarrow> 'f acc_row list" where
  "select_sql tuning_mode tasks rs = group_rows (concat (map (joined tuning_mode tasks) rs))"

text \<open>The unique index: task, name, test case and tensor.\<close>

definition index_key :: "'f acc_row \<Rightarrow> int \<times> string \<times> string \<times> string" where
  "index_key r = (case r of ((task, _, _, name, tc, tn), _) \<Rightarrow> (task, name, tc, tn))"

text \<open>
  The table is None before it is made; beside its rows, whether its unique index exists. The full
  mode commits each statement, the incremental one the deletion and the insertion; the result is
  the number of rows made.
\<close>

type_synonym 'f acc_table = "('f acc_row list \<times> bool) option"

definition populate ::
  "string \<Rightarrow> task_row list \<Rightarrow> 'f::{linorder,zero} measurement list \<Rightarrow> int list option \<Rightarrow> 'f acc_table
     \<Rightarrow> 'f acc_table \<times> nat res" where
  "populate tuning_mode tasks rs task_ids table =
     (case task_ids of
        None \<Rightarrow>
          let rows = select_sql tuning_mode tasks rs in
          if distinct (map index_key rows) then (Some (rows, True), Inr (length rows))
          else (Some (rows, False), Inl DatabaseError)
      | Some ids \<Rightarrow>
          (case table of
             None \<Rightarrow> (None, Inl DatabaseError)
           | Some (old, indexed) \<Rightarrow>
               let old = filter (\<lambda>r. fst (fst r) \<notin> set ids) old;
                   rows = select_sql tuning_mode tasks (filter (\<lambda>r. m_task r \<in> set ids) rs)
               in if indexed \<longrightarrow> distinct (map index_key (old @ rows))
                  then (Some (old @ rows, indexed), Inr (length rows))
                  else (Some (old, indexed), Inl DatabaseError)))"

section \<open>What the heartbeats reach\<close>

text \<open>The columns of the schema have no \<open>worker_id\<close>: no statement of \<open>HeartbeatManager\<close> is executed.\<close>

lemma heartbeats_fail:
  "hb_update now w node arch status hs = (hs, Inl DatabaseError)"
  "increment_completed now w hs = (hs, Inl DatabaseError)"
  "increment_failed now w hs = (hs, Inl DatabaseError)"
  "mark_dead now w hs = (hs, Inl DatabaseError)"
  "cleanup_dead_workers now threshold hs = (hs, Inl DatabaseError)"
  by (simp_all add: hb_update_def increment_completed_def increment_failed_def mark_dead_def
      cleanup_dead_workers_def with_columns_def HEARTBEAT_COLUMNS_def)

text \<open>A log file that has changed is recorded, with a row of its worker that says now.\<close>

lemma scan_file_alive:
  assumes "m > (case dget file_mtimes name of None \<Rightarrow> 0 | Some k \<Rightarrow> k)"
    and "scan_file now hostname arch (name, Some m, True) (file_mtimes, hs) = (fm, hs')"
  shows "dget fm name = Some m"
    and "\<exists>h \<in> set hs'. hb_node h = hostname \<and> hb_worker h = log_stem name \<and> hb_arch h = arch \<and> hb_last h = now"
proof -
  have out: "fm = dset file_mtimes name m" "update_heartbeat now hostname (log_stem name) arch hs = (hs', Inr ())"
    using assms by (auto simp: scan_file_def update_heartbeat_def with_columns_def HEARTBEAT_COLUMNS_def Let_def)
  show "dget fm name = Some m" by (simp add: out(1) dget_dset)
  show "\<exists>h \<in> set hs'. hb_node h = hostname \<and> hb_worker h = log_stem name \<and> hb_arch h = arch \<and> hb_last h = now"
    using out(2) unfolding update_heartbeat_def with_columns_def
    by (auto simp: HEARTBEAT_COLUMNS_def Let_def list_ex_iff split: if_splits intro!: bexI[rotated])
qed

text \<open>A file that did not change leaves the rows as they are.\<close>

lemma scan_file_unchanged:
  assumes "dget file_mtimes name = Some m" "m' \<le> m"
  shows "scan_file now hostname arch (name, Some m', ok) (file_mtimes, hs) = (file_mtimes, hs)"
  using assms by (simp add: scan_file_def)

text \<open>The two routines that reset stale tasks agree; the statistics are never returned.\<close>

lemma admin_reset_same: "admin_reset_stale_tasks now timeout db = reset_stale_tasks now timeout db"
proof -
  have "is_stale now timeout = (\<lambda>t. t_status t = ''running'' \<and> (\<exists>s. t_started t = Some s \<and> now - s > timeout))"
    by (auto simp: is_stale_def fun_eq_iff split: option.splits)
  then show ?thesis by (simp add: admin_reset_stale_tasks_def reset_stale_tasks_def sql_update_def)
qed

lemma statistics_fail: "get_statistics tables db hs = Inl TypeError"
  by (simp add: get_statistics_def dict_of_row_def queue_stats_def)

lemma null_tensor_dropped: "tensor_kept ''op'' None = False"
  by (simp add: tensor_kept_def tensor_num_def)

section \<open>The incremental mode\<close>

lemma filter_group_rows: "filter (P \<circ> fst) (group_rows js) = group_rows (filter (P \<circ> fst) js)"
proof -
  have keys: "map fst (filter (P \<circ> fst) js) = filter P (map fst js)" by (simp add: filter_map)
  have same: "filter (\<lambda>j. fst j = k) (filter (P \<circ> fst) js) = filter (\<lambda>j. fst j = k) js" if "P k" for k
    using that by (auto intro: filter_cong)
  have "filter (P \<circ> fst) (map (\<lambda>k. (k, f k)) ks) = map (\<lambda>k. (k, f k)) (filter P ks)" for f :: "acc_key \<Rightarrow> 'a option \<times> 'a option" and ks
    by (simp add: filter_map comp_def)
  then show ?thesis
    unfolding group_rows_def keys by (simp only: remdups_filter[symmetric]) (rule map_cong; simp only: set_remdups set_filter mem_Collect_eq same)
qed

lemma joined_task: "j \<in> set (joined mode tasks r) \<Longrightarrow> fst (fst j) = m_task r"
  by (auto simp: joined_def split: option.splits)

lemma joined_tasks_cong:
  assumes "filter (\<lambda>t. t_id t = m_task r) tasks = filter (\<lambda>t. t_id t = m_task r) tasks'"
  shows "joined mode tasks r = joined mode tasks' r"
proof -
  have "filter (\<lambda>t. t_id t = m_task r \<and> wanted_module mode (t_module t)) ts
      = filter (\<lambda>t. wanted_module mode (t_module t)) (filter (\<lambda>t. t_id t = m_task r) ts)" for ts
    by (auto intro: filter_cong)
  then have "filter (\<lambda>t. t_id t = m_task r \<and> wanted_module mode (t_module t)) tasks
      = filter (\<lambda>t. t_id t = m_task r \<and> wanted_module mode (t_module t)) tasks'"
    using assms by metis
  then show ?thesis by (simp only: joined_def)
qed

text \<open>A condition on the task goes through the grouping.\<close>

lemma filter_select:
  "filter (\<lambda>x. P (fst (fst x))) (select_sql mode tasks rs) = select_sql mode tasks (filter (\<lambda>r. P (m_task r)) rs)"
proof -
  have one: "filter (\<lambda>x. P (fst (fst x))) (joined mode tasks r) = (if P (m_task r) then joined mode tasks r else [])" for r
    using joined_task[of _ mode tasks r] by (auto simp: filter_id_conv filter_empty_conv)
  have "filter (\<lambda>x. P (fst (fst x))) (concat (map (joined mode tasks) rs))
      = concat (map (joined mode tasks) (filter (\<lambda>r. P (m_task r)) rs))"
    by (induction rs) (simp_all add: one)
  then show ?thesis
    using filter_group_rows[of "\<lambda>k. P (fst k)" "concat (map (joined mode tasks) rs)"]
    by (simp add: select_sql_def comp_def)
qed

lemma select_tasks_cong:
  assumes "filter (\<lambda>t. t_id t \<notin> ids) tasks = filter (\<lambda>t. t_id t \<notin> ids) tasks'" "\<forall>r\<in>set rs. m_task r \<notin> ids"
  shows "select_sql mode tasks rs = select_sql mode tasks' rs"
proof -
  have "joined mode tasks r = joined mode tasks' r" if "r \<in> set rs" for r
  proof (rule joined_tasks_cong)
    have "filter (\<lambda>t. t_id t = m_task r) ts = filter (\<lambda>t. t_id t = m_task r) (filter (\<lambda>t. t_id t \<notin> ids) ts)" for ts
      using assms(2) that by (auto intro: filter_cong)
    then show "filter (\<lambda>t. t_id t = m_task r) tasks = filter (\<lambda>t. t_id t = m_task r) tasks'"
      using assms(1) by metis
  qed
  then have "map (joined mode tasks) rs = map (joined mode tasks') rs" by (rule map_cong[OF refl])
  then show ?thesis by (simp only: select_sql_def)
qed

text \<open>
  C12: the incremental mode of \<open>populate\<close> is equivalent to the full one. A table made before in full,
  from tasks and results that differ from those of now at most in the given task ids, is after the
  incremental mode, up to the order of the rows, the table the full mode makes now, and neither mode
  fails where the other succeeds.
\<close>

theorem populate_incremental:
  assumes "filter (\<lambda>t. t_id t \<notin> set ids) tasks0 = filter (\<lambda>t. t_id t \<notin> set ids) tasks"
    and "filter (\<lambda>r. m_task r \<notin> set ids) rs0 = filter (\<lambda>r. m_task r \<notin> set ids) rs"
    and "populate mode tasks0 rs0 None t0 = (Some (old, True), Inr k)"
    and "populate mode tasks rs None t1 = (Some (full, True), Inr n)"
  shows "\<exists>rows m. populate mode tasks rs (Some ids) (Some (old, True)) = (Some (rows, True), Inr m) \<and> mset rows = mset full"
proof -
  let ?out = "\<lambda>r. fst (fst r) \<notin> set ids"
  have old: "old = select_sql mode tasks0 rs0" and full: "full = select_sql mode tasks rs" "distinct (map index_key full)"
    using assms(3,4) by (auto simp: populate_def Let_def split: if_splits)
  have "filter ?out old = select_sql mode tasks0 (filter (\<lambda>r. m_task r \<notin> set ids) rs)"
    by (simp only: old filter_select[of "\<lambda>i. i \<notin> set ids"] assms(2))
  also have "\<dots> = select_sql mode tasks (filter (\<lambda>r. m_task r \<notin> set ids) rs)"
    by (rule select_tasks_cong[OF assms(1)]) simp
  finally have kept: "filter ?out old = filter ?out full"
    by (simp only: full(1) filter_select[of "\<lambda>i. i \<notin> set ids"])
  have made: "select_sql mode tasks (filter (\<lambda>r. m_task r \<in> set ids) rs) = filter (\<lambda>r. \<not> ?out r) full"
    by (simp only: full(1) not_not filter_select[of "\<lambda>i. i \<in> set ids"])
  let ?rows = "filter ?out full @ filter (\<lambda>r. \<not> ?out r) full"
  have same: "mset ?rows = mset full" by (simp add: mset_filter)
  then have "mset (map index_key ?rows) = mset (map index_key full)" by (simp only: mset_map)
  then have "distinct (map index_key ?rows)" using full(2) mset_eq_imp_distinct_iff by blast
  then have "populate mode tasks rs (Some ids) (Some (old, True))
      = (Some (?rows, True), Inr (length (filter (\<lambda>r. \<not> ?out r) full)))"
    unfolding populate_def by (simp add: kept made Let_def del: map_append)
  then show ?thesis using same by blast
qed

definition ex_task :: "int \<Rightarrow> task_row" where
  "ex_task i = \<lparr>t_id = i, t_arch = ''gfx942'', t_module = ''flash'', t_config = ODict [], t_status = ''completed'',
     t_priority = 0, t_worker = None, t_node = None, t_created = 0, t_started = None, t_completed = None,
     t_error = None, t_retry = 0\<rparr>"

definition ex_measured :: "int \<Rightarrow> int \<Rightarrow> int measurement" where
  "ex_measured i e = \<lparr>m_task = i, m_name = ''attn_fwd'',
     m_data = Some \<lparr>times = None, impl_desc = None, adiffs = Some [(''out'', [(''L'', Some [Some 1, Some e])])]\<rparr>\<rparr>"

definition ex_accurate :: "int \<Rightarrow> int \<Rightarrow> int acc_row" where
  "ex_accurate i e = ((i, ''gfx942'', ODict [], ''attn_fwd'', ''out'', ''L''), Some 1, Some e)"

lemma ex_like: "\<not> like ''%_op'' ''flash''"
  by (simp add: upt_rec)

lemma ex_populated:
  "populate ''kernel'' [ex_task 1] [ex_measured 1 3] None None = (Some ([ex_accurate 1 3], True), Inr 1)"
  "populate ''kernel'' [ex_task 1, ex_task 2] [ex_measured 1 3, ex_measured 2 5, ex_measured 2 4] None None
     = (Some ([ex_accurate 1 3, ex_accurate 2 4], True), Inr 2)"
  using ex_like
  by (simp_all add: populate_def select_sql_def group_rows_def joined_def ex_task_def ex_measured_def ex_accurate_def
      wanted_module_def tensor_kept_def tensor_num_def opt_min_def index_key_def map_filter_def Let_def)

text \<open>A table of one task, and a second task measured since.\<close>

lemma populate_incremental_witness:
  "\<exists>rows m. populate ''kernel'' [ex_task 1, ex_task 2] [ex_measured 1 3, ex_measured 2 5, ex_measured 2 4] (Some [2])
       (Some ([ex_accurate 1 3], True)) = (Some (rows, True), Inr m)
     \<and> mset rows = mset [ex_accurate 1 3, ex_accurate 2 4]"
proof (rule populate_incremental[OF _ _ ex_populated])
  show "filter (\<lambda>t. t_id t \<notin> set [2]) [ex_task 1] = filter (\<lambda>t. t_id t \<notin> set [2]) [ex_task 1, ex_task 2]"
    by (simp add: ex_task_def)
  show "filter (\<lambda>r. m_task r \<notin> set [2]) [ex_measured 1 3]
      = filter (\<lambda>r. m_task r \<notin> set [2]) [ex_measured 1 3, ex_measured 2 5, ex_measured 2 4]"
    by (simp add: ex_measured_def)
qed

end
