(* ===== verification/AttnBlocks.thy ===== *)
theory AttnBlocks
  imports Prelude "HOL-Library.Signed_Division"
begin

text \<open>
  Which blocks of keys the attention kernels visit: \<open>tritonsrc/masked_load_store.py\<close>, and the passes of
  \<open>fwd_kernel.py\<close>, \<open>bwd_kernel_dq.py\<close> and \<open>bwd_kernel_dk_dv.py\<close> over them. The kernels are
  written in Triton: scalars are 32 bit integers that wrap, and \<open>//\<close> truncates towards zero.
  A row is a query, a column a key; blocks without a mask are \<open>full\<close>.
\<close>

section \<open>Arithmetic of 32 bits\<close>

definition i32 :: "int \<Rightarrow> int" where
  "i32 x = signed_take_bit 31 x"

lemma i32_id: "- 2147483648 \<le> x \<Longrightarrow> x < 2147483648 \<Longrightarrow> i32 x = x"
  by (simp add: i32_def signed_take_bit_int_eq_self_iff)

section \<open>Closed intervals\<close>

definition closed_interval_isect :: "int \<times> int \<Rightarrow> int \<times> int \<Rightarrow> int \<times> int" where
  "closed_interval_isect a b =
     (let (a_s, a_e) = a; (b_s, b_e) = b in
      if (b_s > a_e \<or> a_s > b_e) \<or> a_s > a_e then (-114, -514) else (max a_s b_s, min a_e b_e))"

definition is_closed_interval_empty :: "int \<times> int \<Rightarrow> bool" where
  "is_closed_interval_empty a \<longleftrightarrow> fst a > snd a"

definition closed_interval_size :: "int \<times> int \<Rightarrow> int" where
  "closed_interval_size a = max 0 (i32 (i32 (snd a - fst a) + 1))"

definition div_rd :: "int \<Rightarrow> int \<Rightarrow> int" where
  "div_rd x y = (let d = x sdiv y in if i32 (d * y) > x then i32 (d - 1) else d)"

section \<open>Windows and intervals\<close>

definition parse_window :: "int \<Rightarrow> int \<Rightarrow> int \<Rightarrow> int \<Rightarrow> int \<Rightarrow> int \<times> int" where
  "parse_window causal_type left_arg right_arg seqlen_q seqlen_k =
     (if causal_type = 1 \<or> left_arg = -2147483647 then seqlen_q
      else if causal_type = 2 \<or> left_arg = -2147483646 then seqlen_q
      else left_arg,
      if causal_type = 1 \<or> right_arg = -2147483647 then 0
      else if causal_type = 2 \<or> right_arg = -2147483646 then i32 (seqlen_k - seqlen_q)
      else right_arg)"

text \<open>A key sequence that ends inside the last full block: that block goes to the masked ones.\<close>

definition trailing_block ::
  "int \<Rightarrow> int \<Rightarrow> (int \<times> int) \<times> (int \<times> int) \<Rightarrow> (int \<times> int) \<times> (int \<times> int)" where
  "trailing_block seqlen_k block_n fr =
     (let (fb, rb) = fr in
      if i32 (fst fb * block_n) < seqlen_k \<and> seqlen_k < i32 (i32 (snd fb * block_n) + block_n)
      then ((fst fb, i32 (seqlen_k sdiv block_n - 1)), (seqlen_k sdiv block_n, seqlen_k sdiv block_n))
      else (fb, rb))"

text \<open>The left masked, the full and the right masked blocks.\<close>

definition calculate_intervals ::
  "bool \<Rightarrow> int \<Rightarrow> int \<Rightarrow> int \<Rightarrow> int \<Rightarrow> int \<Rightarrow> bool \<Rightarrow> int \<Rightarrow> int
     \<Rightarrow> (int \<times> int) \<times> (int \<times> int) \<times> (int \<times> int)" where
  "calculate_intervals is_causal window_left window_right start_m seqlen_q seqlen_k mask_on_seq_q block_m block_n =
     (if is_causal then
        let edge = min (i32 (start_m + block_m)) seqlen_q;
            lsec_lob = div_rd (i32 (start_m - window_left)) block_n;
            lsec_hib = div_rd (i32 (i32 (edge - window_left) - 1)) block_n;
            rsec_lob = div_rd (i32 (start_m + window_right)) block_n;
            rsec_hib = div_rd (i32 (i32 (edge + window_right) - 1)) block_n;
            vb = (0, i32 (seqlen_k - 1) sdiv block_n);
            lb = closed_interval_isect (lsec_lob, lsec_hib) vb;
            rb = closed_interval_isect (rsec_lob, rsec_hib) vb;
            ub = closed_interval_isect (lsec_lob, lsec_hib) (rsec_lob, rsec_hib)
        in if is_closed_interval_empty ub \<and> \<not> mask_on_seq_q
           then (lb, trailing_block seqlen_k block_n (closed_interval_isect (i32 (lsec_hib + 1), i32 (rsec_lob - 1)) vb, rb))
           else (closed_interval_isect (lsec_lob, rsec_hib) vb, trailing_block seqlen_k block_n ((-3, -4), (-3, -4)))
      else
        let n_blocks = i32 (i32 (seqlen_k + block_n) - 1) sdiv block_n
        in if mask_on_seq_q then ((0, i32 (n_blocks - 1)), trailing_block seqlen_k block_n ((-1, -2), (-1, -2)))
           else ((-1, -2), trailing_block seqlen_k block_n
                   ((0, seqlen_k sdiv block_n), (i32 (seqlen_k sdiv block_n + 1), i32 (n_blocks - 1)))))"

section \<open>The passes of the kernels\<close>

record pass =
  p_masked :: bool
  p_causal :: bool
  p_left :: int
  p_right :: int
  p_blocks :: "int list"

text \<open>The loop over one or two ranges of blocks.\<close>

definition block_range :: "int \<Rightarrow> int \<Rightarrow> int \<Rightarrow> int option \<Rightarrow> int list" where
  "block_range nblocks_1 nblocks_2 range_1 range_2 =
     map (\<lambda>i. case range_2 of
                 None \<Rightarrow> i32 (i + range_1)
               | Some r \<Rightarrow> if i < nblocks_1 then i32 (i + range_1) else i32 (i32 (i - nblocks_1) + r))
       [0..i32 (nblocks_1 + nblocks_2) - 1]"

definition attn_fwd_passes :: "int \<Rightarrow> int \<Rightarrow> int \<Rightarrow> int \<Rightarrow> int \<Rightarrow> int \<Rightarrow> int \<Rightarrow> int \<Rightarrow> pass list" where
  "attn_fwd_passes causal_type left_arg right_arg start_m seqlen_q seqlen_k block_m block_n =
     (let is_causal = (causal_type \<noteq> 0);
          (window_left, window_right) = parse_window causal_type left_arg right_arg seqlen_q seqlen_k;
          mask_on_seq_q = (i32 (start_m + block_m) > seqlen_q);
          (lb, fb, rb) = calculate_intervals is_causal window_left window_right start_m seqlen_q seqlen_k
                           mask_on_seq_q block_m block_n
      in (if is_closed_interval_empty fb then []
          else [\<lparr>p_masked = False, p_causal = False, p_left = 0, p_right = 0,
                 p_blocks = block_range (closed_interval_size fb) 0 (fst fb) None\<rparr>])
         @ (if is_closed_interval_empty lb \<and> is_closed_interval_empty rb then []
            else [\<lparr>p_masked = True, p_causal = is_causal, p_left = window_left, p_right = window_right,
                   p_blocks = block_range (closed_interval_size lb) (closed_interval_size rb) (fst lb) (Some (fst rb))\<rparr>]))"

text \<open>The kernel of the gradient of the queries passes the windows to both calls.\<close>

definition bwd_dq_passes :: "int \<Rightarrow> int \<Rightarrow> int \<Rightarrow> int \<Rightarrow> int \<Rightarrow> int \<Rightarrow> int \<Rightarrow> int \<Rightarrow> pass list" where
  "bwd_dq_passes causal_type left_arg right_arg start_q seqlen_q seqlen_k block_m block_n =
     (let is_causal = (causal_type \<noteq> 0);
          (window_left, window_right) = parse_window causal_type left_arg right_arg seqlen_q seqlen_k;
          mask_on_seq_q = (i32 (start_q + block_m) > seqlen_q);
          (lb, fb, rb) = calculate_intervals is_causal window_left window_right start_q seqlen_q seqlen_k
                           mask_on_seq_q block_m block_n
      in (if is_closed_interval_empty fb then []
          else [\<lparr>p_masked = False, p_causal = False, p_left = window_left, p_right = window_right,
                 p_blocks = block_range (closed_interval_size fb) 0 (fst fb) None\<rparr>])
         @ (if is_closed_interval_empty lb \<and> is_closed_interval_empty rb then []
            else [\<lparr>p_masked = True, p_causal = is_causal, p_left = window_left, p_right = window_right,
                   p_blocks = block_range (closed_interval_size lb) (closed_interval_size rb) (fst lb) (Some (fst rb))\<rparr>]))"

text \<open>The kernel of the gradients of keys and values goes over blocks of queries: the roles are swapped.\<close>

definition bwd_dkdv_passes :: "int \<Rightarrow> int \<Rightarrow> int \<Rightarrow> int \<Rightarrow> int \<Rightarrow> int \<Rightarrow> int \<Rightarrow> int \<Rightarrow> pass list" where
  "bwd_dkdv_passes causal_type left_arg right_arg start_k seqlen_q seqlen_k block_m block_n =
     (let is_causal = (causal_type \<noteq> 0);
          mask_on_seq_k = (i32 (start_k + block_n) > seqlen_k);
          (window_left, window_right) = parse_window causal_type left_arg right_arg seqlen_q seqlen_k;
          (lb, fb, rb) = calculate_intervals is_causal window_right window_left start_k seqlen_k seqlen_q
                           mask_on_seq_k block_n block_m
      in (if is_closed_interval_empty fb then []
          else [\<lparr>p_masked = False, p_causal = False, p_left = window_left, p_right = window_right,
                 p_blocks = block_range (closed_interval_size fb) 0 (fst fb) None\<rparr>])
         @ (if is_closed_interval_empty lb \<and> is_closed_interval_empty rb then []
            else [\<lparr>p_masked = True, p_causal = is_causal, p_left = window_left, p_right = window_right,
                   p_blocks = block_range (closed_interval_size lb) (closed_interval_size rb) (fst lb) (Some (fst rb))\<rparr>]))"

text \<open>
  The mask of a pair in a pass: \<open>start_n\<close> is the first key of the block of keys. In a pass without
  mask and without windows no pair is excluded.
\<close>

definition pair_mask :: "pass \<Rightarrow> int \<Rightarrow> int \<Rightarrow> int \<Rightarrow> int \<Rightarrow> int \<Rightarrow> int \<Rightarrow> bool" where
  "pair_mask p start_n block_n seqlen_q seqlen_k m n \<longleftrightarrow>
     (if p_masked p \<or> p_causal p then
        (p_masked p \<longrightarrow> m < seqlen_q)
        \<and> (i32 (start_n + block_n) > seqlen_k \<longrightarrow> n < seqlen_k)
        \<and> (p_causal p \<longrightarrow> i32 (m + p_right p) \<ge> n \<and> i32 (m - p_left p) \<le> n)
      else True)"

text \<open>The keys that a row meets in a pass, and the rows that a key meets.\<close>

definition pass_keys :: "int \<Rightarrow> int \<Rightarrow> int \<Rightarrow> int \<Rightarrow> pass \<Rightarrow> int list" where
  "pass_keys block_n seqlen_q seqlen_k m p =
     concat (map (\<lambda>b. let start_n = i32 (b * block_n) in
        filter (pair_mask p start_n block_n seqlen_q seqlen_k m) (map (\<lambda>j. i32 (start_n + j)) [0..block_n - 1])) (p_blocks p))"

definition pass_rows :: "int \<Rightarrow> int \<Rightarrow> int \<Rightarrow> int \<Rightarrow> int \<Rightarrow> int \<Rightarrow> pass \<Rightarrow> int list" where
  "pass_rows start_k block_m block_n seqlen_q seqlen_k n p =
     concat (map (\<lambda>b. let start_q = i32 (b * block_m) in
        filter (\<lambda>m. pair_mask p start_k block_n seqlen_q seqlen_k m n) (map (\<lambda>j. i32 (j + start_q)) [0..block_m - 1])) (p_blocks p))"

section \<open>Intervals as sets\<close>

definition span :: "int \<times> int \<Rightarrow> int set" where
  "span a = {fst a..snd a}"

lemma span_simps [simp]: "span (a, b) = {a..b}"
  by (simp add: span_def)

lemma span_empty: "is_closed_interval_empty a \<longleftrightarrow> span a = {}"
  by (auto simp: is_closed_interval_empty_def span_def)

lemma span_isect: "span (closed_interval_isect a b) = span a \<inter> span b"
  by (cases a; cases b) (auto simp: closed_interval_isect_def Let_def)

lemma isect_cases:
  "closed_interval_isect a b = (-114, -514) \<and> span a \<inter> span b = {}
   \<or> closed_interval_isect a b = (max (fst a) (fst b), min (snd a) (snd b))"
  by (cases a; cases b) (auto simp: closed_interval_isect_def Let_def)

lemma sdiv_nonneg: "0 \<le> x \<Longrightarrow> 0 < y \<Longrightarrow> x sdiv y = (x :: int) div y"
  by (cases "x = 0") (simp_all add: signed_divide_int_def)

lemma div_bounds: "0 < y \<Longrightarrow> x div y * y \<le> (x :: int)" "0 < y \<Longrightarrow> (x :: int) < x div y * y + y"
  using div_mult_mod_eq[of x y] pos_mod_bound[of y x] pos_mod_sign[of y x] by linarith+

lemma abs_div_le: "0 < y \<Longrightarrow> \<bar>x div y\<bar> \<le> \<bar>x :: int\<bar>"
proof (cases "0 \<le> x")
  case True
  assume "0 < y"
  then show ?thesis using True zdiv_mono2[of x 1 y] pos_imp_zdiv_nonneg_iff[of y x] by simp
next
  case False
  assume y: "0 < y"
  have "x = x div y * y + x mod y" by simp
  moreover have "x mod y \<ge> 0" "x mod y < y" using y by simp_all
  moreover have "x div y < 0" using False y by (simp add: div_neg_pos_less0)
  moreover have "x div y * y \<le> x div y + (y - 1) * (x div y)" by (simp add: algebra_simps)
  ultimately show ?thesis using False y zdiv_mono2_neg[of x 1 y] by simp
qed

lemma div_rd_div:
  assumes "0 < y" "\<bar>x\<bar> < 1073741824"
  shows "div_rd x y = x div y"
proof (cases "0 \<le> x")
  case True
  then have d: "x sdiv y = x div y" using assms(1) by (rule sdiv_nonneg)
  have "x div y * y \<le> x" using assms(1) by (rule div_bounds)
  moreover have "0 \<le> x div y * y" using True assms(1) by (simp add: pos_imp_zdiv_nonneg_iff)
  ultimately have "i32 (x div y * y) = x div y * y" using assms(2) by (intro i32_id) auto
  then show ?thesis using \<open>x div y * y \<le> x\<close> by (simp add: div_rd_def d Let_def)
next
  case False
  define k where "k = - x"
  have k: "0 < k" "x = - k" "k < 1073741824" using False assms(2) by (auto simp: k_def)
  have d: "x sdiv y = - (k div y)" using k assms(1) by (simp add: signed_divide_int_def)
  have kd: "0 \<le> k div y" "k div y * y \<le> k" "k < k div y * y + y"
    using k(1) assms(1) div_bounds[of y k] by (simp_all add: pos_imp_zdiv_nonneg_iff)
  have "0 \<le> k div y * y" using kd(1) assms(1) by simp
  moreover have "k div y \<le> k" using abs_div_le[OF assms(1), of k] k(1) kd(1) by simp
  ultimately have w: "i32 (- (k div y) * y) = - (k div y * y)" "i32 (- (k div y) - 1) = - (k div y) - 1"
    using kd k(3) unfolding mult_minus_left by (intro i32_id; linarith)+
  have "x div y = (if k div y * y < k then - (k div y) - 1 else - (k div y))"
  proof (rule int_div_pos_eq)
    show "x = y * (if k div y * y < k then - (k div y) - 1 else - (k div y)) + (if k div y * y < k then y - (k - k div y * y) else 0)"
      using kd k(2) by (auto simp: algebra_simps)
    show "0 \<le> (if k div y * y < k then y - (k - k div y * y) else 0)" using kd by auto
    show "(if k div y * y < k then y - (k - k div y * y) else 0) < y" using assms(1) by auto
  qed
  then show ?thesis using kd(2) k(2) unfolding div_rd_def d Let_def w by (auto simp: not_less)
qed

section \<open>The intervals without wrap-around\<close>

text \<open>Sizes, windows and blocks that stay away from the limits of 32 bits.\<close>

definition fits :: "int \<Rightarrow> int \<Rightarrow> int \<Rightarrow> int \<Rightarrow> int \<Rightarrow> int \<Rightarrow> int \<Rightarrow> bool" where
  "fits window_left window_right start_m seqlen_q seqlen_k block_m block_n \<longleftrightarrow>
     0 < block_m \<and> block_m \<le> 65536 \<and> 0 < block_n \<and> block_n \<le> 65536
     \<and> 0 \<le> start_m \<and> start_m < seqlen_q \<and> seqlen_q \<le> 268435456 \<and> 0 < seqlen_k \<and> seqlen_k \<le> 268435456
     \<and> \<bar>window_left\<bar> \<le> 268435456 \<and> \<bar>window_right\<bar> \<le> 268435456"

lemma trailing_plain:
  assumes "\<bar>fst fb * bn\<bar> < 1073741824" "\<bar>snd fb * bn\<bar> < 1073741824" "0 < bn" "bn \<le> 65536" "0 < sk" "sk \<le> 268435456"
  shows "trailing_block sk bn (fb, rb)
    = (if fst fb * bn < sk \<and> sk < snd fb * bn + bn then ((fst fb, sk div bn - 1), (sk div bn, sk div bn)) else (fb, rb))"
proof -
  have "0 \<le> sk div bn" "sk div bn \<le> sk" using assms abs_div_le[of bn sk] by (auto simp: pos_imp_zdiv_nonneg_iff)
  then have "i32 (fst fb * bn) = fst fb * bn" "i32 (snd fb * bn) = snd fb * bn" "i32 (snd fb * bn + bn) = snd fb * bn + bn"
    "i32 (sk div bn - 1) = sk div bn - 1" "sk sdiv bn = sk div bn"
    using assms by (auto intro!: i32_id sdiv_nonneg)
  then show ?thesis by (simp add: trailing_block_def)
qed

lemma block_iff: "0 < bn \<Longrightarrow> b * bn \<le> n \<and> n < b * bn + bn \<longleftrightarrow> n div bn = (b :: int)"
proof
  assume bn: "0 < bn" and n: "b * bn \<le> n \<and> n < b * bn + bn"
  then show "n div bn = b" by (intro int_div_pos_eq[where r = "n - b * bn"]) (auto simp: mult.commute)
qed (use div_bounds[of bn n] in auto)

lemma less_block: "0 < bn \<Longrightarrow> n < b * bn \<longleftrightarrow> n div bn < (b :: int)"
proof
  assume bn: "0 < bn" and n: "n < b * bn"
  show "n div bn < b"
  proof (rule ccontr)
    assume "\<not> n div bn < b"
    then have "b * bn \<le> n div bn * bn" using bn by (simp add: mult_right_mono)
    then show False using n div_bounds(1)[OF bn, of n] by simp
  qed
next
  assume bn: "0 < bn" and n: "n div bn < b"
  then have "(n div bn + 1) * bn \<le> b * bn" by (intro mult_right_mono) simp_all
  then show "n < b * bn" using div_bounds(2)[OF bn, of n] by (simp add: algebra_simps)
qed

text \<open>What the trailing block changes, for full blocks among those of the keys.\<close>

lemma trailing_cases:
  assumes fb: "fb \<in> {(-114, -514), (-3, -4), (-1, -2)} \<or> 0 \<le> fst fb \<and> fst fb \<le> snd fb \<and> snd fb \<le> sk div bn \<and> fst fb * bn < sk"
    and bn: "0 < bn" "bn \<le> 65536" and sk: "0 < sk" "sk \<le> 268435456"
  obtains (kept) "trailing_block sk bn (fb, rb) = (fb, rb)" "\<forall>b\<in>span fb. b < sk div bn"
  | (cut) "trailing_block sk bn (fb, rb) = ((fst fb, sk div bn - 1), (sk div bn, sk div bn))" "snd fb = sk div bn" "0 \<le> fst fb"
proof (cases "0 \<le> fst fb \<and> fst fb \<le> snd fb \<and> snd fb \<le> sk div bn \<and> fst fb * bn < sk")
  case True
  have "fst fb * bn \<le> snd fb * bn" "snd fb * bn \<le> sk div bn * bn" using True bn(1) by (simp_all add: mult_right_mono)
  moreover have "0 \<le> fst fb * bn" using True bn(1) by simp
  moreover note div_bounds(1)[OF bn(1), of sk]
  ultimately have "\<bar>fst fb * bn\<bar> < 1073741824" "\<bar>snd fb * bn\<bar> < 1073741824" "fst fb * bn \<le> sk" using sk by auto
  note plain = trailing_plain[OF this(1,2) bn sk, of rb]
  have full: "sk < snd fb * bn + bn \<longleftrightarrow> sk div bn < snd fb + 1"
    using less_block[OF bn(1), of sk "snd fb + 1"] by (simp add: algebra_simps)
  show thesis
  proof (cases "fst fb * bn < sk \<and> sk < snd fb * bn + bn")
    case c: True
    then show thesis using plain True full by (intro cut) auto
  next
    case False
    then have "snd fb < sk div bn" using True full by auto
    then show thesis using plain False by (intro kept) (auto simp: span_def)
  qed
next
  case False
  then have fb: "fb \<in> {(-114, -514), (-3, -4), (-1, -2)}" using fb by blast
  then have "\<bar>fst fb * bn\<bar> < 1073741824" "\<bar>snd fb * bn\<bar> < 1073741824" "snd fb * bn + bn < sk"
    using bn sk by auto
  then show thesis using trailing_plain[of fb bn sk rb] bn sk fb by (intro kept) auto
qed

lemma causal_plain:
  assumes f: "fits wl wr start_m sq sk bm bn"
  defines "edge \<equiv> min (start_m + bm) sq"
  defines "l \<equiv> ((start_m - wl) div bn, (edge - wl - 1) div bn)" and "r \<equiv> ((start_m + wr) div bn, (edge + wr - 1) div bn)"
  defines "vb \<equiv> (0, (sk - 1) div bn)"
  shows "calculate_intervals True wl wr start_m sq sk masked bm bn =
    (if span l \<inter> span r = {} \<and> \<not> masked
     then (closed_interval_isect l vb, trailing_block sk bn (closed_interval_isect (snd l + 1, fst r - 1) vb, closed_interval_isect r vb))
     else (closed_interval_isect (fst l, snd r) vb, trailing_block sk bn ((-3, -4), (-3, -4))))"
proof -
  note fit = f[unfolded fits_def]
  have bn: "0 < bn" using fit by simp
  have e: "i32 (start_m + bm) = start_m + bm" "i32 (start_m - wl) = start_m - wl" "i32 (start_m + wr) = start_m + wr"
    using fit by (auto intro!: i32_id)
  have e': "i32 (edge - wl) = edge - wl" "i32 (edge + wr) = edge + wr" "i32 (edge - wl - 1) = edge - wl - 1"
    "i32 (edge + wr - 1) = edge + wr - 1" "i32 (sk - 1) = sk - 1"
    using fit by (auto simp: edge_def intro!: i32_id)
  have d: "div_rd (start_m - wl) bn = fst l" "div_rd (edge - wl - 1) bn = snd l"
    "div_rd (start_m + wr) bn = fst r" "div_rd (edge + wr - 1) bn = snd r"
    using fit by (auto simp: l_def r_def edge_def intro!: div_rd_div)
  have v: "(0, (sk - 1) sdiv bn) = vb" using fit by (simp add: vb_def sdiv_nonneg)
  have "\<bar>snd l\<bar> \<le> \<bar>edge - wl - 1\<bar>" "\<bar>fst r\<bar> \<le> \<bar>start_m + wr\<bar>" unfolding l_def r_def by (simp_all add: abs_div_le bn)
  then have s: "i32 (snd l + 1) = snd l + 1" "i32 (fst r - 1) = fst r - 1" using fit by (auto simp: edge_def intro!: i32_id)
  show ?thesis
    unfolding calculate_intervals_def Let_def e edge_def[symmetric] e' d v s span_empty span_isect by simp
qed

text \<open>
  What the intervals mean: no block twice, full blocks with no pair to mask, and every pair of the
  windows in one of the blocks.
\<close>

lemma div_less: "0 < bn \<Longrightarrow> a div bn < b div bn \<Longrightarrow> a < (b :: int)"
  using zdiv_mono1[of b a bn] by force

definition covers ::
  "bool \<Rightarrow> int \<Rightarrow> int \<Rightarrow> int \<Rightarrow> int \<Rightarrow> int \<Rightarrow> int \<Rightarrow> int \<Rightarrow> (int \<times> int) \<times> (int \<times> int) \<times> (int \<times> int) \<Rightarrow> bool" where
  "covers causal wl wr start_m sq sk bm bn c \<longleftrightarrow>
     (case c of (lb, fb, rb) \<Rightarrow>
        span lb \<inter> span rb = {} \<and> span fb \<inter> (span lb \<union> span rb) = {}
        \<and> span lb \<union> span fb \<union> span rb \<subseteq> {0..sk div bn}
        \<and> (span fb \<noteq> {} \<longrightarrow> start_m + bm \<le> sq)
        \<and> (\<forall>n. n div bn \<in> span fb \<longrightarrow> n < sk \<and> (causal \<longrightarrow> n \<le> start_m + wr \<and> min (start_m + bm) sq - 1 - wl \<le> n))
        \<and> (\<forall>n. 0 \<le> n \<and> n < sk \<and> (causal \<longrightarrow> start_m - wl \<le> n \<and> n \<le> min (start_m + bm) sq - 1 + wr)
             \<longrightarrow> n div bn \<in> span lb \<union> span fb \<union> span rb))"

lemma coversI:
  assumes "span lb \<inter> span rb = {}" "span fb \<inter> (span lb \<union> span rb) = {}" "span lb \<union> span fb \<union> span rb \<subseteq> {0..sk div bn}"
    and "span fb \<noteq> {} \<Longrightarrow> start_m + bm \<le> sq"
    and "\<And>n. n div bn \<in> span fb \<Longrightarrow> n < sk \<and> (causal \<longrightarrow> n \<le> start_m + wr \<and> min (start_m + bm) sq - 1 - wl \<le> n)"
    and "\<And>n. 0 \<le> n \<Longrightarrow> n < sk \<Longrightarrow> causal \<longrightarrow> start_m - wl \<le> n \<and> n \<le> min (start_m + bm) sq - 1 + wr
             \<Longrightarrow> n div bn \<in> span lb \<union> span fb \<union> span rb"
  shows "covers causal wl wr start_m sq sk bm bn (lb, fb, rb)"
  using assms unfolding covers_def prod.case by blast

lemma covers_causal:
  assumes f: "fits wl wr start_m sq sk bm bn" and q: "q \<longleftrightarrow> start_m + bm > sq"
  shows "covers True wl wr start_m sq sk bm bn (calculate_intervals True wl wr start_m sq sk q bm bn)"
proof -
  note fit = f[unfolded fits_def]
  have bn: "0 < bn" "bn \<le> 65536" and sk: "0 < sk" "sk \<le> 268435456" using fit by auto
  define edge where "edge = min (start_m + bm) sq"
  define l1 where "l1 = (start_m - wl) div bn"
  define l2 where "l2 = (edge - wl - 1) div bn"
  define r1 where "r1 = (start_m + wr) div bn"
  define r2 where "r2 = (edge + wr - 1) div bn"
  define v where "v = (sk - 1) div bn"
  note plain = causal_plain[OF f, of q, folded edge_def, folded l1_def l2_def r1_def r2_def v_def, simplified span_simps fst_conv snd_conv]
  have "start_m \<le> edge - 1" using fit by (simp add: edge_def)
  then have lr: "l1 \<le> l2" "r1 \<le> r2" using bn by (auto simp: l1_def l2_def r1_def r2_def intro!: zdiv_mono1)
  have v: "0 \<le> v" "v \<le> sk div bn" "v * bn < sk"
    using sk bn div_bounds(1)[OF bn(1), of "sk - 1"] by (auto simp: v_def pos_imp_zdiv_nonneg_iff intro!: zdiv_mono1)
  have blk: "0 \<le> n div bn \<and> n div bn \<le> v \<and> l1 \<le> n div bn \<and> n div bn \<le> r2"
    if "0 \<le> n" "n < sk" "start_m - wl \<le> n" "n \<le> edge - 1 + wr" for n
    using that bn by (auto simp: v_def l1_def r2_def pos_imp_zdiv_nonneg_iff intro!: zdiv_mono1)
  have full: "n < sk \<and> n \<le> start_m + wr \<and> edge - 1 - wl \<le> n" if "n div bn < sk div bn" "l2 < n div bn" "n div bn < r1" for n
    using div_less[OF bn(1), of n sk] div_less[OF bn(1), of n "start_m + wr"] div_less[OF bn(1), of "edge - wl - 1" n] that
    unfolding l2_def r1_def by simp
  show ?thesis
  proof (cases "{l1..l2} \<inter> {r1..r2} = {} \<and> \<not> q")
    case True
    then have sep: "l2 < r1 \<or> r2 < l1" using lr by (auto simp: disjoint_iff) 
    let ?fb = "closed_interval_isect (l2 + 1, r1 - 1) (0, v)" and ?rb = "closed_interval_isect (r1, r2) (0, v)"
      and ?lb = "closed_interval_isect (l1, l2) (0, v)"
    have sp: "span ?fb = {l2 + 1..r1 - 1} \<inter> {0..v}" "span ?rb = {r1..r2} \<inter> {0..v}" "span ?lb = {l1..l2} \<inter> {0..v}"
      by (simp_all add: span_isect)
    have "?fb = (-114, -514) \<or> ?fb = (max (l2 + 1) 0, min (r1 - 1) v) \<and> max (l2 + 1) 0 \<le> min (r1 - 1) v"
      using v(1) by (auto simp: closed_interval_isect_def)
    then have ok: "?fb \<in> {(-114, -514), (-3, -4), (-1, -2)} \<or> 0 \<le> fst ?fb \<and> fst ?fb \<le> snd ?fb \<and> snd ?fb \<le> sk div bn \<and> fst ?fb * bn < sk"
    proof
      assume b: "?fb = (max (l2 + 1) 0, min (r1 - 1) v) \<and> max (l2 + 1) 0 \<le> min (r1 - 1) v"
      then have "fst ?fb * bn \<le> v * bn" using bn by (auto intro!: mult_right_mono)
      then show ?thesis using b v by auto
    qed simp
    show ?thesis
    proof (rule trailing_cases[OF ok bn sk, of ?rb])
      assume "trailing_block sk bn (?fb, ?rb) = (?fb, ?rb)" "\<forall>b\<in>span ?fb. b < sk div bn"
      note kept = this
      have "covers True wl wr start_m sq sk bm bn (?lb, ?fb, ?rb)"
      proof (rule coversI; (fold edge_def)?)
        show "span ?lb \<inter> span ?rb = {}" unfolding sp using sep lr by auto
        show "span ?fb \<inter> (span ?lb \<union> span ?rb) = {}" unfolding sp by auto
        show "span ?lb \<union> span ?fb \<union> span ?rb \<subseteq> {0..sk div bn}" unfolding sp using v by auto
        show "span ?fb \<noteq> {} \<Longrightarrow> start_m + bm \<le> sq" using True q by simp
        show "n < sk \<and> (True \<longrightarrow> n \<le> start_m + wr \<and> edge - 1 - wl \<le> n)" if n: "n div bn \<in> span ?fb" for n
          using full[of n] kept(2)[rule_format, OF n] n unfolding sp by auto
        show "n div bn \<in> span ?lb \<union> span ?fb \<union> span ?rb"
          if "0 \<le> n" "n < sk" "True \<longrightarrow> start_m - wl \<le> n \<and> n \<le> edge - 1 + wr" for n
          using blk[of n] that unfolding sp by auto
      qed
      then show ?thesis unfolding plain using True kept(1) by simp
    next
      assume cut: "trailing_block sk bn (?fb, ?rb) = ((fst ?fb, sk div bn - 1), (sk div bn, sk div bn))"
        "snd ?fb = sk div bn" "0 \<le> fst ?fb"
      then have c: "fst ?fb = max (l2 + 1) 0" "l2 + 1 \<le> sk div bn" "sk div bn \<le> r1 - 1" "v = sk div bn"
        using v by (auto simp: closed_interval_isect_def split: if_splits)
      have "covers True wl wr start_m sq sk bm bn (?lb, (fst ?fb, sk div bn - 1), (sk div bn, sk div bn))"
      proof (rule coversI; (fold edge_def)?; (unfold span_simps sp c(1))?)
        show "{l1..l2} \<inter> {0..v} \<inter> {sk div bn..sk div bn} = {}" using c by auto
        show "{max (l2 + 1) 0..sk div bn - 1} \<inter> ({l1..l2} \<inter> {0..v} \<union> {sk div bn..sk div bn}) = {}" by auto
        show "{l1..l2} \<inter> {0..v} \<union> {max (l2 + 1) 0..sk div bn - 1} \<union> {sk div bn..sk div bn} \<subseteq> {0..sk div bn}" using c v by auto
        show "{max (l2 + 1) 0..sk div bn - 1} \<noteq> {} \<Longrightarrow> start_m + bm \<le> sq" using True q by simp
        show "n < sk \<and> (True \<longrightarrow> n \<le> start_m + wr \<and> edge - 1 - wl \<le> n)" if "n div bn \<in> {max (l2 + 1) 0..sk div bn - 1}" for n
          using full[of n] c that by auto
        show "n div bn \<in> {l1..l2} \<inter> {0..v} \<union> {max (l2 + 1) 0..sk div bn - 1} \<union> {sk div bn..sk div bn}"
          if "0 \<le> n" "n < sk" "True \<longrightarrow> start_m - wl \<le> n \<and> n \<le> edge - 1 + wr" for n
          using blk[of n] that c by auto
      qed
      then show ?thesis unfolding plain using True cut(1) by simp
    qed
  next
    case False
    have t: "trailing_block sk bn ((-3, -4), (-3, -4)) = ((-3, -4), (-3, -4))"
      by (rule trailing_cases[where fb = "(-3, -4)" and bn = bn and sk = sk and rb = "(-3, -4)"]) (use bn sk in auto)
    let ?lb = "closed_interval_isect (l1, r2) (0, v)"
    have sp: "span ?lb = {l1..r2} \<inter> {0..v}" by (simp add: span_isect)
    have "covers True wl wr start_m sq sk bm bn (?lb, (-3, -4), (-3, -4))"
    proof (rule coversI; (fold edge_def)?)
      show "span ?lb \<union> span (-3, -4) \<union> span (-3, -4) \<subseteq> {0..sk div bn}" unfolding sp using v by auto
      show "n div bn \<in> span ?lb \<union> span (-3, -4) \<union> span (-3, -4)"
        if "0 \<le> n" "n < sk" "True \<longrightarrow> start_m - wl \<le> n \<and> n \<le> edge - 1 + wr" for n
        using blk[of n] that unfolding sp by auto
    qed simp_all
    then show ?thesis unfolding plain t if_not_P[OF False] .
  qed
qed

lemma covers_plain:
  assumes f: "fits wl wr start_m sq sk bm bn" and q: "q \<longleftrightarrow> start_m + bm > sq"
  shows "covers False wl wr start_m sq sk bm bn (calculate_intervals False wl wr start_m sq sk q bm bn)"
proof -
  note fit = f[unfolded fits_def]
  have bn: "0 < bn" "bn \<le> 65536" and sk: "0 < sk" "sk \<le> 268435456" using fit by auto
  have k: "0 \<le> sk div bn" "sk div bn \<le> sk" using bn sk abs_div_le[of bn sk] by (auto simp: pos_imp_zdiv_nonneg_iff)
  define nb where "nb = (sk + bn - 1) div bn"
  have nb: "0 \<le> nb" "nb \<le> sk + bn - 1" using bn sk abs_div_le[of bn "sk + bn - 1"] by (auto simp: nb_def pos_imp_zdiv_nonneg_iff)
  have "nb = (sk - 1) div bn + 1" using div_add_self2[of bn "sk - 1"] bn by (simp add: nb_def algebra_simps)
  then have nb1: "nb - 1 = (sk - 1) div bn" by simp
  have v: "nb - 1 \<le> sk div bn" unfolding nb1 using bn by (intro zdiv_mono1) auto
  have "i32 (sk + bn) = sk + bn" "i32 (sk + bn - 1) = sk + bn - 1" using bn sk by (auto intro!: i32_id)
  moreover have "(sk + bn - 1) sdiv bn = nb" using bn sk by (simp add: nb_def sdiv_nonneg)
  moreover have "i32 (nb - 1) = nb - 1" "i32 (sk div bn + 1) = sk div bn + 1" "sk sdiv bn = sk div bn"
    using nb k bn sk by (auto intro!: i32_id sdiv_nonneg)
  ultimately have plain: "calculate_intervals False wl wr start_m sq sk q bm bn =
     (if q then ((0, nb - 1), trailing_block sk bn ((-1, -2), (-1, -2)))
      else ((-1, -2), trailing_block sk bn ((0, sk div bn), (sk div bn + 1, nb - 1))))"
    by (simp add: calculate_intervals_def Let_def)
  have in_block: "0 \<le> n div bn \<and> n div bn \<le> nb - 1" if "0 \<le> n" "n < sk" for n
    using that bn unfolding nb1 by (auto simp: pos_imp_zdiv_nonneg_iff intro!: zdiv_mono1)
  show ?thesis
  proof (cases q)
    case True
    have t: "trailing_block sk bn ((-1, -2), (-1, -2)) = ((-1, -2), (-1, -2))"
      by (rule trailing_cases[where fb = "(-1, -2)" and bn = bn and sk = sk and rb = "(-1, -2)"]) (use bn sk in auto)
    have "covers False wl wr start_m sq sk bm bn ((0, nb - 1), (-1, -2), (-1, -2))"
      using in_block v by (intro coversI) auto
    then show ?thesis unfolding plain t using True by simp
  next
    case False
    let ?k = "sk div bn"
    have "trailing_block sk bn ((0, ?k), (?k + 1, nb - 1)) = ((0, ?k - 1), (?k, ?k))"
    proof (rule trailing_cases[where fb = "(0, ?k)" and bn = bn and sk = sk and rb = "(?k + 1, nb - 1)"])
    qed (use bn sk k in auto)
    moreover have "covers False wl wr start_m sq sk bm bn ((-1, -2), (0, ?k - 1), (?k, ?k))"
    proof (rule coversI)
      show "n < sk \<and> (False \<longrightarrow> n \<le> start_m + wr \<and> min (start_m + bm) sq - 1 - wl \<le> n)"
        if "n div bn \<in> span (0, ?k - 1)" for n
        using div_less[OF bn(1), of n sk] that by simp
      show "n div bn \<in> span (-1, -2) \<union> span (0, ?k - 1) \<union> span (?k, ?k)" if "0 \<le> n" "n < sk" for n
        using in_block[OF that] v by auto
      show "start_m + bm \<le> sq" using False q by simp
    qed (use k in auto)
    ultimately show ?thesis unfolding plain using False by simp
  qed
qed

lemma covers_intervals:
  "fits wl wr start_m sq sk bm bn \<Longrightarrow>
     covers causal wl wr start_m sq sk bm bn (calculate_intervals causal wl wr start_m sq sk (start_m + bm > sq) bm bn)"
  using covers_causal covers_plain by (cases causal) simp_all

section \<open>The visits of the passes\<close>

lemma upto_shift: "map (\<lambda>i. i + a) [0..n - 1] = [a..a + n - 1]"
  by (rule nth_equalityI) (simp_all add: nth_upto)

lemma upto_shift_from: "map (\<lambda>i. i - n + b) [n..n + k - 1] = [b..b + k - 1]"
  by (rule nth_equalityI) (simp_all add: nth_upto)

definition visited :: "int \<Rightarrow> (int \<Rightarrow> int \<Rightarrow> bool) \<Rightarrow> int list \<Rightarrow> int list" where
  "visited w Q bs = concat (map (\<lambda>b. filter (Q b) [b * w..b * w + w - 1]) bs)"

lemma set_visited: "0 < w \<Longrightarrow> set (visited w Q bs) = {x. x div w \<in> set bs \<and> Q (x div w) x}"
proof -
  assume w: "0 < w"
  have "x \<in> set [b * w..b * w + w - 1] \<longleftrightarrow> x div w = b" for x b
    using block_iff[OF w, of b x] by auto
  then show ?thesis by (auto simp: visited_def)
qed

lemma distinct_visited: "0 < w \<Longrightarrow> distinct bs \<Longrightarrow> distinct (visited w Q bs)"
proof (induction bs)
  case Nil
  then show ?case by (simp add: visited_def)
next
  case (Cons b bs)
  have "set (filter (Q b) [b * w..b * w + w - 1]) \<inter> set (visited w Q bs) = {}"
    using set_visited[OF Cons.prems(1), of Q bs] set_visited[OF Cons.prems(1), of Q "[b]"] Cons.prems(2)
    by (auto simp: visited_def)
  then show ?case using Cons by (simp add: visited_def)
qed

text \<open>Ends of intervals the kernels compute stay small.\<close>

definition small :: "int \<times> int \<Rightarrow> bool" where
  "small a \<longleftrightarrow> - 1000 \<le> fst a \<and> fst a \<le> 268435457 \<and> - 1000 \<le> snd a \<and> snd a \<le> 268435457"

lemma small_isect: "0 \<le> v \<Longrightarrow> v \<le> 268435456 \<Longrightarrow> small (closed_interval_isect a (0, v))"
  by (cases a) (auto simp: small_def closed_interval_isect_def)

lemma small_trailing:
  assumes "small fb" "small rb" "0 < bn" "bn \<le> 65536" "0 < sk" "sk \<le> 268435456"
  shows "small (fst (trailing_block sk bn (fb, rb)))" "small (snd (trailing_block sk bn (fb, rb)))"
proof -
  have "0 \<le> sk div bn" "sk div bn \<le> sk" using assms abs_div_le[of bn sk] by (auto simp: pos_imp_zdiv_nonneg_iff)
  moreover from this have "i32 (sk div bn - 1) = sk div bn - 1" "sk sdiv bn = sk div bn"
    using assms by (auto intro!: i32_id sdiv_nonneg)
  ultimately show "small (fst (trailing_block sk bn (fb, rb)))" "small (snd (trailing_block sk bn (fb, rb)))"
    using assms by (auto simp: trailing_block_def small_def)
qed

lemma small_intervals:
  assumes f: "fits wl wr start_m sq sk bm bn" and c: "calculate_intervals causal wl wr start_m sq sk q bm bn = (lb, fb, rb)"
  shows "small lb" "small fb" "small rb"
proof -
  note fit = f[unfolded fits_def]
  have bn: "0 < bn" "bn \<le> 65536" and sk: "0 < sk" "sk \<le> 268435456" using fit by auto
  have nb: "0 \<le> (sk + bn - 1) div bn" "(sk + bn - 1) div bn \<le> 268435457"
  proof -
    have "(sk + bn - 1) div bn = (sk - 1) div bn + 1" using div_add_self2[of bn "sk - 1"] bn by (simp add: algebra_simps)
    moreover have "0 \<le> (sk - 1) div bn" "(sk - 1) div bn \<le> sk - 1"
      using bn sk abs_div_le[of bn "sk - 1"] by (auto simp: pos_imp_zdiv_nonneg_iff)
    ultimately show "0 \<le> (sk + bn - 1) div bn" "(sk + bn - 1) div bn \<le> 268435457" using sk by auto
  qed
  have v: "0 \<le> (sk - 1) div bn" "(sk - 1) div bn \<le> 268435456"
    using bn sk abs_div_le[of bn "sk - 1"] by (auto simp: pos_imp_zdiv_nonneg_iff)
  have k: "0 \<le> sk div bn" "sk div bn \<le> 268435456"
    using bn sk abs_div_le[of bn sk] by (auto simp: pos_imp_zdiv_nonneg_iff)
  note isect = small_isect[OF v] and trail = small_trailing[OF _ _ bn sk]
  have codes: "small (-3, -4)" "small (-1, -2)" by (simp_all add: small_def)
  have "small lb \<and> small fb \<and> small rb"
  proof (cases causal)
    case True
    then have "(lb, fb, rb) \<in> {x. small (fst x) \<and> small (fst (snd x)) \<and> small (snd (snd x))}"
      unfolding c[symmetric] using True isect trail codes by (simp add: causal_plain[OF f])
    then show ?thesis by simp
  next
    case False
    have "i32 (sk + bn) = sk + bn" "i32 (sk + bn - 1) = sk + bn - 1" using bn sk by (auto intro!: i32_id)
    moreover have "(sk + bn - 1) sdiv bn = (sk + bn - 1) div bn" "sk sdiv bn = sk div bn" using bn sk by (simp_all add: sdiv_nonneg)
    moreover have "i32 ((sk + bn - 1) div bn - 1) = (sk + bn - 1) div bn - 1" "i32 (sk div bn + 1) = sk div bn + 1"
      using nb k by (auto intro!: i32_id)
    moreover have "small (0, (sk + bn - 1) div bn - 1)" "small (0, sk div bn)" "small (sk div bn + 1, (sk + bn - 1) div bn - 1)"
      using nb k by (auto simp: small_def)
    ultimately have "(lb, fb, rb) \<in> {x. small (fst x) \<and> small (fst (snd x)) \<and> small (snd (snd x))}"
      unfolding c[symmetric] calculate_intervals_def Let_def using False trail codes by simp
    then show ?thesis by simp
  qed
  then show "small lb" "small fb" "small rb" by simp_all
qed

lemma size_small: "small a \<Longrightarrow> closed_interval_size a = max 0 (snd a - fst a + 1)"
  by (simp add: closed_interval_size_def small_def i32_id)

lemma range_full:
  assumes "small fb" "\<not> is_closed_interval_empty fb"
  shows "block_range (closed_interval_size fb) 0 (fst fb) None = [fst fb..snd fb]"
proof -
  have n: "closed_interval_size fb = snd fb - fst fb + 1" using assms by (simp add: size_small is_closed_interval_empty_def)
  have "block_range (closed_interval_size fb) 0 (fst fb) None = map (\<lambda>i. i + fst fb) [0..closed_interval_size fb - 1]"
    using assms n by (auto simp: block_range_def small_def i32_id intro!: map_cong)
  then show ?thesis unfolding upto_shift n by simp
qed

lemma range_masked:
  assumes "small lb" "small rb"
  shows "block_range (closed_interval_size lb) (closed_interval_size rb) (fst lb) (Some (fst rb))
    = [fst lb..snd lb] @ [fst rb..snd rb]"
proof -
  define n1 where "n1 = closed_interval_size lb"
  define n2 where "n2 = closed_interval_size rb"
  have n: "n1 = max 0 (snd lb - fst lb + 1)" "n2 = max 0 (snd rb - fst rb + 1)"
    using assms by (simp_all add: n1_def n2_def size_small)
  have lim: "0 \<le> n1" "n1 \<le> 300000000" "0 \<le> n2" "n2 \<le> 300000000" using assms by (auto simp: n small_def)
  have "block_range n1 n2 (fst lb) (Some (fst rb))
      = map (\<lambda>i. if i < n1 then i + fst lb else i - n1 + fst rb) [0..n1 + n2 - 1]"
    using assms lim by (auto simp: block_range_def small_def i32_id intro!: map_cong)
  also have "[0..n1 + n2 - 1] = [0..n1 - 1] @ [n1..n1 + n2 - 1]"
    using lim upto_split1[of 0 n1 "n1 + n2 - 1"] by (cases "n2 = 0") auto
  also have "map (\<lambda>i. if i < n1 then i + fst lb else i - n1 + fst rb) \<dots>
      = map (\<lambda>i. i + fst lb) [0..n1 - 1] @ map (\<lambda>i. i - n1 + fst rb) [n1..n1 + n2 - 1]"
    by simp
  also have "\<dots> = [fst lb..snd lb] @ [fst rb..snd rb]"
    unfolding upto_shift upto_shift_from by (simp add: n max_def)
  finally show ?thesis by (simp add: n1_def n2_def)
qed

section \<open>Every pair of the windows exactly once\<close>

text \<open>A query sees the keys of its sequence that lie in its window.\<close>

definition visible :: "int \<Rightarrow> int \<Rightarrow> int \<Rightarrow> int \<Rightarrow> int \<Rightarrow> int \<Rightarrow> int \<Rightarrow> bool" where
  "visible causal_type left_arg right_arg seqlen_q seqlen_k m n \<longleftrightarrow>
     0 \<le> m \<and> m < seqlen_q \<and> 0 \<le> n \<and> n < seqlen_k
     \<and> (causal_type \<noteq> 0 \<longrightarrow>
          m - fst (parse_window causal_type left_arg right_arg seqlen_q seqlen_k) \<le> n
          \<and> n \<le> m + snd (parse_window causal_type left_arg right_arg seqlen_q seqlen_k))"

lemma visits_exact:
  assumes f: "fits wl wr start_m sq sk bm bn" and c: "calculate_intervals causal wl wr start_m sq sk (start_m + bm > sq) bm bn = (lb, fb, rb)"
    and m: "start_m \<le> m" "m < start_m + bm" "m < sq"
    and Q: "\<And>n. n div bn \<in> span lb \<union> span rb \<Longrightarrow> Q (n div bn) n \<longleftrightarrow> n < sk \<and> (causal \<longrightarrow> m - wl \<le> n \<and> n \<le> m + wr)"
  defines "ks \<equiv> visited bn (\<lambda>b n. True) [fst fb..snd fb] @ visited bn Q ([fst lb..snd lb] @ [fst rb..snd rb])"
  shows "distinct ks \<and> set ks = {n. 0 \<le> n \<and> n < sk \<and> (causal \<longrightarrow> m - wl \<le> n \<and> n \<le> m + wr)}"
proof -
  have bn: "0 < bn" using f by (simp add: fits_def)
  note cov = covers_intervals[OF f, of causal, unfolded c covers_def prod.case]
  have lists: "set [fst a..snd a] = span a" for a by (simp add: span_def)
  have sets: "set ks = {n. n div bn \<in> span fb} \<union> {n. n div bn \<in> span lb \<union> span rb \<and> Q (n div bn) n}"
    unfolding ks_def set_append set_visited[OF bn] lists by simp
  have "distinct ([fst lb..snd lb] @ [fst rb..snd rb])" using cov by (simp add: span_def)
  then have "distinct ks" using distinct_visited[OF bn] cov unfolding ks_def
    by (auto simp: set_visited[OF bn] lists[symmetric])
  moreover have "n \<in> set ks \<longleftrightarrow> 0 \<le> n \<and> n < sk \<and> (causal \<longrightarrow> m - wl \<le> n \<and> n \<le> m + wr)" for n
  proof
    assume "n \<in> set ks"
    then consider "n div bn \<in> span fb" | "n div bn \<in> span lb \<union> span rb" "Q (n div bn) n" unfolding sets by blast
    then show "0 \<le> n \<and> n < sk \<and> (causal \<longrightarrow> m - wl \<le> n \<and> n \<le> m + wr)"
    proof cases
      case 1
      then have "0 \<le> n div bn" "n < sk" "start_m + bm \<le> sq" using cov by auto
      moreover from this have "0 \<le> n" using bn by (simp add: pos_imp_zdiv_nonneg_iff)
      moreover have "causal \<longrightarrow> n \<le> start_m + wr \<and> min (start_m + bm) sq - 1 - wl \<le> n" using cov 1 by blast
      ultimately show ?thesis using m by auto
    next
      case 2
      then have "0 \<le> n div bn" using cov by auto
      then show ?thesis using Q[OF 2(1)] 2(2) bn by (simp add: pos_imp_zdiv_nonneg_iff)
    qed
  next
    assume n: "0 \<le> n \<and> n < sk \<and> (causal \<longrightarrow> m - wl \<le> n \<and> n \<le> m + wr)"
    then have "causal \<longrightarrow> start_m - wl \<le> n \<and> n \<le> min (start_m + bm) sq - 1 + wr" using m by auto
    then have "n div bn \<in> span lb \<union> span fb \<union> span rb" using cov n by blast
    then show "n \<in> set ks" unfolding sets using Q n by blast
  qed
  ultimately show ?thesis by blast
qed

text \<open>The visits of the passes are visits of blocks.\<close>

lemma pass_keys_visited:
  assumes "0 < bn" "bn \<le> 65536" "\<forall>b\<in>set (p_blocks p). 0 \<le> b \<and> b * bn \<le> 268435456"
  shows "pass_keys bn sq sk m p = visited bn (\<lambda>b. pair_mask p (b * bn) bn sq sk m) (p_blocks p)"
proof -
  have "map (\<lambda>j. i32 (i32 (b * bn) + j)) [0..bn - 1] = [b * bn..b * bn + bn - 1]" if "b \<in> set (p_blocks p)" for b
  proof -
    have lim: "0 \<le> b * bn" "b * bn \<le> 268435456" using assms that by auto
    then have "map (\<lambda>j. i32 (i32 (b * bn) + j)) [0..bn - 1] = map (\<lambda>j. j + b * bn) [0..bn - 1]"
      using assms(2) by (auto simp: i32_id add.commute)
    then show ?thesis by (simp add: upto_shift add.commute)
  qed
  moreover have "i32 (b * bn) = b * bn" if "b \<in> set (p_blocks p)" for b
    using assms(3) that assms(1) by (intro i32_id) (auto intro: order_trans[of _ 0])
  ultimately show ?thesis unfolding pass_keys_def visited_def Let_def by (auto intro!: arg_cong[where f = concat])
qed

lemma pass_rows_visited:
  assumes "0 < bm" "bm \<le> 65536" "\<forall>b\<in>set (p_blocks p). 0 \<le> b \<and> b * bm \<le> 268435456"
  shows "pass_rows start_k bm bn sq sk n p = visited bm (\<lambda>b m. pair_mask p start_k bn sq sk m n) (p_blocks p)"
proof -
  have "map (\<lambda>j. i32 (j + i32 (b * bm))) [0..bm - 1] = [b * bm..b * bm + bm - 1]" if "b \<in> set (p_blocks p)" for b
  proof -
    have lim: "0 \<le> b * bm" "b * bm \<le> 268435456" using assms that by auto
    then have "map (\<lambda>j. i32 (j + i32 (b * bm))) [0..bm - 1] = map (\<lambda>j. j + b * bm) [0..bm - 1]"
      using assms(2) by (auto simp: i32_id)
    then show ?thesis by (simp add: upto_shift add.commute)
  qed
  then show ?thesis unfolding pass_rows_def visited_def Let_def by (auto intro!: arg_cong[where f = concat])
qed

lemma blocks_small:
  assumes f: "fits wl wr start_m sq sk bm bn" and c: "calculate_intervals causal wl wr start_m sq sk (start_m + bm > sq) bm bn = (lb, fb, rb)"
    and b: "b \<in> span lb \<union> span fb \<union> span rb"
  shows "0 \<le> b \<and> b * bn \<le> 268435456"
proof -
  have bn: "0 < bn" and sk: "sk \<le> 268435456" using f by (auto simp: fits_def)
  have "0 \<le> b \<and> b \<le> sk div bn" using covers_intervals[OF f, of causal, unfolded c covers_def prod.case] b by auto
  moreover from this have "b * bn \<le> sk div bn * bn" using bn by (simp add: mult_right_mono)
  ultimately show ?thesis using div_bounds(1)[OF bn, of sk] sk by auto
qed

definition fwd_keys :: "int \<Rightarrow> int \<Rightarrow> int \<Rightarrow> int \<Rightarrow> int \<Rightarrow> int \<Rightarrow> int \<Rightarrow> int \<Rightarrow> int \<Rightarrow> int list" where
  "fwd_keys causal_type left_arg right_arg start_m seqlen_q seqlen_k block_m block_n m =
     concat (map (pass_keys block_n seqlen_q seqlen_k m)
       (attn_fwd_passes causal_type left_arg right_arg start_m seqlen_q seqlen_k block_m block_n))"

definition dq_keys :: "int \<Rightarrow> int \<Rightarrow> int \<Rightarrow> int \<Rightarrow> int \<Rightarrow> int \<Rightarrow> int \<Rightarrow> int \<Rightarrow> int \<Rightarrow> int list" where
  "dq_keys causal_type left_arg right_arg start_q seqlen_q seqlen_k block_m block_n m =
     concat (map (pass_keys block_n seqlen_q seqlen_k m)
       (bwd_dq_passes causal_type left_arg right_arg start_q seqlen_q seqlen_k block_m block_n))"

definition dkdv_rows :: "int \<Rightarrow> int \<Rightarrow> int \<Rightarrow> int \<Rightarrow> int \<Rightarrow> int \<Rightarrow> int \<Rightarrow> int \<Rightarrow> int \<Rightarrow> int list" where
  "dkdv_rows causal_type left_arg right_arg start_k seqlen_q seqlen_k block_m block_n n =
     concat (map (pass_rows start_k block_m block_n seqlen_q seqlen_k n)
       (bwd_dkdv_passes causal_type left_arg right_arg start_k seqlen_q seqlen_k block_m block_n))"

lemma upto_span: "is_closed_interval_empty a \<Longrightarrow> [fst a..snd a] = []"
  by (simp add: is_closed_interval_empty_def)

lemma visited_Nil [simp]: "visited w Q [] = []"
  by (simp add: visited_def)

lemma visited_cong: "(\<And>b x. b \<in> set bs \<Longrightarrow> b * w \<le> x \<Longrightarrow> x < b * w + w \<Longrightarrow> Q b x = R b x) \<Longrightarrow> visited w Q bs = visited w R bs"
  unfolding visited_def by (intro arg_cong[where f = concat] map_cong refl filter_cong) auto

text \<open>The passes of a kernel, with the full blocks and the masked ones.\<close>

definition passes_of :: "bool \<Rightarrow> int \<Rightarrow> int \<Rightarrow> int \<Rightarrow> int \<Rightarrow> (int \<times> int) \<times> (int \<times> int) \<times> (int \<times> int) \<Rightarrow> pass list" where
  "passes_of causal wl wr fl fr c =
     (case c of (lb, fb, rb) \<Rightarrow>
        (if is_closed_interval_empty fb then []
         else [\<lparr>p_masked = False, p_causal = False, p_left = fl, p_right = fr,
                p_blocks = block_range (closed_interval_size fb) 0 (fst fb) None\<rparr>])
        @ (if is_closed_interval_empty lb \<and> is_closed_interval_empty rb then []
           else [\<lparr>p_masked = True, p_causal = causal, p_left = wl, p_right = wr,
                  p_blocks = block_range (closed_interval_size lb) (closed_interval_size rb) (fst lb) (Some (fst rb))\<rparr>]))"

lemma passes_visits:
  assumes s: "small lb" "small fb" "small rb"
    and v: "\<And>p. set (p_blocks p) \<subseteq> span lb \<union> span fb \<union> span rb \<Longrightarrow> visit p = visited w (Q p) (p_blocks p)"
    and full: "\<And>p b x. \<not> p_masked p \<Longrightarrow> \<not> p_causal p \<Longrightarrow> Q p b x"
    and masked: "\<And>p. p_masked p \<Longrightarrow> p_causal p = causal \<Longrightarrow> p_left p = wl \<Longrightarrow> p_right p = wr \<Longrightarrow> Q p = R"
  shows "concat (map visit (passes_of causal wl wr fl fr (lb, fb, rb)))
    = visited w (\<lambda>b x. True) [fst fb..snd fb] @ visited w R ([fst lb..snd lb] @ [fst rb..snd rb])"
proof -
  let ?full = "\<lparr>p_masked = False, p_causal = False, p_left = fl, p_right = fr, p_blocks = [fst fb..snd fb]\<rparr>"
  let ?masked = "\<lparr>p_masked = True, p_causal = causal, p_left = wl, p_right = wr, p_blocks = [fst lb..snd lb] @ [fst rb..snd rb]\<rparr>"
  have "visit ?full = visited w (\<lambda>b x. True) [fst fb..snd fb]"
    using v[of ?full] full[of ?full] by (auto simp: span_def visited_def)
  moreover have "visit ?masked = visited w R ([fst lb..snd lb] @ [fst rb..snd rb])"
    using v[of ?masked] masked[of ?masked] by (auto simp: span_def)
  ultimately show ?thesis
    using range_full[OF s(2)] range_masked[OF s(1,3)] by (auto simp: passes_of_def upto_span)
qed

lemma i32_window: "\<bar>m\<bar> \<le> 269000000 \<Longrightarrow> \<bar>w\<bar> \<le> 268435456 \<Longrightarrow> i32 (m + w) = m + w \<and> i32 (m - w) = m - w"
  by (auto intro!: i32_id)

lemma keys_exact:
  assumes w: "parse_window ct la ra sq sk = (wl, wr)" and f: "fits wl wr start_m sq sk bm bn"
    and m: "start_m \<le> m" "m < start_m + bm" "m < sq"
    and c: "calculate_intervals (ct \<noteq> 0) wl wr start_m sq sk (start_m + bm > sq) bm bn = (lb, fb, rb)"
  shows "distinct (concat (map (pass_keys bn sq sk m) (passes_of (ct \<noteq> 0) wl wr fl fr (lb, fb, rb))))
    \<and> set (concat (map (pass_keys bn sq sk m) (passes_of (ct \<noteq> 0) wl wr fl fr (lb, fb, rb)))) = {n. visible ct la ra sq sk m n}"
proof -
  note fit = f[unfolded fits_def]
  have bn: "0 < bn" "bn \<le> 65536" using fit by auto
  define R where "R = (\<lambda>b n. m < sq \<and> (b * bn + bn > sk \<longrightarrow> n < sk) \<and> (ct \<noteq> 0 \<longrightarrow> m + wr \<ge> n \<and> m - wl \<le> n))"
  have win: "i32 (m + wr) = m + wr" "i32 (m - wl) = m - wl"
    using i32_window[of m wr] i32_window[of m wl] fit m by auto
  have vis: "concat (map (pass_keys bn sq sk m) (passes_of (ct \<noteq> 0) wl wr fl fr (lb, fb, rb)))
    = visited bn (\<lambda>b n. True) [fst fb..snd fb] @ visited bn R ([fst lb..snd lb] @ [fst rb..snd rb])"
  proof (rule passes_visits[OF small_intervals[OF f c],
        where Q = "\<lambda>p b. if p_masked p \<and> p_causal p = (ct \<noteq> 0) \<and> p_left p = wl \<and> p_right p = wr then R b else pair_mask p (b * bn) bn sq sk m"])
    fix p :: pass
    assume "set (p_blocks p) \<subseteq> span lb \<union> span fb \<union> span rb"
    then have b: "\<forall>b\<in>set (p_blocks p). 0 \<le> b \<and> b * bn \<le> 268435456" using blocks_small[OF f c] by blast
    show "pass_keys bn sq sk m p = visited bn (\<lambda>b. if p_masked p \<and> p_causal p = (ct \<noteq> 0) \<and> p_left p = wl \<and> p_right p = wr
        then R b else pair_mask p (b * bn) bn sq sk m) (p_blocks p)"
      unfolding pass_keys_visited[OF bn b]
    proof (rule visited_cong)
      fix b n assume "b \<in> set (p_blocks p)"
      then have "0 \<le> b * bn" "b * bn \<le> 268435456" using b bn by auto
      then have "i32 (b * bn + bn) = b * bn + bn" using bn by (intro i32_id) auto
      then show "pair_mask p (b * bn) bn sq sk m n = (if p_masked p \<and> p_causal p = (ct \<noteq> 0) \<and> p_left p = wl \<and> p_right p = wr
          then R b else pair_mask p (b * bn) bn sq sk m) n"
        by (auto simp: pair_mask_def R_def win)
    qed
  qed (auto simp: pair_mask_def fun_eq_iff)
  have "R (n div bn) n \<longleftrightarrow> n < sk \<and> (ct \<noteq> 0 \<longrightarrow> m - wl \<le> n \<and> n \<le> m + wr)" for n
    using div_bounds(2)[OF bn(1), of n] m by (auto simp: R_def)
  then show ?thesis
    using visits_exact[OF f c m, of R] fit m unfolding vis visible_def w by auto
qed

lemma fwd_visits:
  assumes w: "parse_window ct la ra sq sk = (wl, wr)" and f: "fits wl wr start_m sq sk bm bn"
    and m: "start_m \<le> m" "m < start_m + bm" "m < sq"
  shows "distinct (fwd_keys ct la ra start_m sq sk bm bn m)
    \<and> set (fwd_keys ct la ra start_m sq sk bm bn m) = {n. visible ct la ra sq sk m n}"
proof -
  obtain lb fb rb where c: "calculate_intervals (ct \<noteq> 0) wl wr start_m sq sk (start_m + bm > sq) bm bn = (lb, fb, rb)"
    by (metis prod_cases3)
  have "i32 (start_m + bm) = start_m + bm" using f by (auto simp: fits_def intro!: i32_id)
  then have "attn_fwd_passes ct la ra start_m sq sk bm bn = passes_of (ct \<noteq> 0) wl wr 0 0 (lb, fb, rb)"
    by (simp add: attn_fwd_passes_def w c passes_of_def)
  then show ?thesis using keys_exact[OF w f m c, of 0 0] by (simp add: fwd_keys_def)
qed

text \<open>
  C1: the passes of the forward kernel compute attention of a row over exactly the keys it may see.
  For a tile of rows and sizes well within 32 bits, each row of the tile meets each key of its
  sequence inside the window once, in a full or a masked block, and no other key.
\<close>

theorem fwd_keys_exact:
  assumes w: "parse_window ct la ra sq sk = (wl, wr)" and f: "fits wl wr start_m sq sk bm bn"
    and m: "start_m \<le> m" "m < start_m + bm" "m < sq"
  shows "distinct (fwd_keys ct la ra start_m sq sk bm bn m)
    \<and> set (fwd_keys ct la ra start_m sq sk bm bn m) = {n. visible ct la ra sq sk m n}"
  by (rule fwd_visits[OF w f m])

lemma dq_keys_exact:
  assumes w: "parse_window ct la ra sq sk = (wl, wr)" and f: "fits wl wr start_q sq sk bm bn"
    and m: "start_q \<le> m" "m < start_q + bm" "m < sq"
  shows "distinct (dq_keys ct la ra start_q sq sk bm bn m)
    \<and> set (dq_keys ct la ra start_q sq sk bm bn m) = {n. visible ct la ra sq sk m n}"
proof -
  obtain lb fb rb where c: "calculate_intervals (ct \<noteq> 0) wl wr start_q sq sk (start_q + bm > sq) bm bn = (lb, fb, rb)"
    by (metis prod_cases3)
  have "i32 (start_q + bm) = start_q + bm" using f by (auto simp: fits_def intro!: i32_id)
  then have "bwd_dq_passes ct la ra start_q sq sk bm bn = passes_of (ct \<noteq> 0) wl wr wl wr (lb, fb, rb)"
    by (simp add: bwd_dq_passes_def w c passes_of_def)
  then show ?thesis using keys_exact[OF w f m c, of wl wr] by (simp add: dq_keys_def)
qed

lemma dkdv_rows_exact:
  assumes w: "parse_window ct la ra sq sk = (wl, wr)" and f: "fits wr wl start_k sk sq bn bm"
    and n: "start_k \<le> n" "n < start_k + bn" "n < sk"
  shows "distinct (dkdv_rows ct la ra start_k sq sk bm bn n)
    \<and> set (dkdv_rows ct la ra start_k sq sk bm bn n) = {m. visible ct la ra sq sk m n}"
proof -
  note fit = f[unfolded fits_def]
  have bm: "0 < bm" "bm \<le> 65536" using fit by auto
  obtain lb fb rb where c: "calculate_intervals (ct \<noteq> 0) wr wl start_k sk sq (start_k + bn > sk) bn bm = (lb, fb, rb)"
    by (metis prod_cases3)
  have e: "i32 (start_k + bn) = start_k + bn" using fit by (auto intro!: i32_id)
  then have ps: "bwd_dkdv_passes ct la ra start_k sq sk bm bn = passes_of (ct \<noteq> 0) wl wr wl wr (lb, fb, rb)"
    by (simp add: bwd_dkdv_passes_def w c passes_of_def)
  define R where "R = (\<lambda>(b::int) m. m < sq \<and> (ct \<noteq> 0 \<longrightarrow> m + wr \<ge> n \<and> m - wl \<le> n))"
  have vis: "dkdv_rows ct la ra start_k sq sk bm bn n
    = visited bm (\<lambda>b m. True) [fst fb..snd fb] @ visited bm R ([fst lb..snd lb] @ [fst rb..snd rb])"
    unfolding dkdv_rows_def ps
  proof (rule passes_visits[OF small_intervals[OF f c],
        where Q = "\<lambda>p b m. if p_masked p \<and> p_causal p = (ct \<noteq> 0) \<and> p_left p = wl \<and> p_right p = wr then R b m else pair_mask p start_k bn sq sk m n"])
    fix p :: pass
    assume "set (p_blocks p) \<subseteq> span lb \<union> span fb \<union> span rb"
    then have b: "\<forall>b\<in>set (p_blocks p). 0 \<le> b \<and> b * bm \<le> 268435456" using blocks_small[OF f c] by blast
    show "pass_rows start_k bm bn sq sk n p = visited bm (\<lambda>b m. if p_masked p \<and> p_causal p = (ct \<noteq> 0) \<and> p_left p = wl \<and> p_right p = wr
        then R b m else pair_mask p start_k bn sq sk m n) (p_blocks p)"
      unfolding pass_rows_visited[OF bm b]
    proof (rule visited_cong)
      fix i m assume "i \<in> set (p_blocks p)" and x: "i * bm \<le> m" "m < i * bm + bm"
      then have "0 \<le> i * bm" "i * bm \<le> 268435456" using b bm by auto
      then have "\<bar>m\<bar> \<le> 269000000" using x bm by simp
      then have "i32 (m + wr) = m + wr" "i32 (m - wl) = m - wl"
        using i32_window[of m wr] i32_window[of m wl] fit by auto
      then show "pair_mask p start_k bn sq sk m n = (if p_masked p \<and> p_causal p = (ct \<noteq> 0) \<and> p_left p = wl \<and> p_right p = wr
          then R i m else pair_mask p start_k bn sq sk m n)"
        using n by (auto simp: pair_mask_def R_def)
    qed
  qed (auto simp: pair_mask_def fun_eq_iff)
  have "R (m div bm) m \<longleftrightarrow> m < sq \<and> (ct \<noteq> 0 \<longrightarrow> n - wr \<le> m \<and> m \<le> n + wl)" for m
    by (auto simp: R_def)
  then show ?thesis
    using visits_exact[OF f c n, of R] fit n unfolding vis visible_def w by auto
qed

text \<open>
  C3: the kernels of the gradients visit the pairs that the forward kernel visits, each once. Whatever
  tiles and blocks the three kernels use, a key \<open>n\<close> is among the keys of row \<open>m\<close> in the forward kernel,
  and in that of the gradient of the queries, just if \<open>m\<close> is among the rows of \<open>n\<close> in the kernel of
  the gradients of keys and values.
\<close>

theorem backward_agrees:
  assumes w: "parse_window ct la ra sq sk = (wl, wr)"
    and f: "fits wl wr start_m sq sk bm bn" "fits wl wr start_q sq sk bm1 bn1" "fits wr wl start_k sk sq bn2 bm2"
    and m: "start_m \<le> m" "m < start_m + bm" "start_q \<le> m" "m < start_q + bm1" "m < sq"
    and n: "start_k \<le> n" "n < start_k + bn2" "n < sk"
  shows "(n \<in> set (fwd_keys ct la ra start_m sq sk bm bn m)) = (n \<in> set (dq_keys ct la ra start_q sq sk bm1 bn1 m))
    \<and> (n \<in> set (fwd_keys ct la ra start_m sq sk bm bn m)) = (m \<in> set (dkdv_rows ct la ra start_k sq sk bm2 bn2 n))
    \<and> distinct (dq_keys ct la ra start_q sq sk bm1 bn1 m) \<and> distinct (dkdv_rows ct la ra start_k sq sk bm2 bn2 n)"
  using fwd_visits[OF w f(1) m(1,2,5)] dq_keys_exact[OF w f(2) m(3-5)] dkdv_rows_exact[OF w f(3) n] by auto

text \<open>A window of three keys to the left and one to the right, in tiles of four rows and blocks of four and two keys.\<close>

lemma ex_window: "parse_window 3 3 1 10 9 = (3, 1)"
  by (simp add: parse_window_def)

lemma ex_fits: "fits 3 1 4 10 9 4 4" "fits 3 1 4 10 9 4 2" "fits 1 3 4 9 10 4 2"
  by (simp_all add: fits_def)

lemma fwd_keys_exact_witness:
  "distinct (fwd_keys 3 3 1 4 10 9 4 4 7) \<and> set (fwd_keys 3 3 1 4 10 9 4 4 7) = {n. visible 3 3 1 10 9 7 n}"
  by (rule fwd_keys_exact[OF ex_window ex_fits(1)]) simp_all

lemma backward_agrees_witness:
  "(5 \<in> set (fwd_keys 3 3 1 4 10 9 4 4 7)) = (5 \<in> set (dq_keys 3 3 1 4 10 9 4 2 7))
   \<and> (5 \<in> set (fwd_keys 3 3 1 4 10 9 4 4 7)) = (7 \<in> set (dkdv_rows 3 3 1 4 10 9 2 4 5))
   \<and> distinct (dq_keys 3 3 1 4 10 9 4 2 7) \<and> distinct (dkdv_rows 3 3 1 4 10 9 2 4 5)"
  by (rule backward_agrees[OF ex_window ex_fits]) simp_all

section \<open>What happens at the edges\<close>

text \<open>The kinds of windows: top left, bottom right, given.\<close>

lemma visible_top_left: "visible 1 la ra sq sk m n \<longleftrightarrow> 0 \<le> n \<and> n \<le> m \<and> m < sq \<and> n < sk"
  by (auto simp: visible_def parse_window_def)

lemma visible_bottom_right:
  "ra \<noteq> -2147483647 \<Longrightarrow> 0 < sq \<Longrightarrow> sq \<le> 268435456 \<Longrightarrow> 0 < sk \<Longrightarrow> sk \<le> 268435456
     \<Longrightarrow> visible 2 la ra sq sk m n \<longleftrightarrow> 0 \<le> m \<and> m < sq \<and> 0 \<le> n \<and> n < sk \<and> n - sk \<le> m - sq"
  by (auto simp: visible_def parse_window_def i32_id)

text \<open>
  A sequence of queries without keys: without windows, a whole tile of rows meets a full block of
  keys that do not exist.
\<close>

lemma no_keys_read: "fwd_keys 0 0 0 0 2 0 2 2 1 = [0, 1]"
  by code_simp

text \<open>A window of all keys written as the largest integer wraps around: no row sees a key.\<close>

lemma wide_window_lost: "fwd_keys 3 2147483647 2147483647 4 8 4 2 2 5 = []"
  by code_simp

end
