(* ===== verification/AttnTiles.thy ===== *)
theory AttnTiles
  imports AttnBlocks "HOL-Library.Multiset"
begin

text \<open>
  Which workgroup of the forward kernel computes which tile: the remapping of program ids over the
  dies of the GPU and the persistent loop of \<open>tritonsrc/fwd_kernel.py\<close>, in which the workgroups draw
  the number of their next tile from a counter in memory. Arithmetic on program ids and sizes is
  of 32 bits, as \<open>AttnBlocks.i32\<close> has it; only the counter of the tiles is an integer that does
  not wrap.
\<close>

section \<open>Program ids\<close>

definition cdiv_fn :: "int \<Rightarrow> int \<Rightarrow> int" where
  "cdiv_fn x y = i32 (i32 (x + y) - 1) sdiv y"

definition remap_xcd :: "int \<Rightarrow> int \<Rightarrow> int \<Rightarrow> int" where
  "remap_xcd pid grid_mn num_xcds =
     (if num_xcds = 1 then pid
      else
        let pids_per_xcd = i32 (i32 (grid_mn + num_xcds) - 1) sdiv num_xcds;
            tall_xcds = grid_mn smod num_xcds;
            tall_xcds = (if tall_xcds = 0 then num_xcds else tall_xcds);
            xcd = pid smod num_xcds;
            local_pid = pid sdiv num_xcds
        in if xcd < tall_xcds then i32 (i32 (xcd * pids_per_xcd) + local_pid)
           else i32 (i32 (i32 (tall_xcds * pids_per_xcd) + i32 (i32 (xcd - tall_xcds) * i32 (pids_per_xcd - 1)))
                     + local_pid))"

section \<open>Tiles\<close>

text \<open>The batch, the head and the block of rows of a tile.\<close>

definition tile_coords :: "int \<Rightarrow> int \<Rightarrow> int \<Rightarrow> int \<times> int \<times> int" where
  "tile_coords tiles_per_head num_heads tile_id =
     (let tiles_per_sample = i32 (tiles_per_head * num_heads)
      in (tile_id sdiv tiles_per_sample,
          (tile_id smod tiles_per_sample) sdiv tiles_per_head,
          (tile_id smod tiles_per_sample) smod tiles_per_head))"

text \<open>The coordinates of a workgroup: of its tile in the dynamic loop, else of its program ids.\<close>

definition work_coords :: "bool \<Rightarrow> int \<Rightarrow> int \<Rightarrow> int \<Rightarrow> int \<times> int \<times> int \<Rightarrow> int \<Rightarrow> int \<times> int \<times> int" where
  "work_coords persistent_dynamic num_xcds tiles_per_head num_heads pids tile_id =
     (case pids of (pid0, pid1, pid2) \<Rightarrow>
        if persistent_dynamic then tile_coords tiles_per_head num_heads tile_id
        else if num_xcds > 1 then (pid2, remap_xcd pid0 num_heads num_xcds, pid1)
        else (pid2, pid1, pid0))"

text \<open>The rows of the log-sum-exp that belong to a row of a head: the stride is cast to 64 bits.\<close>

definition i64 :: "int \<Rightarrow> int" where
  "i64 x = signed_take_bit 63 x"

definition lse_offset :: "int \<Rightarrow> int \<Rightarrow> int \<Rightarrow> int \<Rightarrow> int \<Rightarrow> int" where
  "lse_offset b h s num_heads stride = i64 (i64 (i32 (i32 (b * num_heads) + h) * stride) + s)"

text \<open>
  A workgroup of the persistent loop: the tile it has drawn, if any, and the flag that stands for an
  early return. \<open>no_keys\<close> tells the tiles without a key, for which zeros are stored.
\<close>

datatype outcome = Computed | Zeroed | Skipped

record workgroup =
  wg_tile :: "int option"
  wg_continue :: bool

record grid =
  counter :: int
  groups :: "workgroup list"
  stored :: "(int \<times> outcome) list"

definition start_grid :: "nat \<Rightarrow> grid" where
  "start_grid n = \<lparr>counter = 0, groups = replicate n \<lparr>wg_tile = None, wg_continue = True\<rparr>, stored = []\<rparr>"

text \<open>The counter is added to atomically and gives its value before.\<close>

definition first_tile :: "nat \<Rightarrow> grid \<Rightarrow> grid" where
  "first_tile i g = g\<lparr>counter := counter g + 1, groups := (groups g)[i := (groups g ! i)\<lparr>wg_tile := Some (counter g)\<rparr>]\<rparr>"

text \<open>The body of the loop: the flag is set before the loop and never set again.\<close>

definition tile_outcome :: "bool \<Rightarrow> bool \<Rightarrow> outcome" where
  "tile_outcome continue_condition is_empty =
     (if \<not> continue_condition then Skipped else if is_empty then Zeroed else Computed)"

definition run_tile :: "(int \<Rightarrow> bool) \<Rightarrow> nat \<Rightarrow> int \<Rightarrow> grid \<Rightarrow> grid" where
  "run_tile no_keys i t g =
     (let c = wg_continue (groups g ! i)
      in g\<lparr>counter := counter g + 1,
           groups := (groups g)[i := \<lparr>wg_tile = Some (counter g), wg_continue = (c \<and> \<not> no_keys t)\<rparr>],
           stored := stored g @ [(t, tile_outcome c (no_keys t))]\<rparr>)"

text \<open>Any workgroup may take the next step, as long as its tile is one of the grid's.\<close>

inductive grid_run :: "(int \<Rightarrow> bool) \<Rightarrow> int \<Rightarrow> nat \<Rightarrow> grid \<Rightarrow> bool" for no_keys tiles n where
  launched: "grid_run no_keys tiles n (start_grid n)"
| drawn: "grid_run no_keys tiles n g \<Longrightarrow> i < length (groups g) \<Longrightarrow> wg_tile (groups g ! i) = None
            \<Longrightarrow> grid_run no_keys tiles n (first_tile i g)"
| ran: "grid_run no_keys tiles n g \<Longrightarrow> i < length (groups g) \<Longrightarrow> wg_tile (groups g ! i) = Some t \<Longrightarrow> t < tiles
          \<Longrightarrow> grid_run no_keys tiles n (run_tile no_keys i t g)"

definition grid_finished :: "int \<Rightarrow> grid \<Rightarrow> bool" where
  "grid_finished tiles g \<longleftrightarrow> list_all (\<lambda>w. case wg_tile w of None \<Rightarrow> False | Some t \<Rightarrow> tiles \<le> t) (groups g)"

section \<open>The remapping is a permutation\<close>

text \<open>The remapping without wrapping: \<open>remap_xcd\<close> is this function where no number exceeds 32 bits.\<close>

definition remap_pid :: "int \<Rightarrow> int \<Rightarrow> int \<Rightarrow> int" where
  "remap_pid p g x =
     (if x = 1 then p
      else
        let per = (g + x - 1) sdiv x;
            tall = (if g smod x = 0 then x else g smod x)
        in if p smod x < tall then p smod x * per + p sdiv x
           else tall * per + (p smod x - tall) * (per - 1) + p sdiv x)"

lemma remap_simp_parts:
  fixes g x :: int
  assumes x: "0 < x" and g: "0 < g"
  shows "(g + x - 1) sdiv x = (g - 1) div x + 1" "(if g smod x = 0 then x else g smod x) = (g - 1) mod x + 1"
proof -
  have "(g + x - 1) div x = (g - 1) div x + 1" using div_add_self2[of x "g - 1"] x by (simp add: algebra_simps)
  then show "(g + x - 1) sdiv x = (g - 1) div x + 1" using x g by (simp add: sdiv_nonneg)
  have m: "0 \<le> (g - 1) mod x" "(g - 1) mod x < x" using x by simp_all
  have "g mod x = ((g - 1) mod x + 1) mod x" by (metis diff_add_cancel mod_add_left_eq)
  also have "\<dots> = (if (g - 1) mod x + 1 = x then 0 else (g - 1) mod x + 1)" using m by auto
  finally show "(if g smod x = 0 then x else g smod x) = (g - 1) mod x + 1" using x g m by (auto simp: smod_mod_positive)
qed

lemma remap_simp:
  assumes x: "0 < x" and g: "0 < g" and p: "0 \<le> p"
  defines "per \<equiv> (g - 1) div x + 1" and "tall \<equiv> (g - 1) mod x + 1"
  shows "x \<noteq> 1 \<Longrightarrow> remap_pid p g x
    = (if p mod x < tall then p mod x * per + p div x
       else tall * per + (p mod x - tall) * (per - 1) + p div x)"
    and "g = tall * per + (x - tall) * (per - 1)" "1 \<le> per" "1 \<le> tall" "tall \<le> x"
proof -
  have s: "(g + x - 1) sdiv x = per" and t: "(if g smod x = 0 then x else g smod x) = tall"
    using remap_simp_parts[OF x g] by (simp_all add: per_def tall_def)
  have m: "0 \<le> (g - 1) mod x" "(g - 1) mod x < x" using x by simp_all
  show "remap_pid p g x = (if p mod x < tall then p mod x * per + p div x
       else tall * per + (p mod x - tall) * (per - 1) + p div x)" if "x \<noteq> 1"
    using that x p unfolding remap_pid_def Let_def s t by (simp add: smod_mod_positive sdiv_nonneg)
  have "g - 1 = x * (per - 1) + (tall - 1)" by (simp add: per_def tall_def)
  then show "g = tall * per + (x - tall) * (per - 1)" by (simp add: algebra_simps)
  show "1 \<le> per" using x g by (simp add: per_def pos_imp_zdiv_nonneg_iff)
  show "1 \<le> tall" "tall \<le> x" using m by (auto simp: tall_def)
qed

lemma digits_eq:
  fixes a a' l l' w :: int
  assumes "a * w + l = a' * w + l'" "0 \<le> l" "l < w" "0 \<le> l'" "l' < w"
  shows "a = a' \<and> l = l'"
proof -
  have "(a * w + l) div w = a" "(a' * w + l') div w = a'" using assms(2-5) by (auto intro!: int_div_pos_eq simp: mult.commute)
  then have "a = a'" using assms(1) by metis
  then show ?thesis using assms(1) by simp
qed

lemma remap_digits:
  fixes g x p :: int
  assumes x: "0 < x" and p: "p \<in> {0..<g}"
  defines "per \<equiv> (g - 1) div x + 1" and "tall \<equiv> (g - 1) mod x + 1"
  shows "0 \<le> p div x" "0 \<le> p mod x" "p mod x < x" "p mod x < tall \<Longrightarrow> p div x < per" "tall \<le> p mod x \<Longrightarrow> p div x < per - 1"
proof -
  show "0 \<le> p div x" "0 \<le> p mod x" "p mod x < x" using p x by (auto simp: pos_imp_zdiv_nonneg_iff)
  have le: "p div x \<le> (g - 1) div x" using p x by (intro zdiv_mono1) auto
  then show "p div x < per" by (simp add: per_def)
  show "p div x < per - 1" if t: "tall \<le> p mod x"
  proof (rule ccontr)
    assume "\<not> p div x < per - 1"
    then have "p div x = (g - 1) div x" using le by (simp add: per_def)
    then have "p div x * x = (g - 1) div x * x" by simp
    then show False using t p div_mult_mod_eq[of p x] div_mult_mod_eq[of "g - 1" x] unfolding tall_def atLeastLessThan_iff
      by linarith
  qed
qed

lemma remap_pid_permutes:
  assumes x: "0 < x"
  shows "bij_betw (\<lambda>p. remap_pid p g x) {0..<g} {0..<g}"
proof (cases "0 < g \<and> x \<noteq> 1")
  case False
  then show ?thesis by (auto simp: remap_pid_def bij_betw_def)
next
  case True
  then have g: "0 < g" by simp
  define per where "per = (g - 1) div x + 1"
  define tall where "tall = (g - 1) mod x + 1"
  note rs = remap_simp[OF x g, folded per_def tall_def]
  have size: "g = tall * per + (x - tall) * (per - 1)" "1 \<le> per" "1 \<le> tall" "tall \<le> x" using rs(2-5)[of 0] by simp_all
  note dig = remap_digits[OF x, of _ g, folded per_def tall_def]
  have low: "c * per + l < tall * per" if "c < tall" "l < per" for c l
    using mult_right_mono[of "c + 1" tall per] that size by (simp add: algebra_simps)
  have high: "(c - tall) * (per - 1) + l < (x - tall) * (per - 1)" if "c < x" "l < per - 1" for c l
    using mult_right_mono[of "c - tall + 1" "x - tall" "per - 1"] that size by (simp add: algebra_simps)
  have image: "remap_pid p g x \<in> {0..<g} \<and> (remap_pid p g x < tall * per \<longleftrightarrow> p mod x < tall)" if p: "p \<in> {0..<g}" for p
  proof (cases "p mod x < tall")
    case c: True
    then have "0 \<le> remap_pid p g x" "remap_pid p g x < tall * per"
      using rs(1)[of p] True p dig[OF p] size low[OF c] by auto
    moreover have "tall * per \<le> g" using size by simp
    ultimately show ?thesis using c by simp
  next
    case c: False
    then have r: "remap_pid p g x = tall * per + (p mod x - tall) * (per - 1) + p div x" using rs(1)[of p] True p by auto
    have "0 \<le> (p mod x - tall) * (per - 1)" "0 \<le> tall * per" using c size by simp_all
    moreover have "0 \<le> p div x" "(p mod x - tall) * (per - 1) + p div x < (x - tall) * (per - 1)"
      using c dig[OF p] high[of "p mod x" "p div x"] by auto
    ultimately have "0 \<le> remap_pid p g x" "remap_pid p g x < g" "\<not> remap_pid p g x < tall * per"
      using size(1) unfolding r by linarith+
    then show ?thesis using c by simp
  qed
  have inj: "p = q" if pq: "p \<in> {0..<g}" "q \<in> {0..<g}" "remap_pid p g x = remap_pid q g x" for p q
  proof -
    have same: "p mod x < tall \<longleftrightarrow> q mod x < tall" using image[OF pq(1)] image[OF pq(2)] pq(3) by simp
    have "p mod x = q mod x \<and> p div x = q div x"
    proof (cases "p mod x < tall")
      case c: True
      then show ?thesis using rs(1)[of p] rs(1)[of q] same pq True dig[OF pq(1)] dig[OF pq(2)]
        by (intro digits_eq[where w = per]) auto
    next
      case c: False
      then have "(p mod x - tall) * (per - 1) + p div x = (q mod x - tall) * (per - 1) + q div x"
        using rs(1)[of p] rs(1)[of q] same pq True by simp
      then have "p mod x - tall = q mod x - tall \<and> p div x = q div x"
        using c same dig[OF pq(1)] dig[OF pq(2)] by (intro digits_eq) auto
      then show ?thesis by simp
    qed
    then show ?thesis by (metis div_mult_mod_eq)
  qed
  have "inj_on (\<lambda>p. remap_pid p g x) {0..<g}" using inj by (auto intro!: inj_onI)
  moreover have "(\<lambda>p. remap_pid p g x) ` {0..<g} \<subseteq> {0..<g}" using image by blast
  ultimately show ?thesis unfolding bij_betw_def by (simp add: endo_inj_surj)
qed

text \<open>The result is one of the ids, and every number on the way to it is between 0 and the result.\<close>

lemma remap_xcd_exact:
  assumes x: "0 < x" and g: "g + x < 2147483648" and p: "p \<in> {0..<g}"
  shows "remap_xcd p g x = remap_pid p g x"
proof (cases "x = 1")
  case False
  define per where "per = (g + x - 1) sdiv x"
  define tall where "tall = (if g smod x = 0 then x else g smod x)"
  have g0: "0 < g" and p0: "0 \<le> p" using p by auto
  have eq: "per = (g - 1) div x + 1" "tall = (g - 1) mod x + 1"
    using remap_simp_parts[OF x g0] by (simp_all add: per_def tall_def)
  have size: "1 \<le> per" "1 \<le> tall" "per \<le> g" "tall \<le> x"
    using remap_simp(3-5)[OF x g0 p0] zdiv_mono2[of "g - 1" 1 x] x g0 by (simp_all add: eq)
  have rp: "remap_pid p g x = (if p smod x < tall then p smod x * per + p sdiv x
      else tall * per + (p smod x - tall) * (per - 1) + p sdiv x)" (is "_ = ?r")
    using False by (simp only: remap_pid_def Let_def per_def tall_def if_False)
  have r: "?r \<in> {0..<g}" unfolding rp[symmetric] using bij_betwE[OF remap_pid_permutes[OF x, of g]] p by blast
  have l: "0 \<le> p sdiv x" "0 \<le> p smod x" "p smod x < x" using x p0 by (simp_all add: smod_mod_positive sdiv_nonneg pos_imp_zdiv_nonneg_iff)
  have outer: "i32 (g + x) = g + x" "i32 (g + x - 1) = g + x - 1" "i32 (per - 1) = per - 1" "i32 (p smod x - tall) = p smod x - tall"
    using g g0 x size l by (auto intro!: i32_id)
  have "remap_xcd p g x = ?r"
  proof (cases "p smod x < tall")
    case c: True
    have "0 \<le> p smod x * per" using l size by simp
    then have "i32 (p smod x * per) = p smod x * per" "i32 (p smod x * per + p sdiv x) = p smod x * per + p sdiv x"
      using r c l g x by (auto intro!: i32_id)
    then show ?thesis using c False outer(1,2) by (simp add: remap_xcd_def Let_def flip: per_def tall_def)
  next
    case c: False
    have "0 \<le> (p smod x - tall) * (per - 1)" "0 \<le> tall * per" using c size by simp_all
    then have "i32 (tall * per) = tall * per" "i32 ((p smod x - tall) * (per - 1)) = (p smod x - tall) * (per - 1)"
      "i32 (tall * per + (p smod x - tall) * (per - 1)) = tall * per + (p smod x - tall) * (per - 1)"
      "i32 (tall * per + (p smod x - tall) * (per - 1) + p sdiv x) = tall * per + (p smod x - tall) * (per - 1) + p sdiv x"
      using r c l g x by (auto intro!: i32_id)
    then show ?thesis using c False outer by (simp add: remap_xcd_def Let_def flip: per_def tall_def)
  qed
  then show ?thesis unfolding rp .
qed (simp add: remap_xcd_def remap_pid_def)

text \<open>
  C5: \<open>remap_xcd\<close> permutes the program ids. For a grid of any size and any number of dies, as long as
  their sum stays below $2^{31}$ (the ids are signed numbers of 32 bits), and also when the grid is
  no multiple of the dies, every program id is the image of exactly one.
\<close>

theorem remap_xcd_permutes:
  assumes "0 < x" and "g + x < 2147483648"
  shows "bij_betw (\<lambda>p. remap_xcd p g x) {0..<g} {0..<g}"
proof -
  have "bij_betw (\<lambda>p. remap_xcd p g x) {0..<g} {0..<g} = bij_betw (\<lambda>p. remap_pid p g x) {0..<g} {0..<g}"
    by (rule bij_betw_cong) (rule remap_xcd_exact[OF assms])
  then show ?thesis using remap_pid_permutes[OF assms(1)] by simp
qed

lemma remap_xcd_permutes_witness: "bij_betw (\<lambda>p. remap_xcd p 11 4) {0..<11} {0..<11}"
  using remap_xcd_permutes[of 4 11] by simp

text \<open>The bound is needed: where the sum wraps, ids outside of the grid come out.\<close>

lemma remap_xcd_wraps: "remap_xcd 1 2147483647 8 < 0"
  by code_simp

section \<open>Every tile once\<close>

text \<open>The tiles of the grid, by batch, head and block, are numbered without gap.\<close>

lemma tile_coords_id:
  assumes "0 < tph" "0 < nh" "0 \<le> t" "tph * nh < 2147483648"
  shows "case tile_coords tph nh t of (z, h, b) \<Rightarrow> 0 \<le> z \<and> 0 \<le> h \<and> h < nh \<and> 0 \<le> b \<and> b < tph \<and> (z * nh + h) * tph + b = t"
proof -
  have s: "0 < tph * nh" using assms by simp
  have w: "i32 (tph * nh) = tph * nh" using s assms(4) by (intro i32_id) auto
  define r where "r = t mod (tph * nh)"
  have r: "0 \<le> r" "r < tph * nh" "t = t div (tph * nh) * (tph * nh) + r"
    using s div_mult_mod_eq[of t "tph * nh"] by (simp_all add: r_def)
  have "tile_coords tph nh t = (t div (tph * nh), r div tph, r mod tph)"
    using assms s r(1) by (simp add: tile_coords_def Let_def w r_def sdiv_nonneg smod_mod_positive)
  moreover have "r div tph < nh" using r(2) less_block[OF assms(1), of r nh] by (simp add: mult.commute)
  moreover have "r = r div tph * tph + r mod tph" by simp
  then have "(t div (tph * nh) * nh + r div tph) * tph + r mod tph = t" using r(3) by (simp add: algebra_simps)
  ultimately show ?thesis using assms r(1) s by (simp add: pos_imp_zdiv_nonneg_iff)
qed

text \<open>The invariant: what was stored and what is held are the tiles drawn so far.\<close>

definition drawn_tiles :: "grid \<Rightarrow> int option multiset" where
  "drawn_tiles g = image_mset (Some \<circ> fst) (mset (stored g)) + filter_mset (\<lambda>x. x \<noteq> None) (mset (map wg_tile (groups g)))"

definition grid_ok :: "(int \<Rightarrow> bool) \<Rightarrow> int \<Rightarrow> nat \<Rightarrow> grid \<Rightarrow> bool" where
  "grid_ok no_keys tiles n g \<longleftrightarrow>
     0 \<le> counter g \<and> length (groups g) = n \<and> drawn_tiles g = mset (map Some [0..counter g - 1])
     \<and> (\<forall>(t, r)\<in>set (stored g). t < tiles)"

lemma upto_snoc: "0 \<le> c \<Longrightarrow> [0..c] = [0..c - 1] @ [c]"
  using upto_rec2[of 0 c] by simp

lemma map_groups:
  "i < length ws \<Longrightarrow> image_mset f (mset (ws[i := w])) = add_mset (f w) (image_mset f (mset ws) - {#f (ws ! i)#})"
  by (simp add: mset_update image_mset_Diff)

lemma grid_run_ok: "grid_run no_keys tiles n g \<Longrightarrow> grid_ok no_keys tiles n g"
proof (induction rule: grid_run.induct)
  case launched
  show ?case by (simp add: grid_ok_def start_grid_def drawn_tiles_def)
next
  case (drawn g i)
  then have "drawn_tiles (first_tile i g) = add_mset (Some (counter g)) (drawn_tiles g)"
    by (simp add: drawn_tiles_def first_tile_def map_groups filter_diff_mset)
  then show ?case using drawn by (auto simp: grid_ok_def first_tile_def upto_snoc)
next
  case (ran g i t)
  have "Some t \<in># mset (map wg_tile (groups g))" using ran by (metis length_map nth_map nth_mem_mset)
  then have "drawn_tiles (run_tile no_keys i t g) = add_mset (Some (counter g)) (drawn_tiles g)"
    using ran by (simp add: drawn_tiles_def run_tile_def map_groups Let_def filter_diff_mset)
  then show ?case using ran by (auto simp: grid_ok_def run_tile_def upto_snoc Let_def)
qed

lemma grid_held: "grid_ok no_keys tiles n g \<Longrightarrow> i < n \<Longrightarrow> wg_tile (groups g ! i) = Some t \<Longrightarrow> 0 \<le> t \<and> t < counter g"
proof -
  assume ok: "grid_ok no_keys tiles n g" and i: "i < n" "wg_tile (groups g ! i) = Some t"
  then have "Some t \<in> wg_tile ` set (groups g)" by (metis grid_ok_def image_eqI nth_mem)
  then have "Some t \<in># drawn_tiles g" by (simp add: drawn_tiles_def image_iff)
  then show ?thesis using ok by (auto simp: grid_ok_def)
qed

text \<open>The loop ends: a step draws a number, and at most \<open>n\<close> numbers beyond the tiles are drawn.\<close>

lemma grid_counter_bounded:
  assumes "grid_run no_keys tiles n g" "0 \<le> tiles"
  shows "counter g \<le> tiles + int n"
proof -
  note ok = grid_run_ok[OF assms(1), unfolded grid_ok_def]
  define late where "late = (\<lambda>x. case x of None \<Rightarrow> False | Some t \<Rightarrow> tiles \<le> (t :: int))"
  have "filter_mset late (image_mset (Some \<circ> fst) (mset (stored g))) = {#}"
    using ok by (simp only: filter_mset_eq_mempty_iff) (auto simp: late_def)
  then have "filter_mset late (drawn_tiles g) = filter_mset late (filter_mset (\<lambda>x. x \<noteq> None) (mset (map wg_tile (groups g))))"
    by (simp add: drawn_tiles_def)
  also have "size \<dots> \<le> n" using ok by (metis length_map size_filter_mset_lesseq size_mset order_trans)
  finally have "size (filter_mset late (mset (map Some [0..counter g - 1]))) \<le> n" using ok by simp
  moreover have "size (filter_mset late (mset (map Some [0..counter g - 1]))) = length (filter (\<lambda>t. tiles \<le> t) [0..counter g - 1])"
    by (simp add: late_def filter_map comp_def flip: mset_map mset_filter)
  moreover have "length (filter (\<lambda>t. tiles \<le> t) [0..counter g - 1]) \<ge> nat (counter g - tiles)"
  proof (cases "tiles \<le> counter g")
    case True
    then have "[0..counter g - 1] = [0..tiles - 1] @ [tiles..counter g - 1]"
      using assms(2) upto_split1[of 0 tiles "counter g - 1"] by (cases "tiles = counter g") auto
    moreover have "filter (\<lambda>t. tiles \<le> t) [tiles..counter g - 1] = [tiles..counter g - 1]" by (simp add: filter_id_conv)
    ultimately show ?thesis by simp
  qed simp
  ultimately show ?thesis by linarith
qed


text \<open>Two workgroups and three tiles; the first one runs two.\<close>

definition ex_grid :: "(int \<Rightarrow> bool) \<Rightarrow> grid" where
  "ex_grid no_keys =
     run_tile no_keys 0 2 (run_tile no_keys 1 1 (run_tile no_keys 0 0 (first_tile 1 (first_tile 0 (start_grid 2)))))"

lemma ex_grid_run: "grid_run no_keys 3 2 (ex_grid no_keys)"
  unfolding ex_grid_def
  by (intro grid_run.intros) (simp_all add: start_grid_def first_tile_def run_tile_def Let_def numeral_2_eq_2)

lemma ex_grid_stored:
  "stored (ex_grid no_keys) = [(0, tile_outcome True (no_keys 0)), (1, tile_outcome True (no_keys 1)),
     (2, tile_outcome (\<not> no_keys 0) (no_keys 2))]"
  "grid_finished 3 (ex_grid no_keys)"
  by (simp_all add: ex_grid_def start_grid_def first_tile_def run_tile_def Let_def numeral_2_eq_2 grid_finished_def)


text \<open>
  The flag is not set again: a workgroup that has met a tile without keys stores nothing for the
  tiles it draws after it.
\<close>

lemma empty_tile_ends_group:
  "\<exists>g. grid_run (\<lambda>t. t = 0) 3 2 g \<and> grid_finished 3 g \<and> (2, Skipped) \<in> set (stored g)"
  using ex_grid_run[of "\<lambda>t. t = 0"] ex_grid_stored[of "\<lambda>t. t = 0"]
  by (intro exI[of _ "ex_grid (\<lambda>t. t = 0)"]) (simp add: tile_outcome_def)

text \<open>The persistent loop with a fixed stride takes its coordinates from the program ids: all its tiles are the same.\<close>

lemma static_persistent_repeats: "work_coords False x tph nh pids t = work_coords False x tph nh pids t'"
  by (simp add: work_coords_def split: prod.split)

end
