(* ===== verification/AttnForward.thy ===== *)
theory AttnForward
  imports Complex_Main AttnBlocks
begin

text \<open>
  What the forward kernel computes for one row of queries: \<open>tritonsrc/composed_tensors.py\<close>,
  \<open>fwd_kernel_inner.py\<close> and the body of \<open>attn_fwd\<close> in \<open>fwd_kernel.py\<close>. Floating point numbers are reals here,
  so nothing is said of rounding; the minus infinity of a masked score is None. Branches for int8, alibi
  and the encoded softmax, which the rules never build or which only store a copy, are left out. The
  random bits of dropout are a parameter.
\<close>

section \<open>Head dimensions in blocks\<close>

fun bit_length :: "nat \<Rightarrow> nat" where
  "bit_length n = (if n = 0 then 0 else Suc (bit_length (n div 2)))"

declare bit_length.simps [simp del]

text \<open>Three powers of two, the later ones possibly zero, or no kernel at all.\<close>

definition head_blocks :: "nat \<Rightarrow> (nat \<times> nat \<times> nat) option" where
  "head_blocks block_dmodel =
     (if block_dmodel = 0 then None
      else
        let d0 = 2 ^ (bit_length block_dmodel - 1);
            r1 = block_dmodel - d0;
            d1 = (if r1 > 0 then 2 ^ (bit_length r1 - 1) else 0);
            r2 = r1 - d1;
            d2 = (if r2 > 0 then 2 ^ (bit_length r2 - 1) else 0)
        in if r2 - d2 = 0 \<and> (d1 > 0 \<or> d2 = 0) then Some (d0, d1, d2) else None)"

definition composed_offs_1d :: "nat \<times> nat \<times> nat \<Rightarrow> nat list \<times> nat list \<times> nat list" where
  "composed_offs_1d ds = (case ds of (d0, d1, d2) \<Rightarrow> ([0..<d0], [d0..<d0 + d1], [d0 + d1..<d0 + d1 + d2]))"

text \<open>One element of a load: its row and column against the sizes.\<close>

definition composed_load ::
  "(int \<Rightarrow> nat \<Rightarrow> real) \<Rightarrow> int \<Rightarrow> nat \<Rightarrow> bool \<Rightarrow> bool \<Rightarrow> int \<Rightarrow> nat \<Rightarrow> real" where
  "composed_load x i_rows i_cols padded_row padded_col row col =
     (if (padded_row \<or> padded_col \<longrightarrow> row < i_rows) \<and> (padded_col \<longrightarrow> col < i_cols) then x row col else 0)"

definition dot_on :: "nat list \<Rightarrow> (nat \<Rightarrow> real) \<Rightarrow> (nat \<Rightarrow> real) \<Rightarrow> real" where
  "dot_on cols x y = (\<Sum>d\<leftarrow>cols. x d * y d)"

section \<open>One block of keys\<close>

record fwd_args =
  q_of :: "int \<Rightarrow> nat \<Rightarrow> real"
  k_of :: "int \<Rightarrow> nat \<Rightarrow> real"
  v_of :: "int \<Rightarrow> nat \<Rightarrow> real"
  bias_of :: "(int \<Rightarrow> int \<Rightarrow> real) option"
  keep_of :: "(int \<Rightarrow> int \<Rightarrow> bool) option"
  dropout_p :: real
  sm_scale :: real
  hdim_qk :: nat
  hdim_vo :: nat
  dmodel :: "nat \<times> nat \<times> nat"
  padded_head :: bool

definition log2_e :: real where
  "log2_e = 1.44269504089"

text \<open>A score: the mask first, then the products of the blocks of the head, then the bias.\<close>

definition block_score :: "fwd_args \<Rightarrow> int \<Rightarrow> int \<Rightarrow> bool \<Rightarrow> pass \<Rightarrow> int \<Rightarrow> int \<Rightarrow> int \<Rightarrow> int \<Rightarrow> real option" where
  "block_score a seqlen_q seqlen_k mask_on_seq_q p start_n block_n m n =
     (if pair_mask p start_n block_n seqlen_q seqlen_k m n then
        let (d0, d1, d2) = dmodel a;
            (c0, c1, c2) = composed_offs_1d (dmodel a);
            qk_scale = sm_scale a * log2_e;
            q = composed_load (q_of a) seqlen_q (hdim_qk a) mask_on_seq_q (padded_head a) m;
            k = composed_load (k_of a) seqlen_k (hdim_qk a) (p_masked p) (padded_head a) n;
            qk = 0 + qk_scale * dot_on c0 q k;
            qk = (if d1 > 0 then qk + qk_scale * dot_on c1 q k else qk);
            qk = (if d2 > 0 then qk + qk_scale * dot_on c2 q k else qk)
        in Some (case bias_of a of
                   None \<Rightarrow> qk
                 | Some b \<Rightarrow> qk + (if p_masked p \<longrightarrow> m < seqlen_q \<and> n < seqlen_k then b m n else 0) * log2_e)
      else None)"

record row_state =
  acc :: "nat \<Rightarrow> real"
  row_sum :: real
  row_max :: real

definition max_score :: "real \<Rightarrow> real option list \<Rightarrow> real" where
  "max_score m qk = fold (\<lambda>s m. case s of None \<Rightarrow> m | Some x \<Rightarrow> max m x) qk m"

definition exp2_score :: "real \<Rightarrow> real option \<Rightarrow> real" where
  "exp2_score m s = (case s of None \<Rightarrow> 0 | Some x \<Rightarrow> 2 powr (x - m))"

definition inner_block ::
  "fwd_args \<Rightarrow> int \<Rightarrow> int \<Rightarrow> bool \<Rightarrow> int \<Rightarrow> int \<Rightarrow> pass \<Rightarrow> int \<Rightarrow> row_state \<Rightarrow> row_state" where
  "inner_block a seqlen_q seqlen_k mask_on_seq_q block_n m p b s =
     (let start_n = i32 (b * block_n);
          ns = map (\<lambda>j. i32 (start_n + j)) [0..block_n - 1];
          qk = map (block_score a seqlen_q seqlen_k mask_on_seq_q p start_n block_n m) ns;
          m_ij = max_score (row_max s) qk;
          ps = map (exp2_score m_ij) qk;
          l_ij = sum_list ps;
          ps = (case keep_of a of None \<Rightarrow> ps | Some keep \<Rightarrow> map2 (\<lambda>n x. if keep m n then x else 0) ns ps);
          alpha = 2 powr (row_max s - m_ij);
          v = composed_load (v_of a) seqlen_k (hdim_vo a) (p_masked p) (padded_head a)
      in \<lparr>acc = (\<lambda>d. acc s d * alpha + (\<Sum>(n, x)\<leftarrow>zip ns ps. x * v n d)),
          row_sum = row_sum s * alpha + l_ij, row_max = m_ij\<rparr>)"

definition inner_pass ::
  "fwd_args \<Rightarrow> int \<Rightarrow> int \<Rightarrow> bool \<Rightarrow> int \<Rightarrow> int \<Rightarrow> pass \<Rightarrow> row_state \<Rightarrow> row_state" where
  "inner_pass a seqlen_q seqlen_k mask_on_seq_q block_n m p s =
     fold (inner_block a seqlen_q seqlen_k mask_on_seq_q block_n m p) (p_blocks p) s"

section \<open>One row\<close>

definition first_max :: real where
  "first_max = - 340282000000000000000000000000000000000"

definition first_row :: row_state where
  "first_row = \<lparr>acc = (\<lambda>d. 0), row_sum = 1, row_max = first_max\<rparr>"

text \<open>The element of the block that holds a column; the boundary moves with the block.\<close>

definition composed_casual_mask :: "nat \<times> nat \<times> nat \<Rightarrow> int \<Rightarrow> int \<Rightarrow> (nat \<Rightarrow> real) \<Rightarrow> nat \<Rightarrow> real" where
  "composed_casual_mask ds causal_start_idx m x d =
     (case ds of (d0, d1, d2) \<Rightarrow>
        let boundary = (if d < d0 then causal_start_idx
                        else if d < d0 + d1 then causal_start_idx + int d0
                        else causal_start_idx + int d0 + int d1)
        in if m \<ge> boundary then x d else 0)"

text \<open>The masks of a store: the elements of a row that are written.\<close>

definition composed_store :: "nat \<times> nat \<times> nat \<Rightarrow> int \<Rightarrow> nat \<Rightarrow> int \<Rightarrow> (nat \<Rightarrow> real) \<Rightarrow> nat \<Rightarrow> real option" where
  "composed_store ds o_rows o_cols m x d =
     (case ds of (d0, d1, d2) \<Rightarrow> if d < d0 + d1 + d2 \<and> m < o_rows \<and> d < o_cols then Some (x d) else None)"

text \<open>What the tile stores in a row: the output and the log-sum-exp, None being infinity.\<close>

definition attn_fwd_row ::
  "fwd_args \<Rightarrow> int \<Rightarrow> int \<Rightarrow> int \<Rightarrow> int \<Rightarrow> int \<Rightarrow> int \<Rightarrow> int \<Rightarrow> int \<Rightarrow> int \<Rightarrow> (nat \<Rightarrow> real option) \<times> real option" where
  "attn_fwd_row a causal_type left_arg right_arg start_m seqlen_q seqlen_k block_m block_n m =
     (let (d0, d1, d2) = dmodel a;
          mask_on_seq_q = (i32 (start_m + block_m) > seqlen_q);
          passes = attn_fwd_passes causal_type left_arg right_arg start_m seqlen_q seqlen_k block_m block_n
      in if causal_type \<noteq> 0 \<and> passes = [] then
           (composed_store (dmodel a) seqlen_q (d0 + d1 + d2) m (\<lambda>d. 0), None)
         else
           let s = fold (inner_pass a seqlen_q seqlen_k mask_on_seq_q block_n m) passes first_row;
               l_recip = 1 / row_sum s;
               l_recip = (case keep_of a of None \<Rightarrow> l_recip | Some _ \<Rightarrow> l_recip * (1 / (1 - dropout_p a)));
               out = (\<lambda>d. acc s d * l_recip);
               end_m = start_m + block_m;
               causal_start_idx = (if causal_type = 2 then seqlen_q - seqlen_k else 0);
               out = (if causal_type \<noteq> 0 \<and> causal_start_idx > start_m \<and> causal_start_idx < end_m
                      then composed_casual_mask (dmodel a) causal_start_idx m out else out);
               logsumexp = (row_max s + log 2 (row_sum s)) * 0.6931471824645996
           in (composed_store (dmodel a) seqlen_q (hdim_vo a) m out, Some logsumexp))"

text \<open>The rows of the log-sum-exp a tile writes: those of the longest sequence when it returns early.\<close>

definition lse_stored :: "bool \<Rightarrow> int \<Rightarrow> int \<Rightarrow> int \<Rightarrow> int \<Rightarrow> int \<Rightarrow> bool" where
  "lse_stored early max_seqlen_q seqlen_q start_m block_m m \<longleftrightarrow>
     (if early then m < max_seqlen_q
      else let overflow_size = start_m + block_m - seqlen_q
           in overflow_size > 0 \<longrightarrow> m - start_m < block_m - overflow_size)"

section \<open>Scores\<close>

lemma bit_length_le: "0 < n \<Longrightarrow> 2 ^ (bit_length n - 1) \<le> n"
proof (induction n rule: bit_length.induct)
  case (1 n)
  show ?case
  proof (cases "n = 1")
    case True
    then show ?thesis by (simp add: bit_length.simps)
  next
    case False
    then have "2 ^ (bit_length (n div 2) - 1) \<le> n div 2" "bit_length (n div 2) > 0" using 1 by (auto simp: bit_length.simps[of "n div 2"])
    then have "2 ^ bit_length (n div 2) \<le> n" by (cases "bit_length (n div 2)") auto
    then show ?thesis using 1(2) by (simp add: bit_length.simps[of n])
  qed
qed

lemma head_blocks_sum: "head_blocks n = Some (d0, d1, d2) \<Longrightarrow> d0 + d1 + d2 = n"
  using bit_length_le[of n] bit_length_le[of "n - d0"] bit_length_le[of "n - d0 - d1"]
  by (auto simp: head_blocks_def Let_def split: if_splits)

text \<open>Arguments the launcher gives: a head of the sizes of the kernel, smaller ones only if it is padded.\<close>

definition fwd_valid :: "nat \<Rightarrow> fwd_args \<Rightarrow> bool" where
  "fwd_valid block_dmodel a \<longleftrightarrow>
     head_blocks block_dmodel = Some (dmodel a) \<and> hdim_qk a \<le> block_dmodel \<and> hdim_vo a \<le> block_dmodel
     \<and> (\<not> padded_head a \<longrightarrow> hdim_qk a = block_dmodel \<and> hdim_vo a = block_dmodel)"

definition score :: "fwd_args \<Rightarrow> int \<Rightarrow> int \<Rightarrow> real" where
  "score a m n =
     sm_scale a * 1.44269504089 * (\<Sum>d<hdim_qk a. q_of a m d * k_of a n d)
     + (case bias_of a of None \<Rightarrow> 0 | Some b \<Rightarrow> b m n * 1.44269504089)"

lemma dot_blocks:
  assumes "c0 = [0..<d0]" "c1 = [d0..<d0 + d1]" "c2 = [d0 + d1..<d0 + d1 + d2]"
  shows "dot_on c0 x y + dot_on c1 x y + dot_on c2 x y = (\<Sum>d<d0 + d1 + d2. x d * y d)"
proof -
  have "[0..<d0 + d1 + d2] = c0 @ c1 @ c2" unfolding assms by (metis append.assoc le_add1 le_add2 upt_add_eq_append zero_le)
  then have "(\<Sum>d\<leftarrow>[0..<d0 + d1 + d2]. x d * y d) = dot_on c0 x y + dot_on c1 x y + dot_on c2 x y" by (simp add: dot_on_def)
  then show ?thesis by (simp add: interv_sum_list_conv_sum_set_nat atLeast0LessThan)
qed

lemma block_score_eq:
  assumes v: "fwd_valid dm a" and m: "m < sq" "n < sk"
  shows "block_score a sq sk on_q p start_n bn m n = (if pair_mask p start_n bn sq sk m n then Some (score a m n) else None)"
proof -
  obtain d0 d1 d2 where d: "dmodel a = (d0, d1, d2)" by (metis prod_cases3)
  have sum: "d0 + d1 + d2 = dm" using v head_blocks_sum by (simp add: fwd_valid_def d)
  let ?q = "composed_load (q_of a) sq (hdim_qk a) on_q (padded_head a) m"
  let ?k = "composed_load (k_of a) sk (hdim_qk a) (p_masked p) (padded_head a) n"
  have "(\<Sum>d<dm. ?q d * ?k d) = (\<Sum>d<hdim_qk a. q_of a m d * k_of a n d)"
  proof (cases "padded_head a")
    case True
    have "(\<Sum>d<dm. ?q d * ?k d) = (\<Sum>d<dm. if d < hdim_qk a then q_of a m d * k_of a n d else 0)"
      using m True by (intro sum.cong) (auto simp: composed_load_def)
    also have "\<dots> = (\<Sum>d\<in>{..<dm} \<inter> {d. d < hdim_qk a}. q_of a m d * k_of a n d)" by (simp add: sum.If_cases)
    also have "{..<dm} \<inter> {d. d < hdim_qk a} = {..<hdim_qk a}" using v by (auto simp: fwd_valid_def)
    finally show ?thesis .
  next
    case False
    then show ?thesis using v m by (auto simp: composed_load_def fwd_valid_def)
  qed
  moreover have "dot_on [0..<d0] ?q ?k + dot_on [d0..<d0 + d1] ?q ?k + dot_on [d0 + d1..<d0 + d1 + d2] ?q ?k = (\<Sum>d<dm. ?q d * ?k d)"
    using dot_blocks[OF refl refl refl, of d0 ?q ?k d1 d2] unfolding sum .
  moreover have "dot_on [] x y = 0" for x y by (simp add: dot_on_def)
  ultimately show ?thesis
    using m unfolding block_score_def d composed_offs_1d_def prod.case Let_def
    by (auto simp: score_def log2_e_def algebra_simps split: option.split simp flip: distrib_left)
qed

section \<open>The running sums\<close>

text \<open>The sums over a list of keys, in powers of two that no maximum scales.\<close>

definition weight :: "fwd_args \<Rightarrow> int \<Rightarrow> int \<Rightarrow> real" where
  "weight a m n = 2 powr score a m n"

definition kept :: "fwd_args \<Rightarrow> int \<Rightarrow> int \<Rightarrow> bool" where
  "kept a m n \<longleftrightarrow> (case keep_of a of None \<Rightarrow> True | Some keep \<Rightarrow> keep m n)"

definition row_ok :: "fwd_args \<Rightarrow> int \<Rightarrow> int list \<Rightarrow> row_state \<Rightarrow> bool" where
  "row_ok a m ks s \<longleftrightarrow>
     row_sum s * 2 powr row_max s = 2 powr first_max + (\<Sum>n\<leftarrow>ks. weight a m n)
     \<and> (\<forall>d<hdim_vo a. acc s d * 2 powr row_max s = (\<Sum>n\<leftarrow>ks. if kept a m n then weight a m n * v_of a n d else 0))"

lemma exp2_weight: "exp2_score M (Some (score a m n)) * 2 powr M = weight a m n"
  by (simp add: exp2_score_def weight_def flip: powr_add)

lemma sum_scores:
  assumes "\<forall>n\<in>set ns. qk n = (if ok n then Some (score a m n) else None)"
  shows "(\<Sum>n\<leftarrow>ns. exp2_score M (qk n)) * 2 powr M = (\<Sum>n\<leftarrow>filter ok ns. weight a m n)"
  using assms
proof (induction ns)
  case (Cons n ns)
  have "exp2_score M (qk n) * 2 powr M = (if ok n then weight a m n else 0)"
    using Cons.prems exp2_weight[of M a m n] by (auto simp: exp2_score_def)
  then show ?case using Cons by (simp add: distrib_right)
qed simp

lemma sum_values:
  assumes "\<forall>n\<in>set ns. qk n = (if ok n then Some (score a m n) else None) \<and> (ok n \<longrightarrow> v n = w n)"
  shows "(\<Sum>n\<leftarrow>ns. (if kept a m n then exp2_score M (qk n) else 0) * v n) * 2 powr M
    = (\<Sum>n\<leftarrow>filter ok ns. if kept a m n then weight a m n * w n else 0)"
  using assms
proof (induction ns)
  case (Cons n ns)
  have "(if kept a m n then exp2_score M (qk n) else 0) * v n * 2 powr M
      = (if ok n then if kept a m n then weight a m n * w n else 0 else 0)"
    using Cons.prems exp2_weight[of M a m n] by (auto simp: algebra_simps exp2_score_def)
  then show ?case using Cons by (simp add: distrib_right)
qed simp

lemma block_row_ok:
  assumes v: "fwd_valid dm a" and m: "m < sq" and s: "row_ok a m ks s"
    and ok: "\<forall>n\<in>set (map (\<lambda>j. i32 (i32 (b * bn) + j)) [0..bn - 1]). pair_mask p (i32 (b * bn)) bn sq sk m n \<longrightarrow> n < sk"
  shows "row_ok a m (ks @ filter (pair_mask p (i32 (b * bn)) bn sq sk m) (map (\<lambda>j. i32 (i32 (b * bn) + j)) [0..bn - 1]))
           (inner_block a sq sk on_q bn m p b s)"
proof -
  define start where "start = i32 (b * bn)"
  define ns where "ns = map (\<lambda>j. i32 (start + j)) [0..bn - 1]"
  define mask where "mask = pair_mask p start bn sq sk m"
  define qk where "qk = block_score a sq sk on_q p start bn m"
  define M where "M = max_score (row_max s) (map qk ns)"
  define vs where "vs = composed_load (v_of a) sk (hdim_vo a) (p_masked p) (padded_head a)"
  have ok': "\<forall>n\<in>set ns. mask n \<longrightarrow> n < sk" using ok by (simp only: ns_def start_def mask_def)
  have q: "qk n = (if mask n then Some (score a m n) else None)" if "n \<in> set ns" for n
  proof (cases "mask n")
    case True
    then have "n < sk" using ok' that by blast
    then show ?thesis using block_score_eq[OF v m] by (simp add: qk_def mask_def)
  next
    case False
    then show ?thesis by (simp add: qk_def mask_def block_score_def)
  qed
  have vn: "mask n \<longrightarrow> vs n d = v_of a n d" if "n \<in> set ns" "d < hdim_vo a" for n d
    using ok' that by (auto simp: vs_def composed_load_def)
  have blk: "inner_block a sq sk on_q bn m p b s
    = \<lparr>acc = (\<lambda>d. acc s d * 2 powr (row_max s - M) + (\<Sum>n\<leftarrow>ns. (if kept a m n then exp2_score M (qk n) else 0) * vs n d)),
       row_sum = row_sum s * 2 powr (row_max s - M) + (\<Sum>n\<leftarrow>ns. exp2_score M (qk n)), row_max = M\<rparr>"
  proof -
    have "(\<Sum>(n, x)\<leftarrow>zip ns (map (exp2_score M) (map qk ns)). x * vs n d) = (\<Sum>n\<leftarrow>ns. exp2_score M (qk n) * vs n d)" for d
      by (induction ns) simp_all
    moreover have "(\<Sum>(n, x)\<leftarrow>zip ns (map2 (\<lambda>n x. if keep m n then x else 0) ns (map (exp2_score M) (map qk ns))). x * vs n d)
        = (\<Sum>n\<leftarrow>ns. (if keep m n then exp2_score M (qk n) else 0) * vs n d)" for d keep
      by (induction ns) simp_all
    ultimately show ?thesis
      unfolding inner_block_def Let_def start_def[symmetric] ns_def[symmetric] qk_def[symmetric] M_def[symmetric] vs_def[symmetric]
      by (cases "keep_of a") (simp_all add: kept_def comp_def)
  qed
  have scale: "x * 2 powr (row_max s - M) * 2 powr M = x * 2 powr row_max s" for x by (simp flip: powr_add)
  have "row_ok a m (ks @ filter mask ns) (inner_block a sq sk on_q bn m p b s)"
    using s sum_scores[of ns qk mask a m M] q sum_values[of ns qk mask a m "\<lambda>n. vs n _" "\<lambda>n. v_of a n _" M] vn
    unfolding row_ok_def blk by (auto simp: distrib_right scale)
  then show ?thesis by (simp add: ns_def start_def mask_def)
qed

lemma pass_row_ok:
  assumes v: "fwd_valid dm a" and m: "m < sq" and s: "row_ok a m ks s" and ok: "\<forall>n\<in>set (pass_keys bn sq sk m p). n < sk"
  shows "row_ok a m (ks @ pass_keys bn sq sk m p) (inner_pass a sq sk on_q bn m p s)"
proof -
  define keys where "keys = (\<lambda>b. filter (pair_mask p (i32 (b * bn)) bn sq sk m) (map (\<lambda>j. i32 (i32 (b * bn) + j)) [0..bn - 1]))"
  have "row_ok a m (ks @ concat (map keys bs)) (fold (inner_block a sq sk on_q bn m p) bs s)"
    if "row_ok a m ks s" "\<forall>n\<in>set (concat (map keys bs)). n < sk" for bs ks s
    using that
  proof (induction bs arbitrary: ks s)
    case (Cons b bs)
    have "\<forall>n\<in>set (keys b). n < sk" using Cons.prems(2) by simp
    then have "row_ok a m (ks @ keys b) (inner_block a sq sk on_q bn m p b s)"
      unfolding keys_def by (intro block_row_ok[OF v m Cons.prems(1)]) (simp only: set_filter mem_Collect_eq, blast)
    then show ?case using Cons.IH[of "ks @ keys b"] Cons.prems(2) by simp
  qed simp
  then show ?thesis using s ok unfolding inner_pass_def pass_keys_def Let_def keys_def by blast
qed

lemma passes_row_ok:
  assumes v: "fwd_valid dm a" and m: "m < sq" and s: "row_ok a m ks s"
    and ok: "\<forall>n\<in>set (concat (map (pass_keys bn sq sk m) ps)). n < sk"
  shows "row_ok a m (ks @ concat (map (pass_keys bn sq sk m) ps)) (fold (inner_pass a sq sk on_q bn m) ps s)"
  using s ok
proof (induction ps arbitrary: ks s)
  case (Cons p ps)
  have "row_ok a m (ks @ pass_keys bn sq sk m p) (inner_pass a sq sk on_q bn m p s)"
    using Cons.prems by (intro pass_row_ok[OF v m]) auto
  then show ?case using Cons.IH[of "ks @ pass_keys bn sq sk m p"] Cons.prems(2) by simp
qed simp

section \<open>The output is attention\<close>

text \<open>
  The specification: the mean of the values over the keys a row may see, weighted by two to the power
  of their scores (with dropout, of the keys kept, rescaled).
\<close>

definition attention :: "fwd_args \<Rightarrow> int set \<Rightarrow> int \<Rightarrow> nat \<Rightarrow> real" where
  "attention a keys m d =
     (\<Sum>n\<in>keys. if kept a m n then weight a m n * v_of a n d else 0) / (\<Sum>n\<in>keys. weight a m n)
     * (case keep_of a of None \<Rightarrow> 1 | Some _ \<Rightarrow> 1 / (1 - dropout_p a))"

text \<open>
  What the running softmax computes: its first maximum and its first sum, which is one, leave a term
  of their own in the denominator.
\<close>

definition running_mean :: "fwd_args \<Rightarrow> int set \<Rightarrow> int \<Rightarrow> nat \<Rightarrow> real" where
  "running_mean a keys m d =
     (\<Sum>n\<in>keys. if kept a m n then weight a m n * v_of a n d else 0) / (2 powr first_max + (\<Sum>n\<in>keys. weight a m n))
     * (case keep_of a of None \<Rightarrow> 1 | Some _ \<Rightarrow> 1 / (1 - dropout_p a))"

text \<open>The term is too small to matter unless all scores of the row are about as small as the first maximum.\<close>

lemma running_mean_attention:
  assumes fin: "finite keys" and n: "n \<in> keys" "- 200000000000000000000000000000000000000 \<le> score a m n"
  shows "\<bar>running_mean a keys m d - attention a keys m d\<bar>
    \<le> 2 powr (- 100000000000000000000000000000000000000) * \<bar>attention a keys m d\<bar>"
proof -
  define W where "W = (\<Sum>n\<in>keys. weight a m n)"
  define N where "N = (\<Sum>n\<in>keys. if kept a m n then weight a m n * v_of a n d else 0)
    * (case keep_of a of None \<Rightarrow> 1 | Some _ \<Rightarrow> 1 / (1 - dropout_p a))"
  define \<epsilon> where "\<epsilon> = 2 powr first_max"
  have pos: "0 < \<epsilon>" by (simp add: \<epsilon>_def)
  have "2 powr (- 200000000000000000000000000000000000000) \<le> weight a m n"
    unfolding weight_def using n(2) by (intro powr_mono) simp_all
  also have "\<dots> \<le> W"
    unfolding W_def using n(1) by (intro member_le_sum fin) (simp_all add: weight_def)
  finally have le: "2 powr (- 200000000000000000000000000000000000000) \<le> W" .
  then have W: "0 < W" by (rule less_le_trans[rotated]) simp
  have "\<epsilon> / (\<epsilon> + W) \<le> \<epsilon> / W" using pos W by (simp add: frac_le)
  also have "\<dots> \<le> \<epsilon> / 2 powr (- 200000000000000000000000000000000000000)" using pos W le by (intro divide_left_mono) simp_all
  also have "\<dots> = 2 powr (first_max + 200000000000000000000000000000000000000)"
    unfolding \<epsilon>_def by (simp flip: powr_diff)
  also have "\<dots> \<le> 2 powr (- 100000000000000000000000000000000000000)" unfolding first_max_def by (intro powr_mono) simp_all
  finally have bound: "\<epsilon> / (\<epsilon> + W) \<le> 2 powr (- 100000000000000000000000000000000000000)" .
  have "running_mean a keys m d - attention a keys m d = - (\<epsilon> / (\<epsilon> + W)) * (N / W)"
    unfolding running_mean_def attention_def W_def[symmetric] \<epsilon>_def[symmetric]
    using pos W by (simp add: N_def field_simps)
  moreover have "N / W = attention a keys m d" by (simp add: attention_def N_def W_def)
  moreover have "\<bar>- (\<epsilon> / (\<epsilon> + W))\<bar> = \<epsilon> / (\<epsilon> + W)" using pos W by simp
  ultimately show ?thesis using bound by (simp only: abs_mult mult_right_mono abs_ge_zero)
qed

lemma attn_fwd_running_mean:
  assumes w: "parse_window ct la ra sq sk = (wl, wr)" and f: "fits wl wr start_m sq sk bm bn"
    and v: "fwd_valid dm a" and m: "start_m \<le> m" "m < start_m + bm" "m < sq" and d: "d < hdim_vo a"
    and first: "ct = 2 \<longrightarrow> d < fst (dmodel a) \<and> ra \<noteq> -2147483647"
  shows "fst (attn_fwd_row a ct la ra start_m sq sk bm bn m) d = Some (running_mean a {n. visible ct la ra sq sk m n} m d)"
proof -
  define ps where "ps = attn_fwd_passes ct la ra start_m sq sk bm bn"
  define ks where "ks = fwd_keys ct la ra start_m sq sk bm bn m"
  have keys: "distinct ks" "set ks = {n. visible ct la ra sq sk m n}" "ks = concat (map (pass_keys bn sq sk m) ps)"
    using fwd_visits[OF w f m] by (simp_all add: ks_def ps_def fwd_keys_def)
  define s where "s = fold (inner_pass a sq sk (i32 (start_m + bm) > sq) bn m) ps first_row"
  have "row_ok a m [] first_row" by (simp add: row_ok_def first_row_def)
  moreover have "\<forall>n\<in>set ks. n < sk" using keys(2) by (simp add: visible_def)
  ultimately have "row_ok a m ([] @ ks) s" unfolding s_def keys(3) by (intro passes_row_ok[OF v m(3)])
  then have sums: "row_sum s * 2 powr row_max s = 2 powr first_max + (\<Sum>n\<in>set ks. weight a m n)"
    "acc s d * 2 powr row_max s = (\<Sum>n\<in>set ks. if kept a m n then weight a m n * v_of a n d else 0)"
    using d keys(1) by (simp_all add: row_ok_def sum_list_distinct_conv_sum_set)
  have "acc s d / row_sum s = (acc s d * 2 powr row_max s) / (row_sum s * 2 powr row_max s)" by simp
  then have out: "acc s d * (1 / row_sum s) = (\<Sum>n\<in>set ks. if kept a m n then weight a m n * v_of a n d else 0)
      / (2 powr first_max + (\<Sum>n\<in>set ks. weight a m n))" unfolding sums by simp
  obtain d0 d1 d2 where dm: "dmodel a = (d0, d1, d2)" by (metis prod_cases3)
  have "d0 + d1 + d2 = dm" using v head_blocks_sum by (simp add: fwd_valid_def dm)
  then have dl: "d < d0 + d1 + d2" using d v by (simp add: fwd_valid_def)
  show ?thesis
  proof (cases "ct \<noteq> 0 \<and> ps = []")
    case True
    then have "ks = []" by (simp add: keys(3))
    then have "running_mean a {n. visible ct la ra sq sk m n} m d = 0" unfolding keys(2)[symmetric] by (simp add: running_mean_def)
    then show ?thesis using True dl m(3) by (simp add: attn_fwd_row_def Let_def dm ps_def[symmetric] composed_store_def)
  next
    case False
    let ?scaled = "\<lambda>d. acc s d * (case keep_of a of None \<Rightarrow> 1 / row_sum s | Some _ \<Rightarrow> 1 / row_sum s * (1 / (1 - dropout_p a)))"
    let ?start = "if ct = 2 then sq - sk else 0"
    have "composed_casual_mask (dmodel a) ?start m ?scaled d = ?scaled d" if "?start > start_m"
    proof (cases "m < sq - sk")
      case early: True
      have "ct = 2" using that f by (auto simp: fits_def split: if_splits)
      moreover have "wr \<le> sk - sq"
        using w \<open>ct = 2\<close> f first early m by (auto simp: parse_window_def fits_def i32_id split: if_splits)
      ultimately have "set ks = {}" using early unfolding keys(2) visible_def w by auto
      then have "ks = []" by simp
      then show ?thesis using sums(2) by (simp add: composed_casual_mask_def dm Let_def)
    next
      case False
      moreover have "0 \<le> start_m" using f by (simp add: fits_def)
      ultimately show ?thesis using first dm that by (auto simp: composed_casual_mask_def split: if_splits)
    qed
    then have "fst (attn_fwd_row a ct la ra start_m sq sk bm bn m) d = Some (?scaled d)"
      unfolding attn_fwd_row_def Let_def dm prod.case ps_def[symmetric] s_def[symmetric] if_not_P[OF False]
      using dl m(3) d by (auto simp: composed_store_def dm)
    also have "\<dots> = Some (running_mean a (set ks) m d)"
      unfolding running_mean_def out[symmetric] by (simp split: option.split)
    finally show ?thesis unfolding keys(2) .
  qed
qed

text \<open>
  C2: the forward kernel computes attention. In exact arithmetic, for every row of a tile and every
  column of the output, the kernel stores zero if the row may see no key, and otherwise the mean of the
  values of the keys in the window of the row, weighted by two to the power of their scaled scores (with
  dropout, of the keys kept, rescaled), whatever the blocks, the padding of the head, the bias and the
  order of the passes. The start of the running softmax changes the mean by less than a factor of two
  to the power of minus ten to the 38, as long as some score of the row is above -2 times ten to the 38.
  A kernel built for bottom right windows (type 2, which the generator does not build) zeroes more than it
  should in the later blocks of a head; for it the columns are those of the first block only, and its
  argument is not the mark of a top left window.
\<close>

theorem attn_fwd_attention:
  assumes w: "parse_window ct la ra sq sk = (wl, wr)" and f: "fits wl wr start_m sq sk bm bn"
    and v: "fwd_valid dm a" and m: "start_m \<le> m" "m < start_m + bm" "m < sq" and d: "d < hdim_vo a"
    and first: "ct = 2 \<longrightarrow> d < fst (dmodel a) \<and> ra \<noteq> -2147483647"
  shows "\<exists>x. fst (attn_fwd_row a ct la ra start_m sq sk bm bn m) d = Some x
    \<and> ({n. visible ct la ra sq sk m n} = {} \<longrightarrow> x = 0)
    \<and> ((\<exists>n. visible ct la ra sq sk m n \<and> - 200000000000000000000000000000000000000 \<le> score a m n) \<longrightarrow>
         \<bar>x - attention a {n. visible ct la ra sq sk m n} m d\<bar>
           \<le> 2 powr (- 100000000000000000000000000000000000000) * \<bar>attention a {n. visible ct la ra sq sk m n} m d\<bar>)"
proof -
  define keys where "keys = {n. visible ct la ra sq sk m n}"
  have fin: "finite keys" using fwd_visits[OF w f m] unfolding keys_def by (metis List.finite_set)
  have zero: "running_mean a keys m d = 0" if "keys = {}" unfolding that by (simp add: running_mean_def)
  show ?thesis
    using attn_fwd_running_mean[OF assms] zero running_mean_attention[OF fin]
    unfolding keys_def[symmetric] by (intro exI[of _ "running_mean a keys m d"]) (auto simp: keys_def)
qed

text \<open>A head of three columns in blocks of two and one, padded for the values, with a bias.\<close>

definition ex_args :: fwd_args where
  "ex_args = \<lparr>q_of = (\<lambda>m d. 1), k_of = (\<lambda>n d. of_int n), v_of = (\<lambda>n d. of_nat d), bias_of = Some (\<lambda>m n. 1), keep_of = None,
     dropout_p = 0, sm_scale = 1, hdim_qk = 3, hdim_vo = 2, dmodel = (2, 1, 0), padded_head = True\<rparr>"

lemma ex_valid: "fwd_valid 3 ex_args"
proof -
  have "head_blocks 3 = Some (2, 1, 0)" by code_simp
  then show ?thesis by (simp add: fwd_valid_def ex_args_def)
qed

lemma attn_fwd_attention_witness:
  "\<exists>x. fst (attn_fwd_row ex_args 3 3 1 4 10 9 4 4 7) 1 = Some x
    \<and> \<bar>x - attention ex_args {n. visible 3 3 1 10 9 7 n} 7 1\<bar>
        \<le> 2 powr (- 100000000000000000000000000000000000000) * \<bar>attention ex_args {n. visible 3 3 1 10 9 7 n} 7 1\<bar>"
proof -
  have "visible 3 3 1 10 9 7 5" by code_simp
  moreover have "- 200000000000000000000000000000000000000 \<le> score ex_args 7 5" by (simp add: score_def ex_args_def)
  moreover have "1 < hdim_vo ex_args" by (simp add: ex_args_def)
  ultimately show ?thesis using attn_fwd_attention[OF ex_window ex_fits(1) ex_valid, of 7 1] by auto
qed

section \<open>Where the stores go too far\<close>

text \<open>The zeros of a tile without keys fill the block of the head, also past the columns of the output.\<close>

lemma zero_store_overruns:
  assumes "attn_fwd_passes ct la ra start_m sq sk bm bn = []" "ct \<noteq> 0" "m < sq"
    and "dmodel a = (d0, d1, d2)" "hdim_vo a \<le> d" "d < d0 + d1 + d2"
  shows "fst (attn_fwd_row a ct la ra start_m sq sk bm bn m) d = Some 0"
  using assms by (simp add: attn_fwd_row_def composed_store_def)

text \<open>
  A sequence of three queries without keys, bottom right aligned, in tiles of four rows: the tile has no
  pass, and the row it writes as infinity after its three is that of the next sequence.
\<close>

lemma lse_overruns:
  "attn_fwd_passes 3 (-2147483646) (-2147483646) 0 3 0 4 4 = []" "lse_stored True 8 3 0 4 3" "\<not> lse_stored False 8 3 0 4 3"
  by (code_simp, simp_all add: lse_stored_def)

text \<open>The boundary of the rows to zero moves with the block of columns.\<close>

lemma casual_mask_moves:
  assumes "start \<le> m" "m < start + int d0" "0 < d1"
  shows "composed_casual_mask (d0, d1, d2) start m x d0 = 0"
  using assms by (simp add: composed_casual_mask_def)

end
