(* ===== verification/Spec2Isabelle.thy ===== *)
theory Spec2Isabelle
  imports Functional Framing Handlers BrokerRun BestResults Workers TaskQueue Registry KernelDesc
    TuneTable Dispatch FlashRules OfficeHours TuneDispatch FlashInputs TuningDatabase ActionTracker EntryLookup WebCommands
    QueueAdmin AttnTiles AttnForward
begin

text \<open>
  A model of the Python programs of AOTriton and the theorems that make them correct.

  AOTriton has two programs. The generator (\<open>v3python\<close>) turns the descriptions of the attention
  kernels into C++ code: it enumerates the functionals of every kernel, asks a database for the
  tuned configuration of each and prints lookup tables and the code that indexes them. The tuner
  (\<open>v3python/tune\<close>, \<open>.tune\<close>) fills that database: a PostgreSQL queue of tasks, a broker with workers
  on every node, subprocesses that run the kernels on a GPU, a program that picks the best results
  and one that exports them; a web interface manages the nodes.

  \<^bold>\<open>Conventions.\<close> A function that may raise returns \<open>pyerr + 'a\<close>, with the exception on the left; a
  dictionary is an association list in the order of insertion, updated by \<open>dset\<close>; state is a record
  and a method maps it to a new one, or is an action (\<open>act\<close>) that keeps the state when it raises.
  Python's objects are values; only the broker, whose messages are shared and mutated, has a store.
  A float is its text, or an argument where its order matters. What the sources get from elsewhere
  (the kernel, PostgreSQL, a GPU, hash functions, the printing of arrays) is an argument.

  \<^bold>\<open>Generator.\<close>
  \<^item> \<open>Prelude\<close>: results, dictionaries, strings; the lemmas the other theories share.
  \<^item> \<open>GpuTargets\<close> (\<open>gpu_targets.py\<close>): the tables of GPUs; clustering by architecture is a partition.
  \<^item> \<open>TypedChoice\<close> (\<open>base/typed_choice.py\<close>): types of parameters; the textual type descriptions are
    parsed to what they say, and the integer type guessed for a list holds its values.
  \<^item> \<open>Parameter\<close> (\<open>base/parameter.py\<close>, \<open>bind.py\<close>, \<open>conditional_value.py\<close>): template parameters,
    choices that depend on other parameters, and the numpy arithmetic (wrapping at 64 bits) of
    their Goedel numbers.
  \<^item> \<open>Functional\<close> (\<open>base/functional.py\<close>, \<open>interface.py\<close>): the functionals of an interface are numbered
    by a bijection; settling conditional values is equal to a direct evaluation and terminates when
    no two choices wait for each other (the loop is a \<open>partial_function\<close>, so that a cycle is the
    value None); argument order does not depend on the order of declaration.
  \<^item> \<open>KernelDesc\<close>, \<open>TuneTable\<close> (\<open>kernel/\<close>, \<open>autotune/\<close>, \<open>codegen/basetune.py\<close>, \<open>op/\<close>): names of kernels
    determine them; the lookup of a tuning table returns the record the rows of the dataframe give
    for the GPU and bin, and a table that is left out as trivial would have said the same.
  \<^item> \<open>Registry\<close> (\<open>utils/registry.py\<close>): offsets point at their strings in the packed string that is
    printed, equal functions are printed once.
  \<^item> \<open>Dispatch\<close> (\<open>codegen/interface.py\<close>, \<open>codegen/operator.py\<close>, \<open>template/shim.cc\<close>): the generated C++
    that computes the Goedel number of the arguments is executable data here, and running it
    reaches the table entry of the functional the arguments belong to.
  \<^item> \<open>FlashRules\<close> (\<open>rules/flash\<close>): which functionals of flash attention are disabled, and that the
    check of the tuning tables reports exactly the entries that are missing.
  \<^item> \<open>TuningDatabase\<close> (\<open>tune/pq/export_best_results.py\<close>, \<open>database_decompose.py\<close>,
    \<open>database_compose.py\<close>, \<open>database/sqlite.py\<close>): from the best results to the rows of a functional.

  \<^bold>\<open>Tuner.\<close>
  \<^item> \<open>Json\<close>, \<open>PyObj\<close>: the objects in messages, the text of the \<open>json\<close> module and their round trip.
  \<^item> \<open>Framing\<close> (\<open>tune/localq/protocol.py\<close>, \<open>buffered_socket.py\<close>): messages on a socket that
    delivers and accepts arbitrary fragments; they arrive unchanged and in order.
  \<^item> \<open>Handlers\<close> (\<open>localq/handlers.py\<close>): the handlers of the tuning steps; the fan-out of a task
    blocks the message that ends it on exactly the messages it sends.
  \<^item> \<open>Broker\<close>, \<open>BrokerInv\<close>, \<open>BrokerRun\<close> (\<open>localq/broker.py\<close>): the router with its priority queues,
    blocked messages, acknowledgements and connections. Its invariant holds in every reachable
    state; every queue answers each request with the oldest message of the highest urgency, the
    contract of a locale that the model interprets; routing terminates; a finished task is acknowledged to the reader it came from.
  \<^item> \<open>Workers\<close> (\<open>localq/generic_worker.py\<close>, \<open>gpu_worker_socket.py\<close>, \<open>cpu_worker.py\<close>,
    \<open>pg_reader_worker.py\<close>): the loop of a worker, which survives what a handler raises, and the
    reader, which has one announced task in flight (a task it loses between claim and announcement is
    a finding).
  \<^item> \<open>TaskQueue\<close> (\<open>tune/pq/queue.py\<close>, \<open>dispatcher.py\<close>, \<open>extra_uts.py\<close>, \<open>results.py\<close>): the SQL statements as
    changes of the rows; an invariant of the rows, claims of two workers are disjoint, and a claim takes
    exactly the first pending rows of its order.
  \<^item> \<open>BestResults\<close> (\<open>tune/pq/compute_best_results.py\<close>): the fastest candidate that is accurate enough;
    splitting the work in bands of task ids does not change the result.
  \<^item> \<open>QueueAdmin\<close> (\<open>tune/pq/admin.py\<close>, \<open>heartbeat.py\<close>, \<open>localq/heartbeat_main.py\<close>,
    \<open>pq/populate_most_accurate.py\<close>): heartbeats, stale tasks and the smallest errors of the tensors, where
    the incremental mode makes the same table as the full one.
  \<^item> \<open>TuneDispatch\<close> (\<open>tune/tdesc.py\<close>, \<open>flash/module.py\<close>, \<open>flash_op/module.py\<close>, \<open>dispatch_tasks.py\<close>): the
    tasks that are inserted are exactly the entries asked for that are not completed.
  \<^item> \<open>TuneProcess\<close>, \<open>TuneCommand\<close> (\<open>tune/utils.py\<close>, \<open>exaid.py\<close>, \<open>testrun.py\<close>): the pipe to the subprocess
    with the GPU and the commands on it, which are parsed back to the entry they were made of.
  \<^item> \<open>FlashInputs\<close> (\<open>tune/flash/module.py\<close>): the inputs of the tests of an entry and their sizes.
  \<^item> \<open>WorkersDb\<close>, \<open>OfficeHours\<close> (\<open>.tune/webui/tasks.py\<close>, \<open>scheduler.py\<close>): the workers, their schedules in
    a table of keys and values, which \<open>.tune/single/detect_gpu.sh\<close> writes to as well, and the timers that
    stop and start them.
  \<^item> \<open>ActionTracker\<close> (\<open>.tune/webui/action_tracker.py\<close>, \<open>routes.py\<close>): the commands the interface runs, with
    their threads as a step relation, in which the pipes may outlive the process and the threads may
    die; a command whose process has ended finishes, and the stream of its output and errors is
    complete up to the size of the buffer.
  \<^item> \<open>WebCommands\<close> (\<open>tasks.py\<close>): the scripts behind the buttons and their arguments; an action on all
    workers starts one command for each.
  \<^item> \<open>EntryLookup\<close> (\<open>.tune/webui/pytest_entry_parser.py\<close>, \<open>tasks.py\<close>): the tasks that belong to the name of
    a test or to a printed entry.

  \<^item> \<open>AttnBlocks\<close> (\<open>tritonsrc/masked_load_store.py\<close>, the kernels \<open>fwd_kernel.py\<close>, \<open>bwd_kernel_dq.py\<close>,
    \<open>bwd_kernel_dk_dv.py\<close>): windows, intervals of blocks, passes and masks; every visible pair of a query
    and a key is visited exactly once, by the forward kernel and by both kernels of gradients.
  \<^item> \<open>AttnTiles\<close> (\<open>fwd_kernel.py\<close>): program ids in 32 bits, which the remapping permutes below \<open>2^31\<close>, and the
    persistent loop, whose workgroups interleave; every tile is run once.
  \<^item> \<open>AttnForward\<close> (\<open>fwd_kernel.py\<close>, \<open>fwd_kernel_inner.py\<close>, \<open>composed_tensors.py\<close>): scores, running
    softmax and epilogue of a row; the output is attention over the visible keys, but for the vanishing
    weight that the start of the running softmax keeps.

  \<^bold>\<open>How the parts meet.\<close> The dispatcher writes rows that the reader claims (\<open>TuneDispatch\<close>, \<open>TaskQueue\<close>);
  \<open>Workers\<close> runs the handlers of \<open>Handlers\<close> over the database of \<open>TaskQueue\<close> and sends what they return
  as messages of \<open>Framing\<close>, which carry the objects of \<open>Json\<close>; \<open>routing_closed\<close> says that every
  message type a handler sends has a worker that handles it. \<open>Handlers\<close> talks to the subprocess by
  the requests of \<open>TuneProcess\<close>, whose texts are the commands of \<open>TuneCommand\<close>. What \<open>BestResults\<close>
  writes is exported by \<open>TuningDatabase\<close>, whose views are the dataframes that \<open>KernelDesc\<close> and
  \<open>TuneTable\<close> translate for the functionals of \<open>Functional\<close>; \<open>Dispatch\<close> prints the code that finds
  the tables.

  \<^bold>\<open>Bounds and fuel.\<close> The parser of JSON takes as fuel one more than the length of the text, and each
  call consumes a character before the next. \<open>forward\<close> takes the depth of the recursion; it recurses only after a
  blocked message is gone, so the number of blocked messages is enough (\<open>forward_terminates\<close>). The
  event loops of the broker, the workers and the reader are folds over the list of events that the
  kernel delivers; the loop of the office hours over the events of the timers. Goedel numbers
  are integers modulo \<open>2^64\<close>, lengths on the wire are below \<open>2^32\<close>; every other integer but those
  of the kernels is Python's.
  The scalars of the kernels are integers of 32 bits that wrap; \<open>fits\<close> bounds sequences and windows by
  \<open>2^28\<close> and blocks by \<open>2^16\<close>, which keeps every intermediate value inside. Their floats are reals.

  \<^bold>\<open>Not modelled.\<close> Rounding, pointers and strides of the Triton kernels, their int8 and alibi branches,
  the gradients that the backward kernels compute and the fused kernel, and their torch wrappers, which
  work on tensors on a GPU through packages that are not here; the same holds for
  \<open>tune/flash/kernel_calls.py\<close>, \<open>reference.py\<close> and \<open>gpu_utils.py\<close>. The argument lists and choices under \<open>rules\<close> are data for the
  generator; the templates under \<open>codegen\<close> (kernel, operator, root, affine) fill text into C++ files
  and have no result but the text. The routes of the web interface render templates; the scripts its
  commands start are shell. The command lines, shell scripts (but for the arguments of \<open>start_worker.sh\<close> and the rows that
  \<open>detect_gpu.sh\<close> writes), logging, CMake files, tests and the C++
  library, its bindings and the database archives are left out, as is \<open>pq/worker.py\<close>, which nothing
  calls and which passes its queue parameters where a connection is expected.
\<close>

end
